(* ===== verification/Prelude.thy ===== *)
theory Prelude
  imports Main "HOL-Library.Word" "HOL-Library.Monad_Syntax"
begin

text \<open>
  Shared vocabulary of the development: the machine integers of
  \<^verbatim>\<open>mlibc/include/stdtypes.h\<close>, byte strings, byte-addressed memory, and the
  generic lemmas on lists and words that the component theories use.

  Signed C integers (\<^verbatim>\<open>int32_t\<close>, \<^verbatim>\<open>pid_t\<close>, \<^verbatim>\<open>filedesc_t\<close>, ...) are kept at
  their width as words; where the source compares them as signed values the
  model reads them with \<^term>\<open>sint\<close>.  Plain \<^verbatim>\<open>char\<close> is unsigned on the target
  (\<^verbatim>\<open>arm-eabi-gcc\<close>), so a \<^verbatim>\<open>char\<close> is an 8-bit word.

  A \<^verbatim>\<open>char*\<close> argument that the code only reads is modelled by the bytes found
  from that address on, as a list; reading behind the end of the list gives
  0, which is what fresh heap memory holds.
\<close>

section \<open>Machine integers and byte strings\<close>

type_synonym u8 = "8 word"
type_synonym u16 = "16 word"
type_synonym u32 = "32 word"
type_synonym i32 = "32 word"
type_synonym pid_t = i32
type_synonym filedesc_t = i32
type_synonym cstr = "u8 list"

text \<open>The \<open>i\<close>-th byte behind a pointer.\<close>

definition char_at :: "cstr \<Rightarrow> nat \<Rightarrow> u8" where
  "char_at s i = (if i < length s then s ! i else 0)"

text \<open>The bytes of a string literal (the terminating NUL is implied by \<^term>\<open>char_at\<close>).\<close>

definition lit :: "string \<Rightarrow> cstr" where
  "lit s = map of_char s"

text \<open>The bytes in front of the first NUL.\<close>

definition cstring :: "cstr \<Rightarrow> u8 list" where
  "cstring s = takeWhile (\<lambda>c. c \<noteq> 0) s"

section \<open>Byte-addressed memory\<close>

type_synonym memory = "u32 \<Rightarrow> u8"

text \<open>A 32-bit store, little-endian as on the target.\<close>

definition store32 :: "memory \<Rightarrow> u32 \<Rightarrow> u32 \<Rightarrow> memory" where
  "store32 m a v = m(a := ucast v, a + 1 := ucast (drop_bit 8 v),
     a + 2 := ucast (drop_bit 16 v), a + 3 := ucast (drop_bit 24 v))"

definition load32 :: "memory \<Rightarrow> u32 \<Rightarrow> u32" where
  "load32 m a = ucast (m a) + push_bit 8 (ucast (m (a + 1)))
     + push_bit 16 (ucast (m (a + 2))) + push_bit 24 (ucast (m (a + 3)))"

section \<open>Collections of simplification rules\<close>

named_theorems queue_simps \<open>list-level facts about the queue operations\<close>
named_theorems disk_simps \<open>facts about sector reads and writes\<close>

section \<open>Lists\<close>

lemma char_at_less [simp]: "i < length s \<Longrightarrow> char_at s i = s ! i"
  by (simp add: char_at_def)

lemma char_at_ge [simp]: "length s \<le> i \<Longrightarrow> char_at s i = 0"
  by (simp add: char_at_def)

lemma length_cstring_le: "length (cstring s) \<le> length s"
  by (simp add: cstring_def length_takeWhile_le)

lemma zero_notin_cstring: "0 \<notin> set (cstring s)"
  by (auto simp: cstring_def dest: set_takeWhileD)

lemma cstring_id: "0 \<notin> set s \<Longrightarrow> cstring s = s"
  by (auto simp: cstring_def takeWhile_eq_all_conv)

lemma cstring_append_zero: "0 \<notin> set s \<Longrightarrow> cstring (s @ 0 # t) = s"
  by (induction s) (auto simp: cstring_def)

lemma cstring_drop: "i \<le> length (cstring s) \<Longrightarrow> cstring (drop i s) = drop i (cstring s)"
proof (induction s arbitrary: i)
  case (Cons c s)
  then show ?case by (cases i) (auto simp: cstring_def split: if_splits)
qed (simp add: cstring_def)

lemma char_at_cstring: "i < length (cstring s) \<Longrightarrow> char_at s i = cstring s ! i"
  using length_cstring_le [of s] by (simp add: cstring_def takeWhile_nth)

lemma char_at_length_cstring [simp]: "char_at s (length (cstring s)) = 0"
proof (cases "length (cstring s) < length s")
  case True
  then show ?thesis
    using nth_length_takeWhile [of "\<lambda>c. c \<noteq> 0" s] by (simp add: cstring_def)
next
  case False
  then show ?thesis by simp
qed

lemma char_at_nonzero_cstring: "i < length (cstring s) \<Longrightarrow> char_at s i \<noteq> 0"
  by (metis char_at_cstring nth_mem zero_notin_cstring)

section \<open>Words\<close>

lemma unat_u32_less: "unat (x :: u32) < 4294967296"
  using unsigned_less [of x, where ?'a = nat] by simp

lemma unat_u16_less: "unat (x :: u16) < 65536"
  using unsigned_less [of x, where ?'a = nat] by simp

lemma unat_u8_less: "unat (x :: u8) < 256"
  using unsigned_less [of x, where ?'a = nat] by simp

lemma of_nat_u32_inj:
  "i < 4294967296 \<Longrightarrow> j < 4294967296 \<Longrightarrow> (of_nat i :: u32) = of_nat j \<longleftrightarrow> i = j"
  by (simp add: word_of_nat_eq_iff take_bit_nat_eq_self)

lemma sint_word_of_int_i32:
  "- 2147483648 \<le> k \<Longrightarrow> k < 2147483648 \<Longrightarrow> sint (word_of_int k :: i32) = k"
  by (simp add: int_word_sint)

lemma sint_Suc:
  assumes "sint (x :: i32) < 2 ^ 31 - 1"
  shows "sint (x + 1) = sint x + 1"
proof -
  have "- (2 ^ 31) \<le> sint x" using sint_greater_eq [of x] by simp
  then show ?thesis using assms by (simp add: sint_word_ariths signed_take_bit_int_eq_self)
qed

lemma unat_ucast_up [simp]:
  "unat (ucast (x :: u8) :: u32) = unat x" "unat (ucast (x :: u8) :: u16) = unat x"
  "unat (ucast (y :: u16) :: u32) = unat y"
  using unat_u8_less [of x] unat_u16_less [of y]
  by (simp_all add: unsigned_ucast_eq take_bit_nat_eq_self)

section \<open>Removing from lists\<close>

lemma filter_remove_all: "p \<notin> set (filter (\<lambda>x. x \<noteq> p) xs)"
  by simp

lemma distinct_remove1_filter: "distinct xs \<Longrightarrow> remove1 x xs = filter (\<lambda>y. y \<noteq> x) xs"
  by (simp add: distinct_remove1_removeAll removeAll_filter_not_eq eq_commute)

section \<open>Updating through a pointer to the first match\<close>

text \<open>An assignment through the pointer that a search of a tail queue returned.\<close>

fun update_first :: "('a \<Rightarrow> bool) \<Rightarrow> ('a \<Rightarrow> 'a) \<Rightarrow> 'a list \<Rightarrow> 'a list" where
  "update_first P f [] = []"
| "update_first P f (x # xs) = (if P x then f x # xs else x # update_first P f xs)"

lemma update_first_append: "\<forall>y \<in> set xs. \<not> P y \<Longrightarrow> update_first P g (xs @ ys) = xs @ update_first P g ys"
  by (induction xs) auto

lemma update_first_map:
  "distinct (map g xs) \<Longrightarrow> update_first (\<lambda>x. g x = k) f xs = map (\<lambda>x. if g x = k then f x else x) xs"
proof (induction xs)
  case (Cons a xs)
  show ?case
  proof (cases "g a = k")
    case True
    with Cons.prems have "map (\<lambda>x. if g x = k then f x else x) xs = xs"
      by (intro map_idI) (auto simp: image_iff)
    with True show ?thesis by simp
  next
    case False
    with Cons show ?thesis by simp
  qed
qed simp

section \<open>Tables searched by key\<close>

text \<open>
  The process list and the list of open files are used in the same way: a record is found by its
  key and then changed through the pointer.  The locale states that use; the scheduler and
  the file calls interpret it.
\<close>

locale keyed_table =
  fixes key :: "'v \<Rightarrow> 'k" and rows :: "'s \<Rightarrow> 'v list"
    and look :: "'k \<Rightarrow> 's \<Rightarrow> 'v option" and change :: "'k \<Rightarrow> ('v \<Rightarrow> 'v) \<Rightarrow> 's \<Rightarrow> 's"
  assumes look_rows: "look k s = List.find (\<lambda>v. key v = k) (rows s)"
    and change_rows: "rows (change k g s) = update_first (\<lambda>v. key v = k) g (rows s)"
begin

lemma look_None: "look k s = None \<longleftrightarrow> k \<notin> key ` set (rows s)"
  by (auto simp: look_rows find_None_iff)

lemma look_SomeD: "look k s = Some v \<Longrightarrow> v \<in> set (rows s) \<and> key v = k"
  by (auto simp: look_rows find_Some_iff)

lemma look_mem: "distinct (map key (rows s)) \<Longrightarrow> v \<in> set (rows s) \<Longrightarrow> look (key v) s = Some v"
proof -
  assume d: "distinct (map key (rows s))" and v: "v \<in> set (rows s)"
  then obtain w where "look (key v) s = Some w" using look_None by (metis imageI option.exhaust)
  moreover from this have "w = v" using look_SomeD d v by (metis distinct_map inj_onD)
  ultimately show ?thesis by simp
qed

lemma look_change_same:
  assumes "look k s = Some v" "key (g v) = k"
  shows "look k (change k g s) = Some (g v)"
proof -
  have "List.find (\<lambda>v. key v = k) xs = Some v \<Longrightarrow>
      List.find (\<lambda>v. key v = k) (update_first (\<lambda>v. key v = k) g xs) = Some (g v)" for xs
    using assms(2) by (induction xs) (auto split: if_splits)
  then show ?thesis using assms(1) by (simp add: look_rows change_rows)
qed

lemma look_change_other:
  assumes "\<And>v. key (g v) = key v" "j \<noteq> k"
  shows "look j (change k g s) = look j s"
proof -
  have "List.find (\<lambda>v. key v = j) (update_first (\<lambda>v. key v = k) g xs) = List.find (\<lambda>v. key v = j) xs" for xs
    using assms by (induction xs) auto
  then show ?thesis by (simp add: look_rows change_rows)
qed

lemma look_append:
  assumes "rows s' = rows s @ [v]"
  shows "look k s' = (case look k s of Some w \<Rightarrow> Some w | None \<Rightarrow> if key v = k then Some v else None)"
proof -
  have "List.find P (xs @ [v]) = (case List.find P xs of Some w \<Rightarrow> Some w | None \<Rightarrow> if P v then Some v else None)" for P xs
    by (induction xs) auto
  then show ?thesis by (simp add: look_rows assms)
qed

lemma keys_change:
  assumes "\<And>v. key (g v) = key v"
  shows "map key (rows (change k g s)) = map key (rows s)"
proof -
  have "map key (update_first P g xs) = map key xs" for P xs using assms by (induction xs) auto
  then show ?thesis by (simp add: change_rows)
qed

end

end
