(* ===== verification/Tailq.thy ===== *)
theory Tailq
  imports Prelude
begin

text \<open>
  The tail queue of \<^verbatim>\<open>mlibc/include/datastructures/stdqueue.h\<close>, at the level of its
  pointers.  Elements are named by their address.  A \<^verbatim>\<open>struct type **\<close> points
  either to the head's \<^verbatim>\<open>tqh_first\<close> or to some element's \<^verbatim>\<open>tqe_next\<close>, so it is a
  \<open>slot\<close>.  The consistency checks \<^verbatim>\<open>QMD_TAILQ_CHECK_*\<close> are compiled in
  unconditionally and call \<^verbatim>\<open>panic\<close>, which never returns: an operation whose check
  fails is \<open>Inl\<close> of the panic.  \<^verbatim>\<open>TRASHIT\<close> and the trace macros are empty, since
  \<^verbatim>\<open>QUEUE_MACRO_DEBUG\<close> is not defined.

  The theory shows that a well-formed queue is a list (\<open>tailq_repr\<close>), that the
  operations act on that list as the clients expect, that no check fails on a
  well-formed queue, and that removing the current element inside
  \<^verbatim>\<open>TAILQ_FOREACH\<close> is safe.  The interface the kernel's clients rely on is the
  locale \<open>tail_queue\<close>; it is interpreted on the pointer model, and its lemmas on values
  give the view the clients have: a list of values.
\<close>

section \<open>The data structure\<close>

datatype 'a slot = HeadFirst | NextOf 'a

record 'a tailq =
  tqh_first :: "'a option"
  tqh_last :: "'a slot"
  tqe_next :: "'a \<Rightarrow> 'a option"
  tqe_prev :: "'a \<Rightarrow> 'a slot"

datatype 'a tailq_panic = Bad_head | Bad_tail | Bad_next 'a | Bad_prev 'a

text \<open>Reading and writing through a pointer to a pointer.\<close>

fun deref :: "'a tailq \<Rightarrow> 'a slot \<Rightarrow> 'a option" where
  "deref q HeadFirst = tqh_first q"
| "deref q (NextOf a) = tqe_next q a"

fun assign :: "'a tailq \<Rightarrow> 'a slot \<Rightarrow> 'a option \<Rightarrow> 'a tailq" where
  "assign q HeadFirst v = q\<lparr>tqh_first := v\<rparr>"
| "assign q (NextOf a) v = q\<lparr>tqe_next := (tqe_next q)(a := v)\<rparr>"

section \<open>The macros\<close>

definition QMD_TAILQ_CHECK_HEAD :: "'a tailq \<Rightarrow> bool" where
  "QMD_TAILQ_CHECK_HEAD q =
     (case tqh_first q of None \<Rightarrow> True | Some f \<Rightarrow> tqe_prev q f = HeadFirst)"

definition QMD_TAILQ_CHECK_TAIL :: "'a tailq \<Rightarrow> bool" where
  "QMD_TAILQ_CHECK_TAIL q = (deref q (tqh_last q) = None)"

definition QMD_TAILQ_CHECK_NEXT :: "'a tailq \<Rightarrow> 'a \<Rightarrow> bool" where
  "QMD_TAILQ_CHECK_NEXT q elm =
     (case tqe_next q elm of None \<Rightarrow> True | Some n \<Rightarrow> tqe_prev q n = NextOf elm)"

definition QMD_TAILQ_CHECK_PREV :: "'a tailq \<Rightarrow> 'a \<Rightarrow> bool" where
  "QMD_TAILQ_CHECK_PREV q elm = (deref q (tqe_prev q elm) = Some elm)"

definition TAILQ_EMPTY :: "'a tailq \<Rightarrow> bool" where
  "TAILQ_EMPTY q = (tqh_first q = None)"

definition TAILQ_FIRST :: "'a tailq \<Rightarrow> 'a option" where
  "TAILQ_FIRST q = tqh_first q"

definition TAILQ_NEXT :: "'a tailq \<Rightarrow> 'a \<Rightarrow> 'a option" where
  "TAILQ_NEXT q elm = tqe_next q elm"

definition TAILQ_INIT :: "'a tailq \<Rightarrow> 'a tailq" where
  "TAILQ_INIT q = q\<lparr>tqh_first := None, tqh_last := HeadFirst\<rparr>"

definition TAILQ_INSERT_HEAD :: "'a tailq \<Rightarrow> 'a \<Rightarrow> 'a tailq_panic + 'a tailq" where
  "TAILQ_INSERT_HEAD q elm =
     (if \<not> QMD_TAILQ_CHECK_HEAD q then Inl Bad_head
      else
        let q1 = q\<lparr>tqe_next := (tqe_next q)(elm := tqh_first q)\<rparr>;
            q2 = (case tqe_next q1 elm of
                    Some f \<Rightarrow> q1\<lparr>tqe_prev := (tqe_prev q1)(f := NextOf elm)\<rparr>
                  | None \<Rightarrow> q1\<lparr>tqh_last := NextOf elm\<rparr>);
            q3 = q2\<lparr>tqh_first := Some elm\<rparr>
        in Inr (q3\<lparr>tqe_prev := (tqe_prev q3)(elm := HeadFirst)\<rparr>))"

definition TAILQ_INSERT_TAIL :: "'a tailq \<Rightarrow> 'a \<Rightarrow> 'a tailq_panic + 'a tailq" where
  "TAILQ_INSERT_TAIL q elm =
     (if \<not> QMD_TAILQ_CHECK_TAIL q then Inl Bad_tail
      else
        let q1 = q\<lparr>tqe_next := (tqe_next q)(elm := None)\<rparr>;
            q2 = q1\<lparr>tqe_prev := (tqe_prev q1)(elm := tqh_last q1)\<rparr>;
            q3 = assign q2 (tqh_last q2) (Some elm)
        in Inr (q3\<lparr>tqh_last := NextOf elm\<rparr>))"

definition TAILQ_REMOVE :: "'a tailq \<Rightarrow> 'a \<Rightarrow> 'a tailq_panic + 'a tailq" where
  "TAILQ_REMOVE q elm =
     (if \<not> QMD_TAILQ_CHECK_NEXT q elm then Inl (Bad_next elm)
      else if \<not> QMD_TAILQ_CHECK_PREV q elm then Inl (Bad_prev elm)
      else
        let q1 = (case tqe_next q elm of
                    Some n \<Rightarrow> q\<lparr>tqe_prev := (tqe_prev q)(n := tqe_prev q elm)\<rparr>
                  | None \<Rightarrow> q\<lparr>tqh_last := tqe_prev q elm\<rparr>)
        in Inr (assign q1 (tqe_prev q1 elm) (tqe_next q1 elm)))"

text \<open>
  \<^verbatim>\<open>TAILQ_FOREACH\<close> with a body that only looks at the element: the elements in the
  order they are visited.  \<open>None\<close> is a loop that never ends.
\<close>

partial_function (option) TAILQ_FOREACH :: "'a tailq \<Rightarrow> 'a option \<Rightarrow> 'a list option" where
  "TAILQ_FOREACH q var =
     (case var of
        None \<Rightarrow> Some []
      | Some elm \<Rightarrow> do { es \<leftarrow> TAILQ_FOREACH q (tqe_next q elm); Some (elm # es) })"

text \<open>
  \<^verbatim>\<open>TAILQ_FOREACH\<close> with the body \<^verbatim>\<open>if (P) TAILQ_REMOVE\<close>, as in \<^verbatim>\<open>remove_pid\<close>: the
  next element is read from the element just removed.
\<close>

partial_function (option) foreach_remove ::
    "('a \<Rightarrow> bool) \<Rightarrow> 'a tailq \<Rightarrow> 'a option \<Rightarrow> ('a tailq_panic + 'a tailq) option" where
  "foreach_remove P q var =
     (case var of
        None \<Rightarrow> Some (Inr q)
      | Some elm \<Rightarrow>
          (case (if P elm then TAILQ_REMOVE q elm else Inr q) of
             Inl p \<Rightarrow> Some (Inl p)
           | Inr q' \<Rightarrow> foreach_remove P q' (tqe_next q' elm)))"

section \<open>Well-formed queues\<close>

text \<open>\<open>tq_seg q s xs l\<close>: following the links from slot \<open>s\<close> passes \<open>xs\<close> and ends at slot \<open>l\<close>.\<close>

fun tq_seg :: "'a tailq \<Rightarrow> 'a slot \<Rightarrow> 'a list \<Rightarrow> 'a slot \<Rightarrow> bool" where
  "tq_seg q s [] l = (l = s)"
| "tq_seg q s (x # xs) l =
     (deref q s = Some x \<and> tqe_prev q x = s \<and> tq_seg q (NextOf x) xs l)"

definition tailq_repr :: "'a tailq \<Rightarrow> 'a list \<Rightarrow> bool" where
  "tailq_repr q xs =
     (tq_seg q HeadFirst xs (tqh_last q) \<and> deref q (tqh_last q) = None \<and> distinct xs)"

lemmas tailq_check_defs =
  QMD_TAILQ_CHECK_HEAD_def QMD_TAILQ_CHECK_TAIL_def QMD_TAILQ_CHECK_NEXT_def QMD_TAILQ_CHECK_PREV_def

subsection \<open>Segments\<close>

lemma deref_assign_same [simp]: "deref (assign q s v) s = v"
  by (cases s) auto

lemma deref_assign_other [simp]: "s \<noteq> t \<Longrightarrow> deref (assign q s v) t = deref q t"
  by (cases s; cases t) auto

lemma assign_frame [simp]:
  "tqe_prev (assign q s v) = tqe_prev q" "tqh_last (assign q s v) = tqh_last q"
  by (cases s; simp)+

lemma deref_frame [simp]:
  "deref (q\<lparr>tqe_prev := f\<rparr>) s = deref q s" "deref (q\<lparr>tqh_last := l\<rparr>) s = deref q s"
  by (cases s; simp)+

lemma tqe_next_deref: "tqe_next q a = deref q (NextOf a)"
  by simp

lemma tqh_first_deref: "tqh_first q = deref q HeadFirst"
  by simp

lemma tq_seg_append: "tq_seg q s (xs @ ys) l = (\<exists>m. tq_seg q s xs m \<and> tq_seg q m ys l)"
  by (induction xs arbitrary: s) auto

lemma tq_seg_end: "tq_seg q s xs l \<Longrightarrow> l = (if xs = [] then s else NextOf (last xs))"
  by (induction xs arbitrary: s) (auto split: if_splits)

text \<open>
  A segment depends only on the slots it reads (its start and the \<^verbatim>\<open>tqe_next\<close> of all
  its elements but the last) and on the back links of its elements.
\<close>

lemma tq_seg_cong:
  assumes "tq_seg q s xs l"
    and "xs \<noteq> [] \<Longrightarrow> deref q' s = deref q s"
    and "\<And>x. x \<in> set (butlast xs) \<Longrightarrow> deref q' (NextOf x) = deref q (NextOf x)"
    and "\<And>x. x \<in> set xs \<Longrightarrow> tqe_prev q' x = tqe_prev q x"
  shows "tq_seg q' s xs l"
  using assms
proof (induction xs arbitrary: s)
  case Nil
  then show ?case by simp
next
  case (Cons x xs)
  from Cons.prems(1) have seg: "tq_seg q (NextOf x) xs l" by simp
  have nx: "deref q' (NextOf x) = deref q (NextOf x)" if "xs \<noteq> []"
    using that Cons.prems(3) [of x] by simp
  have rest: "deref q' (NextOf y) = deref q (NextOf y)" if "y \<in> set (butlast xs)" for y
    using that Cons.prems(3) [of y] by (cases xs) auto
  have "tq_seg q' (NextOf x) xs l"
    by (rule Cons.IH [OF seg nx rest]) (simp_all add: Cons.prems(4))
  with Cons.prems show ?case by simp
qed

subsection \<open>The operations on well-formed queues\<close>

lemma butlast_not_last: "distinct xs \<Longrightarrow> xs \<noteq> [] \<Longrightarrow> last xs \<notin> set (butlast xs)"
  by (metis append_butlast_last_id distinct_butlast not_distinct_conv_prefix)

lemma tq_seg_last_fresh:
  assumes "tq_seg q HeadFirst xs l" "distinct xs"
  shows "xs \<noteq> [] \<Longrightarrow> l \<noteq> HeadFirst" and "x \<in> set (butlast xs) \<Longrightarrow> l \<noteq> NextOf x"
    and "e \<notin> set xs \<Longrightarrow> l \<noteq> NextOf e"
  using tq_seg_end [OF assms(1)] assms(2) by (auto split: if_splits dest: butlast_not_last)

lemma tailq_repr_init: "tailq_repr (TAILQ_INIT q) []"
  by (simp add: tailq_repr_def TAILQ_INIT_def)

lemma tailq_repr_first:
  "tailq_repr q xs \<Longrightarrow> TAILQ_FIRST q = (case xs of [] \<Rightarrow> None | x # _ \<Rightarrow> Some x)"
  by (cases xs) (auto simp: tailq_repr_def TAILQ_FIRST_def)

lemma tailq_repr_empty: "tailq_repr q xs \<Longrightarrow> TAILQ_EMPTY q = (xs = [])"
  using tailq_repr_first [of q xs] by (cases xs) (auto simp: TAILQ_FIRST_def TAILQ_EMPTY_def)

lemma tailq_repr_insert_tail:
  assumes r: "tailq_repr q xs" and fresh: "elm \<notin> set xs"
  shows "\<exists>q'. TAILQ_INSERT_TAIL q elm = Inr q' \<and> tailq_repr q' (xs @ [elm])"
proof -
  define q2 where "q2 = q\<lparr>tqe_next := (tqe_next q)(elm := None),
    tqe_prev := (tqe_prev q)(elm := tqh_last q)\<rparr>"
  define q' where "q' = (assign q2 (tqh_last q) (Some elm))\<lparr>tqh_last := NextOf elm\<rparr>"
  have seg: "tq_seg q HeadFirst xs (tqh_last q)" and d: "distinct xs"
    and e: "deref q (tqh_last q) = None"
    using r by (auto simp: tailq_repr_def)
  note fr = tq_seg_last_fresh [OF seg d]
  have ins: "TAILQ_INSERT_TAIL q elm = Inr q'"
    using e by (simp add: TAILQ_INSERT_TAIL_def QMD_TAILQ_CHECK_TAIL_def q'_def q2_def)
  have d2: "deref q2 s = deref q s" if "s \<noteq> NextOf elm" for s
    using that by (cases s) (auto simp: q2_def)
  have seg': "tq_seg q' HeadFirst xs (tqh_last q)"
  proof (rule tq_seg_cong [OF seg])
    show "deref q' HeadFirst = deref q HeadFirst" if "xs \<noteq> []"
      using fr(1) [OF that] by (simp add: q'_def d2 del: deref.simps)
    show "deref q' (NextOf x) = deref q (NextOf x)" if "x \<in> set (butlast xs)" for x
      using fr(2) [OF that] in_set_butlastD [OF that] fresh d2 [of "NextOf x"]
      by (cases "x = elm") (simp_all add: q'_def del: deref.simps)
    show "tqe_prev q' x = tqe_prev q x" if "x \<in> set xs" for x
      using that fresh by (auto simp: q'_def q2_def)
  qed
  have "deref q' (tqh_last q) = Some elm" "tqe_prev q' elm = tqh_last q"
    by (simp_all add: q'_def q2_def)
  moreover have "deref q' (NextOf elm) = None"
    using fr(3) [OF fresh] by (simp add: q'_def q2_def tqe_next_deref del: deref.simps) (simp add: q2_def)
  ultimately have "tailq_repr q' (xs @ [elm])"
    using seg' d fresh by (auto simp: tailq_repr_def tq_seg_append q'_def)
  with ins show ?thesis by blast
qed

lemma tailq_repr_split:
  assumes "tailq_repr q (xs @ elm # ys)"
  shows "\<exists>m. tq_seg q HeadFirst xs m \<and> deref q m = Some elm \<and> tqe_prev q elm = m
     \<and> tq_seg q (NextOf elm) ys (tqh_last q) \<and> deref q (tqh_last q) = None
     \<and> m \<noteq> NextOf elm \<and> (\<forall>y \<in> set ys. m \<noteq> NextOf y)"
proof -
  from assms obtain m where m: "tq_seg q HeadFirst xs m" "deref q m = Some elm" "tqe_prev q elm = m"
     "tq_seg q (NextOf elm) ys (tqh_last q)" "deref q (tqh_last q) = None"
    by (auto simp: tailq_repr_def tq_seg_append)
  have d: "distinct (xs @ elm # ys)" using assms by (simp add: tailq_repr_def)
  then show ?thesis using m tq_seg_last_fresh(3) [OF m(1)] by auto
qed

lemma tailq_remove_checks:
  assumes "tailq_repr q (xs @ elm # ys)"
  shows "QMD_TAILQ_CHECK_NEXT q elm" "QMD_TAILQ_CHECK_PREV q elm"
  using tailq_repr_split [OF assms] tq_seg_end [of q "NextOf elm" ys]
  by (cases ys; auto simp: tailq_check_defs)+

lemma tailq_repr_remove_split:
  assumes r: "tailq_repr q (xs @ elm # ys)"
  shows "\<exists>q'. TAILQ_REMOVE q elm = Inr q' \<and> tailq_repr q' (xs @ ys) \<and> tqe_next q' elm = tqe_next q elm"
proof -
  obtain m where m: "tq_seg q HeadFirst xs m" "deref q m = Some elm" "tqe_prev q elm = m"
     "tq_seg q (NextOf elm) ys (tqh_last q)" "deref q (tqh_last q) = None"
     "m \<noteq> NextOf elm" "\<forall>y \<in> set ys. m \<noteq> NextOf y"
    using tailq_repr_split [OF r] by blast
  have d: "distinct (xs @ elm # ys)" using r by (simp add: tailq_repr_def)
  define q1 where "q1 = (case tqe_next q elm of
      Some n \<Rightarrow> q\<lparr>tqe_prev := (tqe_prev q)(n := m)\<rparr> | None \<Rightarrow> q\<lparr>tqh_last := m\<rparr>)"
  define q' where "q' = assign q1 m (tqe_next q elm)"
  have dq1: "deref q1 s = deref q s" for s
    by (simp add: q1_def split: option.split)
  have nx: "tqe_next q elm = (case ys of [] \<Rightarrow> None | y # _ \<Rightarrow> Some y)"
    using m(4,5) by (cases ys) auto
  have pq1: "tqe_prev q1 x = (case ys of y # _ \<Rightarrow> (if x = y then m else tqe_prev q x) | [] \<Rightarrow> tqe_prev q x)" for x
    by (cases ys) (auto simp: q1_def nx)
  have "tqe_next q1 elm = tqe_next q elm" "tqe_prev q1 elm = m"
    using m(3) d by (auto simp: q1_def pq1 nx split: list.split)
  then have rem: "TAILQ_REMOVE q elm = Inr q'"
    using tailq_remove_checks [OF r] unfolding TAILQ_REMOVE_def q'_def Let_def m(3) q1_def [symmetric]
    by simp
  have segx: "tq_seg q' HeadFirst xs m"
  proof (rule tq_seg_cong [OF m(1)])
    have dx: "distinct xs" using d by simp
    note fr = tq_seg_last_fresh [OF m(1) dx]
    show "deref q' HeadFirst = deref q HeadFirst" if "xs \<noteq> []"
      using fr(1) [OF that] by (simp add: q'_def dq1 del: deref.simps)
    show "deref q' (NextOf x) = deref q (NextOf x)" if "x \<in> set (butlast xs)" for x
      using fr(2) [OF that] by (simp add: q'_def dq1 del: deref.simps)
    show "tqe_prev q' x = tqe_prev q x" if "x \<in> set xs" for x
      using that d by (auto simp: q'_def pq1 split: list.split)
  qed
  have next_kept: "tqe_next q' elm = tqe_next q elm"
    using m(6) dq1 [of "NextOf elm"] by (simp add: q'_def tqe_next_deref del: deref.simps)
  have "tailq_repr q' (xs @ ys)"
  proof (cases ys)
    case Nil
    then have "tqh_last q' = m" by (simp add: q'_def q1_def nx)
    then show ?thesis using segx d Nil by (simp add: tailq_repr_def q'_def nx)
  next
    case (Cons y zs)
    from m(4) Cons have segz: "tq_seg q (NextOf y) zs (tqh_last q)" by simp
    have "tq_seg q' (NextOf y) zs (tqh_last q)"
    proof (rule tq_seg_cong [OF segz])
      show "deref q' (NextOf y) = deref q (NextOf y)"
        using m(7) Cons by (simp add: q'_def dq1 del: deref.simps)
      show "deref q' (NextOf x) = deref q (NextOf x)" if "x \<in> set (butlast zs)" for x
        using m(7) Cons in_set_butlastD [OF that] by (simp add: q'_def dq1 del: deref.simps)
      show "tqe_prev q' x = tqe_prev q x" if "x \<in> set zs" for x
        using that d Cons by (auto simp: q'_def pq1)
    qed
    moreover have "tqh_last q' = tqh_last q" "deref q' m = Some y" "tqe_prev q' y = m"
      using Cons by (simp_all add: q'_def q1_def nx)
    moreover have "deref q' (tqh_last q) = None"
      using m(5,7) Cons tq_seg_end [OF segz]
      by (simp add: q'_def dq1 del: deref.simps split: if_splits)
    ultimately show ?thesis
      using segx d Cons by (auto simp: tailq_repr_def tq_seg_append)
  qed
  with rem next_kept show ?thesis by blast
qed
lemma tailq_repr_insert_head:
  assumes r: "tailq_repr q xs" and fresh: "elm \<notin> set xs"
  shows "\<exists>q'. TAILQ_INSERT_HEAD q elm = Inr q' \<and> tailq_repr q' (elm # xs)"
proof (cases xs)
  case Nil
  with r show ?thesis
    by (auto simp: tailq_repr_def TAILQ_INSERT_HEAD_def tailq_check_defs)
next
  case (Cons x ys)
  define q' where "q' = q\<lparr>tqe_next := (tqe_next q)(elm := Some x), tqh_first := Some elm,
    tqe_prev := (tqe_prev q)(x := NextOf elm, elm := HeadFirst)\<rparr>"
  have seg: "tqh_first q = Some x" "tqe_prev q x = HeadFirst" "tq_seg q (NextOf x) ys (tqh_last q)"
    and d: "distinct (x # ys)" and e: "deref q (tqh_last q) = None"
    using r Cons by (auto simp: tailq_repr_def)
  have ins: "TAILQ_INSERT_HEAD q elm = Inr q'"
    using seg by (simp add: TAILQ_INSERT_HEAD_def tailq_check_defs q'_def Let_def fun_upd_twist)
  have "tq_seg q' (NextOf x) ys (tqh_last q)"
    by (rule tq_seg_cong [OF seg(3)])
      (use fresh d Cons in \<open>auto simp: q'_def dest: in_set_butlastD\<close>)
  moreover have "deref q' (tqh_last q) = None"
    using e tq_seg_end [OF seg(3)] fresh Cons by (auto simp: q'_def split: if_splits)
  ultimately have "tailq_repr q' (elm # xs)"
    using fresh d Cons by (auto simp: tailq_repr_def q'_def)
  with ins show ?thesis by blast
qed

lemma tailq_foreach_seg:
  "tq_seg q s xs l \<Longrightarrow> deref q l = None \<Longrightarrow> TAILQ_FOREACH q (deref q s) = Some xs"
proof (induction xs arbitrary: s)
  case Nil
  then show ?case by (simp add: TAILQ_FOREACH.simps)
next
  case (Cons x xs)
  from Cons.prems have "TAILQ_FOREACH q (deref q (NextOf x)) = Some xs"
    by (intro Cons.IH) auto
  with Cons.prems show ?case by (simp add: TAILQ_FOREACH.simps [of q "Some x"])
qed

lemma tailq_repr_foreach: "tailq_repr q xs \<Longrightarrow> TAILQ_FOREACH q (TAILQ_FIRST q) = Some xs"
  using tailq_foreach_seg [of q HeadFirst xs "tqh_last q"] by (simp add: tailq_repr_def TAILQ_FIRST_def)

lemma foreach_remove_suffix:
  "tailq_repr q (xs @ ys) \<Longrightarrow> v = (case ys of [] \<Rightarrow> None | y # _ \<Rightarrow> Some y) \<Longrightarrow>
   \<exists>q'. foreach_remove P q v = Some (Inr q') \<and> tailq_repr q' (xs @ filter (\<lambda>x. \<not> P x) ys)"
proof (induction ys arbitrary: xs q v)
  case Nil
  then show ?case by (simp add: foreach_remove.simps)
next
  case (Cons y ys)
  have v: "v = Some y" using Cons.prems(2) by simp
  have nx: "tqe_next q y = (case ys of [] \<Rightarrow> None | z # _ \<Rightarrow> Some z)"
    using tailq_repr_split [OF Cons.prems(1)] by (cases ys) auto
  show ?case
  proof (cases "P y")
    case True
    obtain q1 where q1: "TAILQ_REMOVE q y = Inr q1" "tailq_repr q1 (xs @ ys)" "tqe_next q1 y = tqe_next q y"
      using tailq_repr_remove_split [OF Cons.prems(1)] by blast
    from Cons.IH [OF q1(2) nx] q1 True v show ?thesis
      by (simp add: foreach_remove.simps [of P q "Some y"])
  next
    case False
    have "tailq_repr q ((xs @ [y]) @ ys)" using Cons.prems(1) by simp
    from Cons.IH [OF this nx] False v show ?thesis
      by (simp add: foreach_remove.simps [of P q "Some y"])
  qed
qed

lemma tailq_repr_foreach_remove:
  assumes "tailq_repr q xs"
  shows "\<exists>q'. foreach_remove P q (TAILQ_FIRST q) = Some (Inr q') \<and> tailq_repr q' (filter (\<lambda>x. \<not> P x) xs)"
  using foreach_remove_suffix [of q "[]" xs "TAILQ_FIRST q" P] assms tailq_repr_first [OF assms]
  by simp

lemma tailq_repr_remove:
  assumes r: "tailq_repr q xs" and e: "elm \<in> set xs"
  shows "\<exists>q'. TAILQ_REMOVE q elm = Inr q' \<and> tailq_repr q' (remove1 elm xs)"
proof -
  obtain ys zs where xs: "xs = ys @ elm # zs" and n: "elm \<notin> set ys"
    using e by (meson split_list_first)
  then have "remove1 elm xs = ys @ zs" by (simp add: remove1_append)
  with tailq_repr_remove_split [of q ys elm zs] r xs show ?thesis by auto
qed

section \<open>The interface of the clients\<close>

text \<open>
  What the stream buffers, the message queue and the scheduler rely on.  \<open>repr\<close>
  relates a queue to the list of its nodes; \<open>visit\<close> is a complete
  \<^verbatim>\<open>TAILQ_FOREACH\<close>, \<open>remove_where\<close> one whose body removes the current node.
\<close>

locale tail_queue =
  fixes repr :: "'q \<Rightarrow> 'e list \<Rightarrow> bool"
    and init :: "'q \<Rightarrow> 'q"
    and first :: "'q \<Rightarrow> 'e option"
    and insert_tail :: "'q \<Rightarrow> 'e \<Rightarrow> 'p + 'q"
    and remove :: "'q \<Rightarrow> 'e \<Rightarrow> 'p + 'q"
    and visit :: "'q \<Rightarrow> 'e list option"
    and remove_where :: "('e \<Rightarrow> bool) \<Rightarrow> 'q \<Rightarrow> ('p + 'q) option"
  assumes repr_distinct: "repr q xs \<Longrightarrow> distinct xs"
    and repr_init: "repr (init q) []"
    and repr_first: "repr q xs \<Longrightarrow> first q = (case xs of [] \<Rightarrow> None | x # _ \<Rightarrow> Some x)"
    and repr_insert_tail:
      "repr q xs \<Longrightarrow> e \<notin> set xs \<Longrightarrow> \<exists>q'. insert_tail q e = Inr q' \<and> repr q' (xs @ [e])"
    and repr_remove:
      "repr q xs \<Longrightarrow> e \<in> set xs \<Longrightarrow> \<exists>q'. remove q e = Inr q' \<and> repr q' (remove1 e xs)"
    and repr_visit: "repr q xs \<Longrightarrow> visit q = Some xs"
    and repr_remove_where:
      "repr q xs \<Longrightarrow>
        \<exists>q'. remove_where P q = Some (Inr q') \<and> repr q' (filter (\<lambda>x. \<not> P x) xs)"
begin

lemma repr_unique: "repr q xs \<Longrightarrow> repr q ys \<Longrightarrow> xs = ys"
  using repr_visit [of q xs] repr_visit [of q ys] by simp

lemma remove_first:
  "repr q (x # xs) \<Longrightarrow> \<exists>q'. first q = Some x \<and> remove q x = Inr q' \<and> repr q' xs"
  using repr_remove [of q "x # xs" x] repr_first [of q "x # xs"] by simp

text \<open>Moving the first node to the back, as \<^verbatim>\<open>get_next_process\<close> does.\<close>

lemma rotate_first:
  assumes "repr q (x # xs)"
  shows "\<exists>q' q''. first q = Some x \<and> remove q x = Inr q' \<and> insert_tail q' x = Inr q''
    \<and> repr q'' (xs @ [x])"
proof -
  obtain q' where q': "first q = Some x" "remove q x = Inr q'" "repr q' xs"
    using remove_first [OF assms] by blast
  have "x \<notin> set xs" using repr_distinct [OF assms] by simp
  with repr_insert_tail [OF q'(3)] q' show ?thesis by blast
qed

text \<open>The nodes carry values: the same operations seen on the list of values.\<close>

lemma insert_tail_values:
  assumes "repr q es" "e \<notin> set es"
  shows "\<exists>q'. insert_tail q e = Inr q' \<and> repr q' (es @ [e])
    \<and> map (val(e := v)) (es @ [e]) = map val es @ [v]"
proof -
  have "map (val(e := v)) es = map val es" using assms(2) by auto
  with repr_insert_tail [OF assms] show ?thesis by simp
qed

lemma remove_where_values:
  assumes "repr q es"
  shows "\<exists>q' es'. remove_where (\<lambda>e. P (val e)) q = Some (Inr q') \<and> repr q' es'
    \<and> map val es' = filter (\<lambda>v. \<not> P v) (map val es)"
  using repr_remove_where [OF assms, of "\<lambda>e. P (val e)"]
  by (fastforce simp: filter_map o_def)

end

interpretation tq: tail_queue tailq_repr TAILQ_INIT TAILQ_FIRST TAILQ_INSERT_TAIL TAILQ_REMOVE
  "\<lambda>q. TAILQ_FOREACH q (TAILQ_FIRST q)" "\<lambda>P q. foreach_remove P q (TAILQ_FIRST q)"
proof unfold_locales
  show "tailq_repr q xs \<Longrightarrow> distinct xs" for q :: "'a tailq" and xs
    by (simp add: tailq_repr_def)
qed (fact tailq_repr_init tailq_repr_first tailq_repr_insert_tail tailq_repr_remove
      tailq_repr_foreach tailq_repr_foreach_remove)+

section \<open>Properties\<close>

text \<open>A queue of three nodes, for the concrete instances.\<close>

definition three_node_queue :: "nat tailq" where
  "three_node_queue = \<lparr>tqh_first = Some 4, tqh_last = NextOf 8,
     tqe_next = (\<lambda>_. None)(4 := Some 7, 7 := Some 8),
     tqe_prev = (\<lambda>_. HeadFirst)(7 := NextOf 4, 8 := NextOf 7)\<rparr>"

lemma three_node_queue_repr: "tailq_repr three_node_queue [4, 7, 8]"
  by (simp add: tailq_repr_def three_node_queue_def)

text \<open>
  On a well-formed queue holding the nodes \<open>xs\<close>, \<^verbatim>\<open>TAILQ_INSERT_TAIL\<close> of a new node
  passes its consistency check and leaves a well-formed queue that \<^verbatim>\<open>TAILQ_FOREACH\<close>
  visits as \<open>xs\<close> followed by the new node; removing any node \<open>d\<close> of that queue
  then passes both checks and leaves exactly the others, in order.
\<close>

lemma tailq_insert_remove_refines_list:
  assumes "tailq_repr q xs" and "elm \<notin> set xs" and "d \<in> set (xs @ [elm])"
  shows "\<exists>q1 q2. TAILQ_INSERT_TAIL q elm = Inr q1
    \<and> TAILQ_FOREACH q1 (TAILQ_FIRST q1) = Some (xs @ [elm])
    \<and> TAILQ_REMOVE q1 d = Inr q2 \<and> tailq_repr q2 (remove1 d (xs @ [elm]))
    \<and> TAILQ_FOREACH q2 (TAILQ_FIRST q2) = Some (remove1 d (xs @ [elm]))"
proof -
  obtain q1 where q1: "TAILQ_INSERT_TAIL q elm = Inr q1" "tailq_repr q1 (xs @ [elm])"
    using tq.repr_insert_tail [OF assms(1,2)] by blast
  obtain q2 where "TAILQ_REMOVE q1 d = Inr q2" "tailq_repr q2 (remove1 d (xs @ [elm]))"
    using tq.repr_remove [OF q1(2) assms(3)] by blast
  with q1 show ?thesis by (blast intro: tq.repr_visit)
qed

lemma tailq_insert_remove_refines_list_witness:
  "\<exists>q1 q2. TAILQ_INSERT_TAIL three_node_queue 9 = Inr q1
    \<and> TAILQ_FOREACH q1 (TAILQ_FIRST q1) = Some [4, 7, 8, 9]
    \<and> TAILQ_REMOVE q1 7 = Inr q2 \<and> TAILQ_FOREACH q2 (TAILQ_FIRST q2) = Some [4, 8, 9]"
  using tailq_insert_remove_refines_list [OF three_node_queue_repr, of 9 7] by fastforce

text \<open>
  The loops of \<^verbatim>\<open>remove_pid\<close> remove the current element inside
  \<^verbatim>\<open>TAILQ_FOREACH\<close>.  On a well-formed queue such a loop terminates, no consistency
  check fails, every node satisfying \<open>P\<close> and no other node is removed, and the
  order of the rest is kept.
\<close>

lemma tailq_foreach_remove_filters:
  assumes "tailq_repr q xs"
  shows "\<exists>q'. foreach_remove P q (TAILQ_FIRST q) = Some (Inr q')
    \<and> tailq_repr q' (filter (\<lambda>x. \<not> P x) xs)
    \<and> TAILQ_FOREACH q' (TAILQ_FIRST q') = Some (filter (\<lambda>x. \<not> P x) xs)"
  using tq.repr_remove_where [OF assms, of P] tq.repr_visit by blast

lemma tailq_foreach_remove_filters_witness:
  "\<exists>q'. foreach_remove even three_node_queue (TAILQ_FIRST three_node_queue) = Some (Inr q')
     \<and> TAILQ_FOREACH q' (TAILQ_FIRST q') = Some [7]"
  using tailq_foreach_remove_filters [OF three_node_queue_repr, of even] by fastforce

end
