(* ===== verification/Stdmem.thy ===== *)
theory Stdmem
  imports Prelude
begin

text \<open>
  The allocator and the byte copy of \<^verbatim>\<open>mlibc/src/stdmem.c\<close> and the \<^verbatim>\<open>_sbrk\<close> of
  \<^verbatim>\<open>os/src/user/syscall.c\<close>.  The linker symbols \<^verbatim>\<open>heap_low\<close> and \<^verbatim>\<open>heap_top\<close>
  (\<^verbatim>\<open>os/image.ld\<close>) are arguments.  Pointers are 32-bit words and pointer arithmetic
  wraps, so a request that carries the break past the end of the address space is
  visible in the model.  Memory is never given back (\<^verbatim>\<open>stdmem_free\<close> does nothing).

  Shown: successive allocations lie inside the heap and never overlap, exhaustion is
  reported by NULL and changes nothing, and \<^verbatim>\<open>stdmem_copy\<close> copies exactly the bytes
  asked for unless it overwrites source bytes before reading them.
\<close>

section \<open>Definitions\<close>

text \<open>\<^verbatim>\<open>_sbrk\<close>: the returned pointer and the new \<^verbatim>\<open>current_break\<close>.\<close>

definition sbrk :: "u32 \<Rightarrow> u32 \<Rightarrow> u32 \<Rightarrow> i32 \<Rightarrow> u32 \<times> u32" where
  "sbrk heap_low heap_top current_break incr =
     (let brk = (if current_break = 0 then heap_low else current_break) in
      if heap_top < brk + incr then (- 1, brk)
      else (brk, brk + incr))"

text \<open>\<^verbatim>\<open>stdmem_allocate\<close>: the pointer (0 is NULL) and the new break.\<close>

definition stdmem_allocate :: "u32 \<Rightarrow> u32 \<Rightarrow> u32 \<Rightarrow> u32 \<Rightarrow> u32 \<times> u32" where
  "stdmem_allocate heap_low heap_top current_break sz =
     (let (p, brk1) = sbrk heap_low heap_top current_break 0;
          (r, brk2) = sbrk heap_low heap_top brk1 sz
      in if r = - 1 then (0, brk2) else (p, brk2))"

definition stdmem_free :: "u32 \<Rightarrow> u32 \<Rightarrow> u32" where
  "stdmem_free ptr current_break = current_break"

text \<open>The first \<open>n\<close> iterations of the loop of \<^verbatim>\<open>stdmem_copy\<close>.\<close>

primrec copy_iterations :: "memory \<Rightarrow> u32 \<Rightarrow> u32 \<Rightarrow> nat \<Rightarrow> memory" where
  "copy_iterations m dest src 0 = m"
| "copy_iterations m dest src (Suc i) =
     (let m' = copy_iterations m dest src i in
      m'(dest + of_nat i := m' (src + of_nat i)))"

definition stdmem_copy :: "memory \<Rightarrow> u32 \<Rightarrow> u32 \<Rightarrow> u32 \<Rightarrow> memory" where
  "stdmem_copy m destination source numbytes =
     copy_iterations m destination source (unat numbytes)"

text \<open>The \<open>n\<close> bytes at an address.\<close>

definition bytes_at :: "memory \<Rightarrow> u32 \<Rightarrow> nat \<Rightarrow> u8 list" where
  "bytes_at m a n = map (\<lambda>i. m (a + of_nat i)) [0..<n]"

text \<open>A sequence of allocations, as the kernel makes them: the pointers, in order.\<close>

fun allocate_all :: "u32 \<Rightarrow> u32 \<Rightarrow> u32 \<Rightarrow> u32 list \<Rightarrow> u32 list \<times> u32" where
  "allocate_all lo hi brk [] = ([], brk)"
| "allocate_all lo hi brk (sz # sizes) =
     (let (p, brk1) = stdmem_allocate lo hi brk sz;
          (ps, brk2) = allocate_all lo hi brk1 sizes
      in (p # ps, brk2))"

definition heap_ok :: "u32 \<Rightarrow> u32 \<Rightarrow> u32 \<Rightarrow> bool" where
  "heap_ok lo hi brk \<longleftrightarrow> 0 < lo \<and> lo \<le> brk \<and> brk \<le> hi \<and> hi < - 1"

section \<open>The allocator\<close>

lemma stdmem_allocate_fits:
  assumes "heap_ok lo hi brk" and "unat brk + unat sz \<le> unat hi"
  shows "stdmem_allocate lo hi brk sz = (brk, brk + sz)" and "heap_ok lo hi (brk + sz)"
    and "unat (brk + sz) = unat brk + unat sz"
proof -
  have le: "unat brk + unat sz < 4294967296"
    using assms(2) unat_u32_less [of hi] by simp
  then show u: "unat (brk + sz) = unat brk + unat sz"
    by (simp add: unat_word_ariths)
  have nt: "\<not> hi < brk + sz" using u assms(2) by (simp add: word_less_nat_alt)
  have "brk \<noteq> 0" "brk \<noteq> - 1" "\<not> hi < brk"
    using assms(1) by (auto simp: heap_ok_def)
  then show "stdmem_allocate lo hi brk sz = (brk, brk + sz)"
    using nt by (simp add: stdmem_allocate_def sbrk_def Let_def)
  show "heap_ok lo hi (brk + sz)"
    using assms u nt by (auto simp: heap_ok_def word_le_nat_alt)
qed

lemma stdmem_allocate_exhausted:
  assumes "heap_ok lo hi brk" and "unat hi < unat brk + unat sz"
    and "unat brk + unat sz < 4294967296"
  shows "stdmem_allocate lo hi brk sz = (0, brk)"
proof -
  have "hi < brk + sz"
    using assms(2,3) by (simp add: word_less_nat_alt unat_word_ariths)
  moreover have "brk \<noteq> 0" "\<not> hi < brk"
    using assms(1) by (auto simp: heap_ok_def)
  ultimately show ?thesis by (simp add: stdmem_allocate_def sbrk_def Let_def)
qed

lemma allocate_all_fits:
  assumes "heap_ok lo hi brk" and "unat brk + sum_list (map unat sizes) \<le> unat hi"
  shows "snd (allocate_all lo hi brk sizes) = brk + sum_list sizes
    \<and> (\<forall>i < length sizes. unat (fst (allocate_all lo hi brk sizes) ! i)
         = unat brk + sum_list (map unat (take i sizes)))
    \<and> length (fst (allocate_all lo hi brk sizes)) = length sizes"
  using assms
proof (induction sizes arbitrary: brk)
  case Nil
  then show ?case by simp
next
  case (Cons s ss)
  have fit: "unat brk + unat s \<le> unat hi" using Cons.prems(2) by simp
  note a = stdmem_allocate_fits [OF Cons.prems(1) fit]
  have "unat (brk + s) + sum_list (map unat ss) \<le> unat hi"
    using Cons.prems(2) a(3) by simp
  from Cons.IH [OF a(2) this] show ?case
    using a by (auto simp: nth_Cons' take_Cons' split: prod.split)
qed

section \<open>The copy loop\<close>

lemma copy_iterations_frame:
  "(\<And>i. i < n \<Longrightarrow> a \<noteq> dest + of_nat i) \<Longrightarrow> copy_iterations m dest src n a = m a"
  by (induction n) (auto simp: Let_def)

text \<open>The source is not overwritten before it is read (in particular: disjoint regions).\<close>

definition copy_safe :: "u32 \<Rightarrow> u32 \<Rightarrow> nat \<Rightarrow> bool" where
  "copy_safe dest src n \<longleftrightarrow> (\<forall>j < n. \<forall>i < j. dest + of_nat i \<noteq> src + of_nat j)"

lemma copy_iterations_copies:
  assumes "copy_safe dest src n" "n \<le> 4294967296" "i < n"
  shows "copy_iterations m dest src n (dest + of_nat i) = m (src + of_nat i)"
  using assms
proof (induction n)
  case 0
  then show ?case by simp
next
  case (Suc n)
  have safe: "copy_safe dest src n" using Suc.prems(1) by (simp add: copy_safe_def)
  have src: "copy_iterations m dest src n (src + of_nat n) = m (src + of_nat n)"
    by (rule copy_iterations_frame) (use Suc.prems(1) in \<open>metis copy_safe_def lessI\<close>)
  show ?case
  proof (cases "i = n")
    case True
    with src show ?thesis by (simp add: Let_def)
  next
    case False
    then have "i < n" using Suc.prems(3) by simp
    moreover have "(of_nat i :: u32) \<noteq> of_nat n"
      using of_nat_u32_inj [of i n] Suc.prems(2) \<open>i < n\<close> by simp
    ultimately show ?thesis using Suc.IH [OF safe] Suc.prems(2) by (simp add: Let_def)
  qed
qed

lemma copy_safe_disjoint:
  assumes "unat dest + n \<le> unat src \<or> unat src + n \<le> unat dest"
    and "unat dest + n \<le> 4294967296" and "unat src + n \<le> 4294967296"
  shows "copy_safe dest src n"
  unfolding copy_safe_def
proof (intro allI impI)
  fix j i assume "j < n" "i < j"
  then have "unat (dest + of_nat i) = unat dest + i" "unat (src + of_nat j) = unat src + j"
    using assms(2,3) by (simp_all add: unat_word_ariths unat_of_nat)
  moreover have "unat dest + i \<noteq> unat src + j"
    using assms(1) \<open>j < n\<close> \<open>i < j\<close> by arith
  ultimately show "dest + of_nat i \<noteq> src + of_nat j" by metis
qed

lemma stdmem_copy_bytes:
  assumes "copy_safe dest src (unat n)"
  shows "bytes_at (stdmem_copy m dest src n) dest (unat n) = bytes_at m src (unat n)"
  unfolding bytes_at_def stdmem_copy_def
  using copy_iterations_copies [OF assms, of _ m] unat_u32_less [of n] by simp

text \<open>A copy of more bytes than are safe still gets the safe ones right: those behind are written later.\<close>

lemma copy_iterations_prefix:
  assumes "copy_safe dest src k" "i < k" "k \<le> n" "n \<le> 4294967296"
  shows "copy_iterations m dest src n (dest + of_nat i) = m (src + of_nat i)"
  using assms(3,4)
proof (induction n rule: dec_induct)
  case base
  then show ?case using copy_iterations_copies [OF assms(1) _ assms(2)] by simp
next
  case (step n)
  have "(of_nat i :: u32) \<noteq> of_nat n" using of_nat_u32_inj [of i n] step assms(2) by simp
  then show ?case using step by (simp add: Let_def)
qed

lemma stdmem_copy_prefix:
  assumes "copy_safe dest src k" "k \<le> unat n"
  shows "bytes_at (stdmem_copy m dest src n) dest k = bytes_at m src k"
  unfolding bytes_at_def stdmem_copy_def
  using copy_iterations_prefix [OF assms(1) _ assms(2), of _ m] unat_u32_less [of n] by simp

lemma stdmem_copy_frame:
  assumes "unat n \<le> unat (a - dest)"
  shows "stdmem_copy m dest src n a = m a"
  unfolding stdmem_copy_def
proof (rule copy_iterations_frame)
  fix i assume i: "i < unat n"
  show "a \<noteq> dest + of_nat i"
  proof
    assume "a = dest + of_nat i"
    then have "unat (a - dest) = i"
      using i unat_u32_less [of n] by (simp add: unat_of_nat)
    with i assms show False by simp
  qed
qed

section \<open>Properties\<close>

text \<open>
  As long as the requests fit into the heap, the blocks handed out by
  \<^verbatim>\<open>stdmem_allocate\<close> lie inside it and a later block starts behind the end of every
  earlier one, so no two live objects of the kernel share a byte.
\<close>

lemma allocations_disjoint:
  assumes "heap_ok lo hi brk" and "unat brk + sum_list (map unat sizes) \<le> unat hi"
    and "i < j" and "j < length sizes"
  shows "unat lo \<le> unat (fst (allocate_all lo hi brk sizes) ! i)
    \<and> unat (fst (allocate_all lo hi brk sizes) ! i) + unat (sizes ! i)
        \<le> unat (fst (allocate_all lo hi brk sizes) ! j)
    \<and> unat (fst (allocate_all lo hi brk sizes) ! j) + unat (sizes ! j) \<le> unat hi"
proof -
  have take_le: "sum_list (map unat (take k sizes)) + unat (sizes ! k)
      = sum_list (map unat (take (Suc k) sizes))" if "k < length sizes" for k
    using that by (simp add: take_Suc_conv_app_nth)
  have mono: "sum_list (map unat (take k sizes)) \<le> sum_list (map unat (take l sizes))"
    if "k \<le> l" for k l
  proof -
    have "take l sizes = take k sizes @ take (l - k) (drop k sizes)"
      using that by (metis le_add_diff_inverse take_add)
    then show ?thesis by simp
  qed
  have all: "sum_list (map unat (take k sizes)) \<le> sum_list (map unat sizes)" for k
    using mono [of k "k + length sizes"] by simp
  show ?thesis
    using allocate_all_fits [OF assms(1,2)] assms take_le [of i] take_le [of j]
      mono [of "Suc i" j] all [of "Suc j"]
    by (auto simp: heap_ok_def word_le_nat_alt)
qed

lemma allocations_disjoint_witness:
  "fst (allocate_all 0x70030000 0x70070000 0x70030000 [12, 512, 3]) =
     [0x70030000, 0x7003000C, 0x7003020C]
   \<and> unat (fst (allocate_all 0x70030000 0x70070000 0x70030000 [12, 512, 3]) ! 0) + unat (12 :: u32)
       \<le> unat (fst (allocate_all 0x70030000 0x70070000 0x70030000 [12, 512, 3]) ! 1)"
proof -
  have ok: "heap_ok 0x70030000 0x70070000 0x70030000" by (simp add: heap_ok_def)
  have "fst (allocate_all 0x70030000 0x70070000 0x70030000 [12, 512, 3]) =
      [0x70030000, 0x7003000C, 0x7003020C]"
    by (simp add: stdmem_allocate_def sbrk_def)
  with allocations_disjoint [OF ok, of "[12, 512, 3]" 0 1] show ?thesis by simp
qed

text \<open>
  \<^verbatim>\<open>stdmem_allocate\<close> on every branch.  A request that fits advances the break by its
  size; one that does not fit returns NULL and leaves the break alone.
  A request so large that break plus size passes the end of the 32-bit address space
  is \<^emph>\<open>accepted\<close>, and the break moves backwards over memory already handed out.
\<close>

lemma stdmem_allocate_branches:
  assumes "heap_ok lo hi brk"
  shows "stdmem_allocate lo hi brk sz =
      (if unat brk + unat sz \<le> unat hi then (brk, brk + sz)
       else if unat brk + unat sz < 4294967296 then (0, brk)
       else (brk, brk + sz))
    \<and> (4294967296 \<le> unat brk + unat sz \<longrightarrow> brk + sz < brk)"
proof (cases "unat brk + unat sz < 4294967296")
  case True
  then show ?thesis
    using stdmem_allocate_fits(1) [OF assms] stdmem_allocate_exhausted [OF assms] by auto
next
  case False
  have "unat (brk + sz) = unat brk + unat sz - 4294967296"
    using False unat_u32_less [of brk] unat_u32_less [of sz]
    by (simp add: unat_word_ariths mod_if)
  then have less: "brk + sz < brk"
    using unat_u32_less [of sz] False by (simp add: word_less_nat_alt)
  moreover have "brk \<noteq> 0" "brk \<noteq> - 1" "brk \<le> hi"
    using assms by (auto simp: heap_ok_def)
  ultimately have "stdmem_allocate lo hi brk sz = (brk, brk + sz)"
    by (auto simp: stdmem_allocate_def sbrk_def Let_def)
  with less False unat_u32_less [of hi] show ?thesis by auto
qed

lemma stdmem_allocate_branches_witness:
  "stdmem_allocate 0x70030000 0x70070000 0x70060000 0x90000000 = (0x70060000, 0x60000)"
proof -
  have "heap_ok 0x70030000 0x70070000 0x70060000" by (simp add: heap_ok_def)
  from stdmem_allocate_branches [OF this, of "0x90000000"] show ?thesis by simp
qed

text \<open>
  \<^verbatim>\<open>stdmem_copy\<close> makes the destination hold the bytes the source held before the
  call and changes nothing outside the destination, whenever no source byte is
  overwritten before the loop reads it (disjoint blocks, or a move to lower addresses).
\<close>

lemma stdmem_copy_correct:
  assumes "copy_safe dest src (unat n)"
  shows "bytes_at (stdmem_copy m dest src n) dest (unat n) = bytes_at m src (unat n)
    \<and> (\<forall>a. unat n \<le> unat (a - dest) \<longrightarrow> stdmem_copy m dest src n a = m a)"
  using stdmem_copy_bytes [OF assms] stdmem_copy_frame by blast

lemma stdmem_copy_correct_witness:
  "bytes_at (stdmem_copy (\<lambda>a. ucast a) 100 200 4) 100 4 = [200, 201, 202, 203]"
proof -
  have "copy_safe 100 200 (unat (4 :: u32))"
    by (rule copy_safe_disjoint) simp_all
  from stdmem_copy_correct [OF this, of "\<lambda>a. ucast a"] show ?thesis
    by (simp add: bytes_at_def upt_rec)
qed

end
