(* ===== verification/Stdstring.thy ===== *)
theory Stdstring
  imports Prelude "HOL-Library.Signed_Division"
begin

text \<open>
  The string library \<^verbatim>\<open>mlibc/src/stdstring.c\<close>.  Every loop of the source is a recursive
  function over the same index variables; strings are read with \<^term>\<open>char_at\<close>.  A
  function that writes into its argument returns the new contents.

  Shown: length and comparison agree with the mathematical string, reversing in place
  reverses, tokenising returns the first token and the position behind it, decimal
  conversion and parsing are inverse to each other except at the most negative
  integer, and parsing saturates.
\<close>

section \<open>Length and comparison\<close>

function length_loop :: "cstr \<Rightarrow> nat \<Rightarrow> nat" where
  "length_loop str len = (if char_at str len \<noteq> 0 then length_loop str (Suc len) else len)"
  by pat_completeness auto
termination
  by (relation "measure (\<lambda>(str, len). length str - len)") (auto simp: char_at_def split: if_splits)

definition stdstring_length :: "cstr \<Rightarrow> nat" where
  "stdstring_length str = length_loop str 0"

function compare_loop :: "cstr \<Rightarrow> cstr \<Rightarrow> nat \<Rightarrow> int" where
  "compare_loop str1 str2 i =
     (if char_at str1 i = 0 \<and> char_at str2 i = 0 then 0
      else if char_at str1 i = 0 \<and> char_at str2 i \<noteq> 0 then - 1
      else if char_at str1 i \<noteq> 0 \<and> char_at str2 i = 0 then 1
      else if char_at str1 i < char_at str2 i then - 1
      else if char_at str1 i > char_at str2 i then 1
      else compare_loop str1 str2 (Suc i))"
  by pat_completeness auto
termination
  by (relation "measure (\<lambda>(str1, str2, i). length str1 - i)") (auto simp: char_at_def split: if_splits)

definition stdstring_compare :: "cstr \<Rightarrow> cstr \<Rightarrow> int" where
  "stdstring_compare str1 str2 = compare_loop str1 str2 0"

section \<open>Decimal conversion\<close>

text \<open>The swap loop of \<^verbatim>\<open>stdstring_reverse\<close>; \<open>j\<close> starts at -1 for the empty string.\<close>

function reverse_loop :: "u8 list \<Rightarrow> nat \<Rightarrow> int \<Rightarrow> u8 list" where
  "reverse_loop str i j =
     (if int i < j
      then let c = str ! i in reverse_loop (str[i := str ! nat j, nat j := c]) (Suc i) (j - 1)
      else str)"
  by pat_completeness auto
termination
  by (relation "measure (\<lambda>(str, i, j). nat (j - int i))") auto

definition stdstring_reverse :: "u8 list \<Rightarrow> u8 list" where
  "stdstring_reverse str = reverse_loop str 0 (int (stdstring_length str) - 1)"

text \<open>The do-while loop that writes the digits, least significant first.\<close>

function int_to_str_loop :: "int \<Rightarrow> u8 list" where
  "int_to_str_loop n =
     word_of_int (n smod 10 + 48) # (if n sdiv 10 > 0 then int_to_str_loop (n sdiv 10) else [])"
  by pat_completeness auto
termination
  by (relation "measure nat") (auto simp: signed_divide_int_def sgn_if split: if_splits)

text \<open>
  \<^verbatim>\<open>stdstring_int_to_str\<close>: the bytes written to \<^verbatim>\<open>str\<close>, the terminating NUL included.
  The negation \<^verbatim>\<open>n = -n\<close> wraps at the most negative integer.
\<close>

definition stdstring_int_to_str :: "i32 \<Rightarrow> u8 list" where
  "stdstring_int_to_str n =
     (let sgn_n = sint n;
          m = (if sint n < 0 then sint (- n) else sint n);
          ds = int_to_str_loop m
      in stdstring_reverse (ds @ (if sgn_n < 0 then [45] else []) @ [0]))"

section \<open>Tokens\<close>

function contains_loop :: "u8 \<Rightarrow> cstr \<Rightarrow> nat \<Rightarrow> bool" where
  "contains_loop c str i =
     (if char_at str i \<noteq> 0 then if c = char_at str i then True else contains_loop c str (Suc i)
      else False)"
  by pat_completeness auto
termination
  by (relation "measure (\<lambda>(c, str, i). length str - i)") (auto simp: char_at_def split: if_splits)

definition stdstr_contains_char :: "u8 \<Rightarrow> cstr \<Rightarrow> bool" where
  "stdstr_contains_char c str = contains_loop c str 0"

text \<open>Pointers into the string are offsets; \<open>None\<close> is NULL.\<close>

record token_t =
  token_start :: nat
  after_token :: "nat option"

text \<open>Both scanning loops: advance while the byte is not NUL and \<open>P\<close> holds.\<close>

function scan_loop :: "(u8 \<Rightarrow> bool) \<Rightarrow> cstr \<Rightarrow> nat \<Rightarrow> nat" where
  "scan_loop P str i = (if char_at str i \<noteq> 0 \<and> P (char_at str i) then scan_loop P str (Suc i) else i)"
  by pat_completeness auto
termination
  by (relation "measure (\<lambda>(P, str, i). length str - i)") (auto simp: char_at_def split: if_splits)

definition stdstring_next_token :: "cstr \<Rightarrow> cstr \<Rightarrow> token_t \<times> cstr" where
  "stdstring_next_token str delimeters =
     (let i = scan_loop (\<lambda>c. stdstr_contains_char c delimeters) str 0;
          j = scan_loop (\<lambda>c. \<not> stdstr_contains_char c delimeters) str i
      in if char_at str j \<noteq> 0
         then (\<lparr>token_start = i, after_token = Some (Suc j)\<rparr>, str[j := 0])
         else (\<lparr>token_start = i, after_token = None\<rparr>, str))"

text \<open>\<^verbatim>\<open>stdstring_append\<close> writes through \<^verbatim>\<open>dest\<close>, seen as the memory from there on.\<close>

function append_loop :: "(nat \<Rightarrow> u8) \<Rightarrow> nat \<Rightarrow> cstr \<Rightarrow> nat \<Rightarrow> (nat \<Rightarrow> u8) \<times> nat" where
  "append_loop dest dest_index source source_index =
     (if char_at source source_index \<noteq> 0
      then append_loop (dest(dest_index + source_index := char_at source source_index))
             dest_index source (Suc source_index)
      else (dest, source_index))"
  by pat_completeness auto
termination
  by (relation "measure (\<lambda>(dest, di, source, si). length source - si)")
    (auto simp: char_at_def split: if_splits)

definition stdstring_append :: "(nat \<Rightarrow> u8) \<Rightarrow> nat \<Rightarrow> cstr \<Rightarrow> nat \<times> (nat \<Rightarrow> u8)" where
  "stdstring_append dest dest_index source =
     (let (dest', source_index) = append_loop dest dest_index source 0
      in (dest_index + source_index, dest'(dest_index + source_index := 0)))"

section \<open>Parsing integers\<close>

definition isupper :: "u8 \<Rightarrow> bool" where
  "isupper c \<longleftrightarrow> 65 \<le> c \<and> c \<le> 90"

definition isalpha :: "u8 \<Rightarrow> bool" where
  "isalpha c \<longleftrightarrow> (65 \<le> c \<and> c \<le> 90) \<or> (97 \<le> c \<and> c \<le> 122)"

definition isspace :: "u8 \<Rightarrow> bool" where
  "isspace c \<longleftrightarrow> c = 32 \<or> c = 9 \<or> c = 10 \<or> c = 10"

definition isdigit :: "u8 \<Rightarrow> bool" where
  "isdigit c \<longleftrightarrow> 48 \<le> c \<and> c \<le> 57"

text \<open>The value of a digit in the loop of \<^verbatim>\<open>stdstring_strtol\<close>; \<open>None\<close> is the \<^verbatim>\<open>break\<close>.\<close>

definition digit_value :: "u8 \<Rightarrow> nat \<Rightarrow> u32 option" where
  "digit_value c base =
     (if isdigit c then (if base \<le> unat (c - 48) then None else Some (ucast (c - 48)))
      else if isalpha c then
        (let v = (if isupper c then c - 55 else c - 87)
         in if base \<le> unat v then None else Some (ucast v))
      else None)"

lemma digit_value_nonzero: "digit_value c base \<noteq> None \<Longrightarrow> c \<noteq> 0"
  by (auto simp: digit_value_def isdigit_def isalpha_def)

text \<open>
  The accumulation loop.  \<open>k\<close> is the index of the current character \<^verbatim>\<open>c\<close> (the pointer \<^verbatim>\<open>s\<close>
  stands one behind it), \<open>any\<close> is 0, 1 or -1; the result is \<^verbatim>\<open>acc\<close>, \<^verbatim>\<open>any\<close> and the
  final \<open>k\<close>.
\<close>

function strtol_loop :: "cstr \<Rightarrow> nat \<Rightarrow> u32 \<Rightarrow> u32 \<Rightarrow> nat \<Rightarrow> u32 \<Rightarrow> int \<Rightarrow> u32 \<times> int \<times> nat" where
  "strtol_loop str base cutoff cutlim k acc any =
     (case digit_value (char_at str k) base of
        None \<Rightarrow> (acc, any, k)
      | Some d \<Rightarrow>
          if any < 0 \<or> cutoff < acc \<or> (acc = cutoff \<and> cutlim < d)
          then strtol_loop str base cutoff cutlim (Suc k) acc (- 1)
          else strtol_loop str base cutoff cutlim (Suc k) (acc * of_nat base + d) 1)"
  by pat_completeness auto
termination
proof (relation "measure (\<lambda>(str, base, cutoff, cutlim, k, acc, any). length str - k)", goal_cases)
  case 1
  then show ?case by simp
qed (auto simp: char_at_def digit_value_def isdigit_def isalpha_def split: if_splits)

text \<open>
  \<^verbatim>\<open>stdstring_strtol\<close> for a base between 0 and 36: the value and the offset stored
  through \<^verbatim>\<open>endptr\<close>.
\<close>

definition stdstring_strtol :: "cstr \<Rightarrow> nat \<Rightarrow> i32 \<times> nat" where
  "stdstring_strtol nptr base0 =
     (let k0 = scan_loop isspace nptr 0;
          neg = (char_at nptr k0 = 45);
          k1 = (if char_at nptr k0 = 45 then Suc k0
                else if char_at nptr k0 = 43 then Suc k0 else k0);
          (k2, base1) =
            (if (base0 = 0 \<or> base0 = 16) \<and> char_at nptr k1 = 48
                  \<and> (char_at nptr (k1 + 1) = 120 \<or> char_at nptr (k1 + 1) = 88) then (k1 + 2, 16)
             else if (base0 = 0 \<or> base0 = 2) \<and> char_at nptr k1 = 48
                  \<and> (char_at nptr (k1 + 1) = 98 \<or> char_at nptr (k1 + 1) = 66) then (k1 + 2, 2)
             else (k1, base0));
          base = (if base1 = 0 then if char_at nptr k2 = 48 then 8 else 10 else base1);
          limit = (if neg then 0x80000000 else 0x7FFFFFFF) :: u32;
          cutlim = limit mod of_nat base;
          cutoff = limit div of_nat base;
          (acc, any, k) = strtol_loop nptr base cutoff cutlim k2 0 0;
          acc' = (if any < 0 then if neg then 0x80000000 else 0x7FFFFFFF
                  else if neg then - acc else acc)
      in (acc', if any \<noteq> 0 then k else 0))"

text \<open>Reference: the number a list of decimal digits denotes, continued from \<open>a\<close>.\<close>

definition dec_from :: "nat \<Rightarrow> u8 list \<Rightarrow> nat" where
  "dec_from a ds = foldl (\<lambda>x c. 10 * x + unat (c - 48)) a ds"

declare length_loop.simps [simp del] compare_loop.simps [simp del] reverse_loop.simps [simp del]
  int_to_str_loop.simps [simp del] contains_loop.simps [simp del] scan_loop.simps [simp del]
  append_loop.simps [simp del] strtol_loop.simps [simp del]

section \<open>Length, comparison, membership\<close>

lemma length_loop_eq: "len \<le> length (cstring str) \<Longrightarrow> length_loop str len = length (cstring str)"
proof (induction str len rule: length_loop.induct)
  case (1 str len)
  show ?case
  proof (cases "len < length (cstring str)")
    case True
    with 1 show ?thesis by (simp add: length_loop.simps [of str len] char_at_nonzero_cstring)
  next
    case False
    with 1 have "len = length (cstring str)" by simp
    then show ?thesis by (simp add: length_loop.simps)
  qed
qed

lemma stdstring_length_eq [simp]: "stdstring_length str = length (cstring str)"
  by (simp add: stdstring_length_def length_loop_eq)

lemma cstring_drop_Cons:
  assumes "char_at s i \<noteq> 0"
  shows "cstring (drop i s) = char_at s i # cstring (drop (Suc i) s)"
proof -
  have "i < length s" using assms by (auto simp: char_at_def split: if_splits)
  then show ?thesis using assms by (simp add: cstring_def Cons_nth_drop_Suc [symmetric])
qed

lemma cstring_drop_Nil: "char_at s i = 0 \<Longrightarrow> cstring (drop i s) = []"
  by (cases "i < length s") (auto simp: cstring_def Cons_nth_drop_Suc [symmetric])

lemma compare_loop_eq:
  "compare_loop str1 str2 i =
    (if cstring (drop i str1) = cstring (drop i str2) then 0
     else if ord_class.lexordp (cstring (drop i str1)) (cstring (drop i str2)) then - 1 else 1)"
proof (induction str1 str2 i rule: compare_loop.induct)
  case (1 str1 str2 i)
  show ?case
    using 1 cstring_drop_Cons [of str1 i] cstring_drop_Cons [of str2 i]
      cstring_drop_Nil [of str1 i] cstring_drop_Nil [of str2 i]
    by (cases "char_at str1 i = 0"; cases "char_at str2 i = 0")
      (auto simp: compare_loop.simps [of str1 str2 i])
qed

lemma stdstring_compare_eq:
  "stdstring_compare str1 str2 =
    (if cstring str1 = cstring str2 then 0
     else if ord_class.lexordp (cstring str1) (cstring str2) then - 1 else 1)"
  by (simp add: stdstring_compare_def compare_loop_eq)

lemma stdstring_compare_zero [simp]: "stdstring_compare str1 str2 = 0 \<longleftrightarrow> cstring str1 = cstring str2"
  by (simp add: stdstring_compare_eq)

lemma contains_loop_eq: "contains_loop c str i = (c \<in> set (cstring (drop i str)))"
proof (induction c str i rule: contains_loop.induct)
  case (1 c str i)
  then show ?case
    using cstring_drop_Cons [of str i] cstring_drop_Nil [of str i]
    by (cases "char_at str i = 0") (auto simp: contains_loop.simps [of c str i])
qed

lemma stdstr_contains_char_eq [simp]: "stdstr_contains_char c str = (c \<in> set (cstring str))"
  by (simp add: stdstr_contains_char_def contains_loop_eq)

lemma scan_loop_eq: "scan_loop P str i = i + length (takeWhile P (cstring (drop i str)))"
proof (induction P str i rule: scan_loop.induct)
  case (1 P str i)
  then show ?case
    using cstring_drop_Cons [of str i] cstring_drop_Nil [of str i]
    by (cases "char_at str i = 0") (auto simp: scan_loop.simps [of P str i])
qed

section \<open>Reversal and decimal digits\<close>

lemma reverse_loop_mid:
  "reverse_loop (pre @ mid @ post) (length pre) (int (length pre + length mid) - 1) = pre @ rev mid @ post"
proof (induction mid arbitrary: pre post rule: length_induct)
  case (1 mid)
  show ?case
  proof (cases "length mid < 2")
    case True
    then have "rev mid = mid" by (cases mid rule: list.exhaust; cases "tl mid") auto
    with True show ?thesis by (simp add: reverse_loop.simps)
  next
    case False
    then obtain a m b where mid: "mid = a # m @ [b]"
      by (metis One_nat_def Suc_1 append_butlast_last_id length_Cons less_2_cases_iff list.exhaust list.size(3))
    have j: "nat (int (length pre + length mid) - 1) = length pre + Suc (length m)"
      using mid by simp
    have swap: "(pre @ mid @ post)[length pre := (pre @ mid @ post) ! (length pre + Suc (length m)),
        length pre + Suc (length m) := (pre @ mid @ post) ! length pre]
      = (pre @ [b]) @ m @ (a # post)"
      using mid by (simp add: nth_append list_update_append)
    have "reverse_loop (pre @ mid @ post) (length pre) (int (length pre + length mid) - 1)
      = reverse_loop ((pre @ [b]) @ m @ (a # post)) (length (pre @ [b])) (int (length (pre @ [b]) + length m) - 1)"
    proof -
      have "int (length pre) < int (length pre + length mid) - 1" using mid by simp
      then show ?thesis
        by (subst reverse_loop.simps) (simp only: if_True Let_def j swap, simp add: mid)
    qed
    also have "\<dots> = (pre @ [b]) @ rev m @ (a # post)"
      using 1 mid by (metis length_Cons length_append_singleton lessI less_SucI)
    finally show ?thesis using mid by simp
  qed
qed

lemma stdstring_reverse_eq:
  "stdstring_reverse str = rev (cstring str) @ drop (length (cstring str)) str"
proof -
  have "str = [] @ cstring str @ drop (length (cstring str)) str"
    by (simp add: cstring_def takeWhile_dropWhile_id dropWhile_eq_drop [symmetric])
  then show ?thesis
    using reverse_loop_mid [of "[]" "cstring str" "drop (length (cstring str)) str"]
    by (simp add: stdstring_reverse_def)
qed

lemma dec_from_simps [simp]:
  "dec_from a [] = a" "dec_from a (d # ds) = dec_from (10 * a + unat (d - 48)) ds"
  "dec_from a (ds @ es) = dec_from (dec_from a ds) es"
  by (simp_all add: dec_from_def)

lemma dec_from_ge: "a \<le> dec_from a ds"
proof (induction ds arbitrary: a)
  case (Cons d ds)
  have "a \<le> 10 * a + unat (d - 48)" by simp
  also have "\<dots> \<le> dec_from (10 * a + unat (d - 48)) ds" by (rule Cons.IH)
  finally show ?case by simp
qed simp

lemma digit_char:
  assumes "0 \<le> d" "d < (10::int)"
  shows "isdigit (word_of_int (d + 48))" "unat ((word_of_int (d + 48) :: u8) - 48) = nat d"
proof -
  obtain n where n: "d = int n" "n < 10" using assms by (metis nonneg_int_cases of_nat_less_iff of_nat_numeral)
  then have "n = 0 \<or> n = 1 \<or> n = 2 \<or> n = 3 \<or> n = 4 \<or> n = 5 \<or> n = 6 \<or> n = 7 \<or> n = 8 \<or> n = 9" by arith
  then show "isdigit (word_of_int (d + 48))" "unat ((word_of_int (d + 48) :: u8) - 48) = nat d"
    using n by (auto simp: isdigit_def)
qed

lemma sdiv_smod_10: "0 \<le> n \<Longrightarrow> n sdiv 10 = n div (10::int)" "0 \<le> n \<Longrightarrow> n smod 10 = n mod (10::int)"
  by (auto simp: signed_divide_int_def signed_modulo_int_def sgn_if minus_div_mult_eq_mod mult.commute)

lemma int_to_str_loop_digits:
  "0 \<le> n \<Longrightarrow> list_all isdigit (int_to_str_loop n) \<and> int_to_str_loop n \<noteq> []
    \<and> dec_from 0 (rev (int_to_str_loop n)) = nat n"
proof (induction n rule: int_to_str_loop.induct)
  case (1 n)
  have m: "0 \<le> n mod 10" "n mod 10 < 10" by simp_all
  show ?case
  proof (cases "n div 10 > 0")
    case True
    have "10 * nat (n div 10) + nat (n mod 10) = nat n"
      using "1.prems" by (simp add: nat_div_distrib nat_mod_distrib)
    with 1 True digit_char [OF m] show ?thesis
      by (simp add: int_to_str_loop.simps [of n] sdiv_smod_10 nat_div_distrib)
  next
    case False
    then have "n mod 10 = n" using "1.prems" by simp
    with False "1.prems" digit_char [OF m] show ?thesis
      by (simp add: int_to_str_loop.simps [of n] sdiv_smod_10)
  qed
qed
lemma digit_value_10: "isdigit c \<Longrightarrow> digit_value c 10 = Some (of_nat (unat (c - 48)))" "isdigit c \<Longrightarrow> unat (c - 48) < 10"
proof -
  assume "isdigit c"
  then have c: "48 \<le> unat c" "unat c \<le> 57" by (auto simp: isdigit_def word_le_nat_alt)
  then have "unat (c - 48) = unat c - 48" by (simp add: unat_sub word_le_nat_alt)
  then show u: "unat (c - 48) < 10" using c by simp
  show "digit_value c 10 = Some (of_nat (unat (c - 48)))"
    using \<open>isdigit c\<close> u by (simp add: digit_value_def)
qed

lemma digit_value_10_None: "\<not> isdigit c \<Longrightarrow> digit_value c 10 = None"
proof -
  assume n: "\<not> isdigit c"
  have "10 \<le> unat (c - 55)" if "65 \<le> c"
    using that by (simp add: unat_sub word_le_nat_alt)
  moreover have "10 \<le> unat (c - 87)" if "97 \<le> c"
    using that by (simp add: unat_sub word_le_nat_alt)
  ultimately show ?thesis using n by (auto simp: digit_value_def isalpha_def isupper_def Let_def)
qed

lemma strtol_loop_overflowed:
  assumes "drop k str = ds @ rest" "list_all isdigit ds" "\<not> isdigit (char_at str (k + length ds))" "any < 0"
  shows "\<exists>any' < 0. strtol_loop str 10 cutoff cutlim k acc any = (acc, any', k + length ds)"
  using assms
proof (induction ds arbitrary: k any)
  case Nil
  then show ?case by (simp add: strtol_loop.simps digit_value_10_None)
next
  case (Cons d ds)
  have k: "k < length str" "str ! k = d" "drop (Suc k) str = ds @ rest"
    using Cons.prems(1) by (metis append_Cons drop_all leI list.distinct(1), metis Cons_nth_drop_Suc append_Cons drop_all leI list.distinct(1) list.sel(1),
      metis append_Cons drop_Suc list.sel(3) tl_drop)
  then show ?case
    using Cons.IH [OF k(3), of "-1"] Cons.prems digit_value_10(1) [of d] by (simp add: strtol_loop.simps [of _ _ _ _ k])
qed

lemma cutoff_iff:
  fixes a d L :: nat
  assumes "d < 10"
  shows "(L div 10 < a \<or> a = L div 10 \<and> L mod 10 < d) \<longleftrightarrow> L < 10 * a + d"
proof -
  have L: "L = 10 * (L div 10) + L mod 10" "L mod 10 < 10" by simp_all
  have "(q < a \<or> a = q \<and> r < d) \<longleftrightarrow> 10 * q + r < 10 * a + d" if "r < 10" for q r
    using assms that by arith
  from this [OF L(2), of "L div 10"] L(1) show ?thesis by simp
qed

lemma strtol_loop_step:
  assumes d: "isdigit (char_at str k)" and a: "a \<le> L" and L: "L < 4294967296" and any: "0 \<le> any"
  shows "strtol_loop str 10 (of_nat (L div 10)) (of_nat (L mod 10)) k (of_nat a) any =
    (if 10 * a + unat (char_at str k - 48) \<le> L
     then strtol_loop str 10 (of_nat (L div 10)) (of_nat (L mod 10)) (Suc k)
            (of_nat (10 * a + unat (char_at str k - 48))) 1
     else strtol_loop str 10 (of_nat (L div 10)) (of_nat (L mod 10)) (Suc k) (of_nat a) (- 1))"
proof -
  let ?d = "unat (char_at str k - 48)"
  have d10: "?d < 10" using digit_value_10(2) [OF d] .
  have "L div 10 < 4294967296" "L mod 10 < 4294967296" "a < 4294967296" "?d < 4294967296"
    using L a d10 by auto
  then have "(of_nat (L div 10) < (of_nat a :: u32) \<or> (of_nat a :: u32) = of_nat (L div 10)
      \<and> of_nat (L mod 10) < (of_nat ?d :: u32)) \<longleftrightarrow> L < 10 * a + ?d"
    using cutoff_iff [OF d10, of L a] by (simp add: word_less_nat_alt unat_of_nat of_nat_u32_inj)
  with digit_value_10(1) [OF d] any show ?thesis
    by (subst strtol_loop.simps) (auto simp: not_le mult.commute)
qed

lemma strtol_loop_digits:
  assumes "drop k str = ds @ rest" "list_all isdigit ds" "\<not> isdigit (char_at str (k + length ds))"
    "a \<le> L" "L < 4294967296" "0 \<le> any"
  shows "\<exists>acc any'. strtol_loop str 10 (of_nat (L div 10)) (of_nat (L mod 10)) k (of_nat a) any
      = (acc, any', k + length ds)
    \<and> (if dec_from a ds \<le> L then acc = of_nat (dec_from a ds) \<and> any' = (if ds = [] then any else 1) else any' < 0)"
  using assms
proof (induction ds arbitrary: k a any)
  case Nil
  then show ?case by (simp add: strtol_loop.simps digit_value_10_None)
next
  case (Cons d ds)
  have kl: "k < length str" using Cons.prems(1) by (cases "k < length str") auto
  then have k: "char_at str k = d" "drop (Suc k) str = ds @ rest"
    using Cons.prems(1) by (simp_all add: Cons_nth_drop_Suc [symmetric])
  have d: "isdigit (char_at str k)" using Cons.prems(2) k by simp
  note step = strtol_loop_step [OF d Cons.prems(4,5,6)]
  show ?case
  proof (cases "10 * a + unat (d - 48) \<le> L")
    case True
    with Cons.IH [OF k(2), of "10 * a + unat (d - 48)" 1] Cons.prems step k(1) show ?thesis by (auto split: if_splits)
  next
    case False
    have ds: "list_all isdigit ds" "\<not> isdigit (char_at str (Suc k + length ds))" using Cons.prems by auto
    from False have "\<not> dec_from (10 * a + unat (d - 48)) ds \<le> L"
      using dec_from_ge [of "10 * a + unat (d - 48)" ds] by simp
    with False strtol_loop_overflowed [OF k(2) ds, of "- 1"] step k(1) show ?thesis by fastforce
  qed
qed

section \<open>Parsing decimal numbers\<close>

lemma takeWhile_cstring: "(\<And>c. P c \<Longrightarrow> c \<noteq> 0) \<Longrightarrow> takeWhile P (cstring s) = takeWhile P s"
  by (induction s) (auto simp: cstring_def)

lemma isspace_nonzero: "isspace c \<Longrightarrow> c \<noteq> 0"
  by (auto simp: isspace_def)

lemma scan_spaces:
  assumes "list_all isspace ws" "t \<noteq> [] \<Longrightarrow> \<not> isspace (hd t)"
  shows "scan_loop isspace (ws @ t) 0 = length ws"
proof -
  have "takeWhile isspace (ws @ t) = ws"
    using assms by (cases t) (auto simp: list_all_iff takeWhile_append2 takeWhile_tail)
  then show ?thesis by (simp add: scan_loop_eq takeWhile_cstring isspace_nonzero)
qed

lemma strtol_decimal:
  assumes ws: "list_all isspace ws" and sg: "sg = [] \<or> sg = [43] \<or> sg = [45]"
    and ds: "list_all isdigit ds" "ds \<noteq> []" and rest: "rest = [] \<or> \<not> isdigit (hd rest)"
  shows "stdstring_strtol (ws @ sg @ ds @ rest) 10 =
    ((if sg = [45] then (if dec_from 0 ds \<le> 2147483648 then - of_nat (dec_from 0 ds) else 0x80000000)
      else (if dec_from 0 ds \<le> 2147483647 then of_nat (dec_from 0 ds) else 0x7FFFFFFF)),
     length ws + length sg + length ds)"
proof -
  let ?s = "ws @ sg @ ds @ rest"
  obtain d ds' where d: "ds = d # ds'" "isdigit d" using ds by (cases ds) auto
  then have nd: "\<not> isspace d" "d \<noteq> 45" "d \<noteq> 43" by (auto simp: isdigit_def isspace_def)
  have k0: "scan_loop isspace ?s 0 = length ws"
    using sg d nd by (intro scan_spaces [OF ws]) (auto simp: isspace_def)
  define k1 where "k1 = length ws + length sg"
  have c0: "char_at ?s (length ws) = (if sg = [] then d else hd sg)"
    using sg d by (auto simp: nth_append)
  have drop: "drop k1 ?s = ds @ rest" by (simp add: k1_def)
  have stop: "\<not> isdigit (char_at ?s (k1 + length ds))"
    using rest by (cases rest) (auto simp: k1_def isdigit_def nth_append)
  note run = strtol_loop_digits [OF drop ds(1) stop, of 0 _ 0, simplified]
  show ?thesis
  proof (cases "sg = [45]")
    case True
    have k1': "Suc (length ws) = k1" using True by (simp add: k1_def)
    obtain acc any' where r: "strtol_loop ?s 10 (of_nat (2147483648 div 10)) (of_nat (2147483648 mod 10)) k1 0 0 = (acc, any', k1 + length ds)"
      "if dec_from 0 ds \<le> 2147483648 then acc = of_nat (dec_from 0 ds) \<and> any' = 1 else any' < 0"
      using run [of 2147483648] ds(2) by auto
    show ?thesis unfolding stdstring_strtol_def Let_def k0 c0
      using True r ds(2) by (auto simp: k1' split: if_splits)
  next
    case False
    obtain acc any' where r: "strtol_loop ?s 10 (of_nat (2147483647 div 10)) (of_nat (2147483647 mod 10)) k1 0 0 = (acc, any', k1 + length ds)"
      "if dec_from 0 ds \<le> 2147483647 then acc = of_nat (dec_from 0 ds) \<and> any' = 1 else any' < 0"
      using run [of 2147483647] ds(2) by auto
    show ?thesis
    proof (cases "sg = []")
      case True
      then have "k1 = length ws" by (simp add: k1_def)
      then show ?thesis unfolding stdstring_strtol_def Let_def k0 c0
        using True r ds(2) nd by (auto split: if_splits)
    next
      case False
      with sg \<open>sg \<noteq> [45]\<close> have "k1 = Suc (length ws)" "sg = [43]" by (auto simp: k1_def)
      then show ?thesis unfolding stdstring_strtol_def Let_def k0 c0
        using r ds(2) by (auto split: if_splits)
    qed
  qed
qed

lemma isdigit_nonzero: "isdigit c \<Longrightarrow> c \<noteq> 0"
  by (auto simp: isdigit_def)

lemma int_to_str_shape:
  assumes "sint n \<noteq> - 2147483648"
  shows "stdstring_int_to_str n = (if sint n < 0 then [45] else []) @ rev (int_to_str_loop \<bar>sint n\<bar>) @ [0]"
proof -
  have neg: "sint (- n) = - sint n"
  proof -
    have "sint n > - 2147483648" using assms sint_ge [of n] by simp
    then show ?thesis using sint_lt [of n] by (simp add: sint_word_ariths signed_take_bit_int_eq_self)
  qed
  define ds where "ds = int_to_str_loop \<bar>sint n\<bar>"
  have ds: "0 \<notin> set ds"
    using int_to_str_loop_digits [of "\<bar>sint n\<bar>"] by (auto simp: ds_def list_all_iff dest: isdigit_nonzero)
  have "stdstring_int_to_str n = stdstring_reverse (ds @ (if sint n < 0 then [45] else []) @ [0])"
    using neg by (auto simp: stdstring_int_to_str_def ds_def Let_def abs_if)
  also have "\<dots> = rev (ds @ (if sint n < 0 then [45] else [])) @ [0]"
    using ds cstring_append_zero [of "ds @ (if sint n < 0 then [45] else [])" "[]"]
    by (simp add: stdstring_reverse_eq)
  finally show ?thesis by (simp add: ds_def)
qed
 
lemma int_to_str_strtol:
  assumes "sint n \<noteq> - 2147483648"
  shows "stdstring_strtol (stdstring_int_to_str n) 10 = (n, length (stdstring_int_to_str n) - 1)"
proof -
  define ds where "ds = rev (int_to_str_loop \<bar>sint n\<bar>)"
  have ds: "list_all isdigit ds" "ds \<noteq> []" "dec_from 0 ds = nat \<bar>sint n\<bar>"
    using int_to_str_loop_digits [of "\<bar>sint n\<bar>"] by (auto simp: ds_def list_all_iff)
  have b: "- 2147483648 < sint n" "sint n < 2147483648"
    using assms sint_ge [of n] sint_lt [of n] by auto
  have s: "stdstring_int_to_str n = [] @ (if sint n < 0 then [45] else []) @ ds @ [0]"
    using int_to_str_shape [OF assms] by (simp add: ds_def)
  have val: "(if sint n < 0 then - of_nat (nat \<bar>sint n\<bar>) else of_nat (nat \<bar>sint n\<bar>)) = n"
    by (simp add: of_nat_nat word_of_int_minus [symmetric])
  show ?thesis
    unfolding s by (subst strtol_decimal) (use ds b val in \<open>auto simp: isdigit_def split: if_splits\<close>)
qed

lemma length_int_to_str_loop:
  "0 \<le> n \<Longrightarrow> 0 < k \<Longrightarrow> length (int_to_str_loop n) \<le> k \<longleftrightarrow> n < 10 ^ k"
proof (induction n arbitrary: k rule: int_to_str_loop.induct)
  case (1 n)
  obtain k' where k: "k = Suc k'" using "1.prems"(2) by (cases k) auto
  have rec: "int_to_str_loop n = word_of_int (n smod 10 + 48) # (if n div 10 > 0 then int_to_str_loop (n div 10) else [])"
    using "1.prems" by (simp add: int_to_str_loop.simps [of n] sdiv_smod_10)
  have d: "n < 10 ^ k \<longleftrightarrow> n div 10 < 10 ^ k'" 
  proof -
    have "n < 10 * x \<longleftrightarrow> n div 10 < x" for x by presburger
    then show ?thesis using k by simp
  qed
  show ?case
  proof (cases "n div 10 > 0")
    case True
    show ?thesis
    proof (cases k')
      case 0
      with True rec d k show ?thesis by (cases "int_to_str_loop (n div 10)") (auto simp: int_to_str_loop.simps [of "n div 10"])
    next
      case (Suc m)
      with 1 True rec d k show ?thesis by (simp add: sdiv_smod_10)
    qed
  next
    case False
    then have "n div 10 < 10 ^ k'" by (metis le_less_trans not_less zero_less_numeral zero_less_power)
    with False rec d k show ?thesis by simp
  qed
qed
section \<open>Tokens and appending\<close>

lemma cstring_update_zero: "j \<le> length (cstring s) \<Longrightarrow> cstring (s[j := 0]) = take j (cstring s)"
proof (induction s arbitrary: j)
  case (Cons c s)
  then show ?case by (cases j) (auto simp: cstring_def split: if_splits)
qed (simp add: cstring_def)

lemma next_token_eq:
  fixes str delims
  defines "cs \<equiv> cstring str" and "D \<equiv> \<lambda>c. c \<in> set (cstring delims)"
  defines "tok \<equiv> takeWhile (\<lambda>c. \<not> D c) (dropWhile D cs)"
  shows "stdstring_next_token str delims = (t, str') \<Longrightarrow>
    cstring (drop (token_start t) str') = tok
    \<and> (case after_token t of
         None \<Rightarrow> dropWhile (\<lambda>c. \<not> D c) (dropWhile D cs) = []
       | Some p \<Rightarrow> dropWhile (\<lambda>c. \<not> D c) (dropWhile D cs) = cs ! (p - 1) # cstring (drop p str'))"
proof -
  assume nt: "stdstring_next_token str delims = (t, str')"
  define i where "i = length (takeWhile D cs)"
  define j where "j = i + length tok"
  have dropi: "drop i cs = dropWhile D cs" by (simp add: i_def dropWhile_eq_drop)
  have i_le: "i \<le> length cs" by (simp add: i_def length_takeWhile_le)
  have csi: "cstring (drop i str) = dropWhile D cs"
    using i_le dropi by (simp add: cs_def cstring_drop)
  have scani: "scan_loop (\<lambda>c. stdstr_contains_char c delims) str 0 = i"
    by (simp add: scan_loop_eq i_def cs_def D_def)
  have scanj: "scan_loop (\<lambda>c. \<not> stdstr_contains_char c delims) str i = j"
    using csi by (simp add: scan_loop_eq j_def tok_def D_def)
  have dropj: "drop j cs = dropWhile (\<lambda>c. \<not> D c) (dropWhile D cs)"
  proof -
    have "drop j cs = drop (length tok) (drop i cs)" by (simp add: j_def add.commute)
    then show ?thesis unfolding dropi by (simp add: tok_def dropWhile_eq_drop [of "\<lambda>c. \<not> D c"])
  qed
  have j_le: "j \<le> length cs"
  proof -
    have "length tok \<le> length (drop i cs)" unfolding dropi tok_def by (rule length_takeWhile_le)
    then show ?thesis using i_le by (simp add: j_def)
  qed
  have tok: "take (j - i) (drop i cs) = tok"
    unfolding dropi by (simp add: j_def tok_def takeWhile_eq_take [symmetric])
  show ?thesis
  proof (cases "char_at str j = 0")
    case True
    then have "j = length cs" using j_le char_at_nonzero_cstring [of j str] by (auto simp: cs_def nat_less_le)
    moreover have "t = \<lparr>token_start = i, after_token = None\<rparr>" "str' = str"
      using nt True unfolding stdstring_next_token_def Let_def scani scanj by auto
    moreover have "dropWhile D cs = tok" if "j = length cs"
    proof -
      have "dropWhile (\<lambda>c. \<not> D c) (dropWhile D cs) = []" using that dropj by simp
      then show ?thesis unfolding tok_def by (metis append_Nil2 takeWhile_dropWhile_id)
    qed
    ultimately show ?thesis using csi dropj by simp
  next
    case False
    have jl: "j < length cs" using False j_le char_at_length_cstring [of str] by (cases "j = length cs") (auto simp: cs_def)
    then have jl': "j < length str" using length_cstring_le [of str] by (simp add: cs_def)
    have t: "t = \<lparr>token_start = i, after_token = Some (Suc j)\<rparr>" "str' = str[j := 0]"
      using nt False unfolding stdstring_next_token_def Let_def scani scanj by auto
    have "drop i (str[j := 0]) = (drop i str)[j - i := 0]" by (simp add: drop_update_swap j_def)
    moreover have "cstring ((drop i str)[j - i := 0]) = tok"
    proof -
      have "j - i \<le> length (cstring (drop i str))"
        unfolding csi by (simp add: j_def tok_def length_takeWhile_le)
      then show ?thesis using tok csi dropi by (simp add: cstring_update_zero)
    qed
    moreover have "cstring (drop (Suc j) str) = drop (Suc j) cs" using jl by (simp add: cs_def cstring_drop)
    moreover have "drop j cs = cs ! j # drop (Suc j) cs" using jl by (simp add: Cons_nth_drop_Suc)
    ultimately show ?thesis using t dropj by (simp add: drop_update_cancel)
  qed
qed

lemma append_loop_eq:
  "append_loop dest di source si =
    ((\<lambda>k. if di + si \<le> k \<and> k < di + si + length (cstring (drop si source))
          then cstring (drop si source) ! (k - di - si) else dest k), si + length (cstring (drop si source)))"
proof (induction dest di source si rule: append_loop.induct)
  case (1 dest di source si)
  show ?case
  proof (cases "char_at source si = 0")
    case True
    then show ?thesis by (auto simp: append_loop.simps [of dest di source si] cstring_drop_Nil fun_eq_iff)
  next
    case False
    have "append_loop dest di source si
      = append_loop (dest(di + si := char_at source si)) di source (Suc si)"
      using False by (subst append_loop.simps) simp
    also note 1 [OF False]
    finally show ?thesis
      by (auto simp: cstring_drop_Cons [OF False] fun_eq_iff nth_Cons' Suc_diff_Suc)
  qed
qed

lemma stdstring_append_eq:
  "stdstring_append dest di source = (di + length (cstring source),
     (\<lambda>k. if di \<le> k \<and> k < di + length (cstring source) then cstring source ! (k - di)
          else if k = di + length (cstring source) then 0 else dest k))"
  by (auto simp: stdstring_append_def append_loop_eq fun_eq_iff)


section \<open>Properties\<close>

text \<open>
  \<^verbatim>\<open>stdstring_length\<close> is the number of bytes in front of the first NUL, and
  \<^verbatim>\<open>stdstring_compare\<close> is the lexicographic comparison of those bytes as unsigned
  characters: 0 exactly for equal strings, -1 for the smaller first string, else 1.
\<close>

lemma stdstring_length_compare_spec:
  "stdstring_length str1 = length (cstring str1)
   \<and> stdstring_compare str1 str2 =
      (if cstring str1 = cstring str2 then 0
       else if ord_class.lexordp (cstring str1) (cstring str2) then - 1 else 1)"
  by (simp add: stdstring_compare_eq)

text \<open>
  In base 10, \<^verbatim>\<open>stdstring_strtol\<close> skips white space, accepts one sign, reads the
  longest run of digits, and returns the denoted number clamped to the range of a
  32-bit \<^verbatim>\<open>long\<close>; \<^verbatim>\<open>endptr\<close> is left behind the last digit.
\<close>

lemma strtol_parses_decimal:
  assumes "list_all isspace ws" and "sg = [] \<or> sg = [43] \<or> sg = [45]"
    and "list_all isdigit ds" and "ds \<noteq> []" and "rest = [] \<or> \<not> isdigit (hd rest)"
  shows "sint (fst (stdstring_strtol (ws @ sg @ ds @ rest) 10)) =
      (if sg = [45] then max (- 2147483648) (- int (dec_from 0 ds))
       else min 2147483647 (int (dec_from 0 ds)))
    \<and> snd (stdstring_strtol (ws @ sg @ ds @ rest) 10) = length ws + length sg + length ds"
proof -
  define v where "v = dec_from 0 ds"
  have pos: "sint (of_nat v :: i32) = int v" if "v \<le> 2147483647"
    using that sint_word_of_int_i32 [of "int v"] by simp
  have neg: "sint (- of_nat v :: i32) = - int v" if "v \<le> 2147483648"
    using that sint_word_of_int_i32 [of "- int v"] by simp
  show ?thesis
    using strtol_decimal [OF assms] pos neg by (auto simp: v_def)
qed

lemma strtol_parses_decimal_witness:
  "sint (fst (stdstring_strtol [32, 45, 52, 50, 33] 10)) = - 42
   \<and> snd (stdstring_strtol [32, 45, 52, 50, 33] 10) = 4"
  using strtol_parses_decimal [of "[32]" "[45]" "[52, 50]" "[33]"]
  by (simp add: isspace_def isdigit_def)

text \<open>
  C39: printing an integer with \<^verbatim>\<open>stdstring_int_to_str\<close> and parsing the result with
  \<^verbatim>\<open>stdstring_strtol\<close> gives the integer back, and the parse consumes everything up to
  the NUL, for every 32-bit integer but the most negative one.
\<close>

theorem int_to_str_strtol_roundtrip:
  assumes "sint n \<noteq> - 2147483648"
  shows "stdstring_strtol (stdstring_int_to_str n) 10
    = (n, stdstring_length (stdstring_int_to_str n))"
proof -
  define ds where "ds = rev (int_to_str_loop \<bar>sint n\<bar>)"
  have "0 \<notin> set ds"
    using int_to_str_loop_digits [of "\<bar>sint n\<bar>"]
    by (auto simp: ds_def list_all_iff dest: isdigit_nonzero)
  then have "cstring (stdstring_int_to_str n) = (if sint n < 0 then [45] else []) @ ds"
    using int_to_str_shape [OF assms]
      cstring_append_zero [of "(if sint n < 0 then [45] else []) @ ds" "[]"]
    by (simp add: ds_def)
  with int_to_str_strtol [OF assms] int_to_str_shape [OF assms] show ?thesis
    by (simp add: ds_def)
qed

theorem int_to_str_strtol_roundtrip_witness:
  "stdstring_strtol (stdstring_int_to_str (- 307)) 10 = (- 307, 4)
   \<and> stdstring_int_to_str (- 307) = [45, 51, 48, 55, 0]"
proof -
  have s: "stdstring_int_to_str (- 307) = [45, 51, 48, 55, 0]"
    by (simp add: int_to_str_shape int_to_str_loop.simps sdiv_smod_10)
  from int_to_str_strtol_roundtrip [of "- 307"] have
    "stdstring_strtol (stdstring_int_to_str (- 307)) 10
      = (- 307, stdstring_length (stdstring_int_to_str (- 307)))"
    by simp
  with s show ?thesis by (simp add: cstring_def)
qed

text \<open>
  How many bytes \<^verbatim>\<open>stdstring_int_to_str\<close> writes.  Twelve are always enough, but the
  ten-byte buffer that \<^verbatim>\<open>stdio_printint\<close> (\<^verbatim>\<open>mlibc/src/stdio.c\<close>) passes is overrun exactly
  for integers from \<open>10\<^sup>9\<close> up and from \<open>-10\<^sup>8\<close> down.  At the most negative integer the
  negation wraps and the text written is the two characters of \<open>-(\<close>.
\<close>

lemma int_to_str_bytes_written:
  "length (stdstring_int_to_str n) \<le> 12
   \<and> (10 < length (stdstring_int_to_str n) \<longleftrightarrow>
        1000000000 \<le> sint n \<or> (sint n \<noteq> - 2147483648 \<and> sint n \<le> - 100000000))
   \<and> stdstring_int_to_str 0x80000000 = [45, 40, 0]"
proof -
  have min: "stdstring_int_to_str 0x80000000 = [45, 40, 0]"
  proof -
    have "int_to_str_loop (- 2147483648) = [40]"
      by (simp add: int_to_str_loop.simps signed_divide_int_def signed_modulo_int_def)
    then show ?thesis
      by (simp add: stdstring_int_to_str_def stdstring_reverse_eq cstring_def)
  qed
  show ?thesis
  proof (cases "sint n = - 2147483648")
    case True
    then have "sint n = sint (0x80000000 :: i32)" by simp
    then have "n = 0x80000000" by (rule signed_word_eqI)
    with min True show ?thesis by simp
  next
    case False
    have len: "length (stdstring_int_to_str n)
        = (if sint n < 0 then 2 else 1) + length (int_to_str_loop \<bar>sint n\<bar>)"
      using int_to_str_shape [OF False] by simp
    have b: "\<bar>sint n\<bar> < 10 ^ 10" using sint_ge [of n] sint_lt [of n] by (simp add: abs_if)
    note l = length_int_to_str_loop [of "\<bar>sint n\<bar>"]
    have "length (int_to_str_loop \<bar>sint n\<bar>) \<le> 10" using l [of 10] b by simp
    moreover have "length (int_to_str_loop \<bar>sint n\<bar>) \<le> 9 \<longleftrightarrow> \<bar>sint n\<bar> < 1000000000"
      and "length (int_to_str_loop \<bar>sint n\<bar>) \<le> 8 \<longleftrightarrow> \<bar>sint n\<bar> < 100000000"
      using l [of 9] l [of 8] by simp_all
    ultimately show ?thesis using min len False by auto
  qed
qed

text \<open>
  \<^verbatim>\<open>stdstring_next_token\<close> returns the first maximal run of characters that are not
  delimiters, NUL-terminated in place; \<^verbatim>\<open>after_token\<close> is NULL exactly when the string
  ends with that run, and otherwise points behind the delimiter that ended it, with the
  rest of the string intact.
\<close>

lemma next_token_splits_first_token:
  assumes "stdstring_next_token str delims = (t, str')"
  shows "cstring (drop (token_start t) str') =
      takeWhile (\<lambda>c. c \<notin> set (cstring delims))
        (dropWhile (\<lambda>c. c \<in> set (cstring delims)) (cstring str))
    \<and> (case after_token t of
         None \<Rightarrow> dropWhile (\<lambda>c. c \<notin> set (cstring delims))
                  (dropWhile (\<lambda>c. c \<in> set (cstring delims)) (cstring str)) = []
       | Some p \<Rightarrow> dropWhile (\<lambda>c. c \<notin> set (cstring delims))
                  (dropWhile (\<lambda>c. c \<in> set (cstring delims)) (cstring str))
                = cstring str ! (p - 1) # cstring (drop p str'))"
  by (rule next_token_eq [OF assms])

lemma next_token_splits_first_token_witness:
  "cstring (drop (token_start \<lparr>token_start = 1, after_token = Some 4\<rparr>) [32, 97, 98, 0, 99]) = [97, 98]"
proof -
  have "stdstring_next_token [32, 97, 98, 32, 99] [32]
    = (\<lparr>token_start = 1, after_token = Some 4\<rparr>, [32, 97, 98, 0, 99])"
    by (simp add: stdstring_next_token_def scan_loop_eq cstring_def char_at_def)
  from next_token_splits_first_token [OF this] show ?thesis by (simp add: cstring_def)
qed

end
