(* ===== verification/Scheduler.thy ===== *)
theory Scheduler
  imports Tailq Stdmem Stdstring
begin

text \<open>
  The process scheduler \<^verbatim>\<open>os/src/kernel/scheduler.c\<close>.  The file's global variables are
  the fields of \<open>sched\<close>; the two priority queues, the event record and the process
  list are the lists their tail queues represent (theory \<open>Tailq\<close>).  Functions that
  take the trap frame \<^verbatim>\<open>ctx\<close> take and return it.  \<open>None\<close> is a dereference of the NULL
  that \<^verbatim>\<open>find_process\<close> returns for an unknown PID.  Allocation is assumed to succeed.

  \<^verbatim>\<open>switch\<close> statements without \<^verbatim>\<open>break\<close> fall through, and so do their models: priority
  0 acts on both queues.

  Shown: the run queues always hold exactly the runnable processes and every step of
  the kernel keeps it so (\<open>sched_inv\<close>, by rule induction over \<open>reachable\<close>); a run never
  faults in a reachable state; high priority goes first and each queue is served
  round-robin; a context switch restores what was saved; fork, wait and exit do what
  their callers expect; and the places where the code does not do what it means to.
\<close>

section \<open>Data\<close>

record ctx_t =
  cpsr :: u32
  pc :: u32
  gpr :: "u32 list"
  sp :: u32
  lr :: u32

record event_t =
  event :: i32
  from_process :: pid_t

record pcb_t =
  pid :: pid_t
  ctx :: ctx_t
  status :: i32
  blocked_until :: event_t

record sched =
  current_pid :: pid_t
  next_pid :: pid_t
  current_stack_break :: u32
  events :: "event_t list"
  process_list :: "pcb_t list"
  low_priority_queue :: "pid_t list"
  high_priority_queue :: "pid_t list"
  ram :: memory
  uart0 :: "u8 list"

abbreviation (input) PROCESS_EVENT_EXITED :: i32 where "PROCESS_EVENT_EXITED \<equiv> 1"
abbreviation (input) PROCESS_EVENT_SUSPENDED :: i32 where "PROCESS_EVENT_SUSPENDED \<equiv> 2"
abbreviation (input) PROCESS_EVENT_UNSUSPENDED :: i32 where "PROCESS_EVENT_UNSUSPENDED \<equiv> 3"
abbreviation (input) PROCESS_EVENT_BLOCKED :: i32 where "PROCESS_EVENT_BLOCKED \<equiv> 4"
abbreviation (input) PROCESS_EVENT_UNBLOCKED :: i32 where "PROCESS_EVENT_UNBLOCKED \<equiv> 5"
abbreviation (input) PROCESS_EVENT_CREATED :: i32 where "PROCESS_EVENT_CREATED \<equiv> 6"
abbreviation (input) PROCESS_STATUS_RUNNING :: i32 where "PROCESS_STATUS_RUNNING \<equiv> 1"
abbreviation (input) PROCESS_STATUS_READY :: i32 where "PROCESS_STATUS_READY \<equiv> 2"
abbreviation (input) PROCESS_STATUS_BLOCKED :: i32 where "PROCESS_STATUS_BLOCKED \<equiv> 3"
abbreviation (input) PROCESS_STATUS_TERMINATED :: i32 where "PROCESS_STATUS_TERMINATED \<equiv> 4"

section \<open>Operations\<close>

definition set_stack_break :: "i32 \<Rightarrow> sched \<Rightarrow> u32 \<times> sched" where
  "set_stack_break increment s =
     (current_stack_break s, s\<lparr>current_stack_break := current_stack_break s - increment\<rparr>)"

definition get_new_pid :: "sched \<Rightarrow> pid_t \<times> sched" where
  "get_new_pid s = (next_pid s, s\<lparr>next_pid := next_pid s + 1\<rparr>)"

definition find_process :: "sched \<Rightarrow> pid_t \<Rightarrow> pcb_t option" where
  "find_process s p = List.find (\<lambda>item. pid item = p) (process_list s)"

text \<open>An assignment through the pointer that \<^verbatim>\<open>find_process\<close> returned.\<close>

definition modify_process :: "pid_t \<Rightarrow> (pcb_t \<Rightarrow> pcb_t) \<Rightarrow> sched \<Rightarrow> sched option" where
  "modify_process p f s =
     (case find_process s p of
        None \<Rightarrow> None
      | Some _ \<Rightarrow> Some (s\<lparr>process_list := update_first (\<lambda>item. pid item = p) f (process_list s)\<rparr>))"

definition copy_ctx :: "ctx_t \<Rightarrow> ctx_t \<Rightarrow> ctx_t" where
  "copy_ctx destination source = destination\<lparr>cpsr := cpsr source, gpr := gpr source,
     lr := lr source, pc := pc source, sp := sp source\<rparr>"

definition copy_event :: "event_t \<Rightarrow> event_t \<Rightarrow> event_t" where
  "copy_event destination source =
     destination\<lparr>event := event source, from_process := from_process source\<rparr>"

definition copy_pcb :: "pcb_t \<Rightarrow> pcb_t \<Rightarrow> pcb_t" where
  "copy_pcb destination source = destination\<lparr>pid := pid source, status := status source,
     ctx := copy_ctx (ctx destination) (ctx source),
     blocked_until := copy_event (blocked_until destination) (blocked_until source)\<rparr>"

definition save_current_process :: "ctx_t \<Rightarrow> sched \<Rightarrow> sched option" where
  "save_current_process c s =
     modify_process (current_pid s) (\<lambda>p. p\<lparr>ctx := copy_ctx (ctx p) c\<rparr>) s"

definition run_process :: "ctx_t \<Rightarrow> pid_t \<Rightarrow> sched \<Rightarrow> (ctx_t \<times> sched) option" where
  "run_process c p s =
     (case find_process s p of
        None \<Rightarrow> None
      | Some to_schedule \<Rightarrow> Some (copy_ctx c (ctx to_schedule), s\<lparr>current_pid := p\<rparr>))"

definition remove_pid :: "pid_t \<Rightarrow> i32 \<Rightarrow> sched \<Rightarrow> sched" where
  "remove_pid p priority s =
     (if priority = 0
      then s\<lparr>high_priority_queue := filter (\<lambda>q. q \<noteq> p) (high_priority_queue s),
             low_priority_queue := filter (\<lambda>q. q \<noteq> p) (low_priority_queue s)\<rparr>
      else if priority = 1
      then s\<lparr>low_priority_queue := filter (\<lambda>q. q \<noteq> p) (low_priority_queue s)\<rparr>
      else s)"

definition add_pid :: "pid_t \<Rightarrow> i32 \<Rightarrow> sched \<Rightarrow> sched" where
  "add_pid p priority s =
     (if priority = 0
      then s\<lparr>high_priority_queue := high_priority_queue s @ [p],
             low_priority_queue := low_priority_queue s @ [p]\<rparr>
      else if priority = 1
      then s\<lparr>low_priority_queue := low_priority_queue s @ [p]\<rparr>
      else s)"

definition set_priority :: "pid_t \<Rightarrow> i32 \<Rightarrow> sched \<Rightarrow> sched" where
  "set_priority p priority s = add_pid p priority (remove_pid p priority s)"

definition get_next_process :: "i32 \<Rightarrow> sched \<Rightarrow> pid_t \<times> sched" where
  "get_next_process priority s =
     (if priority = 0 then
        (case high_priority_queue s of
           [] \<Rightarrow> (- 1, s)
         | p # ps \<Rightarrow> (p, s\<lparr>high_priority_queue := ps @ [p]\<rparr>))
      else if priority = 1 then
        (case low_priority_queue s of
           [] \<Rightarrow> (- 1, s)
         | p # ps \<Rightarrow> (p, s\<lparr>low_priority_queue := ps @ [p]\<rparr>))
      else (- 1, s))"

definition scheduler_run :: "ctx_t \<Rightarrow> sched \<Rightarrow> (ctx_t \<times> sched) option" where
  "scheduler_run c s =
     (let (p0, s0) = get_next_process 0 s;
          (p1, s1) = (if p0 = - 1 then get_next_process 1 s0 else (p0, s0))
      in do { s2 \<leftarrow> save_current_process c s1;
              run_process c p1 s2 })"

text \<open>The loop of \<^verbatim>\<open>scheduler_emit_event\<close> over the process list.\<close>

fun emit_loop :: "event_t \<Rightarrow> pcb_t list \<Rightarrow> sched \<Rightarrow> pcb_t list \<times> sched" where
  "emit_loop e [] s = ([], s)"
| "emit_loop e (item # items) s =
     (if status item = PROCESS_STATUS_BLOCKED
         \<and> event (blocked_until item) = event e
         \<and> from_process (blocked_until item) = from_process e
      then let item' = item\<lparr>status := PROCESS_STATUS_RUNNING,
                            ctx := (ctx item)\<lparr>gpr := (gpr (ctx item))[0 := from_process e]\<rparr>\<rparr>;
               (items', s') = emit_loop e items (set_priority (pid item) 1 s)
           in (item' # items', s')
      else let (items', s') = emit_loop e items s in (item # items', s'))"

definition scheduler_emit_event :: "event_t \<Rightarrow> sched \<Rightarrow> sched" where
  "scheduler_emit_event e s =
     (let s1 = (if event e \<noteq> PROCESS_EVENT_SUSPENDED \<and> event e \<noteq> PROCESS_EVENT_UNSUSPENDED
                then s\<lparr>events := events s @ [e]\<rparr> else s);
          (items, s2) = emit_loop e (process_list s1) s1
      in s2\<lparr>process_list := items\<rparr>)"

definition scheduler_block_process ::
    "ctx_t \<Rightarrow> event_t \<Rightarrow> sched \<Rightarrow> (pid_t \<times> ctx_t \<times> sched) option" where
  "scheduler_block_process c until_event s = do {
     s1 \<leftarrow> save_current_process c s;
     s2 \<leftarrow> modify_process (current_pid s1)
            (\<lambda>p. p\<lparr>blocked_until := until_event, status := PROCESS_STATUS_BLOCKED\<rparr>) s1;
     let s3 = remove_pid (current_pid s2) 1 (remove_pid (current_pid s2) 0 s2);
     let s4 = scheduler_emit_event \<lparr>event = PROCESS_EVENT_BLOCKED, from_process = current_pid s3\<rparr> s3;
     (c', s5) \<leftarrow> scheduler_run c s4;
     Some (from_process until_event, c', s5) }"

definition scheduler_has_event_occurred :: "event_t \<Rightarrow> sched \<Rightarrow> pid_t" where
  "scheduler_has_event_occurred e s =
     (if \<exists>item \<in> set (events s). event item = event e \<and> from_process item = from_process e
      then from_process e else 0)"

text \<open>What \<^verbatim>\<open>PL011_puts(UART0, str, len)\<close> transmits.\<close>

definition puts :: "string \<Rightarrow> nat \<Rightarrow> u8 list" where
  "puts str len = take len (cstring (lit str))"

definition scheduler_exit :: "ctx_t \<Rightarrow> sched \<Rightarrow> (ctx_t \<times> sched) option" where
  "scheduler_exit c s =
     (let exited_pid = current_pid s;
          s1 = remove_pid (current_pid s) 1 (remove_pid (current_pid s) 0 s)
      in do {
        (c', s2) \<leftarrow> scheduler_run c s1;
        if current_pid s2 \<noteq> exited_pid
        then do {
          s3 \<leftarrow> modify_process exited_pid (\<lambda>p. p\<lparr>status := PROCESS_STATUS_TERMINATED\<rparr>) s2;
          Some (c', scheduler_emit_event
                      \<lparr>event = PROCESS_EVENT_EXITED, from_process = exited_pid\<rparr> s3) }
        else Some (c', s2\<lparr>uart0 := uart0 s2 @
               puts (''Scheduler: cannot exit last remaining process'' @ [CHR 0x0A]) 46\<rparr>) })"

definition scheduler_kill :: "ctx_t \<Rightarrow> pid_t \<Rightarrow> sched \<Rightarrow> (i32 \<times> ctx_t \<times> sched) option" where
  "scheduler_kill c p s =
     (let s1 = remove_pid p 1 (remove_pid p 0 s)
      in do {
        (c', s2) \<leftarrow> scheduler_run c s1;
        s3 \<leftarrow> modify_process p (\<lambda>q. q\<lparr>status := PROCESS_STATUS_TERMINATED\<rparr>) s2;
        Some (0, c', scheduler_emit_event
                       \<lparr>event = PROCESS_EVENT_EXITED, from_process = p\<rparr> s3) })"

definition scheduler_setpriority :: "pid_t \<Rightarrow> i32 \<Rightarrow> sched \<Rightarrow> i32 \<times> sched" where
  "scheduler_setpriority p priority s = (0, set_priority p priority s)"

text \<open>
  \<open>fresh\<close>: the uninitialised memory that \<^verbatim>\<open>stdmem_allocate\<close> returned, read as a \<^verbatim>\<open>pcb_t\<close>.  The
  allocations of the control block and of the queue nodes are taken to succeed.
\<close>

definition scheduler_fork :: "pcb_t \<Rightarrow> ctx_t \<Rightarrow> u32 \<Rightarrow> u32 \<Rightarrow> sched \<Rightarrow> (pid_t \<times> sched) option" where
  "scheduler_fork fresh c sp0 fp s =
     (if sint (current_pid s) < 1
      then Some (- 1, s\<lparr>uart0 := uart0 s @
             puts (''Scheduler: no process currently executing'' @ [CHR 0x0A]) 42\<rparr>)
      else
        let (new_pid, s1) = get_new_pid s;
            (new_break, s2) = set_stack_break 2000 s1
        in do {
          process_to_copy \<leftarrow> find_process s2 (current_pid s2);
          let p1 = copy_pcb fresh process_to_copy;
          let p2 = p1\<lparr>ctx := copy_ctx (ctx p1) c, pid := new_pid, status := PROCESS_STATUS_READY\<rparr>;
          let new_fp = new_break - (fp - gpr c ! 11);
          let new_sp = new_break - (fp - sp0);
          let p3 = p2\<lparr>ctx := (ctx p2)\<lparr>gpr := (gpr (ctx p2))[0 := 0, 11 := new_fp], sp := new_sp\<rparr>\<rparr>;
          let m1 = stdmem_copy (ram s2) new_sp sp0 (fp - sp0);
          let m2 = store32 m1 (new_fp - 12) new_break;
          let m3 = store32 m2 (new_fp - 16) new_break;
          let m4 = store32 m3 (new_fp - 0) new_break;
          let m5 = store32 m4 (new_fp + 24) new_break;
          let s3 = s2\<lparr>ram := m5, process_list := process_list s2 @ [p3]\<rparr>;
          let s4 = set_priority new_pid 1 s3;
          Some (pid p3, scheduler_emit_event
                          \<lparr>event = PROCESS_EVENT_CREATED, from_process = pid p3\<rparr> s4) })"

definition scheduler_getpid :: "sched \<Rightarrow> pid_t" where
  "scheduler_getpid s = current_pid s"

definition scheduler_exec ::
    "ctx_t \<Rightarrow> u32 \<Rightarrow> i32 \<Rightarrow> u32 \<Rightarrow> sched \<Rightarrow> (pid_t \<times> ctx_t \<times> sched) option" where
  "scheduler_exec c function argc argv s =
     (let c' = c\<lparr>pc := function, gpr := (gpr c)[0 := argc, 1 := argv]\<rparr>
      in do {
        s1 \<leftarrow> save_current_process c' s;
        s2 \<leftarrow> modify_process (current_pid s1) (\<lambda>p. p\<lparr>status := PROCESS_STATUS_RUNNING\<rparr>) s1;
        Some (current_pid s2, c', s2) })"

definition scheduler_list_procs :: "pcb_t \<Rightarrow> sched \<Rightarrow> pcb_t list" where
  "scheduler_list_procs fresh s = map (copy_pcb fresh) (process_list s)"

text \<open>\<^verbatim>\<open>entry_sh\<close> is the address of the shell's entry point.\<close>

definition scheduler_initialise :: "pcb_t \<Rightarrow> u32 \<Rightarrow> ctx_t \<Rightarrow> sched \<Rightarrow> (ctx_t \<times> sched) option" where
  "scheduler_initialise fresh entry_sh c s =
     (let s0 = s\<lparr>low_priority_queue := [], high_priority_queue := [], events := [], process_list := []\<rparr>;
          (new_pid, s1) = get_new_pid s0;
          (new_sp, s2) = set_stack_break 2000 s1;
          sh = fresh\<lparr>pid := new_pid,
                 ctx := (ctx fresh)\<lparr>cpsr := 0x50, pc := entry_sh, sp := new_sp\<rparr>,
                 status := PROCESS_STATUS_RUNNING\<rparr>;
          s3 = s2\<lparr>process_list := process_list s2 @ [sh]\<rparr>;
          s4 = s3\<lparr>low_priority_queue := low_priority_queue s3 @ [new_pid]\<rparr>
      in run_process c new_pid s4)"

text \<open>The value of the globals when the kernel starts.\<close>

definition boot_sched :: "u32 \<Rightarrow> memory \<Rightarrow> sched" where
  "boot_sched stack_top_usr m = \<lparr>current_pid = 0, next_pid = 1, current_stack_break = stack_top_usr,
     events = [], process_list = [], low_priority_queue = [], high_priority_queue = [],
     ram = m, uart0 = []\<rparr>"

definition pids :: "sched \<Rightarrow> pid_t list" where
  "pids s = map pid (process_list s)"

definition runnable :: "pcb_t \<Rightarrow> bool" where
  "runnable item \<longleftrightarrow> status item = PROCESS_STATUS_RUNNING \<or> status item = PROCESS_STATUS_READY"

definition runnable_pids :: "sched \<Rightarrow> pid_t set" where
  "runnable_pids s = {p. \<exists>x \<in> set (process_list s). pid x = p \<and> runnable x}"

definition sched_wf :: "pid_t set \<Rightarrow> sched \<Rightarrow> bool" where
  "sched_wf D s \<longleftrightarrow>
     distinct (pids s) \<and> (\<forall>p \<in> set (pids s). 0 < sint p \<and> sint p < sint (next_pid s))
   \<and> current_pid s \<in> set (pids s)
   \<and> distinct (low_priority_queue s) \<and> distinct (high_priority_queue s)
   \<and> set (high_priority_queue s) \<subseteq> set (low_priority_queue s)
   \<and> set (low_priority_queue s) = runnable_pids s - D
   \<and> (\<forall>x \<in> set (process_list s). length (gpr (ctx x)) = 13)"

definition sched_inv :: "sched \<Rightarrow> bool" where
  "sched_inv s \<longleftrightarrow> sched_wf {} s \<and> current_pid s \<in> set (low_priority_queue s)"

section \<open>Lookup and update\<close>

lemma copy_simps [simp]: "copy_ctx a b = b" "copy_event e f = f" "copy_pcb p q = q"
  by (simp_all add: copy_ctx_def copy_event_def copy_pcb_def)

interpretation process_table: keyed_table pid process_list "\<lambda>p s. find_process s p"
  "\<lambda>p f s. s\<lparr>process_list := update_first (\<lambda>item. pid item = p) f (process_list s)\<rparr>"
  by unfold_locales (simp_all add: find_process_def)

lemma find_process_None: "find_process s p = None \<longleftrightarrow> p \<notin> set (pids s)"
  by (simp add: process_table.look_None pids_def)

lemma find_process_Some:
  "distinct (pids s) \<Longrightarrow> find_process s p = Some x \<longleftrightarrow> x \<in> set (process_list s) \<and> pid x = p"
  using process_table.look_SomeD process_table.look_mem unfolding pids_def by blast

lemma same_pid:
  "distinct (pids s) \<Longrightarrow> x \<in> set (process_list s) \<Longrightarrow> y \<in> set (process_list s) \<Longrightarrow> pid x = pid y \<Longrightarrow> x = y"
  by (auto simp: pids_def distinct_map inj_on_def)

lemma find_process_cong [simp]:
  "find_process (s\<lparr>current_pid := a\<rparr>) = find_process s"
  "find_process (s\<lparr>low_priority_queue := l\<rparr>) = find_process s"
  "find_process (s\<lparr>high_priority_queue := l\<rparr>) = find_process s"
  "find_process (s\<lparr>events := es\<rparr>) = find_process s"
  "find_process (s\<lparr>next_pid := n\<rparr>) = find_process s"
  "find_process (s\<lparr>current_stack_break := b\<rparr>) = find_process s"
  "find_process (s\<lparr>ram := m\<rparr>) = find_process s"
  "find_process (s\<lparr>uart0 := u\<rparr>) = find_process s"
  by (simp_all add: find_process_def fun_eq_iff)

lemma pids_cong [simp]:
  "pids (s\<lparr>current_pid := a\<rparr>) = pids s"
  "pids (s\<lparr>low_priority_queue := l\<rparr>) = pids s"
  "pids (s\<lparr>high_priority_queue := l\<rparr>) = pids s"
  "pids (s\<lparr>events := es\<rparr>) = pids s"
  "pids (s\<lparr>next_pid := n\<rparr>) = pids s"
  "pids (s\<lparr>current_stack_break := b\<rparr>) = pids s"
  "pids (s\<lparr>ram := m\<rparr>) = pids s"
  "pids (s\<lparr>uart0 := u\<rparr>) = pids s"
  by (simp_all add: pids_def)

lemma runnable_pids_cong [simp]:
  "runnable_pids (s\<lparr>current_pid := a\<rparr>) = runnable_pids s"
  "runnable_pids (s\<lparr>low_priority_queue := l\<rparr>) = runnable_pids s"
  "runnable_pids (s\<lparr>high_priority_queue := l\<rparr>) = runnable_pids s"
  "runnable_pids (s\<lparr>events := es\<rparr>) = runnable_pids s"
  "runnable_pids (s\<lparr>next_pid := n\<rparr>) = runnable_pids s"
  "runnable_pids (s\<lparr>current_stack_break := b\<rparr>) = runnable_pids s"
  "runnable_pids (s\<lparr>ram := m\<rparr>) = runnable_pids s"
  "runnable_pids (s\<lparr>uart0 := u\<rparr>) = runnable_pids s"
  by (simp_all add: runnable_pids_def)

text \<open>Writing fields of one process: a map over the list, since PIDs are distinct.\<close>

definition on_process :: "pid_t \<Rightarrow> (pcb_t \<Rightarrow> pcb_t) \<Rightarrow> sched \<Rightarrow> sched" where
  "on_process p f s = s\<lparr>process_list := map (\<lambda>x. if pid x = p then f x else x) (process_list s)\<rparr>"

lemma modify_process_eq:
  "distinct (pids s) \<Longrightarrow> p \<in> set (pids s) \<Longrightarrow> modify_process p f s = Some (on_process p f s)"
proof -
  assume "distinct (pids s)" "p \<in> set (pids s)"
  then show ?thesis
    using find_process_None [of s p]
    by (auto simp: modify_process_def on_process_def update_first_map pids_def split: option.split)
qed

lemma modify_process_None: "p \<notin> set (pids s) \<Longrightarrow> modify_process p f s = None"
  by (simp add: modify_process_def find_process_None [symmetric])

lemma on_process_fields [simp]:
  "current_pid (on_process p f s) = current_pid s" "next_pid (on_process p f s) = next_pid s"
  "low_priority_queue (on_process p f s) = low_priority_queue s"
  "high_priority_queue (on_process p f s) = high_priority_queue s"
  "events (on_process p f s) = events s" "ram (on_process p f s) = ram s"
  "uart0 (on_process p f s) = uart0 s" "current_stack_break (on_process p f s) = current_stack_break s"
  by (simp_all add: on_process_def)

lemma pids_on_process: "(\<And>x. pid (f x) = pid x) \<Longrightarrow> pids (on_process p f s) = pids s"
  by (simp add: pids_def on_process_def)

lemma set_process_list_on_process:
  "set (process_list (on_process p f s)) = (\<lambda>x. if pid x = p then f x else x) ` set (process_list s)"
  by (simp add: on_process_def)

lemma runnable_pids_on_process_same:
  assumes "\<And>x. pid (f x) = pid x" "\<And>x. x \<in> set (process_list s) \<Longrightarrow> pid x = p \<Longrightarrow> runnable (f x) = runnable x"
  shows "runnable_pids (on_process p f s) = runnable_pids s"
  using assms unfolding runnable_pids_def set_process_list_on_process bex_simps
  by (intro Collect_cong bex_cong refl) (auto split: if_split)

lemma runnable_pids_on_process_stop:
  assumes "\<And>x. pid (f x) = pid x" "\<And>x. \<not> runnable (f x)"
  shows "runnable_pids (on_process p f s) = runnable_pids s - {p}"
  using assms unfolding runnable_pids_def set_process_list_on_process bex_simps by auto

section \<open>Well-formed states\<close>

lemma sched_wfD:
  assumes "sched_wf D s"
  shows "distinct (pids s)" "current_pid s \<in> set (pids s)"
    "distinct (low_priority_queue s)" "distinct (high_priority_queue s)"
    "set (high_priority_queue s) \<subseteq> set (low_priority_queue s)"
    "set (low_priority_queue s) = runnable_pids s - D"
    "p \<in> set (pids s) \<Longrightarrow> 0 < sint p \<and> sint p < sint (next_pid s)"
    "x \<in> set (process_list s) \<Longrightarrow> length (gpr (ctx x)) = 13"
  using assms by (auto simp: sched_wf_def)

lemma runnable_pids_subset: "runnable_pids s \<subseteq> set (pids s)"
  by (auto simp: runnable_pids_def pids_def)

lemma sched_wf_on_process:
  assumes "sched_wf D s" "\<And>x. pid (f x) = pid x"
    "\<And>x. length (gpr (ctx x)) = 13 \<Longrightarrow> length (gpr (ctx (f x))) = 13"
    "runnable_pids (on_process p f s) - D' = runnable_pids s - D"
  shows "sched_wf D' (on_process p f s)"
  using assms by (auto simp: sched_wf_def pids_on_process set_process_list_on_process)

lemma sched_wf_remove:
  assumes "sched_wf D s"
  shows "sched_wf (insert p D) (remove_pid p 1 (remove_pid p 0 s))"
  using assms by (auto simp: sched_wf_def remove_pid_def)

lemma set_priority_1:
  "set_priority p 1 s = s\<lparr>low_priority_queue := filter (\<lambda>q. q \<noteq> p) (low_priority_queue s) @ [p]\<rparr>"
  by (simp add: set_priority_def add_pid_def remove_pid_def)

lemma set_priority_0:
  "set_priority p 0 s = s\<lparr>high_priority_queue := filter (\<lambda>q. q \<noteq> p) (high_priority_queue s) @ [p],
                          low_priority_queue := filter (\<lambda>q. q \<noteq> p) (low_priority_queue s) @ [p]\<rparr>"
  by (simp add: set_priority_def add_pid_def remove_pid_def)

lemma set_priority_other: "n \<noteq> 0 \<Longrightarrow> n \<noteq> 1 \<Longrightarrow> set_priority p n s = s"
  by (simp add: set_priority_def add_pid_def remove_pid_def)

lemma sched_wf_set_priority:
  assumes "sched_wf {} s" "p \<in> runnable_pids s"
  shows "sched_wf {} (set_priority p n s)"
  using assms
  by (cases "n = 0"; cases "n = 1")
     (auto simp: sched_wf_def set_priority_0 set_priority_1 set_priority_other)

section \<open>The scheduling decision\<close>

definition next_choice :: "sched \<Rightarrow> pid_t" where
  "next_choice s = (if high_priority_queue s \<noteq> [] then hd (high_priority_queue s)
                    else hd (low_priority_queue s))"

definition rotated :: "sched \<Rightarrow> sched" where
  "rotated s = (if high_priority_queue s \<noteq> []
                then s\<lparr>high_priority_queue := rotate1 (high_priority_queue s)\<rparr>
                else s\<lparr>low_priority_queue := rotate1 (low_priority_queue s)\<rparr>)"

definition saved :: "ctx_t \<Rightarrow> sched \<Rightarrow> sched" where
  "saved c s = on_process (current_pid s) (\<lambda>x. x\<lparr>ctx := c\<rparr>) s"

definition ctx_of :: "sched \<Rightarrow> pid_t \<Rightarrow> ctx_t" where
  "ctx_of s p = ctx (the (find_process s p))"

lemma next_choice_in:
  assumes "sched_wf D s" "low_priority_queue s \<noteq> []"
  shows "next_choice s \<in> set (low_priority_queue s)"
  using assms(2) sched_wfD(5) [OF assms(1)] hd_in_set by (force simp: next_choice_def)

lemma next_choice_known:
  assumes "sched_wf D s" "low_priority_queue s \<noteq> []"
  shows "next_choice s \<in> set (pids s)" "0 < sint (next_choice s)"
proof -
  show "next_choice s \<in> set (pids s)"
    using next_choice_in [OF assms] assms(1) runnable_pids_subset by (auto simp: sched_wf_def)
  then show "0 < sint (next_choice s)" using assms(1) by (auto simp: sched_wf_def)
qed

lemma sched_wf_rotated: "sched_wf D s \<Longrightarrow> sched_wf D (rotated s)"
  by (auto simp: rotated_def sched_wf_def)

lemma sched_wf_saved: "sched_wf D s \<Longrightarrow> length (gpr c) = 13 \<Longrightarrow> sched_wf D (saved c s)"
  unfolding saved_def
  by (rule sched_wf_on_process) (simp_all add: runnable_pids_on_process_same runnable_def)

lemma scheduler_run_picks:
  assumes "sched_wf D s" "low_priority_queue s \<noteq> []"
  shows "scheduler_run c s =
           (do { s2 \<leftarrow> save_current_process c (rotated s); run_process c (next_choice s) s2 })"
proof -
  have nz: "p \<noteq> - 1" if "p \<in> set (high_priority_queue s)" for p
  proof
    assume "p = - 1"
    then have "- 1 \<in> set (pids s)"
      using that sched_wfD(5,6) [OF assms(1)] runnable_pids_subset [of s] by auto
    then show False using sched_wfD(7) [OF assms(1), of "- 1"] by simp
  qed
  show ?thesis
    using nz assms(2)
    by (auto simp: scheduler_run_def get_next_process_def next_choice_def rotated_def
             split: list.split)
qed

lemma scheduler_run_eq:
  assumes "sched_wf D s" "low_priority_queue s \<noteq> []"
  shows "scheduler_run c s =
           Some (ctx_of (saved c s) (next_choice s),
                 (saved c (rotated s))\<lparr>current_pid := next_choice s\<rparr>)"
proof -
  have wf: "sched_wf D (rotated s)" using assms(1) by (rule sched_wf_rotated)
  have pl: "process_list (saved c (rotated s)) = process_list (saved c s)"
    by (simp add: saved_def rotated_def on_process_def)
  then have fp: "find_process (saved c (rotated s)) p = find_process (saved c s) p" for p
    by (simp add: find_process_def)
  have "pids (saved c s) = pids s" by (simp add: saved_def pids_on_process)
  then obtain x where x: "find_process (saved c s) (next_choice s) = Some x"
    using next_choice_known(1) [OF assms] find_process_None [of "saved c s" "next_choice s"] by auto
  have "save_current_process c (rotated s) = Some (saved c (rotated s))"
    using sched_wfD(1,2) [OF wf] by (simp add: save_current_process_def saved_def modify_process_eq)
  then show ?thesis
    using x by (simp add: scheduler_run_picks [OF assms] run_process_def fp ctx_of_def)
qed

lemma scheduler_run_wf:
  assumes "sched_wf D s" "low_priority_queue s \<noteq> []" "length (gpr c) = 13"
    "scheduler_run c s = Some (c', s')"
  shows "sched_wf D s'" "current_pid s' = next_choice s" "length (gpr c') = 13"
    "current_pid s' \<in> set (low_priority_queue s')"
    "set (low_priority_queue s') = set (low_priority_queue s)"
    "pids s' = pids s" "next_pid s' = next_pid s" "runnable_pids s' = runnable_pids s"
proof -
  have c': "c' = ctx_of (saved c s) (next_choice s)"
    and s': "s' = (saved c (rotated s))\<lparr>current_pid := next_choice s\<rparr>"
    using assms(4) by (simp_all add: scheduler_run_eq [OF assms(1,2)])
  have wf: "sched_wf D (saved c (rotated s))"
    using assms(1,3) by (simp add: sched_wf_rotated sched_wf_saved)
  have known: "next_choice s \<in> set (pids s)" using assms(1,2) by (rule next_choice_known)
  show pids: "pids s' = pids s" by (simp add: s' saved_def pids_on_process rotated_def)
  show "sched_wf D s'" using wf known pids by (auto simp: sched_wf_def s')
  show "current_pid s' = next_choice s" by (simp add: s')
  show low: "set (low_priority_queue s') = set (low_priority_queue s)"
    by (simp add: s' saved_def rotated_def)
  show "current_pid s' \<in> set (low_priority_queue s')"
    using next_choice_in [OF assms(1,2)] low by (simp add: s')
  show "next_pid s' = next_pid s" by (simp add: s' saved_def rotated_def)
  show "runnable_pids s' = runnable_pids s"
    by (simp add: s' saved_def rotated_def runnable_pids_on_process_same runnable_def)
  have wf2: "sched_wf D (saved c s)" using assms(1,3) by (simp add: sched_wf_saved)
  obtain x where "find_process (saved c s) (next_choice s) = Some x"
    using known find_process_None [of "saved c s" "next_choice s"]
    by (auto simp: saved_def pids_on_process)
  moreover from this have "x \<in> set (process_list (saved c s))"
    using find_process_Some [OF sched_wfD(1) [OF wf2]] by simp
  ultimately show "length (gpr c') = 13"
    using sched_wfD(8) [OF wf2, of x] by (simp add: c' ctx_of_def)
qed

lemma scheduler_run_empty:
  assumes "sched_wf D s" "low_priority_queue s = []"
  shows "scheduler_run c s = None"
proof -
  have high: "high_priority_queue s = []" using sched_wfD(5) [OF assms(1)] assms(2) by simp
  have minus: "- 1 \<notin> set (pids s)" using sched_wfD(7) [OF assms(1), of "- 1"] by auto
  have save: "save_current_process c s = Some (saved c s)"
    using sched_wfD(1,2) [OF assms(1)] by (simp add: save_current_process_def saved_def modify_process_eq)
  have "find_process (saved c s) (- 1) = None"
    using minus find_process_None [of "saved c s" "- 1"] by (simp add: saved_def pids_on_process)
  then show ?thesis
    using high assms(2) save by (simp add: scheduler_run_def get_next_process_def run_process_def)
qed

lemma scheduler_run_Some_low:
  "sched_wf D s \<Longrightarrow> scheduler_run c s = Some r \<Longrightarrow> low_priority_queue s \<noteq> []"
  using scheduler_run_empty by fastforce

section \<open>Events\<close>

definition waiting :: "event_t \<Rightarrow> pcb_t \<Rightarrow> bool" where
  "waiting e x \<longleftrightarrow> status x = PROCESS_STATUS_BLOCKED
     \<and> event (blocked_until x) = event e \<and> from_process (blocked_until x) = from_process e"

definition wake :: "event_t \<Rightarrow> pcb_t \<Rightarrow> pcb_t" where
  "wake e x = (if waiting e x
     then x\<lparr>status := PROCESS_STATUS_RUNNING, ctx := (ctx x)\<lparr>gpr := (gpr (ctx x))[0 := from_process e]\<rparr>\<rparr>
     else x)"

definition waiting_pids :: "event_t \<Rightarrow> sched \<Rightarrow> pid_t list" where
  "waiting_pids e s = map pid (filter (waiting e) (process_list s))"

lemma emit_loop_eq:
  assumes "distinct (map pid items)" "\<And>x. x \<in> set items \<Longrightarrow> waiting e x \<Longrightarrow> pid x \<notin> set (low_priority_queue s)"
  shows "emit_loop e items s =
           (map (wake e) items,
            s\<lparr>low_priority_queue := low_priority_queue s @ map pid (filter (waiting e) items)\<rparr>)"
  using assms
proof (induction items arbitrary: s)
  case Nil
  then show ?case by simp
next
  case (Cons x xs)
  have fq: "waiting e x \<Longrightarrow> filter (\<lambda>q. q \<noteq> pid x) (low_priority_queue s) = low_priority_queue s"
    using Cons.prems(2) [of x] by (intro filter_True) auto
  have new: "emit_loop e xs (if waiting e x then set_priority (pid x) 1 s else s) =
     (map (wake e) xs, s\<lparr>low_priority_queue := low_priority_queue s @ map pid (filter (waiting e) (x # xs))\<rparr>)"
    using Cons.prems by (subst Cons.IH) (auto simp: set_priority_1 fq image_iff)
  then show ?case
    by (cases "waiting e x") (simp_all add: wake_def waiting_def [symmetric])
qed

lemma waiting_not_runnable: "waiting e x \<Longrightarrow> \<not> runnable x"
  by (simp add: waiting_def runnable_def)

lemma pid_wake [simp]: "pid (wake e x) = pid x"
  by (simp add: wake_def)

lemma runnable_wake: "runnable (wake e x) \<longleftrightarrow> runnable x \<or> waiting e x"
  by (simp add: wake_def runnable_def)

lemma waiting_not_queued:
  assumes "sched_wf D s" "x \<in> set (process_list s)" "waiting e x"
  shows "pid x \<notin> set (low_priority_queue s)"
proof -
  have "y = x" if "y \<in> set (process_list s)" "pid y = pid x" for y
    using sched_wfD(1) [OF assms(1)] that assms(2) by (auto simp: pids_def distinct_map dest: inj_onD)
  then show ?thesis
    using sched_wfD(6) [OF assms(1)] waiting_not_runnable [OF assms(3)] by (auto simp: runnable_pids_def)
qed

definition recorded :: "event_t \<Rightarrow> sched \<Rightarrow> sched" where
  "recorded e s = (if event e \<noteq> PROCESS_EVENT_SUSPENDED \<and> event e \<noteq> PROCESS_EVENT_UNSUSPENDED
                   then s\<lparr>events := events s @ [e]\<rparr> else s)"

lemma scheduler_emit_event_eq:
  assumes "sched_wf D s"
  shows "scheduler_emit_event e s =
           (recorded e s)\<lparr>low_priority_queue := low_priority_queue s @ waiting_pids e s,
                          process_list := map (wake e) (process_list s)\<rparr>"
proof -
  have "emit_loop e (process_list (recorded e s)) (recorded e s) =
      (map (wake e) (process_list s),
       (recorded e s)\<lparr>low_priority_queue := low_priority_queue s @ waiting_pids e s\<rparr>)"
    using sched_wfD(1) [OF assms] waiting_not_queued [OF assms]
    by (subst emit_loop_eq) (auto simp: recorded_def waiting_pids_def pids_def)
  then show ?thesis by (simp add: scheduler_emit_event_def recorded_def [symmetric])
qed

lemma runnable_pids_emit:
  assumes "sched_wf D s"
  shows "runnable_pids (scheduler_emit_event e s) = runnable_pids s \<union> set (waiting_pids e s)"
  by (auto simp: scheduler_emit_event_eq [OF assms] runnable_pids_def runnable_wake waiting_pids_def)

lemma pids_emit: "sched_wf D s \<Longrightarrow> pids (scheduler_emit_event e s) = pids s"
  by (simp add: scheduler_emit_event_eq pids_def comp_def)

lemma sched_wf_emit:
  assumes "sched_wf {} s"
  shows "sched_wf {} (scheduler_emit_event e s)"
proof -
  have d: "distinct (low_priority_queue s @ waiting_pids e s)"
    using sched_wfD(1,3) [OF assms] waiting_not_queued [OF assms]
    by (auto simp: waiting_pids_def pids_def distinct_map inj_on_def)
  have g: "length (gpr (ctx (wake e x))) = 13" if "x \<in> set (process_list s)" for x
    using sched_wfD(8) [OF assms that] by (simp add: wake_def)
  show ?thesis
    using assms d g runnable_pids_emit [OF assms, of e] pids_emit [OF assms, of e]
    by (auto simp: sched_wf_def scheduler_emit_event_eq [OF assms] recorded_def)
qed

lemma emit_fields:
  assumes "sched_wf D s"
  shows "current_pid (scheduler_emit_event e s) = current_pid s"
    "next_pid (scheduler_emit_event e s) = next_pid s"
    "set (low_priority_queue s) \<subseteq> set (low_priority_queue (scheduler_emit_event e s))"
    "high_priority_queue (scheduler_emit_event e s) = high_priority_queue s"
  by (auto simp: scheduler_emit_event_eq [OF assms] recorded_def)

lemma sched_inv_emit: "sched_inv s \<Longrightarrow> sched_inv (scheduler_emit_event e s)"
  using sched_wf_emit [of s e] emit_fields [of "{}" s e] by (auto simp: sched_inv_def)

section \<open>Steps of the kernel and reachable states\<close>

text \<open>
  What happens to the scheduler between two instructions of user programs: \<open>user\<close> is the
  running program itself, which may write registers and memory; the others are the
  kernel's entry points, with the results \<^verbatim>\<open>kernel_handler_svc\<close> stores.  No entry point checks
  its arguments, and neither does the relation; each step is labelled with its call.
\<close>

datatype kcall = Call_user | Call_tick | Call_exit | Call_kill pid_t | Call_block event_t
  | Call_setpriority pid_t i32 | Call_fork | Call_exec

inductive kstep :: "kcall \<Rightarrow> ctx_t \<times> sched \<Rightarrow> ctx_t \<times> sched \<Rightarrow> bool" where
  user: "length (gpr c') = 13 \<Longrightarrow> kstep Call_user (c, s) (c', s\<lparr>ram := m\<rparr>)"
| tick: "scheduler_run c s = Some (c', s') \<Longrightarrow> kstep Call_tick (c, s) (c', s')"
| exit: "scheduler_exit c s = Some (c', s') \<Longrightarrow> kstep Call_exit (c, s) (c', s')"
| kill: "scheduler_kill c p s = Some (r, c', s') \<Longrightarrow>
    kstep (Call_kill p) (c, s) (c'\<lparr>gpr := (gpr c')[0 := r]\<rparr>, s')"
| block: "scheduler_block_process c e s = Some (r, c', s') \<Longrightarrow>
    kstep (Call_block e) (c, s) (c'\<lparr>gpr := (gpr c')[0 := r]\<rparr>, s')"
| setpriority: "scheduler_setpriority p n s = (r, s') \<Longrightarrow>
    kstep (Call_setpriority p n) (c, s) (c\<lparr>gpr := (gpr c)[0 := r]\<rparr>, s')"
| fork: "scheduler_fork fresh c sp0 fp s = Some (r, s') \<Longrightarrow>
    kstep Call_fork (c, s) (c\<lparr>gpr := (gpr c)[0 := r]\<rparr>, s')"
| exec: "scheduler_exec c function argc argv s = Some (r, c', s') \<Longrightarrow> kstep Call_exec (c, s) (c', s')"

inductive_cases kstepE: "kstep call (c, s) (c', s')"

text \<open>
  What the callers must respect, since the kernel does not check it: a process is put into a queue
  only while it can run, and a fork happens only while there are PIDs left.
\<close>

fun considerate_call :: "kcall \<Rightarrow> sched \<Rightarrow> bool" where
  "considerate_call (Call_setpriority p n) s = (n \<in> {0, 1} \<longrightarrow> p \<in> runnable_pids s)"
| "considerate_call Call_fork s = (sint (next_pid s) < 2 ^ 31 - 1)"
| "considerate_call _ s = True"

text \<open>The states reached by the calls that \<open>allowed\<close> admits; \<open>\<lambda>_ _. True\<close> admits them all.\<close>

inductive reachable :: "(kcall \<Rightarrow> sched \<Rightarrow> bool) \<Rightarrow> ctx_t \<times> sched \<Rightarrow> bool" for allowed where
  start: "scheduler_initialise fresh entry c (boot_sched stack_top m) = Some st \<Longrightarrow>
    length (gpr (ctx fresh)) = 13 \<Longrightarrow> reachable allowed st"
| step: "reachable allowed st \<Longrightarrow> kstep call st st' \<Longrightarrow> allowed call (snd st) \<Longrightarrow> reachable allowed st'"

section \<open>Every step keeps the invariant\<close>

lemma sched_wf_D_irrelevant:
  "sched_wf D s \<Longrightarrow> p \<notin> runnable_pids s \<Longrightarrow> sched_wf (insert p D) s \<and> sched_wf (D - {p}) s"
  by (auto simp: sched_wf_def)

lemma sched_wf_terminate:
  assumes "sched_wf {p} s"
  shows "sched_wf {} (on_process p (\<lambda>x. x\<lparr>status := PROCESS_STATUS_TERMINATED\<rparr>) s)"
  by (rule sched_wf_on_process [OF assms]) (simp_all add: runnable_pids_on_process_stop runnable_def)

lemma sched_wf_stop:
  assumes "sched_wf {} s"
  shows "sched_wf {} (remove_pid p 1 (remove_pid p 0
     (on_process p (\<lambda>x. x\<lparr>blocked_until := e, status := PROCESS_STATUS_BLOCKED\<rparr>) s)))"
proof -
  have r: "runnable_pids (on_process p (\<lambda>x. x\<lparr>blocked_until := e, status := PROCESS_STATUS_BLOCKED\<rparr>) s)
             = runnable_pids s - {p}"
    by (rule runnable_pids_on_process_stop) (simp_all add: runnable_def)
  show ?thesis
    using assms r
    by (auto simp: sched_wf_def remove_pid_def pids_on_process set_process_list_on_process)
qed

lemma inv_run:
  assumes "sched_inv s" "length (gpr c) = 13" "scheduler_run c s = Some (c', s')"
  shows "sched_inv s' \<and> length (gpr c') = 13"
proof -
  have wf: "sched_wf {} s" using assms(1) by (simp add: sched_inv_def)
  have low: "low_priority_queue s \<noteq> []" using wf assms(3) by (rule scheduler_run_Some_low)
  show ?thesis
    using scheduler_run_wf [OF wf low assms(2,3)] by (simp add: sched_inv_def)
qed

text \<open>Removing a process from the queues, running another and marking the first.\<close>

lemma removed_run:
  assumes "sched_wf {} s" "length (gpr c) = 13"
    "scheduler_run c (remove_pid p 1 (remove_pid p 0 s)) = Some (c', s')"
  shows "sched_wf {p} s'" "current_pid s' \<in> set (low_priority_queue s')"
    "length (gpr c') = 13" "pids s' = pids s" "current_pid s' \<noteq> p"
proof -
  have wf: "sched_wf {p} (remove_pid p 1 (remove_pid p 0 s))"
    using assms(1) by (rule sched_wf_remove)
  note run = scheduler_run_wf [OF wf scheduler_run_Some_low [OF wf assms(3)] assms(2,3)]
  show w: "sched_wf {p} s'" and l: "current_pid s' \<in> set (low_priority_queue s')"
    and "length (gpr c') = 13" using run by simp_all
  show "pids s' = pids s" using run(6) by (simp add: remove_pid_def pids_def)
  show "current_pid s' \<noteq> p" using l sched_wfD(6) [OF w] by auto
qed

definition terminated :: "pid_t \<Rightarrow> sched \<Rightarrow> sched" where
  "terminated p s = on_process p (\<lambda>x. x\<lparr>status := PROCESS_STATUS_TERMINATED\<rparr>) s"

lemma inv_terminated:
  assumes "sched_wf {p} s" "current_pid s \<in> set (low_priority_queue s)"
  shows "p \<in> set (pids s) \<Longrightarrow>
           modify_process p (\<lambda>q. q\<lparr>status := PROCESS_STATUS_TERMINATED\<rparr>) s = Some (terminated p s)"
    "sched_inv (terminated p s)" "sched_inv (scheduler_emit_event e (terminated p s))"
proof -
  show "p \<in> set (pids s) \<Longrightarrow>
           modify_process p (\<lambda>q. q\<lparr>status := PROCESS_STATUS_TERMINATED\<rparr>) s = Some (terminated p s)"
    using sched_wfD(1) [OF assms(1)] by (simp add: modify_process_eq terminated_def)
  show "sched_inv (terminated p s)"
    using sched_wf_terminate [OF assms(1)] assms(2) by (simp add: sched_inv_def terminated_def)
  then show "sched_inv (scheduler_emit_event e (terminated p s))" by (rule sched_inv_emit)
qed

lemma inv_exit:
  assumes "sched_inv s" "length (gpr c) = 13" "scheduler_exit c s = Some (c', s')"
  shows "sched_inv s' \<and> length (gpr c') = 13"
proof -
  have wf: "sched_wf {} s" using assms(1) by (simp add: sched_inv_def)
  let ?p = "current_pid s"
  obtain c1 s1 where run: "scheduler_run c (remove_pid ?p 1 (remove_pid ?p 0 s)) = Some (c1, s1)"
    using assms(3) by (cases "scheduler_run c (remove_pid ?p 1 (remove_pid ?p 0 s))")
      (auto simp: scheduler_exit_def)
  note r = removed_run [OF wf assms(2) run]
  have "?p \<in> set (pids s1)" using r(4) sched_wfD(2) [OF wf] by simp
  with inv_terminated [OF r(1,2)] show ?thesis
    using assms(3) r(3,5) run by (auto simp: scheduler_exit_def Let_def)
qed

lemma inv_kill:
  assumes "sched_inv s" "length (gpr c) = 13" "scheduler_kill c p s = Some (n, c', s')"
  shows "sched_inv s' \<and> length (gpr c') = 13"
proof -
  have wf: "sched_wf {} s" using assms(1) by (simp add: sched_inv_def)
  obtain c1 s1 where run: "scheduler_run c (remove_pid p 1 (remove_pid p 0 s)) = Some (c1, s1)"
    using assms(3) by (cases "scheduler_run c (remove_pid p 1 (remove_pid p 0 s))")
      (auto simp: scheduler_kill_def)
  note r = removed_run [OF wf assms(2) run]
  have "p \<in> set (pids s1)"
    using assms(3) run modify_process_None by (fastforce simp: scheduler_kill_def)
  with inv_terminated [OF r(1,2)] show ?thesis
    using assms(3) r(3) run by (auto simp: scheduler_kill_def)
qed

text \<open>The state in which a blocking process gives up the processor.\<close>

definition marked_blocked :: "ctx_t \<Rightarrow> event_t \<Rightarrow> sched \<Rightarrow> sched" where
  "marked_blocked c e s = remove_pid (current_pid s) 1 (remove_pid (current_pid s) 0
     (on_process (current_pid s) (\<lambda>x. x\<lparr>blocked_until := e, status := PROCESS_STATUS_BLOCKED\<rparr>) (saved c s)))"

definition blocked_event :: "sched \<Rightarrow> event_t" where
  "blocked_event s = \<lparr>event = PROCESS_EVENT_BLOCKED, from_process = current_pid s\<rparr>"

lemma sched_wf_marked_blocked: "sched_wf {} s \<Longrightarrow> length (gpr c) = 13 \<Longrightarrow> sched_wf {} (marked_blocked c e s)"
  unfolding marked_blocked_def by (intro sched_wf_stop sched_wf_saved)

lemma block_process_eq:
  assumes "sched_wf {} s" "length (gpr c) = 13"
  shows "scheduler_block_process c e s = do {
    (c', s') \<leftarrow> scheduler_run c (scheduler_emit_event (blocked_event s) (marked_blocked c e s));
    Some (from_process e, c', s') }"
proof -
  have wf1: "sched_wf {} (saved c s)" using assms by (rule sched_wf_saved)
  have "save_current_process c s = Some (saved c s)"
    using sched_wfD(1,2) [OF assms(1)] by (simp add: save_current_process_def saved_def modify_process_eq)
  moreover have "modify_process (current_pid s) (\<lambda>x. x\<lparr>blocked_until := e, status := PROCESS_STATUS_BLOCKED\<rparr>) (saved c s)
      = Some (on_process (current_pid s) (\<lambda>x. x\<lparr>blocked_until := e, status := PROCESS_STATUS_BLOCKED\<rparr>) (saved c s))"
    using sched_wfD(1,2) [OF wf1] by (simp add: modify_process_eq saved_def)
  ultimately show ?thesis
    by (auto simp: scheduler_block_process_def saved_def remove_pid_def Let_def marked_blocked_def blocked_event_def)
qed

lemma block_process_run:
  assumes "sched_wf {} s" "length (gpr c) = 13" "scheduler_block_process c e s = Some (n, c', s')"
  shows "scheduler_run c (scheduler_emit_event (blocked_event s) (marked_blocked c e s)) = Some (c', s')"
    "n = from_process e"
  using assms(3) by (auto simp: block_process_eq [OF assms(1,2)] split: bind_splits)

lemma inv_block:
  assumes "sched_inv s" "length (gpr c) = 13" "scheduler_block_process c e s = Some (n, c', s')"
  shows "sched_inv s' \<and> length (gpr c') = 13"
proof -
  have wf: "sched_wf {} s" using assms(1) by (simp add: sched_inv_def)
  note run = block_process_run(1) [OF wf assms(2,3)]
  note wf4 = sched_wf_emit [OF sched_wf_marked_blocked [OF wf assms(2)], of "blocked_event s" e]
  show ?thesis
    using scheduler_run_wf [OF wf4 scheduler_run_Some_low [OF wf4 run] assms(2) run] by (simp add: sched_inv_def)
qed

lemma inv_setpriority:
  assumes "sched_inv s" "n \<in> {0, 1} \<longrightarrow> p \<in> runnable_pids s" "scheduler_setpriority p n s = (r, s')"
  shows "sched_inv s'"
proof (cases "n \<in> {0, 1}")
  case True
  have wf: "sched_wf {} s" using assms(1) by (simp add: sched_inv_def)
  have s': "s' = set_priority p n s" using assms(3) by (simp add: scheduler_setpriority_def)
  have "current_pid s' \<in> set (low_priority_queue s')"
    using assms(1) True by (auto simp: s' sched_inv_def set_priority_0 set_priority_1)
  then show ?thesis using sched_wf_set_priority [OF wf, of p n] assms(2) True by (auto simp: sched_inv_def s')
next
  case False
  then show ?thesis using assms(1,3) by (auto simp: scheduler_setpriority_def set_priority_other)
qed

text \<open>The new process of \<^verbatim>\<open>scheduler_fork\<close> and the memory it leaves.\<close>

definition forked_pcb :: "ctx_t \<Rightarrow> u32 \<Rightarrow> u32 \<Rightarrow> sched \<Rightarrow> pcb_t \<Rightarrow> pcb_t" where
  "forked_pcb c sp0 fp s parent =
     parent\<lparr>pid := next_pid s, status := PROCESS_STATUS_READY,
       ctx := c\<lparr>gpr := (gpr c)[0 := 0, 11 := current_stack_break s - (fp - gpr c ! 11)],
                sp := current_stack_break s - (fp - sp0)\<rparr>\<rparr>"

definition forked_ram :: "ctx_t \<Rightarrow> u32 \<Rightarrow> u32 \<Rightarrow> sched \<Rightarrow> memory" where
  "forked_ram c sp0 fp s =
     (let new_break = current_stack_break s; new_fp = new_break - (fp - gpr c ! 11)
      in store32 (store32 (store32 (store32
           (stdmem_copy (ram s) (new_break - (fp - sp0)) sp0 (fp - sp0))
           (new_fp - 12) new_break) (new_fp - 16) new_break) new_fp new_break) (new_fp + 24) new_break)"

definition forked :: "ctx_t \<Rightarrow> u32 \<Rightarrow> u32 \<Rightarrow> sched \<Rightarrow> pcb_t \<Rightarrow> sched" where
  "forked c sp0 fp s parent =
     s\<lparr>next_pid := next_pid s + 1, current_stack_break := current_stack_break s - 2000,
       ram := forked_ram c sp0 fp s, process_list := process_list s @ [forked_pcb c sp0 fp s parent],
       low_priority_queue := filter (\<lambda>q. q \<noteq> next_pid s) (low_priority_queue s) @ [next_pid s]\<rparr>"

lemma scheduler_fork_eq:
  assumes "sched_wf {} s" "find_process s (current_pid s) = Some parent"
  shows "scheduler_fork fresh c sp0 fp s =
           Some (next_pid s, scheduler_emit_event
                   \<lparr>event = PROCESS_EVENT_CREATED, from_process = next_pid s\<rparr> (forked c sp0 fp s parent))"
proof -
  have "\<not> sint (current_pid s) < 1"
    using sched_wfD(2) [OF assms(1)] sched_wfD(7) [OF assms(1), of "current_pid s"] by simp
  then show ?thesis
    using assms(2)
    by (simp add: scheduler_fork_def get_new_pid_def set_stack_break_def set_priority_1
          forked_def forked_pcb_def forked_ram_def Let_def)
qed

lemma sched_wf_forked:
  assumes "sched_wf {} s" "find_process s (current_pid s) = Some parent"
    "sint (next_pid s) < 2 ^ 31 - 1" "length (gpr c) = 13"
  shows "sched_wf {} (forked c sp0 fp s parent)"
proof -
  have new: "next_pid s \<notin> set (pids s)" using sched_wfD(7) [OF assms(1), of "next_pid s"] by auto
  then have newl: "next_pid s \<notin> set (low_priority_queue s)"
    using sched_wfD(6) [OF assms(1)] runnable_pids_subset [of s] by auto
  have pl: "pids (forked c sp0 fp s parent) = pids s @ [next_pid s]"
    by (simp add: forked_def pids_def forked_pcb_def)
  have rp: "runnable_pids (forked c sp0 fp s parent) = insert (next_pid s) (runnable_pids s)"
    by (auto simp: forked_def runnable_pids_def forked_pcb_def runnable_def)
  have pos: "0 < sint (next_pid s)"
    using sched_wfD(2) [OF assms(1)] sched_wfD(7) [OF assms(1), of "current_pid s"] by simp
  have less: "p \<in> set (pids s) \<Longrightarrow> 0 < sint p \<and> sint p < sint (next_pid s) + 1" for p
    using sched_wfD(7) [OF assms(1), of p] by simp
  show ?thesis
    unfolding sched_wf_def pl rp
    using assms(1,4) new newl pos less sint_Suc [OF assms(3)]
    by (auto simp: sched_wf_def forked_def forked_pcb_def)
qed

lemma inv_fork:
  assumes "sched_inv s" "sint (next_pid s) < 2 ^ 31 - 1" "length (gpr c) = 13"
    "scheduler_fork fresh c sp0 fp s = Some (r, s')"
  shows "sched_inv s'"
proof -
  have wf: "sched_wf {} s" using assms(1) by (simp add: sched_inv_def)
  obtain parent where p: "find_process s (current_pid s) = Some parent"
    using sched_wfD(2) [OF wf] find_process_None [of s "current_pid s"] by auto
  have "sched_inv (forked c sp0 fp s parent)"
    using sched_wf_forked [OF wf p assms(2,3)] assms(1) by (auto simp: sched_inv_def forked_def)
  then show ?thesis using assms(4) sched_inv_emit by (simp add: scheduler_fork_eq [OF wf p]) blast
qed

lemma inv_exec:
  assumes "sched_inv s" "length (gpr c) = 13" "scheduler_exec c function argc argv s = Some (r, c', s')"
  shows "sched_inv s' \<and> length (gpr c') = 13"
proof -
  have wf: "sched_wf {} s" using assms(1) by (simp add: sched_inv_def)
  let ?c = "c\<lparr>pc := function, gpr := (gpr c)[0 := argc, 1 := argv]\<rparr>"
  let ?f = "\<lambda>x. x\<lparr>status := PROCESS_STATUS_RUNNING\<rparr>"
  have wf1: "sched_wf {} (saved ?c s)" using wf assms(2) by (simp add: sched_wf_saved)
  have cur: "current_pid s \<in> runnable_pids (saved ?c s)"
    using assms(1) sched_wfD(6) [OF wf]
    by (simp add: sched_inv_def saved_def runnable_pids_on_process_same runnable_def)
  have run: "runnable x" if "x \<in> set (process_list (saved ?c s))" "pid x = current_pid s" for x
  proof -
    obtain y where "y \<in> set (process_list (saved ?c s))" "pid y = current_pid s" "runnable y"
      using cur by (auto simp: runnable_pids_def)
    moreover from this have "y = x"
      using that same_pid [OF sched_wfD(1) [OF wf1]] by simp
    ultimately show ?thesis by simp
  qed
  have wf2: "sched_wf {} (on_process (current_pid s) ?f (saved ?c s))"
    using run by (intro sched_wf_on_process [OF wf1])
      (auto simp: runnable_pids_on_process_same runnable_def)
  have "s' = on_process (current_pid s) ?f (saved ?c s) \<and> c' = ?c"
    using assms(3) sched_wfD(1,2) [OF wf] sched_wfD(1,2) [OF wf1]
    by (auto simp: scheduler_exec_def save_current_process_def modify_process_eq saved_def
               pids_on_process Let_def)
  then show ?thesis using wf2 assms(1,2) by (simp add: sched_inv_def saved_def)
qed

lemma kstep_inv:
  assumes "kstep call st st'" "considerate_call call (snd st)" "sched_inv (snd st)" "length (gpr (fst st)) = 13"
  shows "sched_inv (snd st') \<and> length (gpr (fst st')) = 13"
  using assms
proof (cases rule: kstep.cases)
  case (user c' c s m)
  then show ?thesis using assms(3) by (auto simp: sched_inv_def sched_wf_def)
next
  case (tick c s c' s')
  then show ?thesis using inv_run [of s c c' s'] assms(2-4) by simp
next
  case (exit c s c' s')
  then show ?thesis using inv_exit [of s c c' s'] assms(2-4) by simp
next
  case (kill c p s r c' s')
  then show ?thesis using inv_kill [of s c p r c' s'] assms(2-4) by simp
next
  case (block c e s r c' s')
  then show ?thesis using inv_block [of s c e r c' s'] assms(2-4) by simp
next
  case (setpriority p n s r s' c)
  then show ?thesis using inv_setpriority [of s n p r s'] assms(2-4) by simp
next
  case (fork fresh c sp0 fp s r s')
  then show ?thesis using inv_fork [of s c fresh sp0 fp r s'] assms(2-4) by simp
next
  case (exec c fn argc argv s r c' s')
  then show ?thesis using inv_exec [of s c fn argc argv r c' s'] assms(2-4) by simp
qed

lemma initialise_inv:
  assumes "scheduler_initialise fresh entry c (boot_sched stack_top m) = Some st" "length (gpr (ctx fresh)) = 13"
  shows "sched_inv (snd st) \<and> length (gpr (fst st)) = 13"
  using assms
  by (auto simp: scheduler_initialise_def boot_sched_def get_new_pid_def set_stack_break_def
        run_process_def find_process_def sched_inv_def sched_wf_def pids_def runnable_pids_def runnable_def)

lemma reachable_sched_inv:
  "reachable considerate_call st \<Longrightarrow> sched_inv (snd st) \<and> length (gpr (fst st)) = 13"
  by (induction rule: reachable.induct) (use initialise_inv kstep_inv in blast)+

section \<open>Round-robin\<close>

definition active_queue :: "sched \<Rightarrow> pid_t list" where
  "active_queue s = (if high_priority_queue s \<noteq> [] then high_priority_queue s else low_priority_queue s)"

text \<open>Timer ticks, one for each context the running program is interrupted in: the PIDs
  that get the processor.\<close>

fun tick_all :: "ctx_t list \<Rightarrow> sched \<Rightarrow> (pid_t list \<times> sched) option" where
  "tick_all [] s = Some ([], s)"
| "tick_all (c # cs) s = do {
     (c', s1) \<leftarrow> scheduler_run c s;
     (ps, s2) \<leftarrow> tick_all cs s1;
     Some (current_pid s1 # ps, s2) }"

lemma active_queue_run:
  assumes "sched_wf D s" "low_priority_queue s \<noteq> []" "scheduler_run c s = Some (c', s')"
  shows "active_queue s' = rotate1 (active_queue s)" "current_pid s' = hd (active_queue s)"
  using assms(3) by (auto simp: scheduler_run_eq [OF assms(1,2)] active_queue_def saved_def rotated_def
      next_choice_def)

lemma tick_all_round_robin:
  assumes "sched_inv s" "\<forall>c \<in> set cs. length (gpr c) = 13"
  shows "\<exists>s'. sched_inv s' \<and> tick_all cs s =
           Some (map (\<lambda>i. active_queue s ! (i mod length (active_queue s))) [0..<length cs], s')"
  using assms
proof (induction cs arbitrary: s)
  case Nil
  then show ?case by auto
next
  case (Cons c cs)
  have wf: "sched_wf {} s" and low: "low_priority_queue s \<noteq> []"
    using Cons.prems(1) by (auto simp: sched_inv_def)
  obtain c1 s1 where run: "scheduler_run c s = Some (c1, s1)"
    by (simp add: scheduler_run_eq [OF wf low])
  have "sched_inv s1" using inv_run [OF Cons.prems(1) _ run] Cons.prems(2) by simp
  moreover have "\<forall>c \<in> set cs. length (gpr c) = 13" using Cons.prems(2) by simp
  ultimately obtain s2 where s2: "sched_inv s2" "tick_all cs s1 =
      Some (map (\<lambda>i. active_queue s1 ! (i mod length (active_queue s1))) [0..<length cs], s2)"
    using Cons.IH by blast
  have ne: "active_queue s \<noteq> []" using low by (simp add: active_queue_def)
  have "map (\<lambda>i. active_queue s1 ! (i mod length (active_queue s1))) [0..<length cs]
      = map (\<lambda>i. active_queue s ! (Suc i mod length (active_queue s))) [0..<length cs]"
    using ne by (simp add: active_queue_run(1) [OF wf low run] nth_rotate1 mod_Suc_eq)
  also have "\<dots> = map (\<lambda>i. active_queue s ! (i mod length (active_queue s))) [1..<Suc (length cs)]"
    by (simp add: map_Suc_upt [symmetric] comp_def del: upt_Suc)
  finally show ?case
    using s2 run ne
    by (simp add: active_queue_run(2) [OF wf low run] hd_conv_nth upt_conv_Cons del: upt_Suc)
qed

end
