(* ===== verification/Scheduling.thy ===== *)
theory Scheduling
  imports Scheduler
begin

text \<open>
  What the scheduler's operations promise, over the model and the invariant of theory
  \<open>Scheduler\<close>: the run queues at the level of the tail queue's nodes (through the
  interpretation \<open>tq\<close> of theory \<open>Tailq\<close>), reachable states, the context switch, fairness,
  exit and wake-up, kill, priorities and fork.
\<close>

section \<open>What the operations do\<close>

lemma find_process_on_process:
  assumes "\<And>x. pid (f x) = pid x"
  shows "find_process (on_process p f s) q =
           (if q = p then map_option f (find_process s q) else find_process s q)"
proof -
  have "List.find (\<lambda>item. pid item = q) (map (\<lambda>x. if pid x = p then f x else x) xs) =
     (if q = p then map_option f (List.find (\<lambda>item. pid item = q) xs)
      else List.find (\<lambda>item. pid item = q) xs)" for xs
    using assms by (induction xs) auto
  then show ?thesis by (simp add: find_process_def on_process_def)
qed

lemma find_process_wake:
  assumes "sched_wf D s"
  shows "find_process (scheduler_emit_event e s) q = map_option (wake e) (find_process s q)"
proof -
  have "List.find (\<lambda>item. pid item = q) (map (wake e) xs) = map_option (wake e) (List.find (\<lambda>item. pid item = q) xs)" for xs
    by (induction xs) auto
  then show ?thesis by (simp add: scheduler_emit_event_eq [OF assms] find_process_def)
qed

lemma runnable_pids_iff:
  "distinct (pids s) \<Longrightarrow> find_process s p = Some x \<Longrightarrow> p \<in> runnable_pids s \<longleftrightarrow> runnable x"
  using same_pid by (fastforce simp: find_process_Some runnable_pids_def)

lemma current_found:
  assumes "sched_wf D s"
  obtains x where "find_process s (current_pid s) = Some x"
  using sched_wfD(2) [OF assms] find_process_None [of s "current_pid s"] by auto

lemma scheduler_run_effect:
  assumes "sched_wf D s" "low_priority_queue s \<noteq> []" "scheduler_run c s = Some (c', s')"
  shows "find_process s' q =
           (if q = current_pid s then map_option (\<lambda>x. x\<lparr>ctx := c\<rparr>) (find_process s q) else find_process s q)"
    "c' = ctx_of s' (current_pid s')" "events s' = events s" "ram s' = ram s" "uart0 s' = uart0 s"
proof -
  have c': "c' = ctx_of (saved c s) (next_choice s)"
    and s': "s' = (saved c (rotated s))\<lparr>current_pid := next_choice s\<rparr>"
    using assms(3) by (simp_all add: scheduler_run_eq [OF assms(1,2)])
  have r: "find_process (rotated s) q = find_process s q" for q by (simp add: rotated_def)
  show f: "find_process s' q =
           (if q = current_pid s then map_option (\<lambda>x. x\<lparr>ctx := c\<rparr>) (find_process s q) else find_process s q)" for q
    by (simp add: s' saved_def find_process_on_process r rotated_def)
  show "c' = ctx_of s' (current_pid s')"
    by (simp add: c' ctx_of_def f s' saved_def find_process_on_process r rotated_def)
  show "events s' = events s" "ram s' = ram s" "uart0 s' = uart0 s" by (simp_all add: s' saved_def rotated_def)
qed

lemma find_process_remove [simp]: "find_process (remove_pid p n s) = find_process s"
  by (simp add: remove_pid_def)

lemma remove_pid_queues [simp]:
  "low_priority_queue (remove_pid p 1 (remove_pid p 0 s)) = filter (\<lambda>q. q \<noteq> p) (low_priority_queue s)"
  "high_priority_queue (remove_pid p 1 (remove_pid p 0 s)) = filter (\<lambda>q. q \<noteq> p) (high_priority_queue s)"
  "current_pid (remove_pid p n s) = current_pid s" "events (remove_pid p n s) = events s"
  "uart0 (remove_pid p n s) = uart0 s"
  by (simp_all add: remove_pid_def)

text \<open>Leaving the processor for good: the state in which \<^verbatim>\<open>scheduler_exit\<close> and
  \<^verbatim>\<open>scheduler_kill\<close> emit the event.\<close>

lemma terminated_fields [simp]:
  "current_pid (terminated p s) = current_pid s" "uart0 (terminated p s) = uart0 s"
  by (simp_all add: terminated_def)

lemma find_process_terminated:
  "find_process (terminated p s) q =
     (if q = p then map_option (\<lambda>x. x\<lparr>status := PROCESS_STATUS_TERMINATED\<rparr>) (find_process s q)
      else find_process s q)"
  by (simp add: terminated_def find_process_on_process)

lemma scheduler_exit_eq:
  assumes "sched_inv s" "length (gpr c) = 13"
    "scheduler_run c (remove_pid (current_pid s) 1 (remove_pid (current_pid s) 0 s)) = Some (c', s')"
  shows "scheduler_exit c s = Some (c', scheduler_emit_event
           \<lparr>event = PROCESS_EVENT_EXITED, from_process = current_pid s\<rparr> (terminated (current_pid s) s'))"
proof -
  have wf: "sched_wf {} s" using assms(1) by (simp add: sched_inv_def)
  note r = removed_run [OF wf assms(2,3)]
  have "current_pid s \<in> set (pids s')" using r(4) sched_wfD(2) [OF wf] by simp
  then show ?thesis
    using inv_terminated(1) [OF r(1,2)] r(5) assms(3) by (simp add: scheduler_exit_def Let_def)
qed

lemma distinct_singleton: "distinct xs \<Longrightarrow> set xs = {a} \<Longrightarrow> xs = [a]"
  by (cases xs; cases "tl xs") auto

lemma scheduler_exit_None:
  assumes "sched_inv s" "length (gpr c) = 13"
  shows "scheduler_exit c s = None \<longleftrightarrow> low_priority_queue s = [current_pid s]"
proof -
  have wf: "sched_wf {} s" and cur: "current_pid s \<in> set (low_priority_queue s)"
    using assms(1) by (simp_all add: sched_inv_def)
  let ?t = "remove_pid (current_pid s) 1 (remove_pid (current_pid s) 0 s)"
  have wft: "sched_wf {current_pid s} ?t" using wf by (rule sched_wf_remove)
  have "(low_priority_queue ?t = []) \<longleftrightarrow> set (low_priority_queue s) = {current_pid s}"
    using cur by (auto simp: filter_empty_conv)
  also have "\<dots> \<longleftrightarrow> low_priority_queue s = [current_pid s]"
    using sched_wfD(3) [OF wf] distinct_singleton by auto
  finally have low: "(low_priority_queue ?t = []) \<longleftrightarrow> low_priority_queue s = [current_pid s]" .
  show ?thesis
  proof (cases "low_priority_queue ?t = []")
    case True
    then show ?thesis
      using low scheduler_run_empty [OF wft] by (simp add: scheduler_exit_def Let_def)
  next
    case False
    then obtain c' s' where "scheduler_run c ?t = Some (c', s')"
      by (simp add: scheduler_run_eq [OF wft])
    then show ?thesis using False low scheduler_exit_eq [OF assms] by simp
  qed
qed

section \<open>The run queue at the level of its nodes\<close>

text \<open>
  One case of \<^verbatim>\<open>get_next_process\<close> on the pointer model of theory \<open>Tailq\<close>: \<open>pid_of\<close> is the
  \<^verbatim>\<open>pid\<close> field of the nodes.  \<open>queue_holds\<close> relates a tail queue to the list of PIDs it stands
  for.
\<close>

definition next_node :: "('n \<Rightarrow> pid_t) \<Rightarrow> 'n tailq \<Rightarrow> 'n tailq_panic + (pid_t \<times> 'n tailq)" where
  "next_node pid_of q =
     (case TAILQ_FIRST q of
        None \<Rightarrow> Inr (- 1, q)
      | Some item \<Rightarrow>
          (case TAILQ_REMOVE q item of
             Inl e \<Rightarrow> Inl e
           | Inr q1 \<Rightarrow>
               (case TAILQ_INSERT_TAIL q1 item of
                  Inl e \<Rightarrow> Inl e
                | Inr q2 \<Rightarrow> Inr (pid_of item, q2))))"

definition queue_holds :: "('n \<Rightarrow> pid_t) \<Rightarrow> 'n tailq \<Rightarrow> pid_t list \<Rightarrow> bool" where
  "queue_holds pid_of q ps \<longleftrightarrow> (\<exists>items. tailq_repr q items \<and> map pid_of items = ps)"

lemma next_node_refines:
  assumes "queue_holds pid_of q ps"
  shows "\<exists>q'. next_node pid_of q = Inr (case ps of [] \<Rightarrow> - 1 | p # _ \<Rightarrow> p, q')
            \<and> queue_holds pid_of q' (rotate1 ps)"
proof -
  obtain items where items: "tailq_repr q items" "map pid_of items = ps"
    using assms by (auto simp: queue_holds_def)
  show ?thesis
  proof (cases items)
    case Nil
    then show ?thesis
      using items tq.repr_first [OF items(1)] by (auto simp: next_node_def queue_holds_def)
  next
    case (Cons x xs)
    then have "tailq_repr q (x # xs)" using items(1) by simp
    from tq.rotate_first [OF this] obtain q1 q2 where q: "TAILQ_FIRST q = Some x" "TAILQ_REMOVE q x = Inr q1"
        "TAILQ_INSERT_TAIL q1 x = Inr q2" "tailq_repr q2 (xs @ [x])"
      by blast
    have "queue_holds pid_of q2 (rotate1 ps)"
      using q(4) Cons items(2) unfolding queue_holds_def by (intro exI [of _ "xs @ [x]"]) auto
    moreover have "next_node pid_of q = Inr (pid_of x, q2)" using q(1-3) by (simp add: next_node_def)
    moreover have "ps = pid_of x # map pid_of xs" using Cons items(2) by simp
    ultimately show ?thesis by simp
  qed
qed

text \<open>
  On a tail queue that holds the PIDs of one of the run queues, the three pointer operations of
  \<^verbatim>\<open>get_next_process\<close> pass their consistency checks, return the PID the list model returns
  and leave a tail queue that holds the list model's new queue, for either priority.
\<close>

lemma get_next_process_refines_tailq:
  assumes "queue_holds pid_of q (if high then high_priority_queue s else low_priority_queue s)"
  shows "let (p, s') = get_next_process (if high then 0 else 1) s in
         \<exists>q'. next_node pid_of q = Inr (p, q')
            \<and> queue_holds pid_of q' (if high then high_priority_queue s' else low_priority_queue s')"
  using next_node_refines [OF assms]
  by (cases high) (auto simp: get_next_process_def split: list.splits)

lemma get_next_process_refines_tailq_witness:
  "\<exists>q'. next_node of_nat three_node_queue = Inr (4, q') \<and> queue_holds of_nat q' [7, 8, 4]"
proof -
  let ?s = "(boot_sched 0 (\<lambda>_. 0))\<lparr>low_priority_queue := [4, 7, 8]\<rparr>"
  have "queue_holds of_nat three_node_queue (low_priority_queue ?s)"
    using three_node_queue_repr by (auto simp: queue_holds_def)
  then show ?thesis
    using get_next_process_refines_tailq [of of_nat three_node_queue False ?s]
    by (simp add: get_next_process_def)
qed

section \<open>Properties\<close>

text \<open>Concrete states for the instances: the shell (1) has forked 2 and 3, and waits for 2.\<close>

definition demo_ctx :: "u32 \<Rightarrow> ctx_t" where
  "demo_ctx a = \<lparr>cpsr = 0x50, pc = a, gpr = [0, 1, 2, 3, 4, 5, 6, 7, 8, 9, 10, 0x7F8, 12],
     sp = 0x7E0, lr = 0\<rparr>"

definition demo_pcb :: "pid_t \<Rightarrow> i32 \<Rightarrow> pcb_t" where
  "demo_pcb p st = \<lparr>pid = p, ctx = demo_ctx (0x100 * p), status = st,
     blocked_until = \<lparr>event = PROCESS_EVENT_EXITED, from_process = 2\<rparr>\<rparr>"

definition demo_sched :: sched where
  "demo_sched = \<lparr>current_pid = 2, next_pid = 4, current_stack_break = 0x8000, events = [],
     process_list = [demo_pcb 1 PROCESS_STATUS_BLOCKED, demo_pcb 2 PROCESS_STATUS_READY,
                     demo_pcb 3 PROCESS_STATUS_READY],
     low_priority_queue = [3, 2], high_priority_queue = [], ram = (\<lambda>_. 0), uart0 = []\<rparr>"

lemma demo_inv: "sched_inv demo_sched" "length (gpr (demo_ctx a)) = 13"
  by (auto simp: sched_inv_def sched_wf_def pids_def runnable_pids_def runnable_def demo_sched_def
        demo_pcb_def demo_ctx_def)

text \<open>
  C6: in every state the kernel can reach from \<^verbatim>\<open>scheduler_initialise\<close> by ticks, exits, kills,
  waits, priority changes, forks, execs and whatever user programs do to their registers and
  memory, the low priority queue holds exactly the PIDs of the running and ready processes,
  once each, the high priority queue a subset of them; PIDs are positive, distinct and below
  \<^verbatim>\<open>next_pid\<close>; and the current process exists and is runnable.  This holds as long as the calls
  are \<open>considerate_call\<close>s: the kernel checks no argument of setpriority, so a priority 0 or 1 must be set
  for a process that can run, and fork must be called while there are PIDs left.
\<close>

theorem reachable_queues_match_processes:
  assumes "reachable considerate_call (c, s)"
  shows "set (low_priority_queue s) = runnable_pids s \<and> distinct (low_priority_queue s)
    \<and> set (high_priority_queue s) \<subseteq> runnable_pids s \<and> distinct (high_priority_queue s)
    \<and> distinct (pids s) \<and> (\<forall>p \<in> set (pids s). 0 < sint p \<and> sint p < sint (next_pid s))
    \<and> current_pid s \<in> runnable_pids s"
  using reachable_sched_inv [OF assms] by (auto simp: sched_inv_def sched_wf_def)

theorem reachable_queues_match_processes_witness:
  "\<exists>c s. reachable considerate_call (c, s) \<and> current_pid s = 1 \<and> pids s = [1, 2]
     \<and> runnable_pids s = {1, 2} \<and> set (low_priority_queue s) = {1, 2}"
proof -
  let ?fresh = "demo_pcb 0 0"
  define b where "b = boot_sched 0x8000 (\<lambda>_. 0)"
  obtain st where st: "scheduler_initialise ?fresh 0x100 (demo_ctx 0) b = Some st"
    by (simp add: b_def scheduler_initialise_def boot_sched_def get_new_pid_def set_stack_break_def
          run_process_def find_process_def)
  obtain c s where cs: "st = (c, s)" by force
  have r: "reachable considerate_call (c, s)"
    by (rule reachable.start [OF st [unfolded b_def cs]]) (simp add: demo_pcb_def demo_inv(2))
  have s: "next_pid s = 2" "pids s = [1]" "current_pid s = 1"
    using st by (auto simp: cs b_def scheduler_initialise_def boot_sched_def get_new_pid_def set_stack_break_def
          run_process_def find_process_def pids_def)
  note inv = reachable_sched_inv [OF r, simplified]
  have wf: "sched_wf {} s" using inv by (simp add: sched_inv_def)
  obtain parent where p: "find_process s (current_pid s) = Some parent" using current_found [OF wf] .
  define s' where "s' = scheduler_emit_event \<lparr>event = PROCESS_EVENT_CREATED, from_process = next_pid s\<rparr>
                          (forked c 0 0 s parent)"
  have wff: "sched_wf {} (forked c 0 0 s parent)"
    using sched_wf_forked [OF wf p] inv s by simp
  have "scheduler_fork ?fresh c 0 0 s = Some (next_pid s, s')"
    unfolding s'_def by (rule scheduler_fork_eq [OF wf p])
  then have r': "reachable considerate_call (c\<lparr>gpr := (gpr c)[0 := next_pid s]\<rparr>, s')"
    using s by (intro reachable.step [OF r kstep.fork]) simp_all
  have f: "pids s' = [1, 2]" "current_pid s' = 1"
    using s by (simp_all add: s'_def pids_emit [OF wff] emit_fields [OF wff])
       (simp_all add: forked_def pids_def forked_pcb_def)
  have "2 \<in> runnable_pids s'"
    using s by (simp add: s'_def runnable_pids_emit [OF wff])
       (simp add: forked_def runnable_pids_def runnable_def forked_pcb_def)
  then have "runnable_pids s' = {1, 2}"
    using reachable_queues_match_processes [OF r'] f runnable_pids_subset [of s'] by auto
  then show ?thesis using reachable_queues_match_processes [OF r'] r' f by blast
qed

text \<open>
  C7: in a state that satisfies the invariant a call of \<^verbatim>\<open>scheduler_run\<close> dereferences no NULL.
  It gives the processor to the process at the head of the high priority queue, or of the low
  one when the high queue is empty; the interrupted context is stored in the table entry of the
  process that ran, every other entry is unchanged, and the context that is restored is the one
  stored for the process chosen (its own, when it is chosen again).  The invariant is kept.
\<close>

theorem scheduler_run_switches:
  assumes "sched_inv s" "length (gpr c) = 13"
  shows "\<exists>c' s'. scheduler_run c s = Some (c', s') \<and> sched_inv s'
    \<and> current_pid s' = hd (active_queue s) \<and> current_pid s' \<in> runnable_pids s
    \<and> ctx_of s' (current_pid s) = c \<and> c' = ctx_of s' (current_pid s')
    \<and> (\<forall>q. q \<noteq> current_pid s \<longrightarrow> find_process s' q = find_process s q)
    \<and> ram s' = ram s \<and> events s' = events s"
proof -
  have wf: "sched_wf {} s" and low: "low_priority_queue s \<noteq> []"
    using assms(1) by (auto simp: sched_inv_def)
  obtain c' s' where run: "scheduler_run c s = Some (c', s')"
    by (simp add: scheduler_run_eq [OF wf low])
  obtain x where "find_process s (current_pid s) = Some x" using current_found [OF wf] .
  moreover have "current_pid s' \<in> runnable_pids s"
    using scheduler_run_wf(4,5) [OF wf low assms(2) run] sched_wfD(6) [OF wf] by auto
  ultimately show ?thesis
    using run inv_run [OF assms run] active_queue_run(2) [OF wf low run]
      scheduler_run_effect [OF wf low run]
    by (auto simp: ctx_of_def)
qed

theorem scheduler_run_switches_witness:
  "\<exists>s'. scheduler_run (demo_ctx 0x204) demo_sched = Some (demo_ctx 0x300, s')
     \<and> current_pid s' = 3 \<and> ctx_of s' 2 = demo_ctx 0x204"
proof -
  obtain c' s' where *: "scheduler_run (demo_ctx 0x204) demo_sched = Some (c', s')"
      "current_pid s' = hd (active_queue demo_sched)" "ctx_of s' (current_pid demo_sched) = demo_ctx 0x204"
      "c' = ctx_of s' (current_pid s')"
      "\<forall>q. q \<noteq> current_pid demo_sched \<longrightarrow> find_process s' q = find_process demo_sched q"
    using scheduler_run_switches [OF demo_inv(1) demo_inv(2) [of "0x204"]] by blast
  have "find_process s' 3 = find_process demo_sched 3" using *(5) by (simp add: demo_sched_def)
  then have "ctx_of s' 3 = demo_ctx 0x300"
    by (simp add: ctx_of_def demo_sched_def find_process_def demo_pcb_def)
  with *(1-4) show ?thesis by (auto simp: active_queue_def demo_sched_def)
qed

text \<open>
  C8: fairness.  Whatever contexts the running programs are interrupted in, the timer ticks give
  the processor to the processes of the active queue in turn, for ever: tick \<open>i\<close> (from 0) goes
  to the process at position \<open>i\<close> modulo the queue's length.  The active queue is the high
  priority queue unless that is empty, so every high priority process runs once in every
  \<open>n\<close> ticks and no other process runs.
\<close>

theorem ticks_are_round_robin:
  assumes "sched_inv s" "\<forall>c \<in> set cs. length (gpr c) = 13"
  shows "\<exists>s'. sched_inv s' \<and> tick_all cs s =
           Some (map (\<lambda>i. active_queue s ! (i mod length (active_queue s))) [0..<length cs], s')"
  using assms by (rule tick_all_round_robin)

theorem ticks_are_round_robin_witness:
  "\<exists>s'. tick_all [demo_ctx 0, demo_ctx 4, demo_ctx 8, demo_ctx 12] demo_sched = Some ([3, 2, 3, 2], s')"
proof -
  let ?cs = "[demo_ctx 0, demo_ctx 4, demo_ctx 8, demo_ctx 12]"
  have q: "active_queue demo_sched = [3, 2]" by (simp add: active_queue_def demo_sched_def)
  have "map (\<lambda>i. [3, 2 :: pid_t] ! (i mod length [3, 2 :: pid_t])) [0..<length ?cs] = [3, 2, 3, 2]"
    by (simp add: upt_conv_Cons numeral_2_eq_2 numeral_3_eq_3 mod_Suc)
  then show ?thesis
    using ticks_are_round_robin [OF demo_inv(1), of ?cs] demo_inv(2) unfolding q by auto
qed

definition exit_event :: "pid_t \<Rightarrow> event_t" where
  "exit_event p = \<lparr>event = PROCESS_EVENT_EXITED, from_process = p\<rparr>"

text \<open>The parts of an exit that goes well.\<close>

lemma exit_run:
  assumes "sched_inv s" "length (gpr c) = 13" "current_pid s = p" "scheduler_exit c s = Some (c', s')"
  shows "\<exists>s1 y. s' = scheduler_emit_event (exit_event p) (terminated p s1) \<and> sched_wf {} (terminated p s1)
    \<and> find_process s p = Some y \<and> runnable y \<and> current_pid s1 \<noteq> p \<and> uart0 s1 = uart0 s
    \<and> (\<forall>q. find_process (terminated p s1) q =
         (if q = p then Some (y\<lparr>ctx := c, status := PROCESS_STATUS_TERMINATED\<rparr>) else find_process s q))"
proof -
  let ?t = "remove_pid p 1 (remove_pid p 0 s)"
  have wf: "sched_wf {} s" using assms(1) by (simp add: sched_inv_def)
  have wft: "sched_wf {p} ?t" using wf by (rule sched_wf_remove)
  obtain s1 where run: "scheduler_run c ?t = Some (c', s1)"
      and s': "s' = scheduler_emit_event (exit_event p) (terminated p s1)"
    using assms(4) scheduler_exit_eq [OF assms(1,2)] assms(3)
    by (cases "scheduler_run c ?t") (auto simp: scheduler_exit_def Let_def exit_event_def)
  note rr = removed_run [OF wf assms(2) run] and eff = scheduler_run_effect [OF wft scheduler_run_Some_low [OF wft run] run]
  have wf1: "sched_wf {} (terminated p s1)" using inv_terminated(2) [OF rr(1,2)] by (simp add: sched_inv_def)
  obtain y where y: "find_process s p = Some y" using current_found [OF wf] assms(3) by auto
  have yr: "runnable y"
    using runnable_pids_iff [OF sched_wfD(1) [OF wf] y] assms(1,3) sched_wfD(6) [OF wf]
    by (auto simp: sched_inv_def)
  have "find_process (terminated p s1) q =
      (if q = p then Some (y\<lparr>ctx := c, status := PROCESS_STATUS_TERMINATED\<rparr>) else find_process s q)" for q
    using y assms(3) by (simp add: find_process_terminated eff(1))
  then show ?thesis using s' wf1 y yr rr(5) eff(5) by auto
qed

text \<open>
  C33: \<^verbatim>\<open>scheduler_exit\<close> faults (it asks for process -1 and dereferences the NULL it gets)
  exactly when the caller is the only runnable process; the message for that case is never
  printed.  Otherwise it succeeds: the caller is marked terminated and leaves both queues,
  every process that was waiting for its exit becomes runnable at the end of the low queue with
  the exited PID in register 0 as the result of its wait, and the exit is on record, where a
  later non-blocking wait finds it.
\<close>

theorem scheduler_exit_wakes_waiters:
  assumes "sched_inv s" "length (gpr c) = 13" "current_pid s = p"
  shows "case scheduler_exit c s of
      None \<Rightarrow> low_priority_queue s = [p]
    | Some (c', s') \<Rightarrow> low_priority_queue s \<noteq> [p]
    \<and> current_pid s' \<noteq> p \<and> uart0 s' = uart0 s
    \<and> status (the (find_process s' p)) = PROCESS_STATUS_TERMINATED
    \<and> p \<notin> set (low_priority_queue s') \<and> p \<notin> set (high_priority_queue s')
    \<and> scheduler_has_event_occurred \<lparr>event = PROCESS_EVENT_EXITED, from_process = p\<rparr> s' = p
    \<and> (\<forall>w x. find_process s w = Some x \<and> waiting \<lparr>event = PROCESS_EVENT_EXITED, from_process = p\<rparr> x \<longrightarrow>
          w \<in> set (low_priority_queue s') \<and> gpr (ctx_of s' w) = (gpr (ctx x))[0 := p])"
proof (cases "scheduler_exit c s")
  case None
  then show ?thesis using scheduler_exit_None [OF assms(1,2)] assms(3) by simp
next
  case (Some r)
  obtain c' s' where r: "r = (c', s')" by force
  let ?e = "\<lparr>event = PROCESS_EVENT_EXITED, from_process = p\<rparr>"
  obtain s1 y where s': "s' = scheduler_emit_event ?e (terminated p s1)" and wf1: "sched_wf {} (terminated p s1)"
      and y: "find_process s p = Some y" "runnable y" and cur: "current_pid s1 \<noteq> p" "uart0 s1 = uart0 s"
      and f1: "\<And>q. find_process (terminated p s1) q =
        (if q = p then Some (y\<lparr>ctx := c, status := PROCESS_STATUS_TERMINATED\<rparr>) else find_process s q)"
    using exit_run [OF assms] Some r by (auto simp: exit_event_def)
  have w: "w \<in> set (waiting_pids ?e (terminated p s1)) \<and> gpr (ctx_of s' w) = (gpr (ctx x))[0 := p]"
    if "find_process s w = Some x" "waiting ?e x" for w x
  proof -
    have "w \<noteq> p" using that y waiting_not_runnable by auto
    then have fw: "find_process (terminated p s1) w = Some x" using f1 that by simp
    then have "x \<in> set (process_list (terminated p s1)) \<and> pid x = w"
      by (simp add: find_process_Some [OF sched_wfD(1) [OF wf1]])
    then show ?thesis
      using fw that(2) by (auto simp: waiting_pids_def ctx_of_def s' find_process_wake [OF wf1] wake_def)
  qed
  have wf': "sched_wf {} s'" unfolding s' using wf1 by (rule sched_wf_emit)
  have fp: "find_process s' p = Some (y\<lparr>ctx := c, status := PROCESS_STATUS_TERMINATED\<rparr>)"
    by (simp add: s' find_process_wake [OF wf1] f1 wake_def waiting_def)
  have "p \<notin> set (low_priority_queue s')"
    using runnable_pids_iff [OF sched_wfD(1) [OF wf'] fp] sched_wfD(6) [OF wf'] by (simp add: runnable_def)
  moreover from this have "p \<notin> set (high_priority_queue s')" using sched_wfD(5) [OF wf'] by auto
  moreover have "low_priority_queue s \<noteq> [p]" using scheduler_exit_None [OF assms(1,2)] Some assms(3) by simp
  moreover have "current_pid s' \<noteq> p" "uart0 s' = uart0 s"
      "scheduler_has_event_occurred ?e s' = p"
      "set (waiting_pids ?e (terminated p s1)) \<subseteq> set (low_priority_queue s')"
    using cur by (simp_all add: s' scheduler_emit_event_eq [OF wf1] recorded_def scheduler_has_event_occurred_def)
  ultimately show ?thesis using Some r fp w by auto
qed

theorem scheduler_exit_wakes_waiters_witness:
  "\<exists>c' s'. scheduler_exit (demo_ctx 0x204) demo_sched = Some (c', s') \<and> current_pid s' \<noteq> 2
     \<and> 1 \<in> set (low_priority_queue s') \<and> gpr (ctx_of s' 1) ! 0 = 2"
proof -
  have n: "low_priority_queue demo_sched \<noteq> [2]" "current_pid demo_sched = 2"
    by (simp_all add: demo_sched_def)
  have f: "find_process demo_sched 1 = Some (demo_pcb 1 PROCESS_STATUS_BLOCKED)"
      "waiting \<lparr>event = PROCESS_EVENT_EXITED, from_process = 2\<rparr> (demo_pcb 1 PROCESS_STATUS_BLOCKED)"
    by (simp_all add: find_process_def demo_sched_def demo_pcb_def waiting_def)
  have "gpr (ctx (demo_pcb 1 PROCESS_STATUS_BLOCKED)) \<noteq> []" by (simp add: demo_pcb_def demo_ctx_def)
  then show ?thesis
    using scheduler_exit_wakes_waiters [OF demo_inv(1) demo_inv(2) [of "0x204"] n(2)] n(1) f
    by (auto split: option.splits)
qed

text \<open>A kill, while another process can run: the scheduler runs, then the process is marked and its exit emitted.\<close>

definition saved_killed :: "ctx_t \<Rightarrow> pid_t \<Rightarrow> sched \<Rightarrow> pid_t \<Rightarrow> pcb_t \<Rightarrow> pcb_t" where
  "saved_killed c p s q x = (let y = (if q = current_pid s then x\<lparr>ctx := c\<rparr> else x) in if q = p then y\<lparr>status := PROCESS_STATUS_TERMINATED\<rparr> else y)"

lemma kill_run:
  assumes "sched_inv s" "length (gpr c) = 13" "set (low_priority_queue s) \<noteq> {p}"
  shows "\<exists>c' s1. scheduler_kill c p s = (if find_process s p = None then None
        else Some (0, c', scheduler_emit_event (exit_event p) (terminated p s1)))
    \<and> sched_inv (terminated p s1) \<and> sched_inv (scheduler_emit_event (exit_event p) (terminated p s1))
    \<and> (\<forall>q. find_process (terminated p s1) q = map_option (saved_killed c p s q) (find_process s q)) \<and> length (gpr c') = 13"
proof -
  let ?t = "remove_pid p 1 (remove_pid p 0 s)"
  have wf: "sched_wf {} s" and cur: "current_pid s \<in> set (low_priority_queue s)"
    using assms(1) by (simp_all add: sched_inv_def)
  have wft: "sched_wf {p} ?t" using wf by (rule sched_wf_remove)
  have "low_priority_queue ?t \<noteq> []" using assms(3) cur by (auto simp: filter_empty_conv)
  then obtain c' s1 where run: "scheduler_run c ?t = Some (c', s1)"
    by (simp add: scheduler_run_eq [OF wft])
  note rr = removed_run [OF wf assms(2) run]
    and eff = scheduler_run_effect [OF wft scheduler_run_Some_low [OF wft run] run]
  have "p \<in> set (pids s1) \<longleftrightarrow> find_process s p \<noteq> None" using rr(4) by (simp add: find_process_None)
  then have "scheduler_kill c p s = (if find_process s p = None then None
        else Some (0, c', scheduler_emit_event (exit_event p) (terminated p s1)))"
    using run inv_terminated(1) [OF rr(1,2)] by (auto simp: scheduler_kill_def modify_process_None exit_event_def)
  moreover have "find_process (terminated p s1) q = map_option (saved_killed c p s q) (find_process s q)" for q
    by (cases "find_process s q") (auto simp: find_process_terminated eff(1) saved_killed_def)
  ultimately show ?thesis using inv_terminated(2,3) [OF rr(1,2)] rr(3) by blast
qed

text \<open>
  C35: \<^verbatim>\<open>scheduler_kill\<close> of a process that exists, while another process can run, marks it
  terminated, takes it off both queues, leaves the invariant in force and records its exit;
  of a PID that no process has, it writes through NULL.
\<close>

theorem scheduler_kill_terminates:
  assumes "sched_inv s" "length (gpr c) = 13" "set (low_priority_queue s) \<noteq> {p}"
  shows "case find_process s p of
      None \<Rightarrow> scheduler_kill c p s = None
    | Some x \<Rightarrow> (\<exists>c' s'. scheduler_kill c p s = Some (0, c', s') \<and> sched_inv s'
        \<and> status (the (find_process s' p)) = PROCESS_STATUS_TERMINATED
        \<and> p \<notin> set (low_priority_queue s') \<and> p \<notin> set (high_priority_queue s')
        \<and> scheduler_has_event_occurred \<lparr>event = PROCESS_EVENT_EXITED, from_process = p\<rparr> s' = p)"
proof (cases "find_process s p")
  case None
  then show ?thesis using kill_run [OF assms] by auto
next
  case (Some x)
  obtain c' s1 where k: "scheduler_kill c p s = Some (0, c', scheduler_emit_event (exit_event p) (terminated p s1))"
      "sched_inv (terminated p s1)" "sched_inv (scheduler_emit_event (exit_event p) (terminated p s1))"
      "find_process (terminated p s1) p = Some (saved_killed c p s p x)"
    using kill_run [OF assms] Some by auto
  let ?s = "scheduler_emit_event (exit_event p) (terminated p s1)"
  have wf: "sched_wf {} (terminated p s1)" and wf': "sched_wf {} ?s" using k(2,3) by (simp_all add: sched_inv_def)
  have z: "status (saved_killed c p s p x) = PROCESS_STATUS_TERMINATED" by (simp add: saved_killed_def Let_def)
  then have fp: "find_process ?s p = Some (saved_killed c p s p x)"
    by (simp add: find_process_wake [OF wf] k(4) wake_def waiting_def)
  have "p \<notin> set (low_priority_queue ?s)"
    using runnable_pids_iff [OF sched_wfD(1) [OF wf'] fp] sched_wfD(6) [OF wf'] z
    by (simp add: runnable_def)
  moreover from this have "p \<notin> set (high_priority_queue ?s)" using sched_wfD(5) [OF wf'] by auto
  moreover have "scheduler_has_event_occurred (exit_event p) ?s = p"
    by (simp add: scheduler_emit_event_eq [OF wf] recorded_def scheduler_has_event_occurred_def exit_event_def)
  ultimately show ?thesis using Some k(1,3) fp z by (simp add: exit_event_def)
qed

theorem scheduler_kill_terminates_witness:
  "scheduler_kill (demo_ctx 0x204) 9 demo_sched = None
   \<and> (\<exists>c' s'. scheduler_kill (demo_ctx 0x204) 3 demo_sched = Some (0, c', s') \<and> 3 \<notin> set (low_priority_queue s'))"
proof -
  have "set (low_priority_queue demo_sched) \<noteq> {9}" "set (low_priority_queue demo_sched) \<noteq> {3}"
       "find_process demo_sched 9 = None" "find_process demo_sched 3 = Some (demo_pcb 3 PROCESS_STATUS_READY)"
    by (simp_all add: demo_sched_def find_process_def demo_pcb_def)
  then show ?thesis
    using scheduler_kill_terminates [OF demo_inv(1) demo_inv(2) [of "0x204"], of 9]
      scheduler_kill_terminates [OF demo_inv(1) demo_inv(2) [of "0x204"], of 3] by auto
qed

text \<open>
  A process in the high priority queue cannot be lowered.  Since the cases of the
  \<^verbatim>\<open>switch\<close> statements fall through, a process with priority 0 is in both queues and
  \<^verbatim>\<open>scheduler_setpriority(p, 1)\<close> only moves it within the low one: it reports success, the
  process stays in the high queue and every later tick goes to the same process as before.
\<close>

lemma setpriority_cannot_lower:
  assumes "sched_inv s" "p \<in> set (high_priority_queue s)" "\<forall>c \<in> set cs. length (gpr c) = 13"
  shows "\<exists>s1 ps t t1. scheduler_setpriority p 1 s = (0, s1) \<and> p \<in> set (high_priority_queue s1)
    \<and> tick_all cs s = Some (ps, t) \<and> tick_all cs s1 = Some (ps, t1)"
proof -
  define s1 where "s1 = set_priority p 1 s"
  have s1: "scheduler_setpriority p 1 s = (0, s1)" by (simp add: s1_def scheduler_setpriority_def)
  have "p \<in> runnable_pids s" using assms(1,2) by (auto simp: sched_inv_def sched_wf_def)
  then have inv1: "sched_inv s1" using inv_setpriority [OF assms(1) _ s1] by blast
  have "high_priority_queue s1 = high_priority_queue s" by (simp add: s1_def set_priority_1)
  moreover from this have "active_queue s1 = active_queue s"
    using assms(2) by (auto simp: active_queue_def)
  ultimately show ?thesis
    using tick_all_round_robin [OF assms(1,3)] tick_all_round_robin [OF inv1 assms(3)] s1 assms(2) by auto
qed

lemma setpriority_cannot_lower_witness:
  "\<exists>s1 t1. scheduler_setpriority 3 1 (demo_sched\<lparr>high_priority_queue := [3]\<rparr>) = (0, s1)
     \<and> high_priority_queue s1 = [3] \<and> tick_all [] s1 = Some ([], t1)"
proof -
  let ?s = "demo_sched\<lparr>high_priority_queue := [3]\<rparr>"
  have "sched_inv ?s" using demo_inv(1) by (simp add: sched_inv_def sched_wf_def) (auto simp: demo_sched_def)
  then show ?thesis
    using setpriority_cannot_lower [of ?s 3 "[]"]
    by (auto simp: scheduler_setpriority_def set_priority_1)
qed

text \<open>
  C34: \<^verbatim>\<open>scheduler_fork\<close> of a running process, while PIDs last and the frame and its copy do not
  overlap in the wrong direction: the caller gets a PID no process had; the child has the
  caller's context except that register 0 is 0, and that the frame and stack pointers keep
  their distance within the child's own stack, which starts at the old stack break; its stack
  holds a copy of the caller's frame, but for the four saved words that are redirected to the
  new stack; it is ready and queued.  Every process there was is exactly as it was, but for one that
  was blocked until this very PID is created: it is woken, with the PID in its register 0.
\<close>

definition redirected :: "u32 \<Rightarrow> u32 set" where
  "redirected fp = (\<Union>base \<in> {fp - 12, fp - 16, fp, fp + 24}. {base, base + 1, base + 2, base + 3})"

lemma store32_frame: "a \<notin> {b, b + 1, b + 2, b + 3} \<Longrightarrow> store32 m b v a = m a"
  by (simp add: store32_def)

lemma forked_ram_frame:
  assumes "copy_safe (current_stack_break s - (fp - sp0)) sp0 (unat (fp - sp0))" "i < unat (fp - sp0)"
    "current_stack_break s - (fp - sp0) + of_nat i \<notin> redirected (current_stack_break s - (fp - gpr c ! 11))"
  shows "forked_ram c sp0 fp s (current_stack_break s - (fp - sp0) + of_nat i) = ram s (sp0 + of_nat i)"
proof -
  let ?d = "current_stack_break s - (fp - sp0)"
  have "bytes_at (stdmem_copy (ram s) ?d sp0 (fp - sp0)) ?d (unat (fp - sp0)) ! i
      = bytes_at (ram s) sp0 (unat (fp - sp0)) ! i"
    using stdmem_copy_bytes [OF assms(1)] by simp
  then have "stdmem_copy (ram s) ?d sp0 (fp - sp0) (?d + of_nat i) = ram s (sp0 + of_nat i)"
    using assms(2) by (simp add: bytes_at_def)
  moreover have "forked_ram c sp0 fp s (?d + of_nat i) = stdmem_copy (ram s) ?d sp0 (fp - sp0) (?d + of_nat i)"
    using assms(3) by (simp add: forked_ram_def Let_def redirected_def store32_frame)
  ultimately show ?thesis by simp
qed

theorem fork_duplicates_process:
  assumes "sched_inv s" "sint (next_pid s) < 2 ^ 31 - 1" "length (gpr c) = 13"
    "copy_safe (current_stack_break s - (fp - sp0)) sp0 (unat (fp - sp0))"
  shows "\<exists>s' child. scheduler_fork fresh c sp0 fp s = Some (next_pid s, s') \<and> sched_inv s'
    \<and> find_process s (next_pid s) = None \<and> find_process s' (next_pid s) = Some child
    \<and> status child = PROCESS_STATUS_READY \<and> next_pid s \<in> set (low_priority_queue s')
    \<and> gpr (ctx child) ! 0 = 0 \<and> (\<forall>i \<in> {1..12} - {11}. gpr (ctx child) ! i = gpr c ! i)
    \<and> pc (ctx child) = pc c \<and> cpsr (ctx child) = cpsr c \<and> lr (ctx child) = lr c
    \<and> current_stack_break s - sp (ctx child) = fp - sp0
    \<and> gpr (ctx child) ! 11 - sp (ctx child) = gpr c ! 11 - sp0
    \<and> (\<forall>i < unat (fp - sp0). sp (ctx child) + of_nat i \<notin> redirected (gpr (ctx child) ! 11) \<longrightarrow>
          ram s' (sp (ctx child) + of_nat i) = ram s (sp0 + of_nat i))
    \<and> (\<forall>q x. find_process s q = Some x \<longrightarrow> find_process s' q = Some
          (if status x = PROCESS_STATUS_BLOCKED \<and> event (blocked_until x) = PROCESS_EVENT_CREATED
              \<and> from_process (blocked_until x) = next_pid s
           then x\<lparr>status := PROCESS_STATUS_RUNNING, ctx := (ctx x)\<lparr>gpr := (gpr (ctx x))[0 := next_pid s]\<rparr>\<rparr>
           else x))"
proof -
  let ?e = "\<lparr>event = PROCESS_EVENT_CREATED, from_process = next_pid s\<rparr>"
  have wf: "sched_wf {} s" using assms(1) by (simp add: sched_inv_def)
  obtain parent where p: "find_process s (current_pid s) = Some parent" using current_found [OF wf] .
  let ?f = "forked c sp0 fp s parent" and ?child = "forked_pcb c sp0 fp s parent"
  let ?s = "scheduler_emit_event ?e ?f"
  have wff: "sched_wf {} ?f" by (rule sched_wf_forked [OF wf p assms(2,3)])
  have fork: "scheduler_fork fresh c sp0 fp s = Some (next_pid s, ?s)" by (rule scheduler_fork_eq [OF wf p])
  have new: "find_process s (next_pid s) = None"
    using sched_wfD(7) [OF wf, of "next_pid s"] by (auto simp: find_process_None)
  have child: "find_process ?s (next_pid s) = Some ?child"
  proof -
    have "find_process ?f (next_pid s) = Some ?child"
      by (simp add: find_process_Some [OF sched_wfD(1) [OF wff]]) (simp add: forked_def forked_pcb_def)
    then show ?thesis by (simp add: find_process_wake [OF wff] wake_def waiting_def forked_pcb_def)
  qed
  have others: "find_process ?s q = Some (wake ?e x)" if "find_process s q = Some x" for q x
  proof -
    have "x \<in> set (process_list ?f) \<and> pid x = q"
      using that by (simp add: find_process_Some [OF sched_wfD(1) [OF wf]] forked_def)
    then have "find_process ?f q = Some x" by (simp add: find_process_Some [OF sched_wfD(1) [OF wff]])
    then show ?thesis by (simp add: find_process_wake [OF wff])
  qed
  have ram: "ram ?s = forked_ram c sp0 fp s"
    by (simp add: scheduler_emit_event_eq [OF wff] recorded_def) (simp add: forked_def)
  have low: "next_pid s \<in> set (low_priority_queue ?s)"
    by (simp add: scheduler_emit_event_eq [OF wff]) (simp add: forked_def)
  have regs: "sp (ctx ?child) = current_stack_break s - (fp - sp0)"
      "gpr (ctx ?child) = (gpr c)[0 := 0, 11 := current_stack_break s - (fp - gpr c ! 11)]"
      "pc (ctx ?child) = pc c" "cpsr (ctx ?child) = cpsr c" "lr (ctx ?child) = lr c"
      "status ?child = PROCESS_STATUS_READY"
    by (simp_all add: forked_pcb_def)
  have "gpr (ctx ?child) ! 11 = current_stack_break s - (fp - gpr c ! 11)" using assms(3) by (simp add: regs)
  then show ?thesis
    using fork inv_fork [OF assms(1,2,3) fork] new child low others forked_ram_frame [OF assms(4)] assms(3)
    by (intro exI [of _ ?s] exI [of _ ?child]) (auto simp: regs ram wake_def waiting_def)
qed

theorem fork_duplicates_process_witness:
  "\<exists>s' child. scheduler_fork (demo_pcb 0 0) (demo_ctx 0x204) 0x7E0 0x800 demo_sched = Some (4, s')
     \<and> find_process s' 4 = Some child \<and> gpr (ctx child) ! 0 = 0 \<and> gpr (ctx child) ! 1 = 1"
proof -
  have "copy_safe (current_stack_break demo_sched - (0x800 - 0x7E0)) 0x7E0 (unat (0x800 - 0x7E0 :: u32))"
    by (rule copy_safe_disjoint) (simp_all add: demo_sched_def)
  moreover have "sint (next_pid demo_sched) < 2 ^ 31 - 1" "next_pid demo_sched = 4" by (simp_all add: demo_sched_def)
  moreover have "gpr (demo_ctx 0x204) ! 1 = 1" by (simp add: demo_ctx_def)
  ultimately show ?thesis
    using fork_duplicates_process [OF demo_inv(1) _ demo_inv(2) [of "0x204"], of "0x800" "0x7E0" "demo_pcb 0 0"]
    by fastforce
qed

end
