(* ===== verification/Ipc.thy ===== *)
theory Ipc
  imports Stdmem
begin

text \<open>
  Message passing between processes, \<^verbatim>\<open>os/src/kernel/ipc.c\<close>.  A message's content is a
  block of the shared heap; the model keeps its address and the memory, so that what a
  receiver gets is what the memory holds when it receives.  The queue \<^verbatim>\<open>messages\<close> is the
  list its tail queue represents.  \<open>None\<close> is a write through the NULL of a failed
  allocation.

  Shown: for every pair of processes the pending messages form a FIFO channel; a send
  appends to its channel and touches no other, later sends do not disturb the bytes of
  pending messages, and a receive delivers the oldest message exactly once.
\<close>

record message_t =
  content :: u32
  nbytes :: u32
  msg_from :: pid_t
  msg_to :: pid_t

record ipc =
  messages :: "message_t list"
  mem :: memory
  heap_break :: u32

text \<open>\<^verbatim>\<open>sizeof(tailq_message_t)\<close>: four words and the two links.\<close>

definition sizeof_message :: u32 where
  "sizeof_message = 24"

definition ipc_send_message :: "u32 \<Rightarrow> u32 \<Rightarrow> u32 \<Rightarrow> u32 \<Rightarrow> pid_t \<Rightarrow> pid_t \<Rightarrow> ipc \<Rightarrow> ipc option" where
  "ipc_send_message heap_low heap_top buf n from_pid to_pid st =
     (let (message, brk1) = stdmem_allocate heap_low heap_top (heap_break st) sizeof_message;
          (block, brk2) = stdmem_allocate heap_low heap_top brk1 n
      in if message = 0 \<or> block = 0 then None
         else Some (st\<lparr>mem := stdmem_copy (mem st) block buf n, heap_break := brk2,
                       messages := messages st @ [\<lparr>content = block, nbytes = n,
                                                    msg_from = from_pid, msg_to = to_pid\<rparr>]\<rparr>))"

text \<open>The loop of the two receive functions: copy and remove the first match.\<close>

fun receive_loop ::
    "(message_t \<Rightarrow> bool) \<Rightarrow> u32 \<Rightarrow> u32 \<Rightarrow> message_t list \<Rightarrow> memory \<Rightarrow> i32 \<times> message_t list \<times> memory" where
  "receive_loop P buf n [] m = (- 1, [], m)"
| "receive_loop P buf n (message # rest) m =
     (if P message then (0, rest, stdmem_copy m buf (content message) n)
      else let (r, rest', m') = receive_loop P buf n rest m in (r, message # rest', m'))"

definition ipc_receive_message_from :: "u32 \<Rightarrow> u32 \<Rightarrow> pid_t \<Rightarrow> pid_t \<Rightarrow> ipc \<Rightarrow> i32 \<times> ipc" where
  "ipc_receive_message_from buf n from_pid to_pid st =
     (let (r, ms, m) = receive_loop (\<lambda>message. msg_from message = from_pid \<and> msg_to message = to_pid)
                         buf n (messages st) (mem st)
      in (r, st\<lparr>messages := ms, mem := m\<rparr>))"

definition ipc_receive_any_message :: "u32 \<Rightarrow> u32 \<Rightarrow> pid_t \<Rightarrow> ipc \<Rightarrow> i32 \<times> ipc" where
  "ipc_receive_any_message buf n to_pid st =
     (let (r, ms, m) = receive_loop (\<lambda>message. msg_to message = to_pid) buf n (messages st) (mem st)
      in (r, st\<lparr>messages := ms, mem := m\<rparr>))"

text \<open>\<^verbatim>\<open>sizeof(tailq_messages_head_t)\<close> is 8.\<close>

definition ipc_initialise :: "u32 \<Rightarrow> u32 \<Rightarrow> ipc \<Rightarrow> ipc option" where
  "ipc_initialise heap_low heap_top st =
     (let (p, brk) = stdmem_allocate heap_low heap_top (heap_break st) 8
      in if p = 0 then None else Some (st\<lparr>messages := [], heap_break := brk\<rparr>))"

section \<open>The specification: one FIFO channel for each pair\<close>

definition payload :: "ipc \<Rightarrow> message_t \<Rightarrow> u8 list" where
  "payload st x = bytes_at (mem st) (content x) (unat (nbytes x))"

definition channel :: "pid_t \<Rightarrow> pid_t \<Rightarrow> ipc \<Rightarrow> u8 list list" where
  "channel a b st = map (payload st) (filter (\<lambda>x. msg_from x = a \<and> msg_to x = b) (messages st))"

definition inbox :: "pid_t \<Rightarrow> ipc \<Rightarrow> (pid_t \<times> u8 list) list" where
  "inbox b st = map (\<lambda>x. (msg_from x, payload st x)) (filter (\<lambda>x. msg_to x = b) (messages st))"

definition ipc_wf :: "u32 \<Rightarrow> u32 \<Rightarrow> ipc \<Rightarrow> bool" where
  "ipc_wf lo hi st \<longleftrightarrow> heap_ok lo hi (heap_break st)
     \<and> (\<forall>x \<in> set (messages st). lo \<le> content x \<and> unat (content x) + unat (nbytes x) \<le> unat (heap_break st))"

definition apart :: "u32 \<Rightarrow> nat \<Rightarrow> u32 \<Rightarrow> nat \<Rightarrow> bool" where
  "apart a m b n \<longleftrightarrow> unat a + m \<le> 4294967296 \<and> unat b + n \<le> 4294967296
     \<and> (unat a + m \<le> unat b \<or> unat b + n \<le> unat a)"

section \<open>Lemmas\<close>

lemma bytes_at_cong: "(\<And>i. i < n \<Longrightarrow> m (a + of_nat i) = m' (a + of_nat i)) \<Longrightarrow> bytes_at m a n = bytes_at m' a n"
  by (simp add: bytes_at_def)

lemma bytes_at_copy_apart:
  assumes "apart dest (unat n) a k"
  shows "bytes_at (stdmem_copy m dest src n) a k = bytes_at m a k"
proof (rule bytes_at_cong)
  fix i assume i: "i < k"
  have a: "unat (a + of_nat i) = unat a + i"
    using assms i by (simp add: apart_def unat_word_ariths unat_of_nat)
  have "a + of_nat i \<noteq> dest + of_nat j" if "j < unat n" for j
  proof
    assume "a + of_nat i = dest + of_nat j"
    moreover have "unat (dest + of_nat j) = unat dest + j"
      using assms that by (simp add: apart_def unat_word_ariths unat_of_nat)
    ultimately show False using a assms i that by (simp add: apart_def)
  qed
  then show "stdmem_copy m dest src n (a + of_nat i) = m (a + of_nat i)"
    unfolding stdmem_copy_def by (intro copy_iterations_frame)
qed

lemma copy_safe_apart: "apart dest n src n \<Longrightarrow> copy_safe dest src n"
  unfolding apart_def by (intro copy_safe_disjoint) auto

lemma bytes_at_take: "k \<le> n \<Longrightarrow> take k (bytes_at m a n) = bytes_at m a k"
  by (simp add: bytes_at_def take_map)

lemma receive_loop_None:
  "filter P ms = [] \<Longrightarrow> receive_loop P buf n ms m = (- 1, ms, m)"
  by (induction ms) (auto split: if_splits)

lemma receive_loop_Some:
  assumes "filter P ms = x # xs"
  shows "\<exists>pre post. ms = pre @ x # post \<and> (\<forall>y \<in> set pre. \<not> P y) \<and> filter P post = xs
    \<and> receive_loop P buf n ms m = (0, pre @ post, stdmem_copy m buf (content x) n)"
  using assms
proof (induction ms)
  case Nil
  then show ?case by simp
next
  case (Cons y ys)
  show ?case
  proof (cases "P y")
    case True
    with Cons.prems show ?thesis by (intro exI [of _ "[]"] exI [of _ ys]) auto
  next
    case False
    with Cons.prems have "filter P ys = x # xs" by simp
    from Cons.IH [OF this] obtain pre post where "ys = pre @ x # post" "\<forall>y \<in> set pre. \<not> P y"
        "filter P post = xs" "receive_loop P buf n ys m = (0, pre @ post, stdmem_copy m buf (content x) n)"
      by blast
    with False show ?thesis by (intro exI [of _ "y # pre"] exI [of _ post]) auto
  qed
qed

lemma ipc_send_message_eq:
  assumes "ipc_wf lo hi st" "unat (heap_break st) + 24 + unat n \<le> unat hi"
  shows "ipc_send_message lo hi buf n a b st = Some (st\<lparr>
      mem := stdmem_copy (mem st) (heap_break st + 24) buf n, heap_break := heap_break st + 24 + n,
      messages := messages st @ [\<lparr>content = heap_break st + 24, nbytes = n, msg_from = a, msg_to = b\<rparr>]\<rparr>)"
    and "unat (heap_break st + 24) = unat (heap_break st) + 24" "heap_ok lo hi (heap_break st + 24 + n)"
    "unat (heap_break st + 24 + n) = unat (heap_break st) + 24 + unat n"
proof -
  have ok: "heap_ok lo hi (heap_break st)" using assms(1) by (simp add: ipc_wf_def)
  note a1 = stdmem_allocate_fits [OF ok, of sizeof_message, unfolded sizeof_message_def, simplified]
  have f1: "unat (heap_break st) + 24 \<le> unat hi" using assms(2) by simp
  have f2: "unat (heap_break st + 24) + unat n \<le> unat hi" using a1(3) [OF f1] assms(2) by simp
  note a2 = stdmem_allocate_fits [OF a1(2) [OF f1] f2]
  have "heap_break st \<noteq> 0" "heap_break st + 24 \<noteq> 0"
    using ok a1(2) [OF f1] by (auto simp: heap_ok_def)
  then show "ipc_send_message lo hi buf n a b st = Some (st\<lparr>
      mem := stdmem_copy (mem st) (heap_break st + 24) buf n, heap_break := heap_break st + 24 + n,
      messages := messages st @ [\<lparr>content = heap_break st + 24, nbytes = n, msg_from = a, msg_to = b\<rparr>]\<rparr>)"
    using a1(1) [OF f1] a2(1) by (simp add: ipc_send_message_def sizeof_message_def)
  show "unat (heap_break st + 24) = unat (heap_break st) + 24" "heap_ok lo hi (heap_break st + 24 + n)"
    "unat (heap_break st + 24 + n) = unat (heap_break st) + 24 + unat n"
    using a1(3) [OF f1] a2(2,3) by simp_all
qed

lemma ipc_send_wf:
  assumes "ipc_wf lo hi st" "unat (heap_break st) + 24 + unat n \<le> unat hi"
    "ipc_send_message lo hi buf n a b st = Some st'"
  shows "ipc_wf lo hi st'"
proof -
  note e = ipc_send_message_eq [OF assms(1,2)]
  have "lo \<le> heap_break st + 24" 
    using assms(1) e(2) by (simp add: ipc_wf_def heap_ok_def word_le_nat_alt)
  moreover have "unat (content x) + unat (nbytes x) \<le> unat (heap_break st) + 24 + unat n"
    if "x \<in> set (messages st)" for x
    using assms(1) that by (fastforce simp: ipc_wf_def)
  ultimately show ?thesis
    using assms(1,3) e(2-4) by (auto simp: e(1) ipc_wf_def)
qed

text \<open>Pending messages keep their bytes when a message is sent.\<close>

lemma ipc_send_payload:
  assumes "ipc_wf lo hi st" "unat (heap_break st) + 24 + unat n \<le> unat hi"
    "ipc_send_message lo hi buf n a b st = Some st'" "x \<in> set (messages st)"
  shows "payload st' x = payload st x"
proof -
  note e = ipc_send_message_eq [OF assms(1,2)]
  have "apart (heap_break st + 24) (unat n) (content x) (unat (nbytes x))"
    using assms(1,2,4) e(2) unat_u32_less [of hi] unat_u32_less [of "heap_break st"]
    by (fastforce simp: apart_def ipc_wf_def)
  then show ?thesis using assms(3) by (auto simp: e(1) payload_def bytes_at_copy_apart)
qed

text \<open>Receiving into a buffer that overlaps no pending message.\<close>

definition buffer_ok :: "u32 \<Rightarrow> u32 \<Rightarrow> ipc \<Rightarrow> bool" where
  "buffer_ok buf n st \<longleftrightarrow> (\<forall>x \<in> set (messages st). apart buf (unat n) (content x) (max (unat n) (unat (nbytes x))))"

lemma receive_effect:
  assumes "buffer_ok buf n st" "filter P (messages st) = x # xs" "unat n \<le> unat (nbytes x)"
    "receive_loop P buf n (messages st) (mem st) = (r, ms, m)"
  shows "r = 0" "bytes_at m buf (unat n) = take (unat n) (payload st x)"
    "filter P ms = xs" "filter (\<lambda>y. \<not> P y) ms = filter (\<lambda>y. \<not> P y) (messages st)"
    "y \<in> set (messages st) \<Longrightarrow> payload (st\<lparr>messages := ms, mem := m\<rparr>) y = payload st y"
    "set ms \<subseteq> set (messages st)"
proof -
  obtain pre post where pp: "messages st = pre @ x # post" "\<forall>y \<in> set pre. \<not> P y" "filter P post = xs"
      "receive_loop P buf n (messages st) (mem st) = (0, pre @ post, stdmem_copy (mem st) buf (content x) n)"
    using receive_loop_Some [OF assms(2)] by blast
  have Px: "P x" using assms(2) by (metis filter_eq_ConsD)
  have r: "r = 0" "ms = pre @ post" "m = stdmem_copy (mem st) buf (content x) n"
    using assms(4) pp(4) by simp_all
  have ap: "apart buf (unat n) (content x) (unat n)"
    using assms(1,3) pp(1) by (auto simp: buffer_ok_def apart_def)
  show "r = 0" by (fact r)
  show "bytes_at m buf (unat n) = take (unat n) (payload st x)"
    using assms(3) stdmem_copy_bytes [OF copy_safe_apart [OF ap]]
    by (simp add: r payload_def bytes_at_take)
  show "filter P ms = xs" "filter (\<lambda>y. \<not> P y) ms = filter (\<lambda>y. \<not> P y) (messages st)"
       "set ms \<subseteq> set (messages st)"
    using pp(1-3) Px by (auto simp: r filter_empty_conv)
  show "payload (st\<lparr>messages := ms, mem := m\<rparr>) y = payload st y" if "y \<in> set (messages st)"
  proof -
    have "apart buf (unat n) (content y) (max (unat n) (unat (nbytes y)))"
      using assms(1) that by (simp add: buffer_ok_def)
    then have "apart buf (unat n) (content y) (unat (nbytes y))" by (auto simp: apart_def)
    then show ?thesis by (simp add: payload_def r bytes_at_copy_apart)
  qed
qed

lemma length_payload: "length (payload st x) = unat (nbytes x)"
  by (simp add: payload_def bytes_at_def)

lemma filter_implied:
  assumes "filter (\<lambda>y. \<not> P y) xs = filter (\<lambda>y. \<not> P y) ys" "\<And>y. Q y \<Longrightarrow> \<not> P y"
  shows "filter Q xs = filter Q ys"
proof -
  have "filter Q zs = filter Q (filter (\<lambda>y. \<not> P y) zs)" for zs
    using assms(2) by (induction zs) auto
  then show ?thesis using assms(1) by metis
qed

section \<open>Properties\<close>

text \<open>
  Sending.  With room on the heap and a source buffer that does not overlap the new
  block, \<^verbatim>\<open>ipc_send_message\<close> appends the bytes of the buffer to the channel from \<open>a\<close> to \<open>b\<close>,
  and leaves every other channel as it was, the bytes of its pending messages included.
\<close>

lemma ipc_send_appends:
  assumes "ipc_wf lo hi st" "unat (heap_break st) + 24 + unat n \<le> unat hi"
    "apart (heap_break st + 24) (unat n) buf (unat n)"
  shows "\<exists>st'. ipc_send_message lo hi buf n a b st = Some st' \<and> ipc_wf lo hi st'
    \<and> channel a b st' = channel a b st @ [bytes_at (mem st) buf (unat n)]
    \<and> (\<forall>c d. (c, d) \<noteq> (a, b) \<longrightarrow> channel c d st' = channel c d st)"
proof -
  note e = ipc_send_message_eq [OF assms(1,2)]
  obtain st' where st': "ipc_send_message lo hi buf n a b st = Some st'" using e(1) by blast
  note old = ipc_send_payload [OF assms(1,2) st']
  have new: "bytes_at (mem st') (heap_break st + 24) (unat n) = bytes_at (mem st) buf (unat n)"
    using st' stdmem_copy_bytes [OF copy_safe_apart [OF assms(3)]] by (auto simp: e(1))
  have ms: "messages st' = messages st @ [\<lparr>content = heap_break st + 24, nbytes = n, msg_from = a, msg_to = b\<rparr>]"
    using st' by (auto simp: e(1))
  have "map (payload st') (filter Q (messages st)) = map (payload st) (filter Q (messages st))" for Q
    using old by simp
  then show ?thesis
    using st' ipc_send_wf [OF assms(1,2) st'] new by (auto simp: channel_def ms payload_def)
qed

text \<open>An empty mailbox and a memory whose bytes tell their address.\<close>

definition demo_ipc :: ipc where
  "demo_ipc = \<lparr>messages = [], mem = (\<lambda>a. ucast a), heap_break = 0x70030000\<rparr>"

lemma demo_ipc_wf: "ipc_wf 0x70030000 0x70070000 demo_ipc"
  by (simp add: ipc_wf_def heap_ok_def demo_ipc_def)

lemma ipc_send_appends_witness:
  "\<exists>st'. ipc_send_message 0x70030000 0x70070000 0x70080010 3 1 2 demo_ipc = Some st'
     \<and> channel 1 2 st' = [[0x10, 0x11, 0x12]] \<and> channel 2 1 st' = []"
proof -
  have "apart (heap_break demo_ipc + 24) (unat (3 :: u32)) 0x70080010 (unat (3 :: u32))"
    by (simp add: apart_def demo_ipc_def)
  moreover have "unat (heap_break demo_ipc) + 24 + unat (3 :: u32) \<le> unat (0x70070000 :: u32)"
    by (simp add: demo_ipc_def)
  moreover have "bytes_at (mem demo_ipc) 0x70080010 3 = [0x10, 0x11, 0x12]" "channel c d demo_ipc = []" for c d
    by (simp_all add: bytes_at_def demo_ipc_def channel_def upt_rec)
  ultimately show ?thesis
    using ipc_send_appends [OF demo_ipc_wf, of 3 "0x70080010" 1 2] by auto
qed

text \<open>
  C37: receiving from a given process.  Without a pending message from \<open>a\<close> to \<open>b\<close> the call
  returns -1 and changes nothing.  With one, and a buffer no longer than the oldest message
  and apart from the pending ones, it returns 0, the buffer holds the first bytes of the
  oldest message, that message is gone from its channel, and every other channel, with
  its bytes, is as it was: each message is delivered once and in the order of sending.
\<close>

theorem ipc_receive_pops_channel:
  assumes "buffer_ok buf n st" "\<forall>bs \<in> set (take 1 (channel a b st)). unat n \<le> length bs"
  shows "case channel a b st of
      [] \<Rightarrow> ipc_receive_message_from buf n a b st = (- 1, st)
    | bs # rest \<Rightarrow> (\<exists>st'. ipc_receive_message_from buf n a b st = (0, st')
        \<and> bytes_at (mem st') buf (unat n) = take (unat n) bs
        \<and> channel a b st' = rest \<and> (\<forall>c d. (c, d) \<noteq> (a, b) \<longrightarrow> channel c d st' = channel c d st))"
proof -
  let ?P = "\<lambda>x. msg_from x = a \<and> msg_to x = b"
  show ?thesis
  proof (cases "filter ?P (messages st)")
    case Nil
    then show ?thesis
      by (simp add: channel_def ipc_receive_message_from_def receive_loop_None)
  next
    case (Cons x xs)
    obtain r ms m where loop: "receive_loop ?P buf n (messages st) (mem st) = (r, ms, m)"
      by (cases "receive_loop ?P buf n (messages st) (mem st)")
    have n: "unat n \<le> unat (nbytes x)"
      using assms(2) Cons by (simp add: channel_def length_payload)
    note e = receive_effect [OF assms(1) Cons n loop]
    let ?st = "st\<lparr>messages := ms, mem := m\<rparr>"
    have "set (x # xs) \<subseteq> set (messages st)" unfolding Cons [symmetric] by simp
    then have xs: "set xs \<subseteq> set (messages st)" by simp
    have other: "channel c d ?st = channel c d st" if "(c, d) \<noteq> (a, b)" for c d
    proof -
      have "filter (\<lambda>x. msg_from x = c \<and> msg_to x = d) ms = filter (\<lambda>x. msg_from x = c \<and> msg_to x = d) (messages st)"
        using that by (intro filter_implied [OF e(4)]) auto
      then show ?thesis using e(5) by (simp add: channel_def)
    qed
    have rest: "channel a b ?st = map (payload st) xs" using e(3,5) xs by (auto simp: channel_def)
    have "channel a b st = payload st x # map (payload st) xs" by (simp add: channel_def Cons)
    moreover have "ipc_receive_message_from buf n a b st = (0, ?st)"
      using loop e(1) by (simp add: ipc_receive_message_from_def)
    ultimately show ?thesis using e(2) other rest by auto
  qed
qed

theorem ipc_receive_pops_channel_witness:
  "\<exists>st1 st2. ipc_send_message 0x70030000 0x70070000 0x70080010 3 1 2 demo_ipc = Some st1
     \<and> ipc_receive_message_from 0x70090000 2 1 2 st1 = (0, st2)
     \<and> bytes_at (mem st2) 0x70090000 2 = [0x10, 0x11] \<and> channel 1 2 st2 = []"
proof -
  define st1 where "st1 = demo_ipc\<lparr>mem := stdmem_copy (mem demo_ipc) 0x70030018 0x70080010 3,
      heap_break := 0x7003001B, messages := [\<lparr>content = 0x70030018, nbytes = 3, msg_from = 1, msg_to = 2\<rparr>]\<rparr>"
  have send: "ipc_send_message 0x70030000 0x70070000 0x70080010 3 1 2 demo_ipc = Some st1"
    using ipc_send_message_eq(1) [OF demo_ipc_wf, of 3] by (simp add: st1_def demo_ipc_def)
  have "copy_safe 0x70030018 0x70080010 (unat (3 :: u32))"
    by (rule copy_safe_disjoint) simp_all
  from stdmem_copy_bytes [OF this, of "\<lambda>a. ucast a"]
  have ch: "channel 1 2 st1 = [[0x10, 0x11, 0x12]]"
    by (simp add: channel_def st1_def payload_def demo_ipc_def) (simp add: bytes_at_def upt_rec)
  have "buffer_ok 0x70090000 2 st1" by (simp add: buffer_ok_def st1_def apart_def)
  from ipc_receive_pops_channel [OF this, of 1 2] ch send show ?thesis by auto
qed

text \<open>
  Receiving from anyone.  \<^verbatim>\<open>ipc_receive_any_message\<close> delivers the oldest pending message
  addressed to \<open>b\<close>, whoever sent it, and leaves the rest of \<open>b\<close>'s inbox in order and every
  other inbox alone; with an empty inbox it returns -1 and changes nothing.
\<close>

lemma ipc_receive_any_pops_inbox:
  assumes "buffer_ok buf n st" "\<forall>(a, bs) \<in> set (take 1 (inbox b st)). unat n \<le> length bs"
  shows "case inbox b st of
      [] \<Rightarrow> ipc_receive_any_message buf n b st = (- 1, st)
    | (a, bs) # rest \<Rightarrow> (\<exists>st'. ipc_receive_any_message buf n b st = (0, st')
        \<and> bytes_at (mem st') buf (unat n) = take (unat n) bs
        \<and> inbox b st' = rest \<and> (\<forall>d. d \<noteq> b \<longrightarrow> inbox d st' = inbox d st))"
proof -
  let ?P = "\<lambda>x. msg_to x = b"
  show ?thesis
  proof (cases "filter ?P (messages st)")
    case Nil
    then show ?thesis by (simp add: inbox_def ipc_receive_any_message_def receive_loop_None)
  next
    case (Cons x xs)
    obtain r ms m where loop: "receive_loop ?P buf n (messages st) (mem st) = (r, ms, m)"
      by (cases "receive_loop ?P buf n (messages st) (mem st)")
    have n: "unat n \<le> unat (nbytes x)" using assms(2) Cons by (simp add: inbox_def length_payload)
    note e = receive_effect [OF assms(1) Cons n loop]
    let ?st = "st\<lparr>messages := ms, mem := m\<rparr>"
    have "set (x # xs) \<subseteq> set (messages st)" unfolding Cons [symmetric] by simp
    then have xs: "set xs \<subseteq> set (messages st)" by simp
    have "filter (\<lambda>x. msg_to x = d) ms = filter (\<lambda>x. msg_to x = d) (messages st)" if "d \<noteq> b" for d
      using that by (intro filter_implied [OF e(4)]) auto
    then have "inbox d ?st = inbox d st" if "d \<noteq> b" for d
      using that e(5) by (simp add: inbox_def)
    moreover have "inbox b ?st = map (\<lambda>x. (msg_from x, payload st x)) xs"
      using e(3,5) xs by (auto simp: inbox_def)
    ultimately show ?thesis
      using e(1,2) Cons loop by (simp add: ipc_receive_any_message_def inbox_def)
  qed
qed

lemma ipc_receive_any_pops_inbox_witness:
  "ipc_receive_any_message 0x70090000 4 7 demo_ipc = (- 1, demo_ipc)"
  using ipc_receive_any_pops_inbox [of "0x70090000" 4 demo_ipc 7]
  by (simp add: buffer_ok_def demo_ipc_def inbox_def)

end
