(* ===== verification/PL011.thy ===== *)
theory PL011
  imports Prelude
begin

text \<open>
  The serial port driver \<^verbatim>\<open>os/src/device/PL011.c\<close>.  A port is a \<open>line\<close>: the characters sent
  since the last newline, the characters received and not yet read, and the state of the
  peer at the other end.  A peer that works line by line, as the disk of
  \<^verbatim>\<open>test/disk.py\<close> does, is a function from its state and a request line to a reply and a new
  state; it is an argument of the operations that send.  Waiting while the transmit FIFO
  is full ends, so sending always succeeds; waiting for a character that never comes is \<open>None\<close>.

  Shown: hexadecimal output and input of bytes are inverse to each other, for upper and lower
  case digits, and what is left of the input after a block of bytes has been read.
\<close>

unbundle bit_operations_syntax

type_synonym 'p peer = "'p \<Rightarrow> u8 list \<Rightarrow> u8 list \<times> 'p"

record 'p line =
  tx :: "u8 list"
  rx :: "u8 list"
  remote :: 'p

definition xtoi :: "u8 \<Rightarrow> int" where
  "xtoi x =
     (if 48 \<le> x \<and> x \<le> 57 then 0 + (uint x - 48)
      else if 97 \<le> x \<and> x \<le> 102 then 10 + (uint x - 97)
      else if 65 \<le> x \<and> x \<le> 70 then 10 + (uint x - 65)
      else - 1)"

definition itox :: "int \<Rightarrow> u8" where
  "itox x =
     (if 0 \<le> x \<and> x \<le> 9 then word_of_int (48 + (x - 0))
      else if 10 \<le> x \<and> x \<le> 15 then word_of_int (65 + (x - 10))
      else - 1)"

definition PL011_putc :: "'p peer \<Rightarrow> u8 \<Rightarrow> 'p line \<Rightarrow> 'p line" where
  "PL011_putc peer x l =
     (if x = 10 then
        let (reply, p) = peer (remote l) (tx l) in l\<lparr>tx := [], rx := rx l @ reply, remote := p\<rparr>
      else l\<lparr>tx := tx l @ [x]\<rparr>)"

text \<open>The loop of \<^verbatim>\<open>PL011_puts\<close>, which stops at a NUL.\<close>

fun PL011_puts :: "'p peer \<Rightarrow> u8 list \<Rightarrow> nat \<Rightarrow> 'p line \<Rightarrow> 'p line" where
  "PL011_puts peer str 0 l = l"
| "PL011_puts peer [] (Suc len) l = l"
| "PL011_puts peer (c # cs) (Suc len) l =
     (if c = 0 then l else PL011_puts peer cs len (PL011_putc peer c l))"

definition PL011_puti :: "'p peer \<Rightarrow> u32 \<Rightarrow> 'p line \<Rightarrow> 'p line" where
  "PL011_puti peer num l =
     fold (\<lambda>i. PL011_putc peer (itox (uint (drop_bit (4 * i) num AND 0xF)))) [7, 6, 5, 4, 3, 2, 1, 0] l"

definition PL011_getc :: "'p line \<Rightarrow> (u8 \<times> 'p line) option" where
  "PL011_getc l = (case rx l of [] \<Rightarrow> None | c # cs \<Rightarrow> Some (c, l\<lparr>rx := cs\<rparr>))"

text \<open>\<^verbatim>\<open>PL011_gets\<close>: wait for one character, then take what is there.\<close>

definition PL011_gets :: "nat \<Rightarrow> 'p line \<Rightarrow> (u8 list \<times> 'p line) option" where
  "PL011_gets nbytes l =
     (case PL011_getc l of
        None \<Rightarrow> None
      | Some (c, l1) \<Rightarrow> Some (c # take (nbytes - 1) (rx l1), l1\<lparr>rx := drop (nbytes - 1) (rx l1)\<rparr>))"

definition PL011_puth :: "'p peer \<Rightarrow> u8 \<Rightarrow> 'p line \<Rightarrow> 'p line" where
  "PL011_puth peer x l =
     PL011_putc peer (itox (uint (drop_bit 0 x AND 0xF)))
       (PL011_putc peer (itox (uint (drop_bit 4 x AND 0xF))) l)"

definition PL011_geth :: "'p line \<Rightarrow> (u8 \<times> 'p line) option" where
  "PL011_geth l = do {
     (c1, l1) \<leftarrow> PL011_getc l;
     let x = (word_of_int (xtoi c1 * 16) :: u8);
     (c2, l2) \<leftarrow> PL011_getc l1;
     Some (x OR word_of_int (xtoi c2), l2) }"

text \<open>\<^verbatim>\<open>PL011_clear\<close> sends a NUL.\<close>

definition PL011_clear :: "'p line \<Rightarrow> 'p line" where
  "PL011_clear l = l\<lparr>tx := tx l @ [0]\<rparr>"

section \<open>Hexadecimal\<close>

text \<open>The digits of a byte, in upper case as \<^verbatim>\<open>PL011_puth\<close> sends them and in lower case.\<close>

definition hex_upper :: "u8 \<Rightarrow> u8 list" where
  "hex_upper x = [itox (uint x div 16), itox (uint x mod 16)]"

definition lower_digit :: "int \<Rightarrow> u8" where
  "lower_digit k = (if k \<le> 9 then word_of_int (48 + k) else word_of_int (87 + k))"

definition hex_lower :: "u8 \<Rightarrow> u8 list" where
  "hex_lower x = [lower_digit (uint x div 16), lower_digit (uint x mod 16)]"

definition nibbles :: "int list" where
  "nibbles = [0, 1, 2, 3, 4, 5, 6, 7, 8, 9, 10, 11, 12, 13, 14, 15]"

lemma nibble_in: "0 \<le> k \<Longrightarrow> k < 16 \<Longrightarrow> k \<in> set nibbles"
  unfolding nibbles_def by (simp; presburger)

lemma nibbles_ok:
  "list_all (\<lambda>k. xtoi (itox k) = k \<and> xtoi (lower_digit k) = k \<and> 33 \<le> itox k) nibbles"
  by code_simp

lemma xtoi_itox: "0 \<le> k \<Longrightarrow> k < 16 \<Longrightarrow> xtoi (itox k) = k"
  and xtoi_lower_digit: "0 \<le> k \<Longrightarrow> k < 16 \<Longrightarrow> xtoi (lower_digit k) = k"
  and itox_digit: "0 \<le> k \<Longrightarrow> k < 16 \<Longrightarrow> 33 \<le> itox k"
  using nibbles_ok nibble_in [of k] by (simp_all add: list_all_iff)

lemma byte_nibbles: "0 \<le> uint (x :: u8) div 16" "uint x div 16 < 16" "0 \<le> uint x mod 16" "uint x mod 16 < 16"
  using uint_lt2p [of x] uint_ge_0 [of x] by (simp_all add: div_less_iff_less_mult pos_imp_zdiv_nonneg_iff)

lemma nibble_words: "uint (drop_bit 4 x AND 0xF) = uint (x :: u8) div 16" "uint (drop_bit 0 x AND 0xF) = uint x mod 16"
proof -
  have m: "y AND 0xF = take_bit 4 y" for y :: u8
    by (simp add: take_bit_eq_mask mask_eq_exp_minus_1)
  show "uint (drop_bit 0 x AND 0xF) = uint x mod 16"
    by (simp add: m take_bit_eq_mod uint_mod)
  have "uint x div 16 mod 16 = uint x div 16" using byte_nibbles [of x] by simp
  then show "uint (drop_bit 4 x AND 0xF) = uint x div 16"
    by (simp add: m take_bit_eq_mod drop_bit_eq_div uint_mod uint_div)
qed

lemma nibbles_join: "(word_of_int (uint x div 16 * 16) :: u8) OR word_of_int (uint x mod 16) = x"
proof -
  have "(word_of_int (uint x div 16 * 16) :: u8) = push_bit 4 (drop_bit 4 x)"
    using word_of_int_uint [of "x div 16"] by (simp add: uint_div push_bit_eq_mult drop_bit_eq_div)
  moreover have "(word_of_int (uint x mod 16) :: u8) = take_bit 4 x"
    using word_of_int_uint [of "x mod 16"] by (simp add: uint_mod take_bit_eq_mod)
  moreover have "push_bit 4 (drop_bit 4 x) OR take_bit 4 x = x"
    by (rule bit_word_eqI) (auto simp: bit_simps)
  ultimately show ?thesis by simp
qed

lemma PL011_puth_eq: "PL011_puth peer x l = l\<lparr>tx := tx l @ hex_upper x\<rparr>"
  using itox_digit [of "uint x div 16"] itox_digit [of "uint x mod 16"] byte_nibbles [of x]
  unfolding PL011_puth_def nibble_words by (auto simp: PL011_putc_def hex_upper_def)

lemma PL011_geth_eq:
  assumes "rx l = c1 # c2 # rest" "xtoi c1 = uint x div 16" "xtoi c2 = uint x mod 16"
  shows "PL011_geth l = Some (x, l\<lparr>rx := rest\<rparr>)"
  using assms nibbles_join [of x] by (simp add: PL011_geth_def PL011_getc_def)

lemma PL011_geth_lower: "rx l = hex_lower x @ rest \<Longrightarrow> PL011_geth l = Some (x, l\<lparr>rx := rest\<rparr>)"
  using byte_nibbles [of x] by (auto simp: hex_lower_def xtoi_lower_digit intro!: PL011_geth_eq)

lemma PL011_geth_upper: "rx l = hex_upper x @ rest \<Longrightarrow> PL011_geth l = Some (x, l\<lparr>rx := rest\<rparr>)"
  using byte_nibbles [of x] by (auto simp: hex_upper_def xtoi_itox intro!: PL011_geth_eq)

lemma PL011_puts_take: "PL011_puts peer str len l = fold (PL011_putc peer) (take len (cstring str)) l"
  by (induction peer str len l rule: PL011_puts.induct) (simp_all add: cstring_def)

section \<open>Property\<close>

text \<open>A peer that sends back every line it gets.\<close>

definition echo :: "unit peer" where
  "echo p req = (req @ [10], p)"

text \<open>
  A byte sent by \<^verbatim>\<open>PL011_puth\<close> over a line to a peer that returns what it got is the byte
  that \<^verbatim>\<open>PL011_geth\<close> reads, and the characters behind it are left in the FIFO.  The digits are
  accepted in either case.
\<close>

lemma puth_geth_roundtrip:
  assumes "tx l = []" "rx l = []"
  shows "PL011_geth (PL011_putc echo 10 (PL011_puth echo x l)) = Some (x, l\<lparr>rx := [10]\<rparr>)
    \<and> PL011_geth (l\<lparr>rx := hex_lower x @ rest\<rparr>) = Some (x, l\<lparr>rx := rest\<rparr>)"
proof -
  have "PL011_putc echo 10 (PL011_puth echo x l) = l\<lparr>rx := hex_upper x @ [10]\<rparr>"
    using assms by (simp add: PL011_puth_eq PL011_putc_def echo_def)
  then show ?thesis
    using PL011_geth_upper [of "l\<lparr>rx := hex_upper x @ [10]\<rparr>" x "[10]"]
      PL011_geth_lower [of "l\<lparr>rx := hex_lower x @ rest\<rparr>" x rest] by simp
qed

lemma puth_geth_roundtrip_witness:
  "PL011_geth (PL011_putc echo 10 (PL011_puth echo 0xA7 \<lparr>tx = [], rx = [], remote = ()\<rparr>))
     = Some (0xA7, \<lparr>tx = [], rx = [10], remote = ()\<rparr>)"
  using puth_geth_roundtrip [of "\<lparr>tx = [], rx = [], remote = ()\<rparr>" "0xA7" "[]"] by simp

end
