(* ===== verification/Disk.thy ===== *)
theory Disk
  imports PL011
begin

text \<open>
  The disk driver \<^verbatim>\<open>os/src/device/disk.c\<close>, which talks to the disk server of
  \<^verbatim>\<open>test/disk.py\<close> over the second serial port, one line of text for each request and each
  acknowledgement, and the server itself: its image file, the parsing of requests and its three
  commands.  A Python exception ends the server, which from then on sends nothing.  The driver
  is generic in the peer; the lemmas are about driver and server together.

  Shown: a read returns the block stored in the image, a write replaces it and
  nothing else, a bad address is refused three times and silently ignored, a read behind the
  end of the image blocks for ever, and the queries return the geometry.  The interface that
  the file system uses is the locale \<open>block_store\<close>, interpreted here on the driver (\<open>uart_disk\<close>).
\<close>

unbundle bit_operations_syntax

section \<open>The driver\<close>

definition RETRY :: nat where
  "RETRY = 3"

definition addr_bytes :: "u32 \<Rightarrow> u8 list" where
  "addr_bytes x = [ucast (drop_bit 0 x AND 0xFF), ucast (drop_bit 8 x AND 0xFF),
     ucast (drop_bit 16 x AND 0xFF), ucast (drop_bit 24 x AND 0xFF)]"

definition addr_puth :: "'p peer \<Rightarrow> u32 \<Rightarrow> 'p line \<Rightarrow> 'p line" where
  "addr_puth peer x l =
     PL011_puth peer (ucast (drop_bit 24 x AND 0xFF)) (PL011_puth peer (ucast (drop_bit 16 x AND 0xFF))
       (PL011_puth peer (ucast (drop_bit 8 x AND 0xFF)) (PL011_puth peer (ucast (drop_bit 0 x AND 0xFF)) l)))"

fun data_puth :: "'p peer \<Rightarrow> u8 list \<Rightarrow> 'p line \<Rightarrow> 'p line" where
  "data_puth peer [] l = l"
| "data_puth peer (x # xs) l = data_puth peer xs (PL011_puth peer x l)"

fun data_geth :: "nat \<Rightarrow> 'p line \<Rightarrow> (u8 list \<times> 'p line) option" where
  "data_geth 0 l = Some ([], l)"
| "data_geth (Suc n) l = do {
     (x, l1) \<leftarrow> PL011_geth l;
     (xs, l2) \<leftarrow> data_geth n l1;
     Some (x # xs, l2) }"

definition le32 :: "u8 \<Rightarrow> u8 \<Rightarrow> u8 \<Rightarrow> u8 \<Rightarrow> u32" where
  "le32 a b c d = push_bit 0 (ucast a) OR push_bit 8 (ucast b) OR push_bit 16 (ucast c) OR push_bit 24 (ucast d)"

text \<open>The retry loop of the two queries; \<open>k\<close> is the index of the first of the four bytes.\<close>

fun disk_query :: "'p peer \<Rightarrow> nat \<Rightarrow> nat \<Rightarrow> 'p line \<Rightarrow> (u32 \<times> 'p line) option" where
  "disk_query peer k 0 l = Some (- 1, l)"
| "disk_query peer k (Suc retries) l =
     do { (ack, l1) \<leftarrow> PL011_geth (PL011_putc peer 10 (PL011_puth peer 0x00 l));
          if ack = 0x00
          then do { (_, l2) \<leftarrow> PL011_getc l1;
                    (x, l3) \<leftarrow> data_geth 8 l2;
                    (_, l4) \<leftarrow> PL011_getc l3;
                    Some (le32 (x ! k) (x ! (k + 1)) (x ! (k + 2)) (x ! (k + 3)), l4) }
          else do { (_, l2) \<leftarrow> PL011_getc l1; disk_query peer k retries l2 } }"

definition disk_get_block_num :: "'p peer \<Rightarrow> 'p line \<Rightarrow> (u32 \<times> 'p line) option" where
  "disk_get_block_num peer l = disk_query peer 0 RETRY l"

definition disk_get_block_len :: "'p peer \<Rightarrow> 'p line \<Rightarrow> (u32 \<times> 'p line) option" where
  "disk_get_block_len peer l = disk_query peer 4 RETRY l"

fun disk_wr_loop :: "'p peer \<Rightarrow> nat \<Rightarrow> u32 \<Rightarrow> u8 list \<Rightarrow> 'p line \<Rightarrow> 'p line option" where
  "disk_wr_loop peer 0 a x l = Some l"
| "disk_wr_loop peer (Suc retries) a x l =
     (let l0 = PL011_putc peer 10 (data_puth peer x (PL011_putc peer 32 (addr_puth peer a
                 (PL011_putc peer 32 (PL011_puth peer 0x01 l)))))
      in do { (ack, l1) \<leftarrow> PL011_geth l0;
              if ack = 0x00 then do { (_, l2) \<leftarrow> PL011_getc l1; Some l2 }
              else do { (_, l2) \<leftarrow> PL011_getc l1; disk_wr_loop peer retries a x l2 } })"

definition disk_wr :: "'p peer \<Rightarrow> u32 \<Rightarrow> u8 list \<Rightarrow> 'p line \<Rightarrow> 'p line option" where
  "disk_wr peer a x l = disk_wr_loop peer RETRY a x l"

text \<open>The buffer \<open>x\<close> of \<open>n\<close> bytes keeps its contents when every attempt fails.\<close>

fun disk_rd_loop :: "'p peer \<Rightarrow> nat \<Rightarrow> u32 \<Rightarrow> u8 list \<Rightarrow> nat \<Rightarrow> 'p line \<Rightarrow> (u8 list \<times> 'p line) option" where
  "disk_rd_loop peer 0 a x n l = Some (x, l)"
| "disk_rd_loop peer (Suc retries) a x n l =
     (let l0 = PL011_putc peer 10 (addr_puth peer a (PL011_putc peer 32 (PL011_puth peer 0x02 l)))
      in do { (ack, l1) \<leftarrow> PL011_geth l0;
              if ack = 0x00
              then do { (_, l2) \<leftarrow> PL011_getc l1;
                        (x', l3) \<leftarrow> data_geth n l2;
                        (_, l4) \<leftarrow> PL011_getc l3;
                        Some (x', l4) }
              else do { (_, l2) \<leftarrow> PL011_getc l1; disk_rd_loop peer retries a x n l2 } })"

definition disk_rd :: "'p peer \<Rightarrow> u32 \<Rightarrow> u8 list \<Rightarrow> nat \<Rightarrow> 'p line \<Rightarrow> (u8 list \<times> 'p line) option" where
  "disk_rd peer a x n l = disk_rd_loop peer RETRY a x n l"

section \<open>The disk server \<^verbatim>\<open>test/disk.py\<close>\<close>

record disk =
  img :: "u8 list"
  block_num :: int
  block_len :: int
  alive :: bool

text \<open>Python's \<^verbatim>\<open>binascii.hexlify\<close> and \<^verbatim>\<open>unhexlify\<close>; \<open>None\<close> is the exception.\<close>

definition hexlify :: "u8 list \<Rightarrow> u8 list" where
  "hexlify bs = concat (map hex_lower bs)"

fun unhexlify :: "u8 list \<Rightarrow> u8 list option" where
  "unhexlify [] = Some []"
| "unhexlify [c] = None"
| "unhexlify (c1 # c2 # cs) =
     (if xtoi c1 = - 1 \<or> xtoi c2 = - 1 then None
      else do { bs \<leftarrow> unhexlify cs; Some (word_of_int (16 * xtoi c1 + xtoi c2) # bs) })"

text \<open>\<^verbatim>\<open>struct.pack('<l', k)\<close> and \<^verbatim>\<open>struct.unpack('<l', bs)\<close>.\<close>

definition pack_l :: "int \<Rightarrow> u8 list" where
  "pack_l k = map (\<lambda>i. word_of_int (k div 256 ^ i)) [0, 1, 2, 3]"

definition unpack_l :: "u8 list \<Rightarrow> int option" where
  "unpack_l bs = (case bs of [a, b, c, d] \<Rightarrow> Some (sint (le32 a b c d)) | _ \<Rightarrow> None)"

text \<open>\<^verbatim>\<open>str.strip\<close> and \<^verbatim>\<open>str.split(' ')\<close>.\<close>

definition py_space :: "u8 \<Rightarrow> bool" where
  "py_space c \<longleftrightarrow> c = 32 \<or> (9 \<le> c \<and> c \<le> 13)"

definition py_strip :: "u8 list \<Rightarrow> u8 list" where
  "py_strip s = rev (dropWhile py_space (rev (dropWhile py_space s)))"

fun py_split :: "u8 list \<Rightarrow> u8 list list" where
  "py_split [] = [[]]"
| "py_split (c # cs) =
     (if c = 32 then [] # py_split cs
      else (case py_split cs of [] \<Rightarrow> [[c]] | w # ws \<Rightarrow> (c # w) # ws))"

text \<open>\<^verbatim>\<open>seek\<close> and \<^verbatim>\<open>write\<close>: a gap behind the end of the file is filled with zeros.\<close>

definition file_write :: "u8 list \<Rightarrow> nat \<Rightarrow> u8 list \<Rightarrow> u8 list" where
  "file_write f pos bs =
     (if bs = [] then f
      else let f' = f @ replicate (pos - length f) 0
           in take pos f' @ bs @ drop (pos + length bs) f')"

text \<open>The three requests: the acknowledgement line, without its newline, or \<open>None\<close> for an exception.\<close>

definition disk_conf :: "disk \<Rightarrow> (u8 list \<times> disk) option" where
  "disk_conf d =
     (if block_num d < - (2 ^ 31) \<or> 2 ^ 31 \<le> block_num d \<or> block_len d < - (2 ^ 31) \<or> 2 ^ 31 \<le> block_len d
      then None
      else Some (lit ''00'' @ [32] @ hexlify (pack_l (block_num d) @ pack_l (block_len d)), d))"

definition disk_py_wr :: "u8 list list \<Rightarrow> disk \<Rightarrow> (u8 list \<times> disk) option" where
  "disk_py_wr req d =
     (if length req < 3 then None
      else do {
        ab \<leftarrow> unhexlify (req ! 1);
        address \<leftarrow> unpack_l ab;
        bs \<leftarrow> unhexlify (req ! 2);
        if block_num d \<le> address then Some (lit ''01'', d)
        else if address * block_len d < 0 then None
        else Some (lit ''00'', d\<lparr>img := file_write (img d) (nat (address * block_len d)) bs\<rparr>) })"

definition disk_py_rd :: "u8 list list \<Rightarrow> disk \<Rightarrow> (u8 list \<times> disk) option" where
  "disk_py_rd req d =
     (if length req < 2 then None
      else do {
        ab \<leftarrow> unhexlify (req ! 1);
        address \<leftarrow> unpack_l ab;
        if block_num d \<le> address then Some (lit ''01'', d)
        else if address * block_len d < 0 then None
        else Some (lit ''00'' @ [32] @
               hexlify (take (nat (block_len d)) (drop (nat (address * block_len d)) (img d))), d) })"

text \<open>One iteration of the main loop; an exception ends the server, which then stays silent.\<close>

definition disk_py :: "disk peer" where
  "disk_py d request =
     (if \<not> alive d then ([], d)
      else
        let req = py_split (py_strip request);
            ack = (if req ! 0 = lit ''00'' then disk_conf d
                   else if req ! 0 = lit ''01'' then disk_py_wr req d
                   else if req ! 0 = lit ''02'' then disk_py_rd req d
                   else Some (lit ''01'', d))
        in case ack of None \<Rightarrow> ([], d\<lparr>alive := False\<rparr>) | Some (a, d') \<Rightarrow> (a @ [10], d'))"

section \<open>What is on the wire\<close>

definition hexdata :: "u8 list \<Rightarrow> u8 list" where
  "hexdata bs = concat (map hex_upper bs)"

lemma addr_puth_eq: "addr_puth peer a l = l\<lparr>tx := tx l @ hexdata (addr_bytes a)\<rparr>"
  by (simp add: addr_puth_def PL011_puth_eq hexdata_def addr_bytes_def)

lemma data_puth_eq: "data_puth peer bs l = l\<lparr>tx := tx l @ hexdata bs\<rparr>"
  by (induction bs arbitrary: l) (simp_all add: PL011_puth_eq hexdata_def)

lemma data_geth_eq: "rx l = hexlify bs @ rest \<Longrightarrow> data_geth (length bs) l = Some (bs, l\<lparr>rx := rest\<rparr>)"
  by (induction bs arbitrary: l) (auto simp: hexlify_def PL011_geth_lower)

lemma hex_upper_cases: "\<exists>c1 c2. hex_upper x = [c1, c2] \<and> xtoi c1 = uint x div 16 \<and> xtoi c2 = uint x mod 16"
  using byte_nibbles [of x] by (simp add: hex_upper_def xtoi_itox)

lemma unhexlify_hexdata: "unhexlify (hexdata bs) = Some bs"
proof (induction bs)
  case Nil
  then show ?case by (simp add: hexdata_def)
next
  case (Cons b bs)
  obtain c1 c2 where c: "hex_upper b = [c1, c2]" "xtoi c1 = uint b div 16" "xtoi c2 = uint b mod 16"
    using hex_upper_cases by blast
  have "word_of_int (16 * (uint b div 16) + uint b mod 16) = b" by simp
  then show ?case using Cons c byte_nibbles [of b] by (simp add: hexdata_def)
qed

lemma hexdata_no_space: "c \<in> set (hexdata bs) \<Longrightarrow> \<not> py_space c \<and> c \<noteq> 32"
proof -
  assume "c \<in> set (hexdata bs)"
  then obtain b where "c \<in> set (hex_upper b)" by (auto simp: hexdata_def)
  then have "33 \<le> c" using itox_digit byte_nibbles [of b] by (auto simp: hex_upper_def)
  then show ?thesis by (auto simp: py_space_def word_le_nat_alt)
qed

lemma le32_addr_bytes:
  "le32 (ucast (drop_bit 0 a AND 0xFF)) (ucast (drop_bit 8 a AND 0xFF))
        (ucast (drop_bit 16 a AND 0xFF)) (ucast (drop_bit 24 a AND 0xFF)) = a"
proof -
  have m: "y AND 0xFF = take_bit 8 y" for y :: u32
    by (simp add: take_bit_eq_mask mask_eq_exp_minus_1)
  show ?thesis
    unfolding le32_def m
  proof (rule bit_word_eqI)
    fix n assume "n < LENGTH(32)"
    then consider "n < 8" | "8 \<le> n" "n < 16" | "16 \<le> n" "n < 24" | "24 \<le> n" "n < 32" by fastforce
    then show "bit (push_bit 0 (ucast (ucast (take_bit 8 (drop_bit 0 a)) :: u8)) OR
        push_bit 8 (ucast (ucast (take_bit 8 (drop_bit 8 a)) :: u8)) OR
        push_bit 16 (ucast (ucast (take_bit 8 (drop_bit 16 a)) :: u8)) OR
        push_bit 24 (ucast (ucast (take_bit 8 (drop_bit 24 a)) :: u8)) :: u32) n = bit a n"
      by cases (auto simp: bit_simps)
  qed
qed

lemma unpack_addr_bytes: "unpack_l (addr_bytes a) = Some (sint a)"
  using le32_addr_bytes [of a] by (simp add: unpack_l_def addr_bytes_def)

lemma dropWhile_hd: "\<not> P (hd xs) \<Longrightarrow> dropWhile P xs = xs"
  by (cases xs) auto

lemma py_strip_id: "xs \<noteq> [] \<Longrightarrow> \<not> py_space (hd xs) \<Longrightarrow> \<not> py_space (last xs) \<Longrightarrow> py_strip xs = xs"
  by (simp add: py_strip_def dropWhile_hd hd_rev)

lemma py_split_word: "32 \<notin> set w \<Longrightarrow> py_split w = [w]"
  by (induction w) auto

lemma py_split_Cons: "32 \<notin> set w \<Longrightarrow> py_split (w @ 32 # rest) = w # py_split rest"
  by (induction w) auto

section \<open>Request and acknowledgement\<close>

definition quiet :: "'p line \<Rightarrow> bool" where
  "quiet l \<longleftrightarrow> tx l = [] \<and> rx l = []"

lemma hexdata_Nil_iff [simp]: "hexdata bs = [] \<longleftrightarrow> bs = []"
  by (cases bs) (simp_all add: hexdata_def hex_upper_def)

lemma hexdata_no_32 [simp]: "32 \<notin> set (hexdata bs)"
  using hexdata_no_space by auto

lemma hexdata_strip:
  "bs \<noteq> [] \<Longrightarrow> cs \<noteq> [] \<Longrightarrow> py_strip (hexdata bs @ mid @ hexdata cs) = hexdata bs @ mid @ hexdata cs"
proof (rule py_strip_id)
  assume "bs \<noteq> []" "cs \<noteq> []"
  then have n: "hexdata bs \<noteq> []" "hexdata cs \<noteq> []" by simp_all
  show "hexdata bs @ mid @ hexdata cs \<noteq> []" using n by simp
  show "\<not> py_space (hd (hexdata bs @ mid @ hexdata cs))"
    using n hexdata_no_space [of "hd (hexdata bs)" bs] by (simp add: hd_append)
  show "\<not> py_space (last (hexdata bs @ mid @ hexdata cs))"
    using n hexdata_no_space [of "last (hexdata cs)" cs] by (simp add: last_append)
qed

lemma commands: "hexdata [0] = lit ''00''" "hexdata [1] = lit ''01''" "hexdata [2] = lit ''02''"
  by (simp_all add: hexdata_def hex_upper_def itox_def lit_def)

lemma request_rd: "py_split (py_strip (hexdata [2] @ 32 # hexdata (addr_bytes a))) = [lit ''02'', hexdata (addr_bytes a)]"
  using hexdata_strip [of "[2]" "addr_bytes a" "[32]"]
  by (simp add: py_split_Cons py_split_word commands(3) [symmetric] addr_bytes_def)

lemma request_wr:
  assumes "bs \<noteq> []"
  shows "py_split (py_strip (hexdata [1] @ 32 # hexdata (addr_bytes a) @ 32 # hexdata bs)) =
           [lit ''01'', hexdata (addr_bytes a), hexdata bs]"
  using hexdata_strip [of "[1]" bs "32 # hexdata (addr_bytes a) @ [32]"] assms
  by (simp add: py_split_Cons py_split_word commands(2) [symmetric] addr_bytes_def)

lemma request_conf: "py_split (py_strip (hexdata [0])) = [lit ''00'']"
  using hexdata_no_space [of "hd (hexdata [0])" "[0]"] hexdata_no_space [of "last (hexdata [0])" "[0]"]
  by (simp add: py_strip_id py_split_word commands(1) [symmetric])

lemma lits_differ [simp]: "lit ''01'' \<noteq> lit ''00''" "lit ''02'' \<noteq> lit ''00''" "lit ''02'' \<noteq> lit ''01''"
  by (simp_all add: lit_def)

definition valid_block :: "disk \<Rightarrow> u32 \<Rightarrow> bool" where
  "valid_block d a \<longleftrightarrow> alive d \<and> 0 < block_len d \<and> 0 \<le> sint a \<and> sint a < block_num d"

definition block_at :: "disk \<Rightarrow> u32 \<Rightarrow> u8 list" where
  "block_at d a = take (nat (block_len d)) (drop (nat (sint a * block_len d)) (img d))"

lemma disk_py_read:
  assumes "valid_block d a"
  shows "disk_py d (hexdata [2] @ 32 # hexdata (addr_bytes a)) = (lit ''00'' @ [32] @ hexlify (block_at d a) @ [10], d)"
  using assms
  by (simp add: disk_py_def request_rd disk_py_rd_def unhexlify_hexdata unpack_addr_bytes valid_block_def
        block_at_def mult_less_0_iff)

lemma disk_py_read_bad:
  assumes "alive d" "block_num d \<le> sint a"
  shows "disk_py d (hexdata [2] @ 32 # hexdata (addr_bytes a)) = (lit ''01'' @ [10], d)"
  using assms by (simp add: disk_py_def request_rd disk_py_rd_def unhexlify_hexdata unpack_addr_bytes)

lemma disk_py_write:
  assumes "valid_block d a" "bs \<noteq> []"
  shows "disk_py d (hexdata [1] @ 32 # hexdata (addr_bytes a) @ 32 # hexdata bs) =
           (lit ''00'' @ [10], d\<lparr>img := file_write (img d) (nat (sint a * block_len d)) bs\<rparr>)"
  using assms
  by (simp add: disk_py_def request_wr disk_py_wr_def unhexlify_hexdata unpack_addr_bytes valid_block_def
        mult_less_0_iff)

lemma disk_py_write_bad:
  assumes "alive d" "block_num d \<le> sint a" "bs \<noteq> []"
  shows "disk_py d (hexdata [1] @ 32 # hexdata (addr_bytes a) @ 32 # hexdata bs) = (lit ''01'' @ [10], d)"
  using assms by (simp add: disk_py_def request_wr disk_py_wr_def unhexlify_hexdata unpack_addr_bytes)

lemma geth_ack: "rx l = lit ''00'' @ rest \<Longrightarrow> PL011_geth l = Some (0, l\<lparr>rx := rest\<rparr>)"
    "rx l = lit ''01'' @ rest \<Longrightarrow> PL011_geth l = Some (1, l\<lparr>rx := rest\<rparr>)"
  using PL011_geth_upper [of l 0 rest] PL011_geth_upper [of l 1 rest] commands(1,2)
  by (simp_all add: hexdata_def)

section \<open>The driver against the server\<close>

lemma putc_text: "x \<noteq> 10 \<Longrightarrow> PL011_putc peer x l = l\<lparr>tx := tx l @ [x]\<rparr>"
  by (simp add: PL011_putc_def)

lemma sent_rd:
  assumes "quiet l" "disk_py (remote l) (hexdata [2] @ 32 # hexdata (addr_bytes a)) = (reply, d)"
  shows "PL011_putc disk_py 10 (addr_puth disk_py a (PL011_putc disk_py 32 (PL011_puth disk_py 0x02 l)))
           = l\<lparr>rx := reply, remote := d\<rparr>"
  using assms by (simp add: PL011_puth_eq putc_text addr_puth_eq quiet_def hexdata_def PL011_putc_def)

lemma sent_wr:
  assumes "quiet l" "disk_py (remote l) (hexdata [1] @ 32 # hexdata (addr_bytes a) @ 32 # hexdata bs) = (reply, d)"
  shows "PL011_putc disk_py 10 (data_puth disk_py bs (PL011_putc disk_py 32 (addr_puth disk_py a
             (PL011_putc disk_py 32 (PL011_puth disk_py 0x01 l))))) = l\<lparr>rx := reply, remote := d\<rparr>"
  using assms by (simp add: PL011_puth_eq putc_text addr_puth_eq data_puth_eq quiet_def hexdata_def PL011_putc_def)

lemma sent_conf:
  assumes "quiet l" "disk_py (remote l) (hexdata [0]) = (reply, d)"
  shows "PL011_putc disk_py 10 (PL011_puth disk_py 0x00 l) = l\<lparr>rx := reply, remote := d\<rparr>"
  using assms by (simp add: PL011_puth_eq quiet_def hexdata_def PL011_putc_def)

lemma quiet_rx: "quiet l \<Longrightarrow> l\<lparr>rx := [], remote := remote l\<rparr> = l"
  by (cases l) (simp add: quiet_def)

lemma disk_rd_ok:
  assumes "quiet l" "valid_block (remote l) a" "length (block_at (remote l) a) = n"
  shows "disk_rd disk_py a x n l = Some (block_at (remote l) a, l)"
proof -
  let ?bs = "block_at (remote l) a"
  note sent = sent_rd [OF assms(1) disk_py_read [OF assms(2)]]
  have "data_geth n (l\<lparr>rx := hexlify ?bs @ [10], remote := remote l\<rparr>) = Some (?bs, l\<lparr>rx := [10], remote := remote l\<rparr>)"
    using data_geth_eq [of "l\<lparr>rx := hexlify ?bs @ [10], remote := remote l\<rparr>" ?bs "[10]"] assms(3) by simp
  moreover have "PL011_geth (l\<lparr>rx := lit ''00'' @ 32 # hexlify ?bs @ [10], remote := remote l\<rparr>)
      = Some (0, l\<lparr>rx := 32 # hexlify ?bs @ [10], remote := remote l\<rparr>)"
    by (subst geth_ack(1)) simp_all
  ultimately show ?thesis
    using quiet_rx [OF assms(1)]
    by (simp add: disk_rd_def RETRY_def numeral_3_eq_3 sent PL011_getc_def)
qed

lemma data_geth_short: "rx l = hexlify bs @ [10] \<Longrightarrow> length bs < n \<Longrightarrow> data_geth n l = None"
proof (induction bs arbitrary: l n)
  case Nil
  then show ?case by (cases n) (simp_all add: hexlify_def PL011_geth_def PL011_getc_def)
next
  case (Cons b bs)
  then show ?case
    by (cases n) (simp_all add: hexlify_def PL011_geth_lower [of l b])
qed

lemma disk_rd_short:
  assumes "quiet l" "valid_block (remote l) a" "length (block_at (remote l) a) < n"
  shows "disk_rd disk_py a x n l = None"
proof -
  let ?bs = "block_at (remote l) a"
  note sent = sent_rd [OF assms(1) disk_py_read [OF assms(2)]]
  have "data_geth n (l\<lparr>rx := hexlify ?bs @ [10], remote := remote l\<rparr>) = None"
    by (rule data_geth_short [OF _ assms(3)]) simp
  moreover have "PL011_geth (l\<lparr>rx := lit ''00'' @ 32 # hexlify ?bs @ [10], remote := remote l\<rparr>)
      = Some (0, l\<lparr>rx := 32 # hexlify ?bs @ [10], remote := remote l\<rparr>)"
    by (subst geth_ack(1)) simp_all
  ultimately show ?thesis
    by (simp add: disk_rd_def RETRY_def numeral_3_eq_3 sent PL011_getc_def)
qed

lemma disk_rd_bad:
  assumes "quiet l" "alive (remote l)" "block_num (remote l) \<le> sint a"
  shows "disk_rd_loop disk_py k a x n l = Some (x, l)"
proof (induction k)
  case 0
  then show ?case by simp
next
  case (Suc k)
  note sent = sent_rd [OF assms(1) disk_py_read_bad [OF assms(2,3)]]
  have "PL011_geth (l\<lparr>rx := lit ''01'' @ [10], remote := remote l\<rparr>) = Some (1, l\<lparr>rx := [10], remote := remote l\<rparr>)"
    by (subst geth_ack(2)) simp_all
  then show ?case
    using Suc quiet_rx [OF assms(1)] by (simp add: sent PL011_getc_def)
qed

lemma disk_wr_ok:
  assumes "quiet l" "valid_block (remote l) a" "bs \<noteq> []"
  shows "disk_wr disk_py a bs l = Some (l\<lparr>remote := (remote l)\<lparr>img :=
           file_write (img (remote l)) (nat (sint a * block_len (remote l))) bs\<rparr>\<rparr>)"
proof -
  let ?d = "(remote l)\<lparr>img := file_write (img (remote l)) (nat (sint a * block_len (remote l))) bs\<rparr>"
  note sent = sent_wr [OF assms(1) disk_py_write [OF assms(2,3)]]
  have "PL011_geth (l\<lparr>rx := lit ''00'' @ [10], remote := ?d\<rparr>) = Some (0, l\<lparr>rx := [10], remote := ?d\<rparr>)"
    by (subst geth_ack(1)) (simp, cases l, simp)
  moreover have "l\<lparr>remote := ?d, rx := []\<rparr> = l\<lparr>remote := ?d\<rparr>"
    using assms(1) by (cases l) (simp add: quiet_def)
  ultimately show ?thesis
    by (simp add: disk_wr_def RETRY_def numeral_3_eq_3 sent PL011_getc_def)
qed

lemma disk_wr_bad:
  assumes "quiet l" "alive (remote l)" "block_num (remote l) \<le> sint a" "bs \<noteq> []"
  shows "disk_wr_loop disk_py k a bs l = Some l"
proof (induction k)
  case 0
  then show ?case by simp
next
  case (Suc k)
  note sent = sent_wr [OF assms(1) disk_py_write_bad [OF assms(2-4)]]
  have "PL011_geth (l\<lparr>rx := lit ''01'' @ [10], remote := remote l\<rparr>) = Some (1, l\<lparr>rx := [10], remote := remote l\<rparr>)"
    by (subst geth_ack(2)) simp_all
  then show ?case
    using Suc quiet_rx [OF assms(1)] by (simp add: sent PL011_getc_def Let_def)
qed

section \<open>Blocks of the image\<close>

lemma list_block_other:
  assumes "length bs = n" "i * n + n \<le> length f" "i \<noteq> j"
  shows "take n (drop (j * n) (take (i * n) f @ bs @ drop (i * n + n) f)) = take n (drop (j * n) f)"
proof (cases "j < i")
  case True
  then have "Suc j * n \<le> i * n" by (intro mult_le_mono1) simp
  then have le: "j * n + n \<le> i * n" by simp
  have "take n (drop p (take q f @ rest)) = take n (drop p f)" if "p + n \<le> q" "q \<le> length f" for p q rest
    using that by (simp add: drop_take)
  from this [OF le, of "bs @ drop (i * n + n) f"] show ?thesis using assms(2) by (simp del: drop_append take_append)
next
  case False
  with assms(3) have "Suc i * n \<le> j * n" by (intro mult_le_mono1) simp
  then have le: "i * n + n \<le> j * n" by simp
  have "drop p (take q f @ bs @ drop (q + n) f) = drop p f" if "q + n \<le> p" "q + n \<le> length f" for p q
    using that assms(1) by simp
  from this [OF le assms(2)] show ?thesis by (simp del: drop_append take_append)
qed

lemma list_block_same:
  assumes "length bs = n" "i * n + n \<le> length f"
  shows "take n (drop (i * n) (take (i * n) f @ bs @ drop (i * n + n) f)) = bs"
  using assms by (simp add: min_def)

text \<open>A healthy disk: the server is up and its file holds all the blocks it claims.\<close>

definition healthy :: "nat \<Rightarrow> disk line \<Rightarrow> bool" where
  "healthy n l \<longleftrightarrow> quiet l \<and> alive (remote l) \<and> 0 < n \<and> block_len (remote l) = int n
     \<and> 0 \<le> block_num (remote l) \<and> block_num (remote l) < 2 ^ 31
     \<and> nat (block_num (remote l)) * n \<le> length (img (remote l))"

definition block_of :: "nat \<Rightarrow> disk line \<Rightarrow> nat \<Rightarrow> u8 list" where
  "block_of n l b = take n (drop (b * n) (img (remote l)))"

lemma healthy_block:
  assumes "healthy n l" "unat a < nat (block_num (remote l))"
  shows "valid_block (remote l) a" "block_at (remote l) a = block_of n l (unat a)"
    "length (block_of n l (unat a)) = n" "unat a * n + n \<le> length (img (remote l))" "sint a = int (unat a)"
proof -
  have "unat a < 2 ^ 31" using assms by (auto simp: healthy_def)
  then have "unat a < 2147483648" by simp
  then have "int (unat a) < 2147483648" by (metis of_nat_less_iff of_nat_numeral)
  moreover have "- 2147483648 \<le> int (unat a)" by linarith
  ultimately have "sint (word_of_int (int (unat a)) :: u32) = int (unat a)" by (intro sint_word_of_int_i32)
  then show s: "sint a = int (unat a)" by simp
  have "Suc (unat a) * n \<le> nat (block_num (remote l)) * n" using assms(2) by (intro mult_le_mono1) simp
  then show fits: "unat a * n + n \<le> length (img (remote l))" using assms(1) by (simp add: healthy_def)
  have "sint a < block_num (remote l)" "0 \<le> sint a" using assms(2) s by linarith+
  then show "valid_block (remote l) a" using assms(1) by (simp add: valid_block_def healthy_def)
  show "block_at (remote l) a = block_of n l (unat a)"
    using assms(1) s by (simp add: block_at_def block_of_def healthy_def nat_mult_distrib)
  show "length (block_of n l (unat a)) = n" using fits by (simp add: block_of_def)
qed

lemma block_of_write:
  assumes "healthy n l" "unat a < nat (block_num (remote l))" "length bs = n"
    "disk_wr disk_py a bs l = Some l'"
  shows "healthy n l'" "block_num (remote l') = block_num (remote l)"
    "block_of n l' b = (if b = unat a then bs else block_of n l b)"
proof -
  note h = healthy_block [OF assms(1,2)]
  have bs: "bs \<noteq> []" using assms(1,3) by (auto simp: healthy_def)
  have q: "quiet l" using assms(1) by (simp add: healthy_def)
  have pos: "nat (sint a * block_len (remote l)) = unat a * n"
    using assms(1) h(5) by (simp add: healthy_def nat_mult_distrib)
  have l': "l' = l\<lparr>remote := (remote l)\<lparr>img := take (unat a * n) (img (remote l)) @ bs @ drop (unat a * n + n) (img (remote l))\<rparr>\<rparr>"
    using assms(3,4) h(4) bs by (auto simp: disk_wr_ok [OF q h(1) bs] pos file_write_def Let_def)
  show "healthy n l'" using assms(1,3) h(4) by (auto simp: l' healthy_def quiet_def)
  show "block_num (remote l') = block_num (remote l)" by (simp add: l')
  show "block_of n l' b = (if b = unat a then bs else block_of n l b)"
    using list_block_other [OF assms(3) h(4)] list_block_same [OF assms(3) h(4)]
    by (auto simp: l' block_of_def)
qed

section \<open>The interface of a disk\<close>

text \<open>
  What the file system relies on: reads return the stored block and writes replace it.  The
  lemmas are the ones a client needs; the locale is interpreted on the driver with the server
  behind it here, and on the file system's own view of the disk in theory \<open>Fat16\<close>.
\<close>

locale block_store =
  fixes ok :: "'d \<Rightarrow> bool"
    and size_of :: "'d \<Rightarrow> nat"
    and blk :: "'d \<Rightarrow> nat \<Rightarrow> u8 list"
    and rd :: "'d \<Rightarrow> u32 \<Rightarrow> (u8 list \<times> 'd) option"
    and wr :: "'d \<Rightarrow> u32 \<Rightarrow> u8 list \<Rightarrow> 'd option"
    and len :: nat
  assumes rd_block: "ok d \<Longrightarrow> unat a < size_of d \<Longrightarrow> rd d a = Some (blk d (unat a), d)"
    and blk_length: "ok d \<Longrightarrow> b < size_of d \<Longrightarrow> length (blk d b) = len"
    and wr_block: "ok d \<Longrightarrow> unat a < size_of d \<Longrightarrow> length bs = len \<Longrightarrow>
      \<exists>d'. wr d a bs = Some d' \<and> ok d' \<and> size_of d' = size_of d
         \<and> (\<forall>b. blk d' b = (if b = unat a then bs else blk d b))"
begin

lemma wr_rd:
  assumes "ok d" "unat a < size_of d" "length bs = len"
  shows "\<exists>d'. wr d a bs = Some d' \<and> rd d' a = Some (bs, d')
    \<and> (\<forall>b. unat b < size_of d \<and> b \<noteq> a \<longrightarrow> rd d' b = Some (blk d (unat b), d'))"
proof -
  obtain d' where d': "wr d a bs = Some d'" "ok d'" "size_of d' = size_of d"
      "\<forall>b. blk d' b = (if b = unat a then bs else blk d b)"
    using wr_block [OF assms] by blast
  then show ?thesis using rd_block [of d'] assms(2) by (auto simp: word_unat_eq_iff [symmetric])
qed

end

interpretation uart_disk: block_store "healthy n" "\<lambda>l. nat (block_num (remote l))" "block_of n"
  "\<lambda>l a. disk_rd disk_py a (replicate n 0) n l" "\<lambda>l a bs. disk_wr disk_py a bs l" n for n
proof unfold_locales
  fix l and a :: u32
  assume "healthy n l" "unat a < nat (block_num (remote l))"
  moreover from this have "quiet l" by (simp add: healthy_def)
  ultimately show "disk_rd disk_py a (replicate n 0) n l = Some (block_of n l (unat a), l)"
    using healthy_block [of n l a] by (simp add: disk_rd_ok)
next
  fix l b
  assume h: "healthy n l" "b < nat (block_num (remote l))"
  have "Suc b * n \<le> nat (block_num (remote l)) * n" using h(2) by (intro mult_le_mono1) simp
  then have "b * n + n \<le> length (img (remote l))" using h(1) by (simp add: healthy_def)
  then show "length (block_of n l b) = n" by (simp add: block_of_def)
next
  fix l and a :: u32 and bs :: "u8 list"
  assume h: "healthy n l" "unat a < nat (block_num (remote l))" "length bs = n"
  then have "quiet l" "bs \<noteq> []" by (auto simp: healthy_def)
  then obtain l' where "disk_wr disk_py a bs l = Some l'"
    using healthy_block(1) [OF h(1,2)] by (auto simp: disk_wr_ok)
  then show "\<exists>l'. disk_wr disk_py a bs l = Some l' \<and> healthy n l' \<and>
      nat (block_num (remote l')) = nat (block_num (remote l)) \<and>
      (\<forall>b. block_of n l' b = (if b = unat a then bs else block_of n l b))"
    using block_of_write [OF h] by auto
qed

section \<open>Properties\<close>

text \<open>A small disk: three blocks of two bytes, of which the file holds the first two.\<close>

definition demo_line :: "disk line" where
  "demo_line = \<lparr>tx = [], rx = [], remote = \<lparr>img = [1, 2, 0xAB, 4], block_num = 3, block_len = 2, alive = True\<rparr>\<rparr>"

text \<open>
  \<^verbatim>\<open>disk_rd\<close> with the server of \<^verbatim>\<open>test/disk.py\<close> behind the serial line, on every branch.  An
  address below the block count yields exactly the block stored there; an address that is
  too large is refused three times and leaves the buffer as it was, without any error
  to the caller; and a block that lies behind the end of the image file makes
  the driver wait for ever (\<open>None\<close>), because the server answers with fewer bytes than the
  driver insists on reading.  The line is left quiet in the first two cases.
\<close>

lemma disk_rd_branches:
  assumes "quiet l" "alive (remote l)" "block_len (remote l) = int n" "0 < n" "0 \<le> sint a"
  shows "disk_rd disk_py a x n l =
     (if block_num (remote l) \<le> sint a then Some (x, l)
      else if nat (sint a) * n + n \<le> length (img (remote l))
      then Some (take n (drop (nat (sint a) * n) (img (remote l))), l)
      else None)"
proof (cases "block_num (remote l) \<le> sint a")
  case True
  then show ?thesis using disk_rd_bad [OF assms(1,2) True] by (simp add: disk_rd_def)
next
  case False
  then have v: "valid_block (remote l) a" using assms by (simp add: valid_block_def)
  have b: "block_at (remote l) a = take n (drop (nat (sint a) * n) (img (remote l)))"
    using assms(3,5) by (simp add: block_at_def nat_mult_distrib)
  show ?thesis
  proof (cases "nat (sint a) * n + n \<le> length (img (remote l))")
    case True
    then have "length (block_at (remote l) a) = n" by (simp add: b)
    from disk_rd_ok [OF assms(1) v this] show ?thesis using False True b by simp
  next
    case F: False
    then have "length (block_at (remote l) a) < n" using assms(4) by (simp add: b min_def)
    from disk_rd_short [OF assms(1) v this] show ?thesis using False F by simp
  qed
qed

lemma disk_rd_branches_witness:
  "disk_rd disk_py 1 [9, 9] 2 demo_line = Some ([0xAB, 4], demo_line)
   \<and> disk_rd disk_py 2 [9, 9] 2 demo_line = None
   \<and> disk_rd disk_py 3 [9, 9] 2 demo_line = Some ([9, 9], demo_line)"
  using disk_rd_branches [of demo_line 2 1 "[9, 9]"] disk_rd_branches [of demo_line 2 2 "[9, 9]"]
    disk_rd_branches [of demo_line 2 3 "[9, 9]"]
  by (simp add: demo_line_def quiet_def)

text \<open>
  C18: the disk stores what is written.  On a healthy disk \<^verbatim>\<open>disk_wr\<close> of a block succeeds at
  the first attempt, a following \<^verbatim>\<open>disk_rd\<close> of the same address returns the bytes written, and
  of every other address what was stored there before.
\<close>

theorem disk_wr_rd_roundtrip:
  assumes "healthy n l" "unat a < nat (block_num (remote l))" "length bs = n"
  shows "\<exists>l'. disk_wr disk_py a bs l = Some l' \<and> healthy n l'
    \<and> disk_rd disk_py a (replicate n 0) n l' = Some (bs, l')
    \<and> (\<forall>b. unat b < nat (block_num (remote l)) \<and> b \<noteq> a \<longrightarrow>
         disk_rd disk_py b (replicate n 0) n l' = Some (block_of n l (unat b), l'))"
  using uart_disk.wr_rd [OF assms] block_of_write(1) [OF assms] by blast

theorem disk_wr_rd_roundtrip_witness:
  "\<exists>l'. disk_wr disk_py 1 [7, 8] (demo_line\<lparr>remote := (remote demo_line)\<lparr>block_num := 2\<rparr>\<rparr>) = Some l'
     \<and> disk_rd disk_py 1 [0, 0] 2 l' = Some ([7, 8], l') \<and> disk_rd disk_py 0 [0, 0] 2 l' = Some ([1, 2], l')"
proof -
  let ?l = "demo_line\<lparr>remote := (remote demo_line)\<lparr>block_num := 2\<rparr>\<rparr>"
  have "healthy 2 ?l" "unat (1 :: u32) < nat (block_num (remote ?l))" "unat (0 :: u32) < nat (block_num (remote ?l))"
       "block_of 2 ?l 0 = [1, 2]" "replicate 2 0 = [0, 0 :: u8]"
    by (simp_all add: healthy_def demo_line_def quiet_def block_of_def numeral_2_eq_2)
  then show ?thesis
    using disk_wr_rd_roundtrip [of 2 ?l 1 "[7, 8]"] by fastforce
qed

lemma pack_byte:
  assumes "i < 4"
  shows "(word_of_int (k div 256 ^ i) :: u8) = ucast (drop_bit (8 * i) (word_of_int k :: u32) AND 0xFF)"
proof -
  have m: "y AND 0xFF = take_bit 8 y" for y :: u32
    by (simp add: take_bit_eq_mask mask_eq_exp_minus_1)
  have d: "k div 256 ^ i = drop_bit (8 * i) k" by (simp add: drop_bit_eq_div power_mult)
  show ?thesis
    unfolding m d by (rule bit_word_eqI) (use assms in \<open>auto simp: bit_simps\<close>)
qed

lemma le32_pack: "le32 (pack_l k ! 0) (pack_l k ! 1) (pack_l k ! 2) (pack_l k ! 3) = word_of_int k"
  using le32_addr_bytes [of "word_of_int k"] pack_byte [of 0 k] pack_byte [of 1 k] pack_byte [of 2 k] pack_byte [of 3 k]
  by (simp add: pack_l_def)

lemma disk_query_eq:
  assumes "quiet l" "alive (remote l)" "0 \<le> block_num (remote l)" "block_num (remote l) < 2 ^ 31"
    "0 \<le> block_len (remote l)" "block_len (remote l) < 2 ^ 31"
  shows "disk_query disk_py k RETRY l =
    (let x = pack_l (block_num (remote l)) @ pack_l (block_len (remote l))
     in Some (le32 (x ! k) (x ! (k + 1)) (x ! (k + 2)) (x ! (k + 3)), l))"
proof -
  let ?x = "pack_l (block_num (remote l)) @ pack_l (block_len (remote l))"
  have "disk_py (remote l) (hexdata [0]) = (lit ''00'' @ [32] @ hexlify ?x @ [10], remote l)"
    using assms by (simp add: disk_py_def request_conf disk_conf_def)
  note sent = sent_conf [OF assms(1) this]
  have "length ?x = 8" by (simp add: pack_l_def)
  then have "data_geth 8 (l\<lparr>rx := hexlify ?x @ [10], remote := remote l\<rparr>) = Some (?x, l\<lparr>rx := [10], remote := remote l\<rparr>)"
    using data_geth_eq [of "l\<lparr>rx := hexlify ?x @ [10], remote := remote l\<rparr>" ?x "[10]"] by simp
  moreover have "PL011_geth (l\<lparr>rx := lit ''00'' @ 32 # hexlify ?x @ [10], remote := remote l\<rparr>)
      = Some (0, l\<lparr>rx := 32 # hexlify ?x @ [10], remote := remote l\<rparr>)"
    by (subst geth_ack(1)) simp_all
  ultimately show ?thesis
    using quiet_rx [OF assms(1)]
    by (simp add: RETRY_def numeral_3_eq_3 sent PL011_getc_def Let_def del: data_geth.simps)
qed

text \<open>
  The two queries return the geometry the server was started with, and leave the line quiet.
\<close>

lemma disk_geometry:
  assumes "quiet l" "alive (remote l)" "0 \<le> block_num (remote l)" "block_num (remote l) < 2 ^ 31"
    "0 \<le> block_len (remote l)" "block_len (remote l) < 2 ^ 31"
  shows "disk_get_block_num disk_py l = Some (word_of_int (block_num (remote l)), l)
    \<and> disk_get_block_len disk_py l = Some (word_of_int (block_len (remote l)), l)"
proof -
  have l: "length (pack_l k) = 4" for k by (simp add: pack_l_def)
  show ?thesis
    using le32_pack [of "block_num (remote l)"] le32_pack [of "block_len (remote l)"]
    by (simp add: disk_get_block_num_def disk_get_block_len_def disk_query_eq [OF assms] l nth_append Let_def numeral_2_eq_2)
qed

lemma disk_geometry_witness:
  "disk_get_block_num disk_py demo_line = Some (3, demo_line) \<and> disk_get_block_len disk_py demo_line = Some (2, demo_line)"
  using disk_geometry [of demo_line] by (simp add: demo_line_def quiet_def)

end
