(* ===== verification/Fat16.thy ===== *)
theory Fat16
  imports Disk Stdstring
begin

text \<open>
  The FAT16 layer of \<^verbatim>\<open>os/src/kernel/file.c\<close>: the boot sector, the regions of the disk, the file
  allocation table, clusters, directory entries, and reading and writing along a chain of
  clusters.

  The disk is a list of sectors.  \<open>fs_rd\<close> and \<open>fs_wr\<close> stand for the calls of \<^verbatim>\<open>disk_rd\<close> and
  \<^verbatim>\<open>disk_wr\<close>; they satisfy the same interface \<open>block_store\<close> as the driver of theory \<open>Disk\<close>.  A
  block the disk does not have makes the driver leave the buffer undefined (or wait for ever),
  and the model stops there with \<open>None\<close>; a loop along a chain that never ends is \<open>None\<close> too.
  Buffers are lists of bytes.  Index results that are -1 in the code are \<open>None\<close> inside \<open>Some\<close>.
\<close>

unbundle bit_operations_syntax

type_synonym sectors = "u8 list list"

section \<open>The disk as the file system sees it\<close>

definition fs_rd :: "sectors \<Rightarrow> u32 \<Rightarrow> nat \<Rightarrow> u8 list option" where
  "fs_rd dev a n =
     (if unat a < length dev \<and> length (dev ! unat a) = n then Some (dev ! unat a) else None)"

definition fs_wr :: "sectors \<Rightarrow> u32 \<Rightarrow> u8 list \<Rightarrow> sectors option" where
  "fs_wr dev a bs =
     (if unat a < length dev \<and> length bs = length (dev ! unat a) then Some (dev[unat a := bs]) else None)"

section \<open>Data\<close>

record fat16_t =
  bytes_per_sector :: u16
  sectors_per_cluster :: u8
  num_reserved_sectors :: u16
  num_file_allocation_tables :: u8
  num_root_directory_entries :: u16
  total_num_sectors :: u16
  media_descriptor :: u8
  num_sectors_per_file_allocation_table :: u16
  volume_serial_number :: u32
  volume_label :: "u8 list"
  file_system_identifier :: "u8 list"

record fat16_regions_t =
  fat_region_start :: u32
  root_directory_region_start :: u32
  data_region_start :: u32
  reserved_region_size :: u32
  fat_region_size :: u32
  root_directory_region_size :: u32
  data_region_size :: u32

record fat16_dir_entry_t =
  filename :: "u8 list"
  extension :: "u8 list"
  attributes :: u8
  first_cluster :: u16
  file_size_bytes :: u32

record fat16_file_attr_t =
  is_read_only :: bool
  is_hidden_file :: bool
  is_system_file :: bool
  is_volume_label :: bool
  is_subdirectory :: bool
  is_archive :: bool

definition unpack_file_attributes :: "u8 \<Rightarrow> fat16_file_attr_t" where
  "unpack_file_attributes b = \<lparr>is_read_only = b AND 0x01 \<noteq> 0, is_hidden_file = b AND 0x02 \<noteq> 0,
     is_system_file = b AND 0x04 \<noteq> 0, is_volume_label = b AND 0x08 \<noteq> 0,
     is_subdirectory = b AND 0x10 \<noteq> 0, is_archive = b AND 0x20 \<noteq> 0\<rparr>"

text \<open>\<^verbatim>\<open>pack_file_attributes\<close> starts from a variable it never initialises: \<open>result0\<close>.\<close>

definition pack_file_attributes :: "u8 \<Rightarrow> fat16_file_attr_t \<Rightarrow> u8" where
  "pack_file_attributes result0 a =
     (let r1 = (if is_read_only a then result0 OR 0x01 else result0);
          r2 = (if is_hidden_file a then r1 OR 0x02 else r1);
          r3 = (if is_system_file a then r2 OR 0x04 else r2);
          r4 = (if is_volume_label a then r3 OR 0x08 else r3);
          r5 = (if is_subdirectory a then r4 OR 0x10 else r4)
      in if is_archive a then r5 OR 0x20 else r5)"

definition le16 :: "u8 \<Rightarrow> u8 \<Rightarrow> u16" where
  "le16 lo hi = ucast lo + ucast hi * 256"

definition le4 :: "u8 \<Rightarrow> u8 \<Rightarrow> u8 \<Rightarrow> u8 \<Rightarrow> u32" where
  "le4 a b c d = ucast a + 256 * (ucast b + 256 * (ucast c + 256 * ucast d))"

section \<open>The boot sector and the regions\<close>

definition inspect_file_system :: "sectors \<Rightarrow> fat16_t option" where
  "inspect_file_system dev = do {
     b \<leftarrow> fs_rd dev 0 512;
     Some \<lparr>bytes_per_sector = le16 (b ! 0xb) (b ! 0xc), sectors_per_cluster = b ! 0xd,
       num_reserved_sectors = le16 (b ! 0xe) (b ! 0xf), num_file_allocation_tables = b ! 0x10,
       num_root_directory_entries = le16 (b ! 0x11) (b ! 0x12),
       total_num_sectors = le16 (b ! 0x13) (b ! 0x14), media_descriptor = b ! 0x15,
       num_sectors_per_file_allocation_table = le16 (b ! 0x16) (b ! 0x17),
       volume_serial_number = le4 (b ! 0x27) (b ! 0x28) (b ! 0x29) (b ! 0x2a),
       volume_label = take 11 (drop 0x2b b), file_system_identifier = take 8 (drop 0x36 b)\<rparr> }"

definition calculate_regions :: "fat16_t \<Rightarrow> fat16_regions_t" where
  "calculate_regions fs =
     (let fat_start = ucast (num_reserved_sectors fs) :: u32;
          fat_size = ucast (num_file_allocation_tables fs) * ucast (num_sectors_per_file_allocation_table fs);
          root_start = fat_start + fat_size;
          root_size = (ucast (num_root_directory_entries fs) * 32) div ucast (bytes_per_sector fs);
          data_start = root_start + root_size
      in \<lparr>fat_region_start = fat_start, root_directory_region_start = root_start,
          data_region_start = data_start, reserved_region_size = ucast (num_reserved_sectors fs),
          fat_region_size = fat_size, root_directory_region_size = root_size,
          data_region_size = ucast (total_num_sectors fs)
            - (ucast (num_reserved_sectors fs) + fat_size + root_size)\<rparr>)"

abbreviation (input) bps :: "fat16_t \<Rightarrow> nat" where
  "bps fs \<equiv> unat (bytes_per_sector fs)"

abbreviation (input) spc :: "fat16_t \<Rightarrow> nat" where
  "spc fs \<equiv> unat (sectors_per_cluster fs)"

definition bytes_per_cluster :: "fat16_t \<Rightarrow> nat" where
  "bytes_per_cluster fs = bps fs * spc fs"

section \<open>The file allocation table\<close>

definition get_successor_cluster :: "sectors \<Rightarrow> fat16_t \<Rightarrow> u16 \<Rightarrow> u16 option" where
  "get_successor_cluster dev fs cluster_number =
     (let in_fat_sector = (unat cluster_number * 2) div bps fs;
          in_sector = fat_region_start (calculate_regions fs) + of_nat in_fat_sector
      in do {
        fat_sector \<leftarrow> fs_rd dev in_sector (bps fs);
        let entries_per_sector = bps fs div 2;
        let entry_in_sector = unat cluster_number - entries_per_sector * in_fat_sector;
        Some (le16 (fat_sector ! (entry_in_sector * 2)) (fat_sector ! (entry_in_sector * 2 + 1))) })"

definition set_successor_cluster :: "sectors \<Rightarrow> fat16_t \<Rightarrow> u16 \<Rightarrow> u16 \<Rightarrow> sectors option" where
  "set_successor_cluster dev fs cluster_number successor =
     (let in_fat_sector = (unat cluster_number * 2) div bps fs;
          in_sector = fat_region_start (calculate_regions fs) + of_nat in_fat_sector
      in do {
        fat_sector \<leftarrow> fs_rd dev in_sector (bps fs);
        let index = unat cluster_number * 2 - in_fat_sector * bps fs;
        fs_wr dev in_sector
          (fat_sector[index := ucast (successor AND 0xFF), index + 1 := ucast (drop_bit 8 successor AND 0xFF)]) })"

text \<open>The loops of \<^verbatim>\<open>find_first_free_cluster\<close>: over the entries of a sector, over the sectors.\<close>

definition free_in_sector :: "u8 list \<Rightarrow> nat \<Rightarrow> nat option" where
  "free_in_sector sector entries_per_sector =
     List.find (\<lambda>j. sector ! (j * 2) = 0x00 \<and> sector ! (j * 2 + 1) = 0x00) [0..<entries_per_sector]"

fun free_in_fat :: "sectors \<Rightarrow> fat16_t \<Rightarrow> nat list \<Rightarrow> u16 option" where
  "free_in_fat dev fs [] = Some 0"
| "free_in_fat dev fs (i # is) = do {
     fat_sector \<leftarrow> fs_rd dev (fat_region_start (calculate_regions fs) + of_nat i) (bps fs);
     (case free_in_sector fat_sector (bps fs div 2) of
        Some j \<Rightarrow> Some (of_nat (bps fs div 2 * i + j))
      | None \<Rightarrow> free_in_fat dev fs is) }"

definition find_first_free_cluster :: "sectors \<Rightarrow> fat16_t \<Rightarrow> u16 option" where
  "find_first_free_cluster dev fs =
     free_in_fat dev fs [0..<unat (num_sectors_per_file_allocation_table fs)]"

section \<open>Clusters\<close>

definition first_sector :: "fat16_t \<Rightarrow> u16 \<Rightarrow> u32" where
  "first_sector fs cluster_number =
     data_region_start (calculate_regions fs) + (ucast cluster_number - 2) * ucast (sectors_per_cluster fs)"

fun load_sectors :: "sectors \<Rightarrow> nat \<Rightarrow> u32 \<Rightarrow> nat \<Rightarrow> u8 list option" where
  "load_sectors dev n a 0 = Some []"
| "load_sectors dev n a (Suc k) = do {
     s \<leftarrow> fs_rd dev a n; rest \<leftarrow> load_sectors dev n (a + 1) k; Some (s @ rest) }"

definition load_cluster :: "sectors \<Rightarrow> fat16_t \<Rightarrow> u16 \<Rightarrow> u8 list option" where
  "load_cluster dev fs cluster_number =
     load_sectors dev (bps fs) (first_sector fs cluster_number) (spc fs)"

fun write_sectors :: "sectors \<Rightarrow> nat \<Rightarrow> u32 \<Rightarrow> nat \<Rightarrow> u8 list \<Rightarrow> sectors option" where
  "write_sectors dev n a 0 buf = Some dev"
| "write_sectors dev n a (Suc k) buf = do {
     dev' \<leftarrow> fs_wr dev a (take n buf); write_sectors dev' n (a + 1) k (drop n buf) }"

definition write_cluster :: "sectors \<Rightarrow> fat16_t \<Rightarrow> u16 \<Rightarrow> u8 list \<Rightarrow> sectors option" where
  "write_cluster dev fs cluster_number buf =
     write_sectors dev (bps fs) (first_sector fs cluster_number) (spc fs) buf"

section \<open>Directory entries\<close>

definition find_first_free_space_in_directory_cluster :: "fat16_t \<Rightarrow> u8 list \<Rightarrow> nat option" where
  "find_first_free_space_in_directory_cluster fs cluster =
     map_option (\<lambda>i. i * 32)
       (List.find (\<lambda>i. cluster ! (i * 32) = 0x00 \<or> cluster ! (i * 32) = 0xe5) [0..<bytes_per_cluster fs div 32])"

definition find_first_free_space_in_root_directory_sector :: "fat16_t \<Rightarrow> u8 list \<Rightarrow> nat option" where
  "find_first_free_space_in_root_directory_sector fs sector =
     map_option (\<lambda>i. i * 32)
       (List.find (\<lambda>i. sector ! (i * 32) = 0x00 \<or> sector ! (i * 32) = 0xe5) [0..<bps fs div 32])"

text \<open>The comparison of a name, with the \<^verbatim>\<open>break\<close> at the padding, and of an extension, without one.\<close>

fun name_matches :: "u8 list \<Rightarrow> u8 list \<Rightarrow> nat \<Rightarrow> nat \<Rightarrow> bool" where
  "name_matches buf name off 0 = True"
| "name_matches buf name off (Suc k) =
     (let j = 8 - Suc k in
      if buf ! (off + j) = 0x20 \<and> name ! j = 0 then True
      else buf ! (off + j) = name ! j \<and> name_matches buf name off k)"

definition entry_matches :: "u8 list \<Rightarrow> nat \<Rightarrow> u8 list \<Rightarrow> u8 list \<Rightarrow> bool" where
  "entry_matches buf off name ext \<longleftrightarrow>
     name_matches buf name off 8 \<and> (\<forall>j \<in> {0..<3}. buf ! (off + 0x8 + j) = ext ! j)"

definition find_file_in_directory_cluster :: "fat16_t \<Rightarrow> u8 list \<Rightarrow> u8 list \<Rightarrow> u8 list \<Rightarrow> nat option" where
  "find_file_in_directory_cluster fs cluster name ext =
     map_option (\<lambda>i. i * 32)
       (List.find (\<lambda>i. entry_matches cluster (i * 32) name ext) [0..<bytes_per_cluster fs div 32])"

definition find_file_in_root_directory_sector :: "fat16_t \<Rightarrow> u8 list \<Rightarrow> u8 list \<Rightarrow> u8 list \<Rightarrow> nat option" where
  "find_file_in_root_directory_sector fs sector name ext =
     map_option (\<lambda>i. i * 32)
       (List.find (\<lambda>i. entry_matches sector (i * 32) name ext) [0..<bps fs div 32])"

text \<open>The assignments that store an entry at byte \<open>off\<close> of a buffer, after its first character.\<close>

definition store_entry :: "u8 \<Rightarrow> nat \<Rightarrow> fat16_dir_entry_t \<Rightarrow> u8 list \<Rightarrow> u8 list" where
  "store_entry first off e buf =
     (let b1 = fold (\<lambda>i b. b[off + i := filename e ! i]) [1..<8] (buf[off := first]);
          b2 = fold (\<lambda>i b. b[off + 0x08 + i := extension e ! i]) [0..<3] b1
      in b2[off + 0x0b := attributes e,
            off + 0x1a := ucast (first_cluster e AND 0xFF),
            off + 0x1b := ucast (drop_bit 8 (first_cluster e) AND 0xFF),
            off + 0x1c := ucast (file_size_bytes e AND 0xFF),
            off + 0x1d := ucast (drop_bit 8 (file_size_bytes e) AND 0xFF),
            off + 0x1e := ucast (drop_bit 16 (file_size_bytes e) AND 0xFF),
            off + 0x1f := ucast (drop_bit 24 (file_size_bytes e) AND 0xFF)])"

definition new_first_char :: "fat16_dir_entry_t \<Rightarrow> u8" where
  "new_first_char e = (if filename e ! 0 = 0xe5 then 0x05 else filename e ! 0)"

text \<open>
  The loop over the sectors of the root directory that \<^verbatim>\<open>add_root_directory_entry\<close> and
  \<^verbatim>\<open>update_root_directory_entry\<close> share: the number of the sector in which \<open>look\<close> succeeds, the sector
  and the index.  \<^verbatim>\<open>current_sector_num\<close> has 16 bits.
\<close>

partial_function (option) root_search ::
    "sectors \<Rightarrow> fat16_t \<Rightarrow> (u8 list \<Rightarrow> nat option) \<Rightarrow> u16 \<Rightarrow> (u16 \<times> u8 list \<times> nat) option option" where
  "root_search dev fs look current_sector_num =
     (case fs_rd dev (ucast current_sector_num) (bps fs) of
        None \<Rightarrow> None
      | Some sector \<Rightarrow>
          (case look sector of
             Some index \<Rightarrow> Some (Some (current_sector_num, sector, index))
           | None \<Rightarrow>
               (if root_directory_region_start (calculate_regions fs)
                     + root_directory_region_size (calculate_regions fs) < ucast (current_sector_num + 1)
                then Some None
                else root_search dev fs look (current_sector_num + 1))))"

definition add_root_directory_entry :: "sectors \<Rightarrow> fat16_t \<Rightarrow> fat16_dir_entry_t \<Rightarrow> (i32 \<times> sectors) option" where
  "add_root_directory_entry dev fs entry = do {
     r \<leftarrow> root_search dev fs (find_first_free_space_in_root_directory_sector fs)
           (ucast (root_directory_region_start (calculate_regions fs)));
     (case r of
        None \<Rightarrow> Some (- 1, dev)
      | Some (num, sector, first_space) \<Rightarrow> do {
          dev' \<leftarrow> fs_wr dev (ucast num) (store_entry (new_first_char entry) first_space entry sector);
          Some (0, dev') }) }"

definition update_root_directory_entry ::
    "sectors \<Rightarrow> fat16_t \<Rightarrow> fat16_dir_entry_t \<Rightarrow> u8 list \<Rightarrow> u8 list \<Rightarrow> (i32 \<times> sectors) option" where
  "update_root_directory_entry dev fs updated_entry old_filename old_extension = do {
     r \<leftarrow> root_search dev fs (\<lambda>s. find_file_in_root_directory_sector fs s old_filename old_extension)
           (ucast (root_directory_region_start (calculate_regions fs)));
     (case r of
        None \<Rightarrow> Some (- 1, dev)
      | Some (num, sector, file_index) \<Rightarrow> do {
          dev' \<leftarrow> fs_wr dev (ucast num) (store_entry (filename updated_entry ! 0) file_index updated_entry sector);
          Some (0, dev') }) }"

text \<open>
  The loop over the clusters of a directory: the cluster in which \<open>look\<close> succeeds, its bytes and
  the index, or the last cluster of the chain and the bytes last read.
\<close>

datatype dir_search = Found u16 "u8 list" nat | Chain_end u16 "u8 list"

partial_function (option) cluster_search ::
    "sectors \<Rightarrow> fat16_t \<Rightarrow> (u8 list \<Rightarrow> nat option) \<Rightarrow> u16 \<Rightarrow> dir_search option" where
  "cluster_search dev fs look current_cluster_num =
     (case load_cluster dev fs current_cluster_num of
        None \<Rightarrow> None
      | Some cluster \<Rightarrow>
          (case look cluster of
             Some index \<Rightarrow> Some (Found current_cluster_num cluster index)
           | None \<Rightarrow>
               (case get_successor_cluster dev fs current_cluster_num of
                  None \<Rightarrow> None
                | Some next \<Rightarrow>
                    (if next < 0x0002 \<or> 0x0fef < next then Some (Chain_end current_cluster_num cluster)
                     else cluster_search dev fs look next))))"

definition add_directory_entry ::
    "sectors \<Rightarrow> fat16_t \<Rightarrow> u16 \<Rightarrow> fat16_dir_entry_t \<Rightarrow> (i32 \<times> sectors) option" where
  "add_directory_entry dev fs dir_cluster entry = do {
     r \<leftarrow> cluster_search dev fs (find_first_free_space_in_directory_cluster fs) dir_cluster;
     (case r of
        Found num cluster first_space \<Rightarrow> do {
          dev' \<leftarrow> write_cluster dev fs num (store_entry (new_first_char entry) first_space entry cluster);
          Some (0, dev') }
      | Chain_end previous cluster \<Rightarrow> do {
          num \<leftarrow> find_first_free_cluster dev fs;
          if num < 2 then Some (- 1, dev)
          else do {
            dev1 \<leftarrow> set_successor_cluster dev fs previous num;
            dev2 \<leftarrow> write_cluster dev1 fs num (store_entry (new_first_char entry) 0 entry cluster);
            Some (0, dev2) } }) }"

definition update_directory_entry ::
    "sectors \<Rightarrow> fat16_t \<Rightarrow> u16 \<Rightarrow> fat16_dir_entry_t \<Rightarrow> u8 list \<Rightarrow> u8 list \<Rightarrow> (i32 \<times> sectors) option" where
  "update_directory_entry dev fs dir_cluster updated_entry old_filename old_extension = do {
     r \<leftarrow> cluster_search dev fs (\<lambda>c. find_file_in_directory_cluster fs c old_filename old_extension) dir_cluster;
     (case r of
        Found num cluster file_index \<Rightarrow> do {
          dev' \<leftarrow> write_cluster dev fs num (store_entry (filename updated_entry ! 0) file_index updated_entry cluster);
          Some (0, dev') }
      | Chain_end _ _ \<Rightarrow> Some (- 1, dev)) }"

section \<open>Reading and writing along a chain\<close>

abbreviation (input) in_chain :: "u16 \<Rightarrow> bool" where
  "in_chain c \<equiv> 0x0001 < c \<and> c < 0xfff0"

text \<open>\<^verbatim>\<open>load_file\<close>: the bytes of the whole chain; their number is \<^verbatim>\<open>num_bytes\<close>.\<close>

partial_function (option) load_chain :: "sectors \<Rightarrow> fat16_t \<Rightarrow> u16 \<Rightarrow> u8 list option" where
  "load_chain dev fs next_cluster =
     (if in_chain next_cluster
      then (case load_cluster dev fs next_cluster of
              None \<Rightarrow> None
            | Some bs \<Rightarrow>
                (case get_successor_cluster dev fs next_cluster of
                   None \<Rightarrow> None
                 | Some next \<Rightarrow> do { rest \<leftarrow> load_chain dev fs next; Some (bs @ rest) }))
      else Some [])"

definition load_file :: "sectors \<Rightarrow> fat16_t \<Rightarrow> fat16_dir_entry_t \<Rightarrow> u8 list option" where
  "load_file dev fs entry = load_chain dev fs (first_cluster entry)"

text \<open>
  The first loop of \<^verbatim>\<open>read_from_file\<close> and \<^verbatim>\<open>write_to_file\<close>: at most \<open>k\<close> steps along the chain from
  \<open>current\<close>; the cluster reached and the one before it.
\<close>

fun seek_cluster :: "sectors \<Rightarrow> fat16_t \<Rightarrow> nat \<Rightarrow> u16 \<Rightarrow> u16 \<Rightarrow> (u16 \<times> u16) option" where
  "seek_cluster dev fs 0 previous current = Some (previous, current)"
| "seek_cluster dev fs (Suc k) previous current =
     (if in_chain current
      then do { next \<leftarrow> get_successor_cluster dev fs current; seek_cluster dev fs k current next }
      else Some (previous, current))"

text \<open>\<^verbatim>\<open>data_starts_in_cluster\<close> and \<^verbatim>\<open>data_offset_in_cluster\<close> are 16-bit variables.\<close>

definition data_starts_in_cluster :: "fat16_t \<Rightarrow> u32 \<Rightarrow> u16" where
  "data_starts_in_cluster fs offset = of_nat (unat offset div bytes_per_cluster fs)"

definition data_offset_in_cluster :: "fat16_t \<Rightarrow> u32 \<Rightarrow> u16" where
  "data_offset_in_cluster fs offset =
     ucast (offset - ucast (data_starts_in_cluster fs offset) * of_nat (bytes_per_cluster fs))"

text \<open>The loop of \<^verbatim>\<open>read_from_file\<close> over the clusters behind the first, with \<open>n\<close> bytes still wanted.\<close>

partial_function (option) read_rest :: "sectors \<Rightarrow> fat16_t \<Rightarrow> u16 \<Rightarrow> nat \<Rightarrow> u8 list option" where
  "read_rest dev fs current n =
     (if in_chain current \<and> 0 < n
      then (case load_cluster dev fs current of
              None \<Rightarrow> None
            | Some bs \<Rightarrow>
                (case get_successor_cluster dev fs current of
                   None \<Rightarrow> None
                 | Some next \<Rightarrow> do {
                     rest \<leftarrow> read_rest dev fs next (n - min n (bytes_per_cluster fs));
                     Some (take (min n (bytes_per_cluster fs)) bs @ rest) }))
      else Some [])"

text \<open>\<^verbatim>\<open>read_from_file\<close>: the bytes it stores in the buffer; their number is its result.\<close>

definition read_from_file :: "sectors \<Rightarrow> fat16_t \<Rightarrow> fat16_dir_entry_t \<Rightarrow> u32 \<Rightarrow> u32 \<Rightarrow> u8 list option" where
  "read_from_file dev fs entry offset num_bytes =
     (let off = unat (data_offset_in_cluster fs offset); n = unat num_bytes
      in do {
        (_, current) \<leftarrow> seek_cluster dev fs (unat (data_starts_in_cluster fs offset)) 0 (first_cluster entry);
        bs \<leftarrow> load_cluster dev fs current;
        let m = (if n < bytes_per_cluster fs - off then n else bytes_per_cluster fs - off);
        next \<leftarrow> get_successor_cluster dev fs current;
        rest \<leftarrow> read_rest dev fs next (n - m);
        Some (take m (drop off bs) @ rest) })"

text \<open>Overwriting part of a buffer, as \<^verbatim>\<open>stdmem_copy\<close> does.\<close>

definition patch :: "u8 list \<Rightarrow> nat \<Rightarrow> u8 list \<Rightarrow> u8 list" where
  "patch buf off bs = take off buf @ bs @ drop (off + length bs) buf"

text \<open>The second loop of \<^verbatim>\<open>write_to_file\<close>, over the clusters the file already has: \<open>bs\<close> is what is
  left to write.  The result is the disk, what is still left, and the last cluster.\<close>

partial_function (option) write_existing ::
    "sectors \<Rightarrow> fat16_t \<Rightarrow> u16 \<Rightarrow> u16 \<Rightarrow> u8 list \<Rightarrow> (sectors \<times> u8 list \<times> u16) option" where
  "write_existing dev fs previous current bs =
     (if in_chain current \<and> 0 < length bs
      then (case load_cluster dev fs current of
              None \<Rightarrow> None
            | Some cluster \<Rightarrow>
                (case write_cluster dev fs current (patch cluster 0 (take (bytes_per_cluster fs) bs)) of
                   None \<Rightarrow> None
                 | Some dev1 \<Rightarrow>
                     (case get_successor_cluster dev1 fs current of
                        None \<Rightarrow> None
                      | Some next \<Rightarrow> write_existing dev1 fs current next (drop (bytes_per_cluster fs) bs))))
      else Some (dev, bs, previous))"

text \<open>The third loop, which extends the file with free clusters.\<close>

partial_function (option) write_extend ::
    "sectors \<Rightarrow> fat16_t \<Rightarrow> u16 \<Rightarrow> u8 list \<Rightarrow> (sectors \<times> u8 list) option" where
  "write_extend dev fs previous bs =
     (if 0 < length bs
      then (case find_first_free_cluster dev fs of
              None \<Rightarrow> None
            | Some free \<Rightarrow>
                (if free < 2 then Some (dev, bs)
                 else
                   (case set_successor_cluster dev fs previous free of
                      None \<Rightarrow> None
                    | Some dev1 \<Rightarrow>
                        (case set_successor_cluster dev1 fs free 0xFFFF of
                           None \<Rightarrow> None
                         | Some dev2 \<Rightarrow>
                             (case load_cluster dev2 fs free of
                                None \<Rightarrow> None
                              | Some cluster \<Rightarrow>
                                  (case write_cluster dev2 fs free (patch cluster 0 (take (bytes_per_cluster fs) bs)) of
                                     None \<Rightarrow> None
                                   | Some dev3 \<Rightarrow> write_extend dev3 fs free (drop (bytes_per_cluster fs) bs)))))))
      else Some (dev, bs))"

text \<open>\<^verbatim>\<open>write_to_file\<close>: the number of bytes written and the disk.\<close>

definition write_to_file ::
    "sectors \<Rightarrow> fat16_t \<Rightarrow> fat16_dir_entry_t \<Rightarrow> u32 \<Rightarrow> u8 list \<Rightarrow> (nat \<times> sectors) option" where
  "write_to_file dev fs entry offset buf =
     (let off = unat (data_offset_in_cluster fs offset); n = length buf
      in do {
        (_, current) \<leftarrow> seek_cluster dev fs (unat (data_starts_in_cluster fs offset)) 0 (first_cluster entry);
        cluster \<leftarrow> load_cluster dev fs current;
        let m = (if n < bytes_per_cluster fs - off then n else bytes_per_cluster fs - off);
        dev1 \<leftarrow> write_cluster dev fs current (patch cluster off (take m buf));
        next \<leftarrow> get_successor_cluster dev1 fs current;
        (dev2, bs2, last_cluster) \<leftarrow> write_existing dev1 fs current next (drop m buf);
        (dev3, bs3) \<leftarrow> write_extend dev2 fs last_cluster bs2;
        Some (n - length bs3, dev3) })"

partial_function (option) count_chain :: "sectors \<Rightarrow> fat16_t \<Rightarrow> u16 \<Rightarrow> u16 \<Rightarrow> u16 option" where
  "count_chain dev fs next_cluster count =
     (if in_chain next_cluster
      then (case get_successor_cluster dev fs next_cluster of
              None \<Rightarrow> None
            | Some next \<Rightarrow> count_chain dev fs next (count + 1))
      else Some count)"

definition num_clusters_in_chain :: "sectors \<Rightarrow> fat16_t \<Rightarrow> u16 \<Rightarrow> u16 option" where
  "num_clusters_in_chain dev fs first =
     (if in_chain first
      then do { next \<leftarrow> get_successor_cluster dev fs first; count_chain dev fs next 1 }
      else Some 0)"

section \<open>Listing directories\<close>

text \<open>
  One entry of a directory sector.  The two bytes of the name buffers that the code leaves
  uninitialised (it writes behind the arrays instead) are \<open>junk\<close>: in the functions
  below, whatever the heap holds for the \<open>n\<close>-th entry of the list.
\<close>

definition parse_entry :: "u8 \<times> u8 \<Rightarrow> u8 list \<Rightarrow> nat \<Rightarrow> fat16_dir_entry_t" where
  "parse_entry junk sector off =
     (let unpad = (\<lambda>k. if sector ! (off + k) = 0x20 then 0 else sector ! (off + k));
          name = map unpad [0..<8];
          name' = (if sector ! off = 0x05 then name[0 := 0xe5] else name)
      in \<lparr>filename = name' @ [fst junk], extension = map unpad [8..<11] @ [snd junk],
          attributes = sector ! (off + 0x0b),
          first_cluster = le16 (sector ! (off + 0x1a)) (sector ! (off + 0x1b)),
          file_size_bytes = le4 (sector ! (off + 0x1c)) (sector ! (off + 0x1d))
                                (sector ! (off + 0x1e)) (sector ! (off + 0x1f))\<rparr>)"

text \<open>The entries from position \<open>n\<close> of the list on, for the slots \<open>js\<close> of a sector.\<close>

fun sector_entries :: "(nat \<Rightarrow> u8 \<times> u8) \<Rightarrow> u8 list \<Rightarrow> nat \<Rightarrow> nat list \<Rightarrow> bool \<times> fat16_dir_entry_t list" where
  "sector_entries junk sector n [] = (False, [])"
| "sector_entries junk sector n (j # js) =
     (if sector ! (32 * j) = 0x00 then (True, [])
      else if sector ! (32 * j) = 0xe5 then sector_entries junk sector n js
      else let (t, es) = sector_entries junk sector (Suc n) js
           in (t, parse_entry (junk n) sector (32 * j) # es))"

definition add_sector_dir_entries_to_list ::
    "(nat \<Rightarrow> u8 \<times> u8) \<Rightarrow> fat16_t \<Rightarrow> u8 list \<Rightarrow> fat16_dir_entry_t list \<Rightarrow> bool \<times> fat16_dir_entry_t list" where
  "add_sector_dir_entries_to_list junk fs sector entry_list =
     (let (t, es) = sector_entries junk sector (length entry_list) [0..<bps fs div 32]
      in (t, entry_list @ es))"

fun root_dir_loop ::
    "(nat \<Rightarrow> u8 \<times> u8) \<Rightarrow> sectors \<Rightarrow> fat16_t \<Rightarrow> nat list \<Rightarrow> fat16_dir_entry_t list \<Rightarrow> fat16_dir_entry_t list option" where
  "root_dir_loop junk dev fs [] es = Some es"
| "root_dir_loop junk dev fs (i # is) es = do {
     sector \<leftarrow> fs_rd dev (1 + ucast (num_sectors_per_file_allocation_table fs)
                            * ucast (num_file_allocation_tables fs) + of_nat i) (bps fs);
     let (t, es') = add_sector_dir_entries_to_list junk fs sector es;
     if t then Some es' else root_dir_loop junk dev fs is es' }"

definition get_root_dir :: "(nat \<Rightarrow> u8 \<times> u8) \<Rightarrow> sectors \<Rightarrow> fat16_t \<Rightarrow> fat16_dir_entry_t list option" where
  "get_root_dir junk dev fs =
     root_dir_loop junk dev fs [0..<unat (num_root_directory_entries fs) div (bps fs div 32)] []"

fun cluster_entries ::
    "(nat \<Rightarrow> u8 \<times> u8) \<Rightarrow> fat16_t \<Rightarrow> u8 list \<Rightarrow> nat \<Rightarrow> fat16_dir_entry_t list \<Rightarrow> bool \<times> fat16_dir_entry_t list" where
  "cluster_entries junk fs buf 0 es = (False, es)"
| "cluster_entries junk fs buf (Suc k) es =
     (let (t, es') = add_sector_dir_entries_to_list junk fs (take (bps fs) buf) es
      in if t then (True, es') else cluster_entries junk fs (drop (bps fs) buf) k es')"

partial_function (option) dir_loop ::
    "(nat \<Rightarrow> u8 \<times> u8) \<Rightarrow> sectors \<Rightarrow> fat16_t \<Rightarrow> u16 \<Rightarrow> fat16_dir_entry_t list \<Rightarrow> fat16_dir_entry_t list option" where
  "dir_loop junk dev fs current es =
     (if in_chain current
      then (case load_cluster dev fs current of
              None \<Rightarrow> None
            | Some buf \<Rightarrow>
                (case cluster_entries junk fs buf (spc fs) es of (t, es') \<Rightarrow>
                   (case get_successor_cluster dev fs current of
                      None \<Rightarrow> None
                    | Some next \<Rightarrow> (if t then Some es' else dir_loop junk dev fs next es'))))
      else Some es)"

text \<open>\<^verbatim>\<open>get_dir\<close>: the inner \<open>None\<close> is the NULL for an entry that is not a directory.\<close>

definition get_dir :: "(nat \<Rightarrow> u8 \<times> u8) \<Rightarrow> sectors \<Rightarrow> fat16_t \<Rightarrow> fat16_dir_entry_t \<Rightarrow> fat16_dir_entry_t list option option" where
  "get_dir junk dev fs entry =
     (if \<not> is_subdirectory (unpack_file_attributes (attributes entry)) then Some None
      else map_option Some (dir_loop junk dev fs (first_cluster entry) []))"

declare root_search.simps [code]
  cluster_search.simps [code]
  load_chain.simps [code]
  read_rest.simps [code]
  write_existing.simps [code]
  write_extend.simps [code]
  count_chain.simps [code]
  dir_loop.simps [code]

section \<open>The layout of a sound file system\<close>

definition fat0 :: "fat16_t \<Rightarrow> nat" where
  "fat0 fs = unat (num_reserved_sectors fs)"

definition fat_len :: "fat16_t \<Rightarrow> nat" where
  "fat_len fs = unat (num_sectors_per_file_allocation_table fs)"

definition root0 :: "fat16_t \<Rightarrow> nat" where
  "root0 fs = fat0 fs + unat (num_file_allocation_tables fs) * fat_len fs"

definition root_len :: "fat16_t \<Rightarrow> nat" where
  "root_len fs = unat (num_root_directory_entries fs) * 32 div 512"

definition data0 :: "fat16_t \<Rightarrow> nat" where
  "data0 fs = root0 fs + root_len fs"

definition fs_ok :: "sectors \<Rightarrow> fat16_t \<Rightarrow> bool" where
  "fs_ok dev fs \<longleftrightarrow> (\<forall>s \<in> set dev. length s = 512) \<and> bps fs = 512 \<and> 0 < spc fs
     \<and> 0 < unat (num_file_allocation_tables fs) \<and> data0 fs \<le> length dev \<and> length dev < 2 ^ 31"

text \<open>A cluster that the disk has and the table describes.\<close>

definition has_cluster :: "sectors \<Rightarrow> fat16_t \<Rightarrow> u16 \<Rightarrow> bool" where
  "has_cluster dev fs c \<longleftrightarrow> 2 \<le> unat c \<and> unat c < 256 * fat_len fs
     \<and> data0 fs + (unat c - 2) * spc fs + spc fs \<le> length dev"

lemma unat_prod_u32: "unat (a :: u8) * unat (b :: u16) < 4294967296"
proof -
  have "unat a * unat b \<le> 255 * 65535"
    using unat_u8_less [of a] unat_u16_less [of b] by (intro mult_le_mono) auto
  then show ?thesis by simp
qed

lemma regions_nat:
  assumes "bps fs = 512" "data0 fs < 2 ^ 31"
  shows "unat (fat_region_start (calculate_regions fs)) = fat0 fs"
    "unat (root_directory_region_start (calculate_regions fs)) = root0 fs"
    "unat (root_directory_region_size (calculate_regions fs)) = root_len fs"
    "unat (data_region_start (calculate_regions fs)) = data0 fs"
proof -
  have f: "unat (ucast (num_file_allocation_tables fs) * ucast (num_sectors_per_file_allocation_table fs) :: u32)
      = unat (num_file_allocation_tables fs) * fat_len fs"
    using unat_prod_u32 [of "num_file_allocation_tables fs" "num_sectors_per_file_allocation_table fs"]
    by (simp add: unat_word_ariths unat_ucast_up fat_len_def)
  have r: "unat ((ucast (num_root_directory_entries fs) * 32 :: u32) div ucast (bytes_per_sector fs)) = root_len fs"
    using assms(1) unat_u16_less [of "num_root_directory_entries fs"]
    by (simp add: unat_div unat_word_ariths unat_ucast_up root_len_def)
  show "unat (fat_region_start (calculate_regions fs)) = fat0 fs"
    by (simp add: calculate_regions_def Let_def fat0_def unat_ucast_up)
  have b: "root0 fs < 4294967296" "data0 fs < 4294967296" using assms(2) by (simp_all add: data0_def)
  show root: "unat (root_directory_region_start (calculate_regions fs)) = root0 fs"
    using f b(1) by (simp add: calculate_regions_def Let_def root0_def fat0_def unat_word_ariths unat_ucast_up)
  show "unat (root_directory_region_size (calculate_regions fs)) = root_len fs"
    using r by (simp add: calculate_regions_def Let_def)
  then show "unat (data_region_start (calculate_regions fs)) = data0 fs"
    using root b(2)
    by (simp add: calculate_regions_def Let_def data0_def unat_word_ariths)
qed

lemma fs_okD:
  assumes "fs_ok dev fs"
  shows "bps fs = 512" "data0 fs < 2 ^ 31" "data0 fs \<le> length dev" "length dev < 2 ^ 31" "0 < spc fs"
    "i < length dev \<Longrightarrow> length (dev ! i) = 512" "fat_len fs \<le> unat (num_file_allocation_tables fs) * fat_len fs"
  using assms by (auto simp: fs_ok_def)

lemma unat_add_nat: "unat (a :: u32) + n < 4294967296 \<Longrightarrow> unat (a + of_nat n) = unat a + n"
  by (simp add: unat_word_ariths unat_of_nat)

interpretation sector_disk: block_store "\<lambda>dev. \<forall>s \<in> set dev. length s = (512 :: nat)" length
  "\<lambda>dev b. if b < length dev then dev ! b else []"
  "\<lambda>dev a. map_option (\<lambda>bs. (bs, dev)) (fs_rd dev a 512)" fs_wr 512
proof unfold_locales
  fix dev :: sectors and a :: u32
  assume "\<forall>s \<in> set dev. length s = 512" "unat a < length dev"
  then show "map_option (\<lambda>bs. (bs, dev)) (fs_rd dev a 512)
      = Some (if unat a < length dev then dev ! unat a else [], dev)"
    by (simp add: fs_rd_def)
next
  fix dev :: sectors and b
  assume "\<forall>s \<in> set dev. length s = 512" "b < length dev"
  then show "length (if b < length dev then dev ! b else []) = 512" by simp
next
  fix dev :: sectors and a :: u32 and bs :: "u8 list"
  assume "\<forall>s \<in> set dev. length s = 512" "unat a < length dev" "length bs = 512"
  then show "\<exists>d'. fs_wr dev a bs = Some d' \<and> (\<forall>s \<in> set d'. length s = 512) \<and> length d' = length dev
     \<and> (\<forall>b. (if b < length d' then d' ! b else []) = (if b = unat a then bs else if b < length dev then dev ! b else []))"
    by (auto simp: fs_wr_def nth_list_update dest: set_update_subset_insert [THEN subsetD])
qed

section \<open>The file allocation table as a function\<close>

definition fat_at :: "sectors \<Rightarrow> fat16_t \<Rightarrow> u16 \<Rightarrow> u16" where
  "fat_at dev fs c =
     (let s = dev ! (fat0 fs + unat c div 256); i = 2 * (unat c mod 256) in le16 (s ! i) (s ! (i + 1)))"

definition fat_put :: "sectors \<Rightarrow> fat16_t \<Rightarrow> u16 \<Rightarrow> u16 \<Rightarrow> sectors" where
  "fat_put dev fs c v =
     (let k = fat0 fs + unat c div 256; i = 2 * (unat c mod 256)
      in dev[k := (dev ! k)[i := ucast (v AND 0xFF), i + 1 := ucast (drop_bit 8 v AND 0xFF)]])"

lemma div_512: "(n * 2) div 512 = n div (256 :: nat)"
  using div_mult2_eq [of "n * 2" 2 256] by simp

lemma fat_sector:
  assumes "fs_ok dev fs" "unat c < 256 * fat_len fs"
  shows "unat (fat_region_start (calculate_regions fs) + of_nat (unat c div 256)) = fat0 fs + unat c div 256"
    "fat0 fs + unat c div 256 < root0 fs" "root0 fs \<le> length dev"
proof -
  have "unat c div 256 < fat_len fs" using assms(2) by (simp add: less_mult_imp_div_less mult.commute)
  then have "unat c div 256 < unat (num_file_allocation_tables fs) * fat_len fs"
    using fs_okD(7) [OF assms(1)] by (rule less_le_trans)
  then show lt: "fat0 fs + unat c div 256 < root0 fs" by (simp add: root0_def)
  show le: "root0 fs \<le> length dev" using fs_okD(3) [OF assms(1)] by (simp add: data0_def)
  show "unat (fat_region_start (calculate_regions fs) + of_nat (unat c div 256)) = fat0 fs + unat c div 256"
    using unat_add_nat [of "fat_region_start (calculate_regions fs)"] lt le fs_okD(1,2,4) [OF assms(1)]
    by (simp add: regions_nat)
qed

lemma get_successor_eq:
  assumes "fs_ok dev fs" "unat c < 256 * fat_len fs"
  shows "get_successor_cluster dev fs c = Some (fat_at dev fs c)"
proof -
  note f = fat_sector [OF assms] and ok = fs_okD [OF assms(1)]
  have "unat c - 256 * (unat c div 256) = unat c mod 256" by (simp add: minus_mult_div_eq_mod)
  then show ?thesis
    using f ok(1) ok(6) [of "fat0 fs + unat c div 256"]
    by (simp add: get_successor_cluster_def div_512 fs_rd_def fat_at_def Let_def mult.commute)
qed

lemma set_successor_eq:
  assumes "fs_ok dev fs" "unat c < 256 * fat_len fs"
  shows "set_successor_cluster dev fs c v = Some (fat_put dev fs c v)"
proof -
  note f = fat_sector [OF assms] and ok = fs_okD [OF assms(1)]
  have "unat c * 2 - unat c div 256 * 512 = 2 * (unat c mod 256)" by (simp add: minus_div_mult_eq_mod [symmetric])
  then show ?thesis
    using f ok(1) ok(6) [of "fat0 fs + unat c div 256"]
    by (simp add: set_successor_cluster_def div_512 fs_rd_def fs_wr_def fat_put_def Let_def)
qed

lemma le16_bytes: "le16 (ucast (v AND 0xFF)) (ucast (drop_bit 8 v AND 0xFF)) = v"
proof -
  have m: "y AND 0xFF = y mod 256" for y :: u16
  proof -
    have "y AND 0xFF = take_bit 8 y" by (simp add: take_bit_eq_mask mask_eq_exp_minus_1)
    then show ?thesis by (simp add: take_bit_eq_mod)
  qed
  have "unat (le16 (ucast (v AND 0xFF)) (ucast (drop_bit 8 v AND 0xFF))) = unat v"
    using unat_u16_less [of v]
    by (simp add: le16_def m drop_bit_eq_div unat_word_ariths unat_div unat_mod unsigned_ucast_eq take_bit_eq_mod)
  then show ?thesis by (simp add: word_unat_eq_iff)
qed

lemma fs_ok_put: "fs_ok dev fs \<Longrightarrow> unat c < 256 * fat_len fs \<Longrightarrow> fs_ok (fat_put dev fs c v) fs"
  using fat_sector [of dev fs c] fs_okD(6) [of dev fs]
  by (auto simp: fs_ok_def fat_put_def Let_def dest!: set_update_subset_insert [THEN subsetD])

lemma fat_at_put:
  assumes "fs_ok dev fs" "unat c < 256 * fat_len fs"
  shows "fat_at (fat_put dev fs c v) fs d = (if d = c then v else fat_at dev fs d)"
proof -
  let ?k = "fat0 fs + unat c div 256" and ?i = "2 * (unat c mod 256)" and ?j = "2 * (unat d mod 256)"
  have k: "?k < length dev" using fat_sector [OF assms] by simp
  have len: "length (dev ! ?k) = 512" using fs_okD(6) [OF assms(1) k] .
  have parity: "2 * a \<noteq> 2 * b + 1" "2 * a + 1 \<noteq> 2 * b" for a b :: nat by presburger+
  have "unat c mod 256 < 256" "unat d mod 256 < 256" by simp_all
  then have ij: "?i + 1 < 512" "?j + 1 < 512" by linarith+
  show ?thesis
  proof (cases "unat d div 256 = unat c div 256")
    case False
    then have "d \<noteq> c" "fat0 fs + unat d div 256 \<noteq> ?k" by auto
    then show ?thesis by (simp add: fat_at_def fat_put_def Let_def)
  next
    case True
    show ?thesis
    proof (cases "unat d mod 256 = unat c mod 256")
      case mod: True
      then have "unat d = unat c" using True by (metis div_mult_mod_eq)
      then have "d = c" by (simp add: word_unat_eq_iff)
      then show ?thesis using k len ij le16_bytes by (simp add: fat_at_def fat_put_def Let_def)
    next
      case mod: False
      then have "d \<noteq> c" "?j \<noteq> ?i" by auto
      moreover have "?j \<noteq> ?i + 1" "?j + 1 \<noteq> ?i" using parity by blast+
      ultimately show ?thesis using k True by (simp add: fat_at_def fat_put_def Let_def)
    qed
  qed
qed

lemma fat_put_other:
  assumes "fs_ok dev fs" "unat c < 256 * fat_len fs"
  shows "length (fat_put dev fs c v) = length dev" "i \<ge> root0 fs \<Longrightarrow> fat_put dev fs c v ! i = dev ! i"
  using fat_sector(2) [OF assms] by (simp_all add: fat_put_def Let_def)

section \<open>The first free cluster\<close>

lemma find_upt_least:
  "List.find P [0..<n] = Some j \<longleftrightarrow> j < n \<and> P j \<and> (\<forall>i < j. \<not> P i)"
  by (auto simp: find_Some_iff)

lemma unat_le16: "unat (le16 lo hi) = unat lo + 256 * unat hi"
  using unat_u8_less [of lo] unat_u8_less [of hi] by (simp add: le16_def unat_word_ariths)

lemma le16_zero: "le16 lo hi = 0 \<longleftrightarrow> lo = 0 \<and> hi = 0"
  by (simp add: unat_le16 unat_eq_0 [symmetric])

lemma unat_of_nat_u16: "n < 65536 \<Longrightarrow> unat (of_nat n :: u16) = n"
  by (simp add: unat_of_nat)

definition fat_entry :: "sectors \<Rightarrow> fat16_t \<Rightarrow> nat \<Rightarrow> u16" where
  "fat_entry dev fs n = fat_at dev fs (of_nat n)"

lemma fat_at_index:
  assumes "i < 256" "j < 256"
  shows "fat_entry dev fs (256 * i + j) =
           le16 (dev ! (fat0 fs + i) ! (j * 2)) (dev ! (fat0 fs + i) ! (j * 2 + 1))"
proof -
  have "256 * i + j < 65536" using assms by linarith
  then have "unat (of_nat (256 * i + j) :: u16) = 256 * i + j" by (rule unat_of_nat_u16)
  moreover have "(256 * i + j) div 256 = i" "(256 * i + j) mod 256 = j" using assms(2) by simp_all
  ultimately show ?thesis by (simp only: fat_entry_def fat_at_def Let_def) (simp add: mult.commute)
qed

lemma split_at: "(c :: nat) < a + b \<Longrightarrow> c < a \<or> (\<exists>l < b. c = a + l)"
  by (metis add_diff_inverse_nat nat_add_left_cancel_less)

text \<open>Scanning from sector \<open>i\<close> of the table on, when there is no free entry before it.\<close>

lemma free_in_fat_scan:
  assumes "fs_ok dev fs" "fat_len fs \<le> 256" "i \<le> fat_len fs"
    "\<forall>c < 256 * i. fat_entry dev fs c \<noteq> 0"
  shows "free_in_fat dev fs [i..<fat_len fs] = Some
      (case List.find (\<lambda>c. fat_entry dev fs c = 0) [0..<256 * fat_len fs] of None \<Rightarrow> 0 | Some c \<Rightarrow> of_nat c)"
  using assms(3,4)
proof (induction "fat_len fs - i" arbitrary: i)
  case 0
  then have "i = fat_len fs" by simp
  then have "List.find (\<lambda>c. fat_entry dev fs c = 0) [0..<256 * fat_len fs] = None"
    using 0 by (simp add: find_None_iff)
  then show ?case using \<open>i = fat_len fs\<close> by simp
next
  case (Suc x)
  then have i: "i < fat_len fs" "i < 256" using assms(2) by simp_all
  note ok = fs_okD [OF assms(1)]
  define c where "c = (of_nat (256 * i) :: u16)"
  have un: "unat c = 256 * i" unfolding c_def using i(2) by (intro unat_of_nat_u16) simp
  have "unat (fat_region_start (calculate_regions fs) + of_nat i) = fat0 fs + i" "fat0 fs + i < length dev"
    using fat_sector [OF assms(1), of c, unfolded un] i by simp_all
  then have rd: "fs_rd dev (fat_region_start (calculate_regions fs) + of_nat i) 512 = Some (dev ! (fat0 fs + i))"
    using ok(6) by (simp add: fs_rd_def)
  have free: "free_in_sector (dev ! (fat0 fs + i)) 256 = Some j \<longleftrightarrow>
      j < 256 \<and> fat_entry dev fs (256 * i + j) = 0 \<and> (\<forall>l < j. fat_entry dev fs (256 * i + l) \<noteq> 0)" for j
    using i(2) by (auto simp: free_in_sector_def find_upt_least fat_at_index le16_zero)
  show ?case
  proof (cases "free_in_sector (dev ! (fat0 fs + i)) 256")
    case (Some j)
    note j = free [THEN iffD1, OF Some]
    have "fat_entry dev fs c \<noteq> 0" if "c < 256 * i + j" for c
      using split_at [of c "256 * i" j] that Suc.prems(2) j by blast
    moreover have "256 * i + j < 256 * fat_len fs" using i(1) j by linarith
    ultimately have "List.find (\<lambda>c. fat_entry dev fs c = 0) [0..<256 * fat_len fs] = Some (256 * i + j)"
      using j by (simp add: find_upt_least)
    then show ?thesis using Some rd ok(1) i(1) by (simp add: upt_conv_Cons [OF i(1)])
  next
    case None
    have "fat_entry dev fs (256 * i + l) \<noteq> 0" if "l < 256" for l
      using None that i(2) by (simp add: free_in_sector_def find_None_iff fat_at_index le16_zero) 
    then have "\<forall>c < 256 * Suc i. fat_entry dev fs c \<noteq> 0"
      using split_at [of _ "256 * i" 256] Suc.prems(2) by (simp only: mult_Suc_right add.commute) blast
    moreover have "x = fat_len fs - Suc i" "Suc i \<le> fat_len fs" using Suc.hyps(2) i(1) by simp_all
    ultimately show ?thesis using Suc.hyps(1) [of "Suc i"] None rd ok(1) i(1) by (simp add: upt_conv_Cons [OF i(1)])
  qed
qed

end
