(* ===== verification/Chains.thy ===== *)
theory Chains
  imports Fat16
begin

text \<open>
  Clusters as arrays of bytes and files as chains of clusters, over the model of theory
  \<open>Fat16\<close>: what each operation on a cluster or on the allocation table does to every
  cluster and every table entry, and what the loops along a chain compute.
\<close>

section \<open>Clusters as arrays of bytes\<close>

definition cluster_pos :: "fat16_t \<Rightarrow> u16 \<Rightarrow> nat" where
  "cluster_pos fs c = data0 fs + (unat c - 2) * spc fs"

definition cluster_data :: "sectors \<Rightarrow> fat16_t \<Rightarrow> u16 \<Rightarrow> u8 list" where
  "cluster_data dev fs c = concat (take (spc fs) (drop (cluster_pos fs c) dev))"

definition cluster_put :: "sectors \<Rightarrow> fat16_t \<Rightarrow> u16 \<Rightarrow> u8 list \<Rightarrow> sectors" where
  "cluster_put dev fs c buf =
     map (\<lambda>j. if cluster_pos fs c \<le> j \<and> j < cluster_pos fs c + spc fs
              then take 512 (drop (512 * (j - cluster_pos fs c)) buf) else dev ! j) [0..<length dev]"

lemma has_clusterD:
  assumes "has_cluster dev fs c"
  shows "2 \<le> unat c" "unat c < 256 * fat_len fs" "cluster_pos fs c + spc fs \<le> length dev"
  using assms by (simp_all add: has_cluster_def cluster_pos_def)

lemma first_sector_nat:
  assumes "fs_ok dev fs" "has_cluster dev fs c"
  shows "unat (first_sector fs c) = cluster_pos fs c"
proof -
  note h = has_clusterD [OF assms(2)] and ok = fs_okD [OF assms(1)]
  have "(2 :: u32) \<le> ucast c" using h(1) by (simp add: word_le_nat_alt)
  then have m: "unat (ucast c - 2 :: u32) = unat c - 2" by (simp add: unat_sub)
  have p: "(unat c - 2) * spc fs < 4294967296" "cluster_pos fs c < 4294967296"
    using h(3) ok(4) by (simp_all add: cluster_pos_def)
  then show ?thesis
    using m ok(1,2) by (simp add: first_sector_def unat_word_ariths regions_nat cluster_pos_def)
qed

lemma load_sectors_eq:
  assumes "\<forall>s \<in> set dev. length s = n" "unat a + k \<le> length dev" "length dev < 2 ^ 31"
  shows "load_sectors dev n a k = Some (concat (take k (drop (unat a) dev)))"
  using assms(2)
proof (induction k arbitrary: a)
  case 0
  then show ?case by simp
next
  case (Suc k)
  have a1: "unat (a + 1) = unat a + 1" using Suc.prems assms(3) by (simp add: unat_word_ariths)
  have "drop (unat a) dev = dev ! unat a # drop (unat a + 1) dev" using Suc.prems by (simp add: Cons_nth_drop_Suc)
  then show ?case using Suc assms(1) a1 by (simp add: fs_rd_def)
qed

lemma write_sectors_eq:
  assumes "\<forall>s \<in> set dev. length s = 512" "unat a + k \<le> length dev" "length dev < 2 ^ 31" "length buf = 512 * k"
  shows "write_sectors dev 512 a k buf = Some (map (\<lambda>j. if unat a \<le> j \<and> j < unat a + k
           then take 512 (drop (512 * (j - unat a)) buf) else dev ! j) [0..<length dev])"
  using assms
proof (induction k arbitrary: dev a buf)
  case 0
  then show ?case by (auto intro!: nth_equalityI)
next
  case (Suc k)
  let ?d = "dev[unat a := take 512 buf]"
  have a: "unat a < length dev" using Suc.prems(2) by simp
  have a1: "unat (a + 1) = unat a + 1" using Suc.prems(2,3) by (simp add: unat_word_ariths)
  have w: "fs_wr dev a (take 512 buf) = Some ?d" using a Suc.prems(1,4) by (simp add: fs_wr_def)
  have "\<forall>s \<in> set ?d. length s = 512"
    using Suc.prems(1,4) by (auto dest!: set_update_subset_insert [THEN subsetD])
  then have "write_sectors ?d 512 (a + 1) k (drop 512 buf) = Some (map (\<lambda>j. if unat a + 1 \<le> j \<and> j < unat a + 1 + k
           then take 512 (drop (512 * (j - (unat a + 1))) (drop 512 buf)) else ?d ! j) [0..<length ?d])"
    using Suc.IH [of ?d "a + 1" "drop 512 buf"] Suc.prems(2-4) a1 by simp
  moreover have "(if unat a + 1 \<le> j \<and> j < unat a + 1 + k
           then take 512 (drop (512 * (j - (unat a + 1))) (drop 512 buf)) else ?d ! j)
      = (if unat a \<le> j \<and> j < unat a + Suc k then take 512 (drop (512 * (j - unat a)) buf) else dev ! j)"
    if "j < length dev" for j
  proof (cases "unat a + 1 \<le> j")
    case True
    then have "512 * (j - (unat a + 1)) + 512 = 512 * (j - unat a)" by simp
    with True show ?thesis by (simp add: add.commute)
  next
    case False
    then show ?thesis using that by (cases "j = unat a") auto
  qed
  ultimately show ?case using w by simp
qed

lemma cluster_ops:
  assumes "fs_ok dev fs" "has_cluster dev fs c"
  shows "load_cluster dev fs c = Some (cluster_data dev fs c)"
    "length (cluster_data dev fs c) = bytes_per_cluster fs"
    "length buf = bytes_per_cluster fs \<Longrightarrow> write_cluster dev fs c buf = Some (cluster_put dev fs c buf)"
proof -
  note h = has_clusterD [OF assms(2)] and ok = fs_okD [OF assms(1)] and f = first_sector_nat [OF assms]
  have all: "\<forall>s \<in> set dev. length s = 512" using assms(1) by (simp add: fs_ok_def)
  show "load_cluster dev fs c = Some (cluster_data dev fs c)"
    using load_sectors_eq [OF all] h(3) ok(1,4) f by (simp add: load_cluster_def cluster_data_def)
  have "length (concat xs) = 512 * length xs" if "\<forall>s \<in> set xs. length s = 512" for xs :: sectors
    using that by (induction xs) auto
  moreover have "\<forall>s \<in> set (take (spc fs) (drop (cluster_pos fs c) dev)). length s = 512"
    using all by (auto dest!: in_set_takeD in_set_dropD)
  ultimately show "length (cluster_data dev fs c) = bytes_per_cluster fs"
    using h(3) ok(1) by (simp add: cluster_data_def bytes_per_cluster_def)
  show "length buf = bytes_per_cluster fs \<Longrightarrow> write_cluster dev fs c buf = Some (cluster_put dev fs c buf)"
    using write_sectors_eq [OF all] h(3) ok(1,4) f
    by (simp add: write_cluster_def cluster_put_def bytes_per_cluster_def)
qed

lemma length_cluster_put [simp]: "length (cluster_put dev fs c buf) = length dev"
  by (simp add: cluster_put_def)

lemma cluster_put_nth:
  "j < length dev \<Longrightarrow> cluster_put dev fs c buf ! j =
     (if cluster_pos fs c \<le> j \<and> j < cluster_pos fs c + spc fs
      then take 512 (drop (512 * (j - cluster_pos fs c)) buf) else dev ! j)"
  by (simp add: cluster_put_def)

lemma cluster_put_below: "j < data0 fs \<Longrightarrow> data0 fs \<le> length dev \<Longrightarrow> cluster_put dev fs c buf ! j = dev ! j"
  by (subst cluster_put_nth) (simp_all add: cluster_pos_def)

lemma fs_ok_cluster_put:
  assumes "fs_ok dev fs" "length buf = bytes_per_cluster fs"
  shows "fs_ok (cluster_put dev fs c buf) fs"
proof -
  note ok = fs_okD [OF assms(1)]
  have "length (cluster_put dev fs c buf ! j) = 512" if "j < length dev" for j
  proof (cases "cluster_pos fs c \<le> j \<and> j < cluster_pos fs c + spc fs")
    case True
    then have "Suc (j - cluster_pos fs c) * 512 \<le> spc fs * 512" by (intro mult_le_mono1) linarith
    then show ?thesis using True that assms(2) ok(1) by (simp add: cluster_put_nth bytes_per_cluster_def)
  next
    case False
    then show ?thesis using that ok(6) by (auto simp: cluster_put_nth)
  qed
  then show ?thesis using assms(1) by (auto simp: fs_ok_def in_set_conv_nth)
qed

lemma has_cluster_length: "length dev' = length dev \<Longrightarrow> has_cluster dev' fs c = has_cluster dev fs c"
  by (simp add: has_cluster_def)

lemma has_cluster_put [simp]: "has_cluster (cluster_put dev fs c buf) fs d = has_cluster dev fs d"
  by (rule has_cluster_length) simp

lemma concat_chunks: "length buf = 512 * k \<Longrightarrow> concat (map (\<lambda>i. take 512 (drop (512 * i) buf)) [0..<k]) = buf"
proof (induction k arbitrary: buf)
  case 0
  then show ?case by simp
next
  case (Suc k)
  have "map (\<lambda>i. take 512 (drop (512 * i) buf)) [Suc 0..<Suc k]
      = map (\<lambda>i. take 512 (drop (512 * i) (drop 512 buf))) [0..<k]"
    by (simp add: map_Suc_upt [symmetric] comp_def add.commute del: upt_Suc)
  moreover have "concat (map (\<lambda>i. take 512 (drop (512 * i) (drop 512 buf))) [0..<k]) = drop 512 buf"
    using Suc.prems by (intro Suc.IH) simp
  ultimately show ?case by (simp add: upt_conv_Cons del: upt_Suc drop_drop)
qed

lemma cluster_data_nth: "has_cluster dev fs c \<Longrightarrow>
  cluster_data dev fs c = concat (map (\<lambda>i. dev ! (cluster_pos fs c + i)) [0..<spc fs])"
  using has_clusterD(3) [of dev fs c] unfolding cluster_data_def
  by (intro arg_cong [of _ _ concat] nth_equalityI) auto

lemma cluster_data_put_same:
  assumes "fs_ok dev fs" "has_cluster dev fs c" "length buf = bytes_per_cluster fs"
  shows "cluster_data (cluster_put dev fs c buf) fs c = buf"
proof -
  note h = has_clusterD [OF assms(2)]
  have "cluster_data (cluster_put dev fs c buf) fs c = concat (map (\<lambda>i. take 512 (drop (512 * i) buf)) [0..<spc fs])"
    using h(3) by (subst cluster_data_nth)
      (auto simp: assms(2) cluster_put_nth intro!: arg_cong [of _ _ concat])
  then show ?thesis using concat_chunks assms(1,3) fs_okD(1) [OF assms(1)] by (simp add: bytes_per_cluster_def)
qed

lemma clusters_apart:
  assumes "c \<noteq> d" "2 \<le> unat c" "2 \<le> unat d" "i < spc fs"
  shows "\<not> (cluster_pos fs c \<le> cluster_pos fs d + i \<and> cluster_pos fs d + i < cluster_pos fs c + spc fs)"
proof (cases "unat c < unat d")
  case True
  then have "Suc (unat c - 2) * spc fs \<le> (unat d - 2) * spc fs" using assms(2) by (intro mult_le_mono1) linarith
  then show ?thesis by (simp add: cluster_pos_def)
next
  case False
  then have "unat d < unat c" using assms(1) by (metis linorder_neqE_nat word_unat_eq_iff)
  then have "Suc (unat d - 2) * spc fs \<le> (unat c - 2) * spc fs" using assms(3) by (intro mult_le_mono1) linarith
  then show ?thesis using assms(4) by (simp add: cluster_pos_def)
qed

lemma cluster_data_put_other:
  assumes "has_cluster dev fs c" "has_cluster dev fs d" "c \<noteq> d"
  shows "cluster_data (cluster_put dev fs c buf) fs d = cluster_data dev fs d"
proof -
  note h = has_clusterD [OF assms(1)] and g = has_clusterD [OF assms(2)]
  have "cluster_put dev fs c buf ! (cluster_pos fs d + i) = dev ! (cluster_pos fs d + i)" if "i < spc fs" for i
    using clusters_apart [OF assms(3) h(1) g(1) that] g(3) that by (subst cluster_put_nth) auto
  then show ?thesis using assms(2) by (auto simp: cluster_data_nth intro!: arg_cong [of _ _ concat] map_cong)
qed

lemma fat_at_cluster_put:
  assumes "fs_ok dev fs" "unat d < 256 * fat_len fs"
  shows "fat_at (cluster_put dev fs c buf) fs d = fat_at dev fs d"
proof -
  have "cluster_put dev fs c buf ! (fat0 fs + unat d div 256) = dev ! (fat0 fs + unat d div 256)"
    using fat_sector [OF assms] fs_okD(3) [OF assms(1)] by (intro cluster_put_below) (simp_all add: data0_def)
  then show ?thesis by (simp add: fat_at_def)
qed

lemma cluster_data_fat_put:
  assumes "fs_ok dev fs" "unat c < 256 * fat_len fs" "has_cluster dev fs d"
  shows "cluster_data (fat_put dev fs c v) fs d = cluster_data dev fs d"
proof -
  have "fat_put dev fs c v ! (cluster_pos fs d + i) = dev ! (cluster_pos fs d + i)" for i
    by (rule fat_put_other [OF assms(1,2)]) (simp add: cluster_pos_def data0_def)
  moreover have "has_cluster (fat_put dev fs c v) fs d"
    using assms(3) has_cluster_length [OF fat_put_other(1) [OF assms(1,2)]] by blast
  ultimately show ?thesis using assms(3) by (simp add: cluster_data_nth)
qed

lemmas cluster_frame = cluster_data_put_same cluster_data_put_other fat_at_cluster_put cluster_data_fat_put

section \<open>Chains of clusters\<close>

fun chain :: "sectors \<Rightarrow> fat16_t \<Rightarrow> u16 \<Rightarrow> u16 list \<Rightarrow> bool" where
  "chain dev fs c [] \<longleftrightarrow> \<not> in_chain c"
| "chain dev fs c (x # xs) \<longleftrightarrow>
     x = c \<and> in_chain c \<and> has_cluster dev fs c \<and> chain dev fs (fat_at dev fs c) xs"

definition chain_data :: "sectors \<Rightarrow> fat16_t \<Rightarrow> u16 list \<Rightarrow> u8 list" where
  "chain_data dev fs cs = concat (map (cluster_data dev fs) cs)"

lemma chain_data_simps [simp]:
  "chain_data dev fs [] = []" "chain_data dev fs (c # cs) = cluster_data dev fs c @ chain_data dev fs cs"
  by (simp_all add: chain_data_def)

lemma get_successor_has: "fs_ok dev fs \<Longrightarrow> has_cluster dev fs c \<Longrightarrow> get_successor_cluster dev fs c = Some (fat_at dev fs c)"
  by (rule get_successor_eq) (auto dest: has_clusterD)

lemma chain_has: "chain dev fs c cs \<Longrightarrow> d \<in> set cs \<Longrightarrow> has_cluster dev fs d"
  by (induction cs arbitrary: c) auto

lemma length_chain_data:
  "fs_ok dev fs \<Longrightarrow> chain dev fs c cs \<Longrightarrow> length (chain_data dev fs cs) = length cs * bytes_per_cluster fs"
  by (induction cs arbitrary: c) (auto simp: cluster_ops(2))

lemma load_chain_eq:
  assumes "fs_ok dev fs"
  shows "chain dev fs c cs \<Longrightarrow> load_chain dev fs c = Some (chain_data dev fs cs)"
proof (induction cs arbitrary: c)
  case Nil
  then show ?case by (subst load_chain.simps) auto
next
  case (Cons d ds)
  then show ?case
    using assms by (subst load_chain.simps) (simp add: cluster_ops(1) get_successor_has)
qed

lemma count_chain_eq:
  assumes "fs_ok dev fs"
  shows "chain dev fs c cs \<Longrightarrow> count_chain dev fs c n = Some (n + of_nat (length cs))"
proof (induction cs arbitrary: c n)
  case Nil
  then show ?case by (subst count_chain.simps) auto
next
  case (Cons d ds)
  then show ?case
    using assms by (subst count_chain.simps) (simp add: get_successor_has algebra_simps)
qed

lemma chain_drop: "chain dev fs c cs \<Longrightarrow> k < length cs \<Longrightarrow> chain dev fs (cs ! k) (drop k cs)"
  by (induction cs arbitrary: c k) (auto simp: nth_Cons' drop_Cons' split: if_splits)

lemma seek_cluster_eq:
  assumes "fs_ok dev fs"
  shows "chain dev fs c cs \<Longrightarrow> k < length cs \<Longrightarrow>
    seek_cluster dev fs k p c = Some (if k = 0 then p else cs ! (k - 1), cs ! k)"
proof (induction k arbitrary: c cs p)
  case 0
  then show ?case by (cases cs) auto
next
  case (Suc k)
  obtain ds where cs: "cs = c # ds" using Suc.prems by (cases cs) auto
  then have "seek_cluster dev fs (Suc k) p c = seek_cluster dev fs k c (fat_at dev fs c)"
    using Suc.prems(1) assms by (simp add: get_successor_has)
  also have "\<dots> = Some (if k = 0 then c else ds ! (k - 1), ds ! k)"
    using Suc.IH Suc.prems cs by simp
  finally show ?case using cs by (auto simp: nth_Cons')
qed

lemma read_rest_eq:
  assumes "fs_ok dev fs"
  shows "chain dev fs c cs \<Longrightarrow> read_rest dev fs c n = Some (take n (chain_data dev fs cs))"
proof (induction cs arbitrary: c n)
  case Nil
  then show ?case by (subst read_rest.simps) auto
next
  case (Cons d ds)
  then have h: "has_cluster dev fs d" "d = c" "in_chain c" and rest: "chain dev fs (fat_at dev fs c) ds" by auto
  have len: "length (cluster_data dev fs c) = bytes_per_cluster fs" using assms h by (simp add: cluster_ops(2))
  show ?case
  proof (cases "n = 0")
    case True
    then show ?thesis by (subst read_rest.simps) simp
  next
    case False
    then show ?thesis
      using h len Cons.IH [OF rest] assms
      by (subst read_rest.simps) (simp add: cluster_ops(1) get_successor_has min_def)
  qed
qed

lemma drop_concat_blocks:
  assumes "\<forall>xs \<in> set xss. length xs = n" "k \<le> length xss"
  shows "drop (k * n + m) (concat xss) = drop m (concat (drop k xss))"
  using assms
proof (induction k arbitrary: xss)
  case 0
  then show ?case by simp
next
  case (Suc k)
  then obtain xs yss where "xss = xs # yss" by (cases xss) auto
  then show ?case using Suc by (simp add: add.assoc)
qed

lemma chain_data_drop:
  assumes "fs_ok dev fs" "chain dev fs c cs" "k \<le> length cs"
  shows "drop (k * bytes_per_cluster fs + m) (chain_data dev fs cs) = drop m (chain_data dev fs (drop k cs))"
  unfolding chain_data_def drop_map [symmetric]
  using assms chain_has [OF assms(2)] by (intro drop_concat_blocks) (auto simp: cluster_ops(2))

text \<open>The offset within a file, split into cluster and byte, as long as the 16-bit variables hold it.\<close>

lemma data_starts_nat:
  assumes "unat off div bytes_per_cluster fs < 65536"
  shows "unat (data_starts_in_cluster fs off) = unat off div bytes_per_cluster fs"
  unfolding data_starts_in_cluster_def using assms by (rule unat_of_nat_u16)

lemma data_offset_nat:
  assumes "unat off div bytes_per_cluster fs < 65536" "0 < bytes_per_cluster fs" "bytes_per_cluster fs < 65536"
  shows "unat (data_offset_in_cluster fs off) = unat off mod bytes_per_cluster fs"
proof -
  let ?b = "bytes_per_cluster fs" and ?o = "unat off"
  have le: "?o div ?b * ?b \<le> ?o" by simp
  have lt: "?o div ?b * ?b < 4294967296" using le unat_u32_less [of off] by linarith
  have p: "unat (ucast (data_starts_in_cluster fs off) * of_nat ?b :: u32) = ?o div ?b * ?b"
    using data_starts_nat [OF assms(1)] lt assms(3)
    by (simp add: unat_word_ariths unat_of_nat del: div_mult_mod_eq)
  then have "unat (off - ucast (data_starts_in_cluster fs off) * of_nat ?b) = ?o - ?o div ?b * ?b"
    using le by (simp add: unat_sub word_le_nat_alt)
  also have "\<dots> = ?o mod ?b" by (simp add: minus_div_mult_eq_mod)
  finally have d: "unat (off - ucast (data_starts_in_cluster fs off) * of_nat ?b) = ?o mod ?b" .
  have "?o mod ?b < 65536" using mod_less_divisor [OF assms(2), of ?o] assms(3) by linarith
  then show ?thesis unfolding data_offset_in_cluster_def using d by (simp add: unsigned_ucast_eq take_bit_eq_mod)
qed

lemma read_from_file_eq:
  assumes "fs_ok dev fs" "bytes_per_cluster fs < 65536" "chain dev fs (first_cluster e) cs"
    "unat off < length cs * bytes_per_cluster fs" "length cs \<le> 65536"
  shows "read_from_file dev fs e off n = Some (take (unat n) (drop (unat off) (chain_data dev fs cs)))"
proof -
  let ?b = "bytes_per_cluster fs" and ?o = "unat off"
  have b: "0 < ?b" using assms(4) by (cases ?b) auto
  have k: "?o div ?b < length cs" using assms(4) b by (simp add: div_less_iff_less_mult)
  then have k': "?o div ?b < 65536" using assms(5) by linarith
  let ?k = "?o div ?b" and ?m = "?o mod ?b"
  note st = data_starts_nat [OF k'] and of = data_offset_nat [OF k' b assms(2)]
  have c: "chain dev fs (cs ! ?k) (drop ?k cs)" by (rule chain_drop [OF assms(3) k])
  have dr: "drop ?k cs = cs ! ?k # drop (Suc ?k) cs" using k by (simp add: Cons_nth_drop_Suc)
  have h: "has_cluster dev fs (cs ! ?k)" and rest: "chain dev fs (fat_at dev fs (cs ! ?k)) (drop (Suc ?k) cs)"
    using c unfolding dr by simp_all
  have len: "length (cluster_data dev fs (cs ! ?k)) = ?b" using assms(1) h by (rule cluster_ops(2))
  have "drop ?o (chain_data dev fs cs) = drop ?m (chain_data dev fs (drop ?k cs))"
    using chain_data_drop [OF assms(1,3), of ?k ?m] k by simp
  also have "\<dots> = drop ?m (cluster_data dev fs (cs ! ?k)) @ chain_data dev fs (drop (Suc ?k) cs)"
    using len mod_less_divisor [OF b, of ?o] by (simp add: dr)
  finally have data: "drop ?o (chain_data dev fs cs)
      = drop ?m (cluster_data dev fs (cs ! ?k)) @ chain_data dev fs (drop (Suc ?k) cs)" .
  show ?thesis
    unfolding data
    using seek_cluster_eq [OF assms(1,3) k] read_rest_eq [OF assms(1) rest] len
    by (simp add: read_from_file_def st of cluster_ops(1) [OF assms(1) h] get_successor_has [OF assms(1) h] Let_def)
qed

section \<open>Writing along a chain\<close>

text \<open>A change of data clusters only: everything below the data region is kept.\<close>

definition data_change :: "fat16_t \<Rightarrow> sectors \<Rightarrow> sectors \<Rightarrow> u16 set \<Rightarrow> bool" where
  "data_change fs dev dev' S \<longleftrightarrow> fs_ok dev' fs \<and> length dev' = length dev
     \<and> (\<forall>j < data0 fs. dev' ! j = dev ! j)
     \<and> (\<forall>d. has_cluster dev fs d \<and> d \<notin> S \<longrightarrow> cluster_data dev' fs d = cluster_data dev fs d)"

lemma data_change_refl: "fs_ok dev fs \<Longrightarrow> data_change fs dev dev S"
  by (simp add: data_change_def)

lemma data_change_trans:
  assumes "data_change fs d1 d2 S" "data_change fs d2 d3 T"
  shows "data_change fs d1 d3 (S \<union> T)"
  using assms has_cluster_length [of d2 d1 fs] by (auto simp: data_change_def)

lemma data_change_put:
  assumes "fs_ok dev fs" "has_cluster dev fs c" "length buf = bytes_per_cluster fs"
  shows "data_change fs dev (cluster_put dev fs c buf) {c}"
  using assms fs_ok_cluster_put [OF assms(1,3)] fs_okD(3) [OF assms(1)]
  by (auto simp: data_change_def cluster_put_below cluster_data_put_other)

lemma data_change_fat:
  assumes "data_change fs dev dev' S" "fs_ok dev fs" "unat c < 256 * fat_len fs"
  shows "fat_at dev' fs c = fat_at dev fs c"
  using assms(1) fat_sector(2) [OF assms(2,3)] by (simp add: data_change_def fat_at_def data0_def)

lemma data_change_chain:
  assumes "data_change fs dev dev' S" "fs_ok dev fs"
  shows "chain dev fs c cs \<Longrightarrow> chain dev' fs c cs"
proof (induction cs arbitrary: c)
  case (Cons x xs)
  then have "has_cluster dev fs c" by simp
  moreover from this have "has_cluster dev' fs c"
    using assms(1) has_cluster_length [of dev' dev fs c] by (simp add: data_change_def)
  ultimately show ?case
    using Cons data_change_fat [OF assms(1,2), of c] has_clusterD(2) by simp
qed simp

lemma data_change_chain_data:
  assumes "data_change fs dev dev' S" "chain dev fs c cs" "set cs \<inter> S = {}"
  shows "chain_data dev' fs cs = chain_data dev fs cs"
  using assms chain_has [OF assms(2)] unfolding chain_data_def data_change_def
  by (intro arg_cong [of _ _ concat] map_cong) auto

lemma length_patch: "off + length bs \<le> length buf \<Longrightarrow> length (patch buf off bs) = length buf"
  by (simp add: patch_def)

lemma write_existing_eq:
  assumes "fs_ok dev fs" "chain dev fs c cs" "distinct cs" "length bs \<le> length cs * bytes_per_cluster fs"
  shows "\<exists>dev' q. write_existing dev fs p c bs = Some (dev', [], q) \<and> data_change fs dev dev' (set cs)
    \<and> chain_data dev' fs cs = patch (chain_data dev fs cs) 0 bs"
  using assms
proof (induction cs arbitrary: dev c bs p)
  case Nil
  then show ?case by (subst write_existing.simps) (auto simp: data_change_refl patch_def)
next
  case (Cons d ds)
  let ?b = "bytes_per_cluster fs"
  have h: "has_cluster dev fs c" "d = c" "in_chain c" and rest: "chain dev fs (fat_at dev fs c) ds"
    using Cons.prems(2) by auto
  show ?case
  proof (cases "bs = []")
    case True
    then show ?thesis
      using Cons.prems(1) by (subst write_existing.simps) (auto simp: data_change_refl patch_def)
  next
    case False
    have len: "length (cluster_data dev fs c) = ?b" using Cons.prems(1) h(1) by (rule cluster_ops(2))
    let ?buf = "patch (cluster_data dev fs c) 0 (take ?b bs)"
    have lb: "length ?buf = ?b" using len by (simp add: patch_def)
    let ?d1 = "cluster_put dev fs c ?buf"
    have ch: "data_change fs dev ?d1 {c}" by (rule data_change_put [OF Cons.prems(1) h(1) lb])
    then have ok1: "fs_ok ?d1 fs" by (simp add: data_change_def)
    have rest1: "chain ?d1 fs (fat_at dev fs c) ds" by (rule data_change_chain [OF ch Cons.prems(1) rest])
    have succ: "get_successor_cluster ?d1 fs c = Some (fat_at dev fs c)"
      using get_successor_has [OF ok1] h(1) data_change_fat [OF ch Cons.prems(1) has_clusterD(2) [OF h(1)]] by simp
    have "length (drop ?b bs) \<le> length ds * ?b" "distinct ds" using Cons.prems(3,4) by simp_all
    then obtain dev' q where ih: "write_existing ?d1 fs c (fat_at dev fs c) (drop ?b bs) = Some (dev', [], q)"
        "data_change fs ?d1 dev' (set ds)" "chain_data dev' fs ds = patch (chain_data ?d1 fs ds) 0 (drop ?b bs)"
      using Cons.IH [OF ok1 rest1] by blast
    have w: "write_existing dev fs p c bs = Some (dev', [], q)"
      using False h(3) ih(1) succ cluster_ops [OF Cons.prems(1) h(1)] lb
      by (subst write_existing.simps) simp
    have all: "data_change fs dev dev' (set (d # ds))"
      using data_change_trans [OF ch ih(2)] h(2) by simp
    have "cluster_data dev' fs c = cluster_data ?d1 fs c"
      using ih(2) h Cons.prems(3) by (auto simp: data_change_def)
    also have "\<dots> = ?buf" by (rule cluster_data_put_same [OF Cons.prems(1) h(1) lb])
    finally have c': "cluster_data dev' fs c = ?buf" .
    have ds': "chain_data ?d1 fs ds = chain_data dev fs ds"
      using Cons.prems(3) h(2) by (intro data_change_chain_data [OF ch rest]) auto
    have "chain_data dev' fs (d # ds) = patch (chain_data dev fs (d # ds)) 0 bs"
      using c' ih(3) ds' h(2) len by (cases "length bs \<le> ?b") (simp_all add: patch_def)
    then show ?thesis using w all by blast
  qed
qed

lemma length_blocks: "\<forall>xs \<in> set xss. length xs = n \<Longrightarrow> length (concat xss) = length xss * n"
  by (induction xss) auto

lemma take_drop_app: "take n xs @ drop n xs @ ys = xs @ ys"
  by (metis append_assoc append_take_drop_id)

lemma patch_concat:
  assumes "length a = m" "m \<le> off"
  shows "patch (a @ b) off bs = a @ patch b (off - m) bs"
  using assms by (simp add: patch_def add.commute)

lemma write_to_file_eq:
  assumes "fs_ok dev fs" "bytes_per_cluster fs < 65536" "chain dev fs (first_cluster e) cs" "distinct cs"
    "unat off + length buf \<le> length cs * bytes_per_cluster fs" "unat off < length cs * bytes_per_cluster fs"
    "length cs \<le> 65536"
  shows "\<exists>dev'. write_to_file dev fs e off buf = Some (length buf, dev') \<and> data_change fs dev dev' (set cs)
    \<and> chain_data dev' fs cs = patch (chain_data dev fs cs) (unat off) buf"
proof -
  let ?b = "bytes_per_cluster fs" and ?o = "unat off"
  have b: "0 < ?b" using assms(6) by (cases ?b) auto
  have k: "?o div ?b < length cs" using assms(6) b by (simp add: div_less_iff_less_mult)
  then have k': "?o div ?b < 65536" using assms(7) by linarith
  define k0 where "k0 = ?o div ?b"
  define m0 where "m0 = ?o mod ?b"
  have o: "?o = k0 * ?b + m0" "m0 < ?b" using b by (simp_all add: k0_def m0_def)
  note st = data_starts_nat [OF k', folded k0_def] and of = data_offset_nat [OF k' b assms(2), folded m0_def]
  have k: "k0 < length cs" using k by (simp add: k0_def)
  define c where "c = cs ! k0"
  define ds where "ds = drop (Suc k0) cs"
  have dr: "drop k0 cs = c # ds" using k by (simp add: Cons_nth_drop_Suc c_def ds_def)
  have "chain dev fs c (c # ds)" using chain_drop [OF assms(3) k] by (simp add: dr c_def)
  then have h: "has_cluster dev fs c" and rest: "chain dev fs (fat_at dev fs c) ds" by simp_all
  have len: "length (cluster_data dev fs c) = ?b" using assms(1) h by (rule cluster_ops(2))
  define m where "m = (if length buf < ?b - m0 then length buf else ?b - m0)"
  have m: "m = min (length buf) (?b - m0)" by (simp add: m_def)
  let ?buf = "patch (cluster_data dev fs c) m0 (take m buf)"
  have lb: "length ?buf = ?b" using len o(2) m by (simp add: patch_def)
  let ?d1 = "cluster_put dev fs c ?buf"
  have ch: "data_change fs dev ?d1 {c}" by (rule data_change_put [OF assms(1) h lb])
  then have ok1: "fs_ok ?d1 fs" by (simp add: data_change_def)
  have rest1: "chain ?d1 fs (fat_at dev fs c) ds" by (rule data_change_chain [OF ch assms(1) rest])
  have succ: "get_successor_cluster ?d1 fs c = Some (fat_at dev fs c)"
    using get_successor_has [OF ok1] h data_change_fat [OF ch assms(1) has_clusterD(2) [OF h]] by simp
  have cs: "cs = take k0 cs @ c # ds" using dr by (metis append_take_drop_id)
  have dist: "distinct ds" "c \<notin> set ds" "c \<notin> set (take k0 cs)" "set (take k0 cs) \<inter> set ds = {}"
    using assms(4) by (subst (asm) cs, simp)+
  have lds: "length cs = k0 + 1 + length ds" using k by (simp add: ds_def)
  have "length (drop m buf) \<le> length ds * ?b"
    using assms(5) o m unfolding lds by (simp add: algebra_simps)
  then obtain dev' q where we: "write_existing ?d1 fs c (fat_at dev fs c) (drop m buf) = Some (dev', [], q)"
      "data_change fs ?d1 dev' (set ds)" "chain_data dev' fs ds = patch (chain_data ?d1 fs ds) 0 (drop m buf)"
    using write_existing_eq [OF ok1 rest1 dist(1)] by blast
  have ext: "write_extend dev' fs q [] = Some (dev', [])" by (subst write_extend.simps) simp
  have seek: "\<exists>q. seek_cluster dev fs k0 0 (first_cluster e) = Some (q, c)"
    using seek_cluster_eq [OF assms(1,3) k] by (simp add: c_def)
  have w: "write_to_file dev fs e off buf = Some (length buf, dev')"
    using seek we(1) succ ext cluster_ops [OF assms(1) h] lb
    by (auto simp: write_to_file_def st of Let_def m_def [symmetric])
  have all: "data_change fs dev dev' ({c} \<union> set ds)" by (rule data_change_trans [OF ch we(2)])
  have sub: "{c} \<union> set ds \<subseteq> set cs" using k by (auto simp: c_def ds_def dest: in_set_dropD)
  have c': "cluster_data dev' fs c = ?buf"
    using we(2) dist(2) h cluster_data_put_same [OF assms(1) h lb] by (auto simp: data_change_def)
  have ds': "chain_data ?d1 fs ds = chain_data dev fs ds"
    using dist(2) by (intro data_change_chain_data [OF ch rest]) auto
  have "\<forall>x \<in> set (take k0 cs). cluster_data dev' fs x = cluster_data dev fs x"
    using all dist(3,4) chain_has [OF assms(3)] by (auto simp: data_change_def dest: in_set_takeD)
  then have front: "chain_data dev' fs (take k0 cs) = chain_data dev fs (take k0 cs)"
    unfolding chain_data_def by (intro arg_cong [of _ _ concat] map_cong) auto
  have app: "chain_data x fs cs = chain_data x fs (take k0 cs) @ cluster_data x fs c @ chain_data x fs ds" for x
    by (subst cs) (simp add: chain_data_def)
  have lf: "length (chain_data dev fs (take k0 cs)) = k0 * ?b"
    using chain_has [OF assms(3)] k assms(1) unfolding chain_data_def
    by (subst length_blocks) (auto simp: cluster_ops(2) dest: in_set_takeD)
  have "chain_data dev' fs cs = patch (chain_data dev fs cs) ?o buf"
    unfolding app front c' we(3) ds' using lf o len m by (cases "length buf \<le> ?b - m0") (simp_all add: patch_concat patch_def take_drop_app add.commute [of m0])
  moreover have "data_change fs dev dev' (set cs)"
    using all sub by (auto simp: data_change_def)
  ultimately show ?thesis using w by blast
qed

end
