(* ===== verification/FileSystem.thy ===== *)
theory FileSystem
  imports Chains
begin

text \<open>
  What the FAT16 layer promises, over the model of theory \<open>Fat16\<close> and the facts of theory
  \<open>Chains\<close>: the allocation table, clusters, reading and writing files, directory entries.
\<close>

section \<open>A small disk\<close>

text \<open>
  One reserved sector, one table of one sector, one sector of root directory, and three
  clusters of one sector: clusters 2 and 3 hold a file, cluster 4 is free.
\<close>

definition demo_fs :: fat16_t where
  "demo_fs = \<lparr>bytes_per_sector = 512, sectors_per_cluster = 1, num_reserved_sectors = 1,
     num_file_allocation_tables = 1, num_root_directory_entries = 16, total_num_sectors = 6,
     media_descriptor = 0xF8, num_sectors_per_file_allocation_table = 1, volume_serial_number = 0,
     volume_label = [], file_system_identifier = []\<rparr>"

definition demo_fat :: "u8 list" where
  "demo_fat = [0xF8, 0xFF, 0xFF, 0xFF, 3, 0, 0xFF, 0xFF] @ replicate 504 0"

definition demo_dev :: sectors where
  "demo_dev = [replicate 512 0, demo_fat, replicate 512 0x41, replicate 512 7, replicate 512 8, replicate 512 0]"

definition demo_entry :: fat16_dir_entry_t where
  "demo_entry = \<lparr>filename = lit ''LOG'' @ replicate 5 0x20 @ [0], extension = lit ''TXT'' @ [0],
     attributes = 0x20, first_cluster = 2, file_size_bytes = 1000\<rparr>"

lemma demo_layout: "fat0 demo_fs = 1" "fat_len demo_fs = 1" "root0 demo_fs = 2" "root_len demo_fs = 1"
    "data0 demo_fs = 3" "bytes_per_cluster demo_fs = 512"
  by (simp_all add: fat0_def fat_len_def root0_def root_len_def data0_def demo_fs_def bytes_per_cluster_def)

lemma demo_ok: "fs_ok demo_dev demo_fs"
  unfolding fs_ok_def demo_layout by (simp add: demo_dev_def demo_fat_def demo_fs_def)

lemma demo_has: "has_cluster demo_dev demo_fs 2" "has_cluster demo_dev demo_fs 3" "has_cluster demo_dev demo_fs 4"
  unfolding has_cluster_def demo_layout by (simp_all add: demo_dev_def demo_fs_def)

lemma demo_fat_at: "fat_at demo_dev demo_fs 2 = 3" "fat_at demo_dev demo_fs 3 = 0xFFFF" "fat_at demo_dev demo_fs 4 = 0"
  by (simp_all add: fat_at_def demo_layout demo_dev_def demo_fat_def le16_def)

lemma demo_chain: "chain demo_dev demo_fs (first_cluster demo_entry) [2, 3]"
  by (simp add: demo_has demo_fat_at demo_entry_def)

lemma demo_data: "cluster_data demo_dev demo_fs 2 = replicate 512 7" "cluster_data demo_dev demo_fs 3 = replicate 512 8"
  unfolding cluster_data_def cluster_pos_def demo_layout by (simp_all add: demo_dev_def demo_fs_def)

section \<open>Properties\<close>

text \<open>
  The file allocation table is an array of 16-bit entries.  For a cluster the table
  has an entry for, \<^verbatim>\<open>set_successor_cluster\<close> succeeds; \<^verbatim>\<open>get_successor_cluster\<close> then returns the
  value stored for that cluster and the old value for every other one, and no sector of the
  root directory or of the data region changes.
\<close>

lemma successor_roundtrip:
  assumes "fs_ok dev fs" "unat c < 256 * fat_len fs"
  shows "\<exists>dev'. set_successor_cluster dev fs c v = Some dev' \<and> fs_ok dev' fs
    \<and> get_successor_cluster dev' fs c = Some v
    \<and> (\<forall>d. d \<noteq> c \<and> unat d < 256 * fat_len fs \<longrightarrow> get_successor_cluster dev' fs d = get_successor_cluster dev fs d)
    \<and> (\<forall>i. root0 fs \<le> i \<longrightarrow> dev' ! i = dev ! i)"
proof (intro exI conjI)
  note ok = fs_ok_put [OF assms, of v]
  show "set_successor_cluster dev fs c v = Some (fat_put dev fs c v)" by (rule set_successor_eq [OF assms])
  show "fs_ok (fat_put dev fs c v) fs" by (rule ok)
  show "get_successor_cluster (fat_put dev fs c v) fs c = Some v"
    using get_successor_eq [OF ok assms(2)] fat_at_put [OF assms] by simp
  show "\<forall>d. d \<noteq> c \<and> unat d < 256 * fat_len fs \<longrightarrow>
      get_successor_cluster (fat_put dev fs c v) fs d = get_successor_cluster dev fs d"
    using get_successor_eq [OF ok] get_successor_eq [OF assms(1)] fat_at_put [OF assms] by simp
  show "\<forall>i. root0 fs \<le> i \<longrightarrow> fat_put dev fs c v ! i = dev ! i"
    using fat_put_other(2) [OF assms] by simp
qed

lemma successor_roundtrip_witness:
  "\<exists>dev'. set_successor_cluster demo_dev demo_fs 4 0xFFFF = Some dev'
     \<and> get_successor_cluster dev' demo_fs 4 = Some 0xFFFF \<and> get_successor_cluster dev' demo_fs 2 = Some 3"
proof -
  have "get_successor_cluster demo_dev demo_fs 2 = Some 3"
    using get_successor_has [OF demo_ok demo_has(1)] demo_fat_at by simp
  then show ?thesis
    using successor_roundtrip [OF demo_ok, of 4 "0xFFFF"] by (auto simp: demo_layout)
qed

text \<open>
  \<^verbatim>\<open>find_first_free_cluster\<close> returns the smallest cluster number whose table entry is zero,
  and 0 if there is none, provided cluster numbers fit their 16 bits (at most 256 sectors of
  table).
\<close>

lemma first_free_cluster_least:
  assumes "fs_ok dev fs" "fat_len fs \<le> 256"
  shows "case find_first_free_cluster dev fs of
      None \<Rightarrow> False
    | Some c \<Rightarrow> (unat c < 256 * fat_len fs \<and> fat_entry dev fs (unat c) = 0
                   \<and> (\<forall>d < unat c. fat_entry dev fs d \<noteq> 0))
               \<or> (c = 0 \<and> (\<forall>d < 256 * fat_len fs. fat_entry dev fs d \<noteq> 0))"
proof (cases "List.find (\<lambda>c. fat_entry dev fs c = 0) [0..<256 * fat_len fs]")
  case None
  then have "\<forall>d < 256 * fat_len fs. fat_entry dev fs d \<noteq> 0" by (simp add: find_None_iff)
  then show ?thesis
    using free_in_fat_scan [OF assms, of 0] None
    by (simp add: find_first_free_cluster_def fat_len_def [symmetric])
next
  case (Some c)
  then have c: "c < 256 * fat_len fs" "fat_entry dev fs c = 0" "\<forall>d < c. fat_entry dev fs d \<noteq> 0"
    by (simp_all add: find_upt_least)
  then have "unat (of_nat c :: u16) = c" using assms(2) by (intro unat_of_nat_u16) linarith
  then show ?thesis
    using free_in_fat_scan [OF assms, of 0] Some c
    by (simp add: find_first_free_cluster_def fat_len_def [symmetric])
qed

lemma first_free_cluster_least_witness: "find_first_free_cluster demo_dev demo_fs = Some 4"
proof -
  have e: "fat_entry demo_dev demo_fs 0 \<noteq> 0" "fat_entry demo_dev demo_fs 1 \<noteq> 0" "fat_entry demo_dev demo_fs 2 \<noteq> 0"
      "fat_entry demo_dev demo_fs 3 \<noteq> 0" "fat_entry demo_dev demo_fs 4 = 0"
    by (simp_all add: fat_entry_def fat_at_def demo_layout demo_dev_def demo_fat_def le16_def)
  obtain c where c: "find_first_free_cluster demo_dev demo_fs = Some c"
      "fat_entry demo_dev demo_fs (unat c) = 0 \<and> (\<forall>d < unat c. fat_entry demo_dev demo_fs d \<noteq> 0)"
    using first_free_cluster_least [OF demo_ok] e(5)
    by (cases "find_first_free_cluster demo_dev demo_fs") (auto simp: demo_layout)
  have "\<not> 4 < unat c" using c(2) e(5) by blast
  moreover have "unat c \<noteq> 0" "unat c \<noteq> 1" "unat c \<noteq> 2" "unat c \<noteq> 3" using c(2) e by metis+
  ultimately have "unat c = 4" by linarith
  then have "c = 4" by (simp add: word_unat_eq_iff)
  with c(1) show ?thesis by simp
qed

text \<open>
  Clusters.  \<^verbatim>\<open>write_cluster\<close> of a full buffer followed by \<^verbatim>\<open>load_cluster\<close> returns the buffer;
  every other cluster, the allocation table and the root directory are as they were.
\<close>

lemma cluster_roundtrip:
  assumes "fs_ok dev fs" "has_cluster dev fs c" "length buf = bytes_per_cluster fs"
  shows "\<exists>dev'. write_cluster dev fs c buf = Some dev' \<and> fs_ok dev' fs \<and> load_cluster dev' fs c = Some buf
    \<and> (\<forall>d. d \<noteq> c \<and> has_cluster dev fs d \<longrightarrow> load_cluster dev' fs d = load_cluster dev fs d)
    \<and> (\<forall>i < data0 fs. dev' ! i = dev ! i)"
proof (intro exI conjI)
  let ?d = "cluster_put dev fs c buf"
  have ok: "fs_ok ?d fs" by (rule fs_ok_cluster_put [OF assms(1,3)])
  show "write_cluster dev fs c buf = Some ?d" by (rule cluster_ops(3) [OF assms])
  show "fs_ok ?d fs" by (rule ok)
  show "load_cluster ?d fs c = Some buf"
    using cluster_ops(1) [OF ok] assms(2) cluster_data_put_same [OF assms] by simp
  show "\<forall>d. d \<noteq> c \<and> has_cluster dev fs d \<longrightarrow> load_cluster ?d fs d = load_cluster dev fs d"
    using cluster_ops(1) [OF ok] cluster_ops(1) [OF assms(1)] cluster_data_put_other [OF assms(2)] by auto
  show "\<forall>i < data0 fs. ?d ! i = dev ! i" using cluster_put_below fs_okD(3) [OF assms(1)] by simp
qed

lemma cluster_roundtrip_witness:
  "\<exists>dev'. write_cluster demo_dev demo_fs 4 (replicate 512 9) = Some dev'
     \<and> load_cluster dev' demo_fs 4 = Some (replicate 512 9) \<and> load_cluster dev' demo_fs 2 = Some (replicate 512 7)"
proof -
  have "load_cluster demo_dev demo_fs 2 = Some (replicate 512 7)"
    using cluster_ops(1) [OF demo_ok demo_has(1)] demo_data by simp
  then show ?thesis
    using cluster_roundtrip [OF demo_ok demo_has(3), of "replicate 512 9"] demo_has(1) by (auto simp: demo_layout)
qed

text \<open>
  C17: \<^verbatim>\<open>read_from_file\<close> of a file whose clusters form the chain \<open>cs\<close> returns, and stores exactly
  the bytes of the file's clusters from the offset on: as many as were asked for, or
  as the clusters hold.  (The length recorded in the directory entry plays no part: bytes behind
  the end of the file, up to the end of its last cluster, are read like the others.)
\<close>

theorem read_from_file_correct:
  assumes "fs_ok dev fs" "bytes_per_cluster fs < 65536" "chain dev fs (first_cluster e) cs"
    "unat off < length cs * bytes_per_cluster fs" "length cs \<le> 65536"
  shows "read_from_file dev fs e off n = Some (take (unat n) (drop (unat off) (chain_data dev fs cs)))"
  using assms by (rule read_from_file_eq)

theorem read_from_file_correct_witness:
  "read_from_file demo_dev demo_fs demo_entry 510 4 = Some [7, 7, 8, 8]"
proof -
  have "take 4 (drop 510 (chain_data demo_dev demo_fs [2, 3])) = [7, 7, 8, 8]"
    by (simp add: demo_data numeral_eq_Suc)
  then show ?thesis
    using read_from_file_correct [OF demo_ok _ demo_chain, of 510 4] by (simp add: demo_layout)
qed

text \<open>
  C16: \<^verbatim>\<open>write_to_file\<close> within the clusters a file already has: it returns with all bytes
  written; the file then holds its old bytes with the buffer at the offset, so that
  reading back at the same offset yields the buffer; the chain is the same, and no cluster of
  any other file, no table entry and no directory sector has changed.
\<close>

theorem write_to_file_in_place:
  assumes "fs_ok dev fs" "bytes_per_cluster fs < 65536" "chain dev fs (first_cluster e) cs" "distinct cs"
    "unat off + length buf \<le> length cs * bytes_per_cluster fs" "unat off < length cs * bytes_per_cluster fs"
    "length cs \<le> 65536"
  shows "\<exists>dev'. write_to_file dev fs e off buf = Some (length buf, dev') \<and> chain dev' fs (first_cluster e) cs
    \<and> chain_data dev' fs cs = patch (chain_data dev fs cs) (unat off) buf
    \<and> read_from_file dev' fs e off (of_nat (length buf)) = Some buf
    \<and> (\<forall>d. has_cluster dev fs d \<and> d \<notin> set cs \<longrightarrow> load_cluster dev' fs d = load_cluster dev fs d)
    \<and> (\<forall>i < data0 fs. dev' ! i = dev ! i)"
proof -
  obtain dev' where d: "write_to_file dev fs e off buf = Some (length buf, dev')"
      "data_change fs dev dev' (set cs)" "chain_data dev' fs cs = patch (chain_data dev fs cs) (unat off) buf"
    using write_to_file_eq [OF assms] by blast
  have ok: "fs_ok dev' fs" and len: "length dev' = length dev" using d(2) by (simp_all add: data_change_def)
  have ch: "chain dev' fs (first_cluster e) cs" by (rule data_change_chain [OF d(2) assms(1,3)])
  have other: "load_cluster dev' fs c = load_cluster dev fs c" if "has_cluster dev fs c" "c \<notin> set cs" for c
    using d(2) that cluster_ops(1) [OF ok] cluster_ops(1) [OF assms(1) that(1)] has_cluster_length [OF len, of fs c]
    by (auto simp: data_change_def)
  have "take (length buf) (drop (unat off) (patch xs (unat off) buf)) = buf" if "unat off \<le> length xs" for xs
    using that by (simp add: patch_def)
  moreover have "unat off \<le> length (chain_data dev fs cs)"
    using length_chain_data [OF assms(1,3)] assms(6) by simp
  moreover have "length buf < 4294967296"
  proof -
    have "length cs * bytes_per_cluster fs \<le> 65536 * 65535" using assms(2,7) by (intro mult_le_mono) auto
    then show ?thesis using assms(5) by linarith
  qed
  then have "unat (of_nat (length buf) :: u32) = length buf" by (simp add: unat_of_nat)
  ultimately have "read_from_file dev' fs e off (of_nat (length buf)) = Some buf"
    using read_from_file_eq [OF ok assms(2) ch assms(6,7)] d(3) by simp
  then show ?thesis using d ch other by (auto simp: data_change_def)
qed

theorem write_to_file_in_place_witness:
  "\<exists>dev'. write_to_file demo_dev demo_fs demo_entry 511 [1, 2, 3] = Some (3, dev')
     \<and> read_from_file dev' demo_fs demo_entry 511 3 = Some [1, 2, 3]"
  using write_to_file_in_place [OF demo_ok _ demo_chain, of 511 "[1, 2, 3]"] by (auto simp: demo_layout)

text \<open>
  Termination along chains.  For a file whose clusters form a finite chain, \<^verbatim>\<open>load_file\<close> returns
  with exactly the bytes of its clusters and \<^verbatim>\<open>num_clusters_in_chain\<close> with their number.
\<close>

lemma chain_loops_terminate:
  assumes "fs_ok dev fs" "chain dev fs (first_cluster e) cs"
  shows "load_file dev fs e = Some (chain_data dev fs cs)
    \<and> length (chain_data dev fs cs) = length cs * bytes_per_cluster fs
    \<and> num_clusters_in_chain dev fs (first_cluster e) = Some (of_nat (length cs))"
proof -
  have "num_clusters_in_chain dev fs (first_cluster e) = Some (of_nat (length cs))"
  proof (cases cs)
    case Nil
    then show ?thesis using assms(2) by (auto simp: num_clusters_in_chain_def)
  next
    case (Cons d ds)
    then show ?thesis
      using assms count_chain_eq [OF assms(1), of "fat_at dev fs (first_cluster e)" ds 1]
      by (simp add: num_clusters_in_chain_def get_successor_has)
  qed
  then show ?thesis using load_chain_eq [OF assms] length_chain_data [OF assms] by (simp add: load_file_def)
qed

lemma chain_loops_terminate_witness:
  "load_file demo_dev demo_fs demo_entry = Some (replicate 512 7 @ replicate 512 8)
   \<and> num_clusters_in_chain demo_dev demo_fs 2 = Some 2"
proof -
  have "chain demo_dev demo_fs (first_cluster demo_entry) [2, 3]" by (rule demo_chain)
  from chain_loops_terminate [OF demo_ok this] show ?thesis by (simp add: demo_data demo_entry_def)
qed

unbundle bit_operations_syntax

section \<open>Directory entries\<close>

lemma bytes_of_nat:
  assumes "(n :: nat) < 4294967296"
  shows "n mod 256 + 256 * (n div 256 mod 256 + 256 * (n div 65536 mod 256 + 256 * (n div 16777216 mod 256))) = n"
proof -
  have d: "n div 65536 = n div 256 div 256" "n div 16777216 = n div 256 div 256 div 256"
    by (simp_all add: div_mult2_eq [symmetric])
  have "n div 16777216 < 256" using assms by (simp add: div_less_iff_less_mult)
  then have "n div 256 div 256 div 256 mod 256 = n div 256 div 256 div 256" by (simp add: d)
  then show ?thesis unfolding d by (simp only: mod_mult_div_eq)
qed

lemma le4_bytes:
  "le4 (ucast (v AND 0xFF)) (ucast (drop_bit 8 v AND 0xFF)) (ucast (drop_bit 16 v AND 0xFF))
     (ucast (drop_bit 24 v AND 0xFF)) = v"
proof -
  have m: "y AND 0xFF = y mod 256" for y :: u32
  proof -
    have "y AND 0xFF = take_bit 8 y" by (simp add: take_bit_eq_mask mask_eq_exp_minus_1)
    then show ?thesis by (simp add: take_bit_eq_mod)
  qed
  define n where "n = unat v"
  have n: "n < 4294967296" using unat_u32_less [of v] by (simp add: n_def)
  have b: "unat (ucast (v AND 0xFF) :: u8) = n mod 256"
      "unat (ucast (drop_bit 8 v AND 0xFF) :: u8) = n div 256 mod 256"
      "unat (ucast (drop_bit 16 v AND 0xFF) :: u8) = n div 65536 mod 256"
      "unat (ucast (drop_bit 24 v AND 0xFF) :: u8) = n div 16777216 mod 256"
    by (simp_all add: m drop_bit_eq_div unat_div unat_mod unsigned_ucast_eq take_bit_eq_mod n_def)
  then have "unat (le4 (ucast (v AND 0xFF)) (ucast (drop_bit 8 v AND 0xFF)) (ucast (drop_bit 16 v AND 0xFF))
     (ucast (drop_bit 24 v AND 0xFF))) =
     (n mod 256 + 256 * (n div 256 mod 256 + 256 * (n div 65536 mod 256 + 256 * (n div 16777216 mod 256)))) mod 4294967296"
    by (simp add: le4_def unat_word_ariths mod_simps b)
  also have "\<dots> = n" using bytes_of_nat [OF n] n by simp
  finally show ?thesis by (simp add: word_unat_eq_iff n_def)
qed

text \<open>A store changes the 32 bytes of its slot only, and these byte by byte.\<close>

lemma upt_slots: "[1..<8] = [1, 2, 3, 4, 5, 6, 7 :: nat]" "[0..<3] = [0, 1, 2 :: nat]"
    "[0..<8] = [0, 1, 2, 3, 4, 5, 6, 7 :: nat]" "[8..<11] = [8, 9, 10 :: nat]"
  by code_simp+

lemma store_entry_length [simp]: "length (store_entry first off e buf) = length buf"
  unfolding store_entry_def Let_def upt_slots by simp

lemma store_entry_outside: "i < off \<or> off + 32 \<le> i \<Longrightarrow> store_entry first off e buf ! i = buf ! i"
  unfolding store_entry_def Let_def upt_slots by (auto simp: nth_list_update)

lemma store_entry_bytes:
  assumes "off + 32 \<le> length buf"
  shows "store_entry first off e buf ! off = first"
    "\<And>k. k \<in> {1, 2, 3, 4, 5, 6, 7} \<Longrightarrow> store_entry first off e buf ! (off + k) = filename e ! k"
    "\<And>k. k \<in> {0, 1, 2} \<Longrightarrow> store_entry first off e buf ! (off + 8 + k) = extension e ! k"
    "store_entry first off e buf ! (off + 0x0b) = attributes e"
    "store_entry first off e buf ! (off + 0x1a) = ucast (first_cluster e AND 0xFF)"
    "store_entry first off e buf ! (off + 0x1b) = ucast (drop_bit 8 (first_cluster e) AND 0xFF)"
    "store_entry first off e buf ! (off + 0x1c) = ucast (file_size_bytes e AND 0xFF)"
    "store_entry first off e buf ! (off + 0x1d) = ucast (drop_bit 8 (file_size_bytes e) AND 0xFF)"
    "store_entry first off e buf ! (off + 0x1e) = ucast (drop_bit 16 (file_size_bytes e) AND 0xFF)"
    "store_entry first off e buf ! (off + 0x1f) = ucast (drop_bit 24 (file_size_bytes e) AND 0xFF)"
  using assms unfolding store_entry_def Let_def upt_slots by (auto simp: nth_list_update)

definition unpad :: "u8 \<Rightarrow> u8" where
  "unpad c = (if c = 0x20 then 0 else c)"

text \<open>
  A directory entry survives being written and read.  What the listing code reads from the
  slot in which \<^verbatim>\<open>add_root_directory_entry\<close> or \<^verbatim>\<open>add_directory_entry\<close> stored an entry is that entry,
  with the padding of name and extension turned into NULs; the other slots of the buffer are
  untouched.  A name that starts with 0xe5 is preserved by the 0x05 convention (a name
  that starts with 0x05 is not, hence the hypothesis), and the last byte of each name buffer
  is whatever the memory held (\<open>junk\<close>).
\<close>

lemma directory_entry_roundtrip:
  assumes "off + 32 \<le> length buf" "8 \<le> length (filename e)" "3 \<le> length (extension e)" "filename e ! 0 \<noteq> 0x05"
  shows "parse_entry junk (store_entry (new_first_char e) off e buf) off =
      e\<lparr>filename := map unpad (take 8 (filename e)) @ [fst junk],
        extension := map unpad (take 3 (extension e)) @ [snd junk]\<rparr>
    \<and> (\<forall>k. k + 32 \<le> off \<or> off + 32 \<le> k \<longrightarrow>
          parse_entry junk (store_entry (new_first_char e) off e buf) k = parse_entry junk buf k)"
proof
  let ?b = "store_entry (new_first_char e) off e buf"
  note sb = store_entry_bytes [OF assms(1), where first = "new_first_char e" and e = e]
  have t8: "take 8 (filename e) = map (\<lambda>i. filename e ! i) [0..<8]"
    using assms(2) by (intro nth_equalityI) auto
  have t3: "take 3 (extension e) = map (\<lambda>i. extension e ! i) [0..<3]"
    using assms(3) by (intro nth_equalityI) auto
  have name: "?b ! (off + 1) = filename e ! 1" "?b ! (off + 2) = filename e ! 2" "?b ! (off + 3) = filename e ! 3"
      "?b ! (off + 4) = filename e ! 4" "?b ! (off + 5) = filename e ! 5" "?b ! (off + 6) = filename e ! 6"
      "?b ! (off + 7) = filename e ! 7" by (rule sb(2), simp)+
  have ext: "?b ! (off + 8) = extension e ! 0" "?b ! (off + 9) = extension e ! 1" "?b ! (off + 10) = extension e ! 2"
    using sb(3) [of 0] sb(3) [of 1] sb(3) [of 2] by (simp_all add: add.commute [of off 9] add.commute [of off 10])
  have n8: "map (\<lambda>k. unpad (?b ! (off + k))) [0..<8] = unpad (new_first_char e) # map (\<lambda>i. unpad (filename e ! i)) [1..<8]"
    unfolding upt_slots using name sb(1) by simp
  have e3: "map (\<lambda>k. unpad (?b ! (off + k))) [8..<11] = map (\<lambda>i. unpad (extension e ! i)) [0..<3]"
    unfolding upt_slots using ext by simp
  have f8: "map unpad (take 8 (filename e)) = unpad (filename e ! 0) # map (\<lambda>i. unpad (filename e ! i)) [1..<8]"
    unfolding t8 by (simp add: upt_conv_Cons)
  have fn: "filename (parse_entry junk ?b off) = map unpad (take 8 (filename e)) @ [fst junk]"
    unfolding parse_entry_def Let_def f8 unpad_def [symmetric] n8
    using sb(1) assms(4) by (auto simp: new_first_char_def unpad_def)
  have en: "extension (parse_entry junk ?b off) = map unpad (take 3 (extension e)) @ [snd junk]"
    unfolding parse_entry_def Let_def t3 unpad_def [symmetric] e3 by simp
  have rest: "attributes (parse_entry junk ?b off) = attributes e" "first_cluster (parse_entry junk ?b off) = first_cluster e"
      "file_size_bytes (parse_entry junk ?b off) = file_size_bytes e"
    unfolding parse_entry_def Let_def
    using sb(4-10) le16_bytes [of "first_cluster e"] le4_bytes [of "file_size_bytes e"] by simp_all
  show "parse_entry junk ?b off = e\<lparr>filename := map unpad (take 8 (filename e)) @ [fst junk],
        extension := map unpad (take 3 (extension e)) @ [snd junk]\<rparr>"
    using fn en rest by (intro fat16_dir_entry_t.equality) simp_all
  have "parse_entry junk ?b k = parse_entry junk buf k" if "k + 32 \<le> off \<or> off + 32 \<le> k" for k
  proof -
    have "?b ! (k + i) = buf ! (k + i)" if "i < 32" for i
      using \<open>k + 32 \<le> off \<or> off + 32 \<le> k\<close> that by (intro store_entry_outside) arith
    moreover from this [of 0] this [of 1] this [of 2]
    have "?b ! k = buf ! k" "?b ! Suc k = buf ! Suc k" "?b ! Suc (Suc k) = buf ! Suc (Suc k)" by simp_all
    ultimately show ?thesis unfolding parse_entry_def Let_def upt_slots by simp
  qed
  then show "\<forall>k. k + 32 \<le> off \<or> off + 32 \<le> k \<longrightarrow> parse_entry junk ?b k = parse_entry junk buf k" by blast
qed

lemma directory_entry_roundtrip_witness:
  "filename (parse_entry (0, 0) (store_entry (new_first_char demo_entry) 32 demo_entry (replicate 512 0)) 32)
     = lit ''LOG'' @ replicate 5 0 @ [0]"
proof -
  have "8 \<le> length (filename demo_entry)" "3 \<le> length (extension demo_entry)" "filename demo_entry ! 0 \<noteq> 0x05"
    by (simp_all add: demo_entry_def lit_def)
  moreover have "map unpad (take 8 (filename demo_entry)) = lit ''LOG'' @ replicate 5 0" by code_simp
  ultimately show ?thesis
    using directory_entry_roundtrip [of 32 "replicate 512 0" demo_entry "(0, 0)"] by simp
qed

section \<open>The root directory\<close>

text \<open>
  The search looks at the sectors of the root directory and at the sector behind them: the test
  that ends the loop lets \<^verbatim>\<open>current_sector_num\<close> reach the first sector of the data region.
\<close>

lemma root_search_from:
  assumes "fs_ok dev fs" "data0 fs < 65535" "data0 fs < length dev" "j \<le> root_len fs"
    "\<forall>i < j. look (dev ! (root0 fs + i)) = None"
  shows "root_search dev fs look (of_nat (root0 fs + j)) = Some
    (case List.find (\<lambda>i. look (dev ! (root0 fs + i)) \<noteq> None) [0..<Suc (root_len fs)] of
       None \<Rightarrow> None
     | Some i \<Rightarrow> Some (of_nat (root0 fs + i), dev ! (root0 fs + i), the (look (dev ! (root0 fs + i)))))"
  using assms(4,5)
proof (induction "root_len fs - j" arbitrary: j rule: less_induct)
  case less
  note ok = fs_okD [OF assms(1)]
  have b: "root0 fs + j < 65536" "root0 fs + j < length dev"
    using less.prems(1) assms(2,3) by (simp_all add: data0_def)
  define c where "c = (of_nat (root0 fs + j) :: u16)"
  have uc: "unat c = root0 fs + j" unfolding c_def by (rule unat_of_nat_u16 [OF b(1)])
  have rd: "fs_rd dev (ucast c) 512 = Some (dev ! (root0 fs + j))"
    using uc b(2) ok(6) [OF b(2)] by (simp add: fs_rd_def)
  have c1: "c + 1 = of_nat (root0 fs + Suc j)" by (simp add: c_def)
  have uc1: "unat (c + 1) = root0 fs + Suc j"
    unfolding c1 using less.prems(1) assms(2) by (intro unat_of_nat_u16) (simp add: data0_def)
  have lim: "unat (root_directory_region_start (calculate_regions fs) + root_directory_region_size (calculate_regions fs))
      = data0 fs"
    using regions_nat [OF ok(1,2)] assms(2) by (simp add: unat_word_ariths data0_def)
  show ?case
  proof (cases "look (dev ! (root0 fs + j))")
    case (Some i)
    have "List.find (\<lambda>i. look (dev ! (root0 fs + i)) \<noteq> None) [0..<Suc (root_len fs)] = Some j"
      using Some less.prems by (simp add: find_upt_least del: upt_Suc)
    then show ?thesis
      using Some rd ok(1) unfolding c_def [symmetric] by (subst root_search.simps) (simp add: c_def)
  next
    case None
    show ?thesis
    proof (cases "j = root_len fs")
      case True
      have "List.find (\<lambda>i. look (dev ! (root0 fs + i)) \<noteq> None) [0..<Suc (root_len fs)] = None"
        using None less.prems True by (auto simp: find_None_iff less_Suc_eq)
      moreover have "root_directory_region_start (calculate_regions fs) + root_directory_region_size (calculate_regions fs)
          < ucast (c + 1)"
        using lim uc1 True by (simp add: word_less_nat_alt data0_def)
      ultimately show ?thesis
        using None rd ok(1) unfolding c_def [symmetric] by (subst root_search.simps) simp
    next
      case False
      have "\<not> root_directory_region_start (calculate_regions fs) + root_directory_region_size (calculate_regions fs)
          < ucast (c + 1)"
        using lim uc1 False less.prems(1) by (simp add: word_less_nat_alt data0_def)
      then have "root_search dev fs look c = root_search dev fs look (of_nat (root0 fs + Suc j))"
        using None rd ok(1) unfolding c1 [symmetric] by (subst root_search.simps) simp
      moreover have "\<forall>i < Suc j. look (dev ! (root0 fs + i)) = None" using None less.prems(2) by (simp add: less_Suc_eq)
      ultimately show ?thesis
        using less.hyps [of "Suc j"] False less.prems(1) by (simp add: c_def)
    qed
  qed
qed

text \<open>
  \<^verbatim>\<open>add_root_directory_entry\<close>, exactly.  It stores the entry in the first free slot of the first
  sector that has one, among the sectors of the root directory \<^emph>\<open>and the first sector of the
  data region\<close>: with a full root directory it overwrites the beginning of cluster 2 when
  that begins like a free slot, and reports -1 only if it does not.
\<close>

lemma add_root_entry_slot:
  assumes "fs_ok dev fs" "data0 fs < 65535" "data0 fs < length dev"
  shows "add_root_directory_entry dev fs e =
    (let free = (\<lambda>i. find_first_free_space_in_root_directory_sector fs (dev ! (root0 fs + i)))
     in case List.find (\<lambda>i. free i \<noteq> None) [0..<Suc (root_len fs)] of
          None \<Rightarrow> Some (- 1, dev)
        | Some i \<Rightarrow> Some (0, dev[root0 fs + i :=
            store_entry (new_first_char e) (the (free i)) e (dev ! (root0 fs + i))]))"
proof -
  note ok = fs_okD [OF assms(1)]
  let ?free = "\<lambda>i. find_first_free_space_in_root_directory_sector fs (dev ! (root0 fs + i))"
  have r: "ucast (root_directory_region_start (calculate_regions fs)) = (of_nat (root0 fs + 0) :: u16)"
    using regions_nat(2) [OF ok(1,2)] by (metis add.right_neutral of_nat_unat)
  note s = root_search_from [OF assms, of 0 "find_first_free_space_in_root_directory_sector fs", simplified, folded r [simplified]]
  show ?thesis
  proof (cases "List.find (\<lambda>i. ?free i \<noteq> None) [0..<Suc (root_len fs)]")
    case None
    then show ?thesis using s by (simp add: add_root_directory_entry_def Let_def)
  next
    case (Some i)
    then have "i \<le> root_len fs" by (simp add: find_upt_least del: upt_Suc)
    then have i: "root0 fs + i < 65536" "root0 fs + i < length dev"
      using assms(2,3) by (simp_all add: data0_def)
    define c where "c = (of_nat (root0 fs + i) :: u16)"
    have "unat c = root0 fs + i" unfolding c_def by (rule unat_of_nat_u16 [OF i(1)])
    then have "fs_wr dev (ucast c) (store_entry (new_first_char e) k e (dev ! (root0 fs + i)))
        = Some (dev[root0 fs + i := store_entry (new_first_char e) k e (dev ! (root0 fs + i))])" for k
      using i(2) by (simp add: fs_wr_def)
    then show ?thesis using s Some by (simp add: add_root_directory_entry_def Let_def c_def)
  qed
qed

lemma add_root_entry_slot_witness:
  "\<exists>dev'. add_root_directory_entry (demo_dev[3 := replicate 512 0]) demo_fs demo_entry = Some (0, dev')
     \<and> dev' ! 3 = store_entry (new_first_char demo_entry) 0 demo_entry (replicate 512 0) \<and> dev' ! 2 = demo_dev ! 2"
proof -
  let ?dev = "demo_dev[3 := replicate 512 0]"
  have ok: "fs_ok ?dev demo_fs" "data0 demo_fs < length ?dev"
    unfolding fs_ok_def demo_layout by (simp_all add: demo_dev_def demo_fat_def demo_fs_def)
  have f: "find_first_free_space_in_root_directory_sector demo_fs (?dev ! 2) = None"
      "find_first_free_space_in_root_directory_sector demo_fs (?dev ! 3) = Some 0"
    unfolding find_first_free_space_in_root_directory_sector_def
    by (simp_all add: demo_dev_def demo_fs_def find_None_iff upt_conv_Cons)
  have "[0..<Suc (root_len demo_fs)] = [0, 1]" by (simp add: demo_layout)
  then show ?thesis
    using add_root_entry_slot [OF ok(1) _ ok(2), of demo_entry] f
    by (simp add: demo_layout Let_def) (simp add: demo_dev_def)
qed

end
