(* ===== verification/Paths.thy ===== *)
theory Paths
  imports FileSystem
begin

text \<open>
  Paths in \<^verbatim>\<open>os/src/kernel/file.c\<close>: splitting a path into its parts and a name into the 8.3 form,
  and the search for a file or directory from a directory listing down.

  Shown: the parts of a path joined by slashes are the path again and fit the array that is
  allocated for them; a path is its directory, a slash and its file name; short names split
  at the dot, while a full name of eight characters runs into its extension; and the search
  along a path of several parts leads where its parts lead one after the other.
\<close>

section \<open>Splitting\<close>

record fat16_file_path_t =
  parts :: "cstr list option"
  num_parts :: nat

record fat16_file_name_t =
  name :: cstr
  ext :: cstr

text \<open>A pointer behind a leading slash.\<close>

definition skip_slash :: "cstr \<Rightarrow> cstr" where
  "skip_slash pathname = (if char_at pathname 0 = 47 then drop 1 pathname else pathname)"

text \<open>The inner loop of \<^verbatim>\<open>split_path\<close> and the loop of \<^verbatim>\<open>descend_path\<close>: the length of the first part.\<close>

definition part_length :: "cstr \<Rightarrow> nat" where
  "part_length pathname = scan_loop (\<lambda>c. c \<noteq> 47) pathname 0"

text \<open>The outer loop of \<^verbatim>\<open>split_path\<close> from \<^verbatim>\<open>&pathname[i]\<close> on.\<close>

function split_loop :: "cstr \<Rightarrow> cstr list" where
  "split_loop pathname =
     (let j = part_length pathname;
          part = take j pathname @ [0]
      in if char_at pathname j = 0 then [part]
         else part # split_loop (drop (j + 1) pathname))"
  by pat_completeness auto
termination
  by (relation "measure length") (auto simp: char_at_def split: if_splits)

definition split_path :: "cstr \<Rightarrow> fat16_file_path_t" where
  "split_path pathname =
     (let p = skip_slash pathname
      in if char_at p 1 = 0 then \<lparr>parts = None, num_parts = 0\<rparr>
         else \<lparr>parts = Some (split_loop p),
               num_parts = 1 + length (filter (\<lambda>i. char_at p i = 47) [0..<stdstring_length p])\<rparr>)"

definition descend_path :: "cstr \<Rightarrow> cstr" where
  "descend_path pathname = (let p = skip_slash pathname in drop (part_length p) p)"

text \<open>The scan for the last slash in \<^verbatim>\<open>to_directory\<close> and \<^verbatim>\<open>to_filename\<close>: its position and the length.\<close>

function last_slash_loop :: "cstr \<Rightarrow> nat \<Rightarrow> nat \<Rightarrow> nat \<times> nat" where
  "last_slash_loop pathname last_slash_pos i =
     (if char_at pathname i \<noteq> 0
      then last_slash_loop pathname (if char_at pathname i = 47 then i else last_slash_pos) (Suc i)
      else (last_slash_pos, i))"
  by pat_completeness auto
termination
  by (relation "measure (\<lambda>(p, l, i). length p - i)") (auto simp: char_at_def split: if_splits)

definition to_directory :: "cstr \<Rightarrow> cstr" where
  "to_directory pathname =
     (let (last_slash_pos, _) = last_slash_loop pathname 0 0
      in (map (char_at pathname) [0..<last_slash_pos + 1])[last_slash_pos := 0])"

definition to_filename :: "cstr \<Rightarrow> cstr" where
  "to_filename pathname =
     (let (last_slash_pos, i) = last_slash_loop pathname 0 0
      in map (\<lambda>k. char_at pathname (last_slash_pos + 1 + k)) [0..<i - last_slash_pos])"

text \<open>
  \<^verbatim>\<open>split_filename\<close> allocates 8 bytes for the name and 3 for the extension, one behind the other,
  and writes up to two bytes behind them.  The block of 13 bytes holds zeros: the
  allocator only moves the break up and \<^verbatim>\<open>stdmem_free\<close> does nothing, so a block is memory that was never handed out
  before; the only bytes this code writes behind its blocks are zeros; and memory is zero at power-on.
\<close>

fun name_loop :: "cstr \<Rightarrow> nat \<Rightarrow> nat \<Rightarrow> u8 list \<Rightarrow> nat \<times> u8 list" where
  "name_loop fname i 0 buf = (i, buf)"
| "name_loop fname i (Suc left) buf =
     (if char_at fname i \<noteq> 46 \<and> char_at fname i \<noteq> 0
      then name_loop fname (Suc i) left (buf[i := char_at fname i])
      else (i, buf))"

fun extension_loop :: "cstr \<Rightarrow> nat \<Rightarrow> nat \<Rightarrow> nat \<Rightarrow> u8 list \<Rightarrow> nat \<times> u8 list" where
  "extension_loop fname i j 0 buf = (j, buf)"
| "extension_loop fname i j (Suc left) buf =
     (if char_at fname (i + j) \<noteq> 0
      then extension_loop fname i (Suc j) left (buf[8 + j := char_at fname (i + j)])
      else (j, buf))"

definition split_filename :: "cstr \<Rightarrow> fat16_file_name_t" where
  "split_filename fname =
     (let (i, b1) = name_loop fname 0 8 (replicate 13 0);
          b2 = b1[i + 1 := 0];
          b3 = (if char_at fname i = 0 then b2[8 := 0]
                else let (j, b) = extension_loop fname (i + 1) 0 3 b2 in b[8 + j + 1 := 0])
      in \<lparr>name = b3, ext = drop 8 b3\<rparr>)"

section \<open>Lookup by path\<close>

text \<open>
  The bytes a directory listing leaves uninitialised (\<^verbatim>\<open>filename[8]\<close> and \<^verbatim>\<open>extension[3]\<close>; they are an argument of \<open>get_dir\<close>).
  The searches by path read them, on blocks that were never handed out before and hold zeros, as above.
\<close>

definition fresh_heap :: "nat \<Rightarrow> u8 \<times> u8" where
  "fresh_heap n = (0, 0)"

text \<open>A descent makes the path shorter, which ends the recursion of \<^verbatim>\<open>find_file\<close> and \<^verbatim>\<open>find_dir\<close>.\<close>

lemma part_length_eq: "part_length p = length (takeWhile (\<lambda>c. c \<noteq> 47) (cstring p))"
  by (simp add: part_length_def scan_loop_eq)

lemma char_at_skip_slash: "char_at p 0 \<noteq> 47 \<Longrightarrow> skip_slash p = p"
  by (simp add: skip_slash_def)

lemma num_parts_slash: "1 < num_parts (split_path p) \<Longrightarrow> cstring (skip_slash p) \<noteq> []"
  by (auto simp: split_path_def Let_def split: if_splits)

lemma descend_path_shorter: "1 < num_parts (split_path p) \<Longrightarrow> length (descend_path p) < length p"
proof -
  assume n: "1 < num_parts (split_path p)"
  show ?thesis
  proof (cases "char_at p 0 = 47")
    case True
    then have "length (skip_slash p) < length p" by (auto simp: skip_slash_def char_at_def split: if_splits)
    then show ?thesis by (simp add: descend_path_def Let_def)
  next
    case False
    then have s: "skip_slash p = p" by (rule char_at_skip_slash)
    then obtain c cs where p: "p = c # cs" "c \<noteq> 0"
      using num_parts_slash [OF n] by (cases p) (auto simp: cstring_def split: if_splits)
    then show ?thesis using s False by (simp add: descend_path_def Let_def part_length_eq cstring_def)
  qed
qed

text \<open>
  \<open>None\<close>: the code dereferences the NULL that \<^verbatim>\<open>split_path\<close> gives for a name of one character,
  or a listing fails.  \<open>Some None\<close>: the function returns NULL.
\<close>

definition same_name :: "fat16_file_name_t \<Rightarrow> fat16_dir_entry_t \<Rightarrow> bool" where
  "same_name fname e \<longleftrightarrow> stdstring_compare (name fname) (filename e) = 0
     \<and> stdstring_compare (ext fname) (extension e) = 0"

definition is_dir :: "fat16_dir_entry_t \<Rightarrow> bool" where
  "is_dir e \<longleftrightarrow> is_subdirectory (unpack_file_attributes (attributes e))"

function find_file :: "sectors \<Rightarrow> fat16_t \<Rightarrow> cstr \<Rightarrow> fat16_dir_entry_t list \<Rightarrow> fat16_dir_entry_t option option" where
  "find_file dev fs pathname dir =
     (case parts (split_path pathname) of
        None \<Rightarrow> None
      | Some ps \<Rightarrow>
          (let fname = split_filename (ps ! 0)
           in if 1 < num_parts (split_path pathname) then
                fold (\<lambda>dir_entry acc.
                    (case acc of
                       None \<Rightarrow> None
                     | Some result \<Rightarrow>
                         (if is_dir dir_entry \<and> same_name fname dir_entry
                          then (case get_dir fresh_heap dev fs dir_entry of
                                  None \<Rightarrow> None
                                | Some None \<Rightarrow> Some result
                                | Some (Some next_dir) \<Rightarrow> find_file dev fs (descend_path pathname) next_dir)
                          else Some result)))
                  dir (Some None)
              else Some (List.find (same_name fname) dir)))"
  by pat_completeness auto
termination
  by (relation "measure (\<lambda>(dev, fs, pathname, dir). length pathname)") (auto simp: descend_path_shorter)

declare find_file.simps [simp del]

function find_dir :: "sectors \<Rightarrow> fat16_t \<Rightarrow> cstr \<Rightarrow> fat16_dir_entry_t list \<Rightarrow> fat16_dir_entry_t option option" where
  "find_dir dev fs pathname dir =
     (case parts (split_path pathname) of
        None \<Rightarrow> Some None
      | Some ps \<Rightarrow>
          (if 1 < num_parts (split_path pathname) then
             fold (\<lambda>dir_entry acc.
                 (case acc of
                    None \<Rightarrow> None
                  | Some result \<Rightarrow>
                      (if is_dir dir_entry \<and> stdstring_compare (ps ! 0) (filename dir_entry) = 0
                       then (case get_dir fresh_heap dev fs dir_entry of
                               None \<Rightarrow> None
                             | Some None \<Rightarrow> Some result
                             | Some (Some next_dir) \<Rightarrow> find_dir dev fs (descend_path pathname) next_dir)
                       else Some result)))
               dir (Some None)
           else Some (List.find (\<lambda>e. is_dir e
                  \<and> stdstring_compare (name (split_filename (ps ! 0))) (filename e) = 0) dir)))"
  by pat_completeness auto
termination
  by (relation "measure (\<lambda>(dev, fs, pathname, dir). length pathname)") (auto simp: descend_path_shorter)

declare find_dir.simps [simp del]

declare split_loop.simps [simp del] last_slash_loop.simps [simp del]

section \<open>Parts\<close>

text \<open>Parts joined by slashes.\<close>

fun join_parts :: "u8 list list \<Rightarrow> u8 list" where
  "join_parts [] = []"
| "join_parts [x] = x"
| "join_parts (x # y # zs) = x @ 47 # join_parts (y # zs)"

lemma take_cstring: "i \<le> length (cstring s) \<Longrightarrow> take i s = take i (cstring s)"
proof (induction s arbitrary: i)
  case (Cons a s)
  then show ?case by (cases i) (auto simp: cstring_def split: if_splits)
qed (simp add: cstring_def)

lemma takeWhile_stops: "x \<in> set xs \<Longrightarrow> \<not> P x \<Longrightarrow> length (takeWhile P xs) < length xs"
  by (induction xs) auto

text \<open>One turn of the loop: the first part and what is behind it.\<close>

lemma part_facts:
  assumes "j = part_length p"
  shows "j \<le> length (cstring p)" "take j p = takeWhile (\<lambda>c. c \<noteq> 47) (cstring p)"
    "char_at p j = 0 \<longleftrightarrow> 47 \<notin> set (cstring p)"
    "47 \<in> set (cstring p) \<Longrightarrow> cstring p = take j p @ 47 # cstring (drop (j + 1) p)"
proof -
  have le: "j \<le> length (cstring p)" using assms by (simp add: part_length_eq length_takeWhile_le)
  show "j \<le> length (cstring p)" by (rule le)
  show t: "take j p = takeWhile (\<lambda>c. c \<noteq> 47) (cstring p)"
    using assms le by (simp add: take_cstring part_length_eq takeWhile_eq_take [symmetric])
  show z: "char_at p j = 0 \<longleftrightarrow> 47 \<notin> set (cstring p)"
  proof (cases "47 \<in> set (cstring p)")
    case True
    then have "j < length (cstring p)" using assms takeWhile_stops [of 47 "cstring p" "\<lambda>c. c \<noteq> 47"] by (simp add: part_length_eq)
    then show ?thesis using True char_at_nonzero_cstring by blast
  next
    case False
    then have e: "takeWhile (\<lambda>c. c \<noteq> 47) (cstring p) = cstring p" by (auto simp: takeWhile_eq_all_conv)
    show ?thesis using False unfolding assms part_length_eq e by simp
  qed
  assume s: "47 \<in> set (cstring p)"
  then have lt: "j < length (cstring p)" using assms takeWhile_stops [of 47 "cstring p" "\<lambda>c. c \<noteq> 47"] by (simp add: part_length_eq)
  have nth: "cstring p ! j = 47" using lt assms nth_length_takeWhile [of "\<lambda>c. c \<noteq> 47" "cstring p"] by (simp add: part_length_eq)
  have "cstring p = take j (cstring p) @ cstring p ! j # drop (Suc j) (cstring p)" using lt by (rule id_take_nth_drop)
  then show "cstring p = take j p @ 47 # cstring (drop (j + 1) p)"
    using lt nth by (simp add: take_cstring cstring_drop)
qed

lemma length_filter_slashes: "length (filter (\<lambda>i. char_at p i = 47) [0..<length (cstring p)]) = length (filter (\<lambda>c. c = 47) (cstring p))"
proof -
  have "filter (\<lambda>i. char_at p i = 47) [0..<length (cstring p)] = filter (\<lambda>i. cstring p ! i = 47) [0..<length (cstring p)]"
    by (intro filter_cong refl) (simp add: char_at_cstring)
  also have "length \<dots> = length (filter (\<lambda>c. c = 47) (map ((!) (cstring p)) [0..<length (cstring p)]))"
    by (simp add: filter_map o_def)
  finally show ?thesis by (simp add: map_nth)
qed

lemma split_loop_last: "47 \<notin> set (cstring p) \<Longrightarrow> split_loop p = [cstring p @ [0]]"
proof -
  assume n: "47 \<notin> set (cstring p)"
  then have "takeWhile (\<lambda>c. c \<noteq> 47) (cstring p) = cstring p" by (auto simp: takeWhile_eq_all_conv)
  then show ?thesis using part_facts(2,3) [OF refl, of p] n by (subst split_loop.simps) (simp add: Let_def)
qed

lemma split_loop_more:
  assumes "47 \<in> set (cstring p)"
  shows "split_loop p = (take (part_length p) p @ [0]) # split_loop (drop (part_length p + 1) p)"
  using part_facts(3) [OF refl, of p] assms by (subst split_loop.simps) (simp add: Let_def)

lemma first_part:
  "47 \<notin> set (take (part_length p) p)" "0 \<notin> set (take (part_length p) p)"
  "cstring (take (part_length p) p @ [0]) = take (part_length p) p"
proof -
  show a: "47 \<notin> set (take (part_length p) p)" and b: "0 \<notin> set (take (part_length p) p)"
    using part_facts(2) [OF refl, of p] zero_notin_cstring [of p] by (auto dest: set_takeWhileD)
  show "cstring (take (part_length p) p @ [0]) = take (part_length p) p"
    using b by (simp add: cstring_append_zero)
qed

lemma split_loop_nonempty: "split_loop p \<noteq> []"
  by (subst split_loop.simps) (simp add: Let_def)

lemma split_induct [case_names last more]:
  assumes "\<And>p. 47 \<notin> set (cstring p) \<Longrightarrow> P p"
    and "\<And>p. 47 \<in> set (cstring p) \<Longrightarrow> P (drop (part_length p + 1) p) \<Longrightarrow> P p"
  shows "P p"
proof (induction p rule: split_loop.induct)
  case (1 p)
  show ?case
  proof (cases "47 \<in> set (cstring p)")
    case True
    then have "P (drop (part_length p + 1) p)" using 1 part_facts(3) [OF refl, of p] by blast
    then show ?thesis using True assms(2) by blast
  qed (rule assms(1))
qed

lemma cstring_split: "47 \<in> set (cstring p) \<Longrightarrow> cstring p = take (part_length p) p @ 47 # cstring (drop (part_length p + 1) p)"
  by (rule part_facts(4) [OF refl])

lemma split_loop_length: "length (split_loop p) = 1 + length (filter (\<lambda>c. c = 47) (cstring p))"
proof (induction p rule: split_induct)
  case (last p)
  then show ?case by (auto simp: split_loop_last filter_empty_conv)
next
  case (more p)
  have "filter (\<lambda>c. c = 47) (take (part_length p) p) = []" using first_part(1) [of p] by (auto simp: filter_empty_conv)
  then have "length (filter (\<lambda>c. c = 47) (cstring p)) = 1 + length (filter (\<lambda>c. c = 47) (cstring (drop (part_length p + 1) p)))"
    by (subst cstring_split [OF more(1)]) simp
  then show ?case using more by (simp add: split_loop_more)
qed

lemma split_loop_join: "join_parts (map cstring (split_loop p)) = cstring p"
proof (induction p rule: split_induct)
  case (last p)
  then show ?case by (simp add: split_loop_last cstring_append_zero zero_notin_cstring)
next
  case (more p)
  obtain y ys where y: "split_loop (drop (part_length p + 1) p) = y # ys"
    using split_loop_nonempty by (cases "split_loop (drop (part_length p + 1) p)") auto
  have "join_parts (map cstring (split_loop p)) = take (part_length p) p @ 47 # join_parts (map cstring (y # ys))"
    by (simp add: split_loop_more [OF more(1)] first_part(3) y del: One_nat_def add_Suc_right)
  also have "\<dots> = cstring p" using more(2) unfolding y by (simp only: cstring_split [OF more(1), symmetric])
  finally show ?case .
qed

lemma split_loop_elems: "x \<in> set (split_loop p) \<Longrightarrow> 47 \<notin> set x \<and> length x = length (cstring x) + 1"
proof (induction p rule: split_induct)
  case (last p)
  then show ?case by (auto simp: split_loop_last cstring_append_zero zero_notin_cstring)
next
  case (more p)
  then show ?case using first_part [of p] by (auto simp: split_loop_more)
qed

section \<open>Directory and file name\<close>

lemma last_slash_loop_eq:
  assumes "i \<le> length (cstring p)"
  shows "last_slash_loop p l i =
    (if 47 \<in> set (drop i (cstring p))
     then length (cstring p) - 1 - length (takeWhile (\<lambda>c. c \<noteq> 47) (rev (cstring p))) else l, length (cstring p))"
  using assms
proof (induction "length (cstring p) - i" arbitrary: l i)
  case 0
  then have "i = length (cstring p)" by simp
  then show ?case by (simp add: last_slash_loop.simps)
next
  case (Suc n)
  then have i: "i < length (cstring p)" by simp
  let ?l = "if char_at p i = 47 then i else l"
  have d: "drop i (cstring p) = char_at p i # drop (Suc i) (cstring p)"
    using i by (simp add: Cons_nth_drop_Suc [symmetric] char_at_cstring)
  have step: "last_slash_loop p l i = last_slash_loop p ?l (Suc i)"
    using char_at_nonzero_cstring [OF i] by (subst last_slash_loop.simps) simp
  have ih: "last_slash_loop p ?l (Suc i) =
    (if 47 \<in> set (drop (Suc i) (cstring p))
     then length (cstring p) - 1 - length (takeWhile (\<lambda>c. c \<noteq> 47) (rev (cstring p))) else ?l, length (cstring p))"
    using Suc i by (intro Suc(1)) auto
  show ?case
  proof (cases "char_at p i = 47 \<and> 47 \<notin> set (drop (Suc i) (cstring p))")
    case True
    have "cstring p = take i (cstring p) @ 47 # drop (Suc i) (cstring p)"
      using i d True by (metis append_take_drop_id)
    then have "rev (cstring p) = rev (drop (Suc i) (cstring p)) @ 47 # rev (take i (cstring p))"
      by (metis rev.simps(2) rev_append append.assoc append_Cons append_Nil)
    moreover have "takeWhile (\<lambda>c. c \<noteq> 47) (rev (drop (Suc i) (cstring p)) @ 47 # rev (take i (cstring p)))
        = rev (drop (Suc i) (cstring p))"
      using True by (subst takeWhile_append2) auto
    ultimately have "takeWhile (\<lambda>c. c \<noteq> 47) (rev (cstring p)) = rev (drop (Suc i) (cstring p))" by simp
    then show ?thesis using True step ih d i by simp
  next
    case False
    then show ?thesis using step ih d by auto
  qed
qed

lemma last_slash:
  assumes "cstring p = a @ 47 # b" "47 \<notin> set b"
  shows "last_slash_loop p 0 0 = (length a, length a + 1 + length b)"
proof -
  have "takeWhile (\<lambda>c. c \<noteq> 47) (rev (cstring p)) = rev b"
    using assms by (simp, subst takeWhile_append2) auto
  then show ?thesis using assms by (simp add: last_slash_loop_eq)
qed

lemma no_slash: "47 \<notin> set (cstring p) \<Longrightarrow> last_slash_loop p 0 0 = (0, length (cstring p))"
  by (simp add: last_slash_loop_eq)

lemma chars_segment: "map (\<lambda>k. char_at p (i + k)) [0..<n] = map (char_at p) [i..<i + n]"
  by (rule nth_equalityI) auto

lemma chars_prefix: "n \<le> length (cstring p) \<Longrightarrow> map (char_at p) [0..<n] = take n (cstring p)"
  by (rule nth_equalityI) (auto simp: char_at_cstring)

lemma to_directory_slash:
  assumes "cstring p = a @ 47 # b" "47 \<notin> set b"
  shows "to_directory p = a @ [0]"
proof -
  have "map (char_at p) [0..<length a + 1] = take (length a + 1) (cstring p)"
    using assms by (intro chars_prefix) simp
  then show ?thesis
    using assms unfolding to_directory_def last_slash [OF assms] by (simp del: upt_Suc)
qed

lemma to_filename_slash:
  assumes "cstring p = a @ 47 # b" "47 \<notin> set b"
  shows "to_filename p = b @ [0]"
proof -
  have "char_at p (length a + 1 + k) = (b @ [0]) ! k" if "k < length b + 1" for k
    using that assms char_at_cstring [of "length a + 1 + k" p] char_at_length_cstring [of p]
    by (cases "k = length b") (auto simp: nth_append)
  then show ?thesis
    unfolding to_filename_def last_slash [OF assms] by (intro nth_equalityI) (auto simp del: upt_Suc)
qed

text \<open>Without a slash the first character is taken for one.\<close>

lemma no_slash_parts:
  assumes "47 \<notin> set (cstring p)" "cstring p \<noteq> []"
  shows "to_directory p = [0]" "to_filename p = tl (cstring p) @ [0]"
proof -
  show "to_directory p = [0]" unfolding to_directory_def no_slash [OF assms(1)] by simp
  have "char_at p (1 + k) = (tl (cstring p) @ [0]) ! k" if "k < length (cstring p)" for k
    using that char_at_cstring [of "1 + k" p] char_at_length_cstring [of p]
    by (cases "1 + k = length (cstring p)") (auto simp: nth_append nth_tl simp del: char_at_length_cstring)
  then show "to_filename p = tl (cstring p) @ [0]"
    using assms(2) unfolding to_filename_def no_slash [OF assms(1)] by (intro nth_equalityI) auto
qed

section \<open>Names of the form 8.3\<close>

lemma take_update_cons: "i < length buf \<Longrightarrow> take (Suc i) (buf[i := x]) = take i buf @ [x]"
  by (simp add: take_Suc_conv_app_nth)

lemma name_loop_run:
  assumes "\<And>k. k < length n \<Longrightarrow> char_at f (i + k) = n ! k" "46 \<notin> set n" "0 \<notin> set n"
    "length n \<le> left" "length n = left \<or> char_at f (i + length n) \<in> {0, 46}" "i + left \<le> length buf"
  shows "name_loop f i left buf = (i + length n, take i buf @ n @ drop (i + length n) buf)"
  using assms
proof (induction n arbitrary: i left buf)
  case Nil
  then show ?case by (cases left) auto
next
  case (Cons c n)
  then obtain l where l: "left = Suc l" by (cases left) auto
  have c: "char_at f i = c" using Cons.prems(1) [of 0] by simp
  have "name_loop f i left buf = name_loop f (Suc i) l (buf[i := c])"
    using Cons.prems(2,3) c l by simp
  also have "\<dots> = (Suc i + length n, take (Suc i) (buf[i := c]) @ n @ drop (Suc i + length n) (buf[i := c]))"
    using Cons.prems l Cons.prems(1) [of "Suc k" for k] by (intro Cons.IH) auto
  also have "take (Suc i) (buf[i := c]) = take i buf @ [c]"
    using Cons.prems(6) l by (intro take_update_cons) simp
  finally show ?case by simp
qed

lemma extension_loop_run:
  assumes "\<And>k. k < length e \<Longrightarrow> char_at f (i + j + k) = e ! k" "0 \<notin> set e"
    "length e \<le> left" "length e = left \<or> char_at f (i + j + length e) = 0" "8 + j + left \<le> length buf"
  shows "extension_loop f i j left buf = (j + length e, take (8 + j) buf @ e @ drop (8 + j + length e) buf)"
  using assms
proof (induction e arbitrary: j left buf)
  case Nil
  then show ?case by (cases left) auto
next
  case (Cons c e)
  then obtain l where l: "left = Suc l" by (cases left) auto
  have c: "char_at f (i + j) = c" using Cons.prems(1) [of 0] by simp
  have "extension_loop f i j left buf = extension_loop f i (Suc j) l (buf[8 + j := c])"
    using Cons.prems(2) c l by simp
  also have "\<dots> = (Suc j + length e, take (8 + Suc j) (buf[8 + j := c]) @ e @ drop (8 + Suc j + length e) (buf[8 + j := c]))"
    using Cons.prems l Cons.prems(1) [of "Suc k" for k] by (intro Cons.IH) auto
  also have "take (8 + Suc j) (buf[8 + j := c]) = take (8 + j) buf @ [c]"
    using Cons.prems(5) l take_update_cons [of "8 + j" buf c] by simp
  finally show ?case by (simp add: add.assoc)
qed

lemma ext_drop: "ext (split_filename f) = drop 8 (name (split_filename f))"
  by (simp add: split_filename_def Let_def case_prod_unfold)

text \<open>The block with a name of \<open>n\<close> and an extension of \<open>e\<close>, as the code leaves it.\<close>

lemma split_filename_ext:
  assumes "46 \<notin> set n" "0 \<notin> set n" "0 \<notin> set e" "length n \<le> 8" "length e \<le> 3"
    "length e = 3 \<or> char_at rest 0 = 0"
  shows "name (split_filename (n @ 46 # e @ rest)) = n @ replicate (8 - length n) 0 @ e @ replicate (5 - length e) 0"
    "ext (split_filename (n @ 46 # e @ rest)) = e @ replicate (5 - length e) 0"
proof -
  let ?f = "n @ 46 # e @ rest"
  have 1: "name_loop ?f 0 8 (replicate 13 0) = (length n, n @ replicate (13 - length n) 0)"
    using assms by (subst name_loop_run [where n = n]) (auto simp: char_at_def nth_append)
  have b2: "(n @ replicate (13 - length n) 0)[length n + 1 := 0] = n @ replicate (13 - length n) (0 :: u8)"
    using assms by (intro nth_equalityI) (auto simp: nth_append nth_list_update)
  have 2: "extension_loop ?f (length n + 1) 0 3 (n @ replicate (13 - length n) 0)
      = (length e, (n @ replicate (8 - length n) 0) @ e @ replicate (5 - length e) 0)"
    using assms by (subst extension_loop_run [where e = e])
      (auto simp: char_at_def nth_append nth_Cons' split: if_splits)
  have b3: "((n @ replicate (8 - length n) 0) @ e @ replicate (5 - length e) 0)[8 + length e + 1 := 0]
      = n @ replicate (8 - length n) 0 @ e @ replicate (5 - length e) (0 :: u8)"
    using assms by (intro nth_equalityI) (auto simp: nth_append nth_list_update)
  have d: "char_at ?f (length n) \<noteq> 0" by (simp add: char_at_def)
  show "name (split_filename ?f) = n @ replicate (8 - length n) 0 @ e @ replicate (5 - length e) 0"
    using d unfolding split_filename_def 1 Let_def prod.case b2 2 b3 by simp
  then have "drop 8 (name (split_filename ?f)) = e @ replicate (5 - length e) 0" using assms by simp
  then show "ext (split_filename ?f) = e @ replicate (5 - length e) 0"
    by (simp add: ext_drop)
qed

lemma split_filename_plain:
  assumes "46 \<notin> set n" "0 \<notin> set n" "length n \<le> 8" "char_at rest 0 = 0"
  shows "name (split_filename (n @ rest)) = n @ replicate (13 - length n) 0"
    "ext (split_filename (n @ rest)) = replicate 5 0"
proof -
  have 1: "name_loop (n @ rest) 0 8 (replicate 13 0) = (length n, n @ replicate (13 - length n) 0)"
    using assms by (subst name_loop_run [where n = n]) (auto simp: char_at_def nth_append split: if_splits)
  have b: "(n @ replicate (13 - length n) 0)[length n + 1 := 0, 8 := 0] = n @ replicate (13 - length n) (0 :: u8)"
    using assms by (intro nth_equalityI) (auto simp: nth_append nth_list_update)
  have d: "char_at (n @ rest) (length n) = 0" using assms by (auto simp: char_at_def nth_append split: if_splits)
  show "name (split_filename (n @ rest)) = n @ replicate (13 - length n) 0"
    using d unfolding split_filename_def 1 Let_def prod.case using b by simp
  then have "drop 8 (name (split_filename (n @ rest))) = replicate 5 0" using assms by simp
  then show "ext (split_filename (n @ rest)) = replicate 5 0"
    by (simp add: ext_drop)
qed

section \<open>Searching a listing\<close>

definition named :: "u8 list \<Rightarrow> u8 list \<Rightarrow> fat16_dir_entry_t \<Rightarrow> bool" where
  "named n e x \<longleftrightarrow> cstring (filename x) = n \<and> cstring (extension x) = e"

lemma cstring_pad: "0 \<notin> set n \<Longrightarrow> 0 < k \<Longrightarrow> cstring (n @ replicate k 0 @ t) = n"
  using cstring_append_zero by (cases k) auto

lemma cstring_pad_end: "0 \<notin> set n \<Longrightarrow> cstring (n @ replicate k 0) = n"
  using cstring_pad [of n k "[]"] cstring_id by (cases "k = 0") auto

lemma split_path_one:
  assumes "47 \<notin> set (cstring p)" "2 \<le> length (cstring p)"
  shows "parts (split_path p) = Some [cstring p @ [0]]" "num_parts (split_path p) = 1"
proof -
  have at: "char_at p i \<noteq> 47" if "i < length (cstring p)" for i
    using assms(1) that by (metis char_at_cstring nth_mem)
  have s: "skip_slash p = p" using assms(2) at by (intro char_at_skip_slash) (metis not_numeral_le_zero gr0I)
  have c: "char_at p 1 \<noteq> 0" using assms by (intro char_at_nonzero_cstring) simp
  have "filter (\<lambda>i. char_at p i = 47) [0..<length (cstring p)] = []"
    using at by (simp add: filter_empty_conv)
  then show "parts (split_path p) = Some [cstring p @ [0]]" "num_parts (split_path p) = 1"
    using s c assms(1) by (simp_all add: split_path_def Let_def split_loop_last)
qed

lemma same_name_ext:
  assumes "46 \<notin> set n" "0 \<notin> set n" "0 \<notin> set e" "length n \<le> 8" "length e \<le> 3"
  shows "same_name (split_filename (n @ 46 # e @ [0])) = named (if length n < 8 then n else n @ e) e"
proof -
  have "cstring (name (split_filename (n @ 46 # e @ [0]))) = (if length n < 8 then n else n @ e)"
  proof (cases "length n < 8")
    case True
    then show ?thesis using assms cstring_pad [of n "8 - length n"] by (simp add: split_filename_ext)
  next
    case False
    then show ?thesis using assms cstring_pad_end [of "n @ e"] by (simp add: split_filename_ext)
  qed
  moreover have "cstring (ext (split_filename (n @ 46 # e @ [0]))) = e"
    using assms by (simp add: split_filename_ext cstring_pad_end)
  ultimately show ?thesis by (auto simp: same_name_def named_def fun_eq_iff)
qed

lemma same_name_plain:
  assumes "46 \<notin> set n" "0 \<notin> set n" "length n \<le> 8"
  shows "same_name (split_filename (n @ [0])) = named n []"
proof -
  have "cstring (name (split_filename (n @ [0]))) = n" "cstring (ext (split_filename (n @ [0]))) = []"
    using assms cstring_pad_end [of n] cstring_pad_end [of "[]"] by (simp_all add: split_filename_plain)
  then show ?thesis by (auto simp: same_name_def named_def fun_eq_iff)
qed

lemma find_file_here:
  assumes "47 \<notin> set (cstring p)" "2 \<le> length (cstring p)"
  shows "find_file dev fs p dir = Some (List.find (same_name (split_filename (cstring p @ [0]))) dir)"
  using assms by (subst find_file.simps) (simp add: split_path_one)

lemma find_file_here_ext:
  assumes "cstring p = n @ 46 # e" "47 \<notin> set n" "47 \<notin> set e" "46 \<notin> set n" "length n \<le> 8" "length e \<le> 3" "n \<noteq> []"
  shows "find_file dev fs p dir = Some (List.find (named (if length n < 8 then n else n @ e) e) dir)"
proof -
  have "0 \<notin> set n" "0 \<notin> set e" using assms(1) zero_notin_cstring [of p] by auto
  moreover have "2 \<le> length (cstring p)" using assms(1,7) by (cases n) auto
  ultimately show ?thesis
    using assms find_file_here [of p dev fs dir] same_name_ext [of n e] by simp
qed

text \<open>The descent into the only directory of that name.\<close>

lemma fold_one_match:
  assumes "filter P xs = [x]" "\<And>y r. \<not> P y \<Longrightarrow> f y (Some r) = Some r" "\<And>r. f x (Some r) = v"
    "\<And>y. f y None = None"
  shows "fold f xs (Some r0) = v"
proof -
  have none: "fold f ys None = None" for ys using assms(4) by (induction ys) auto
  have skip: "fold f ys (Some r) = Some r" if "filter P ys = []" for ys r
    using that assms(2) by (induction ys) (auto split: if_splits)
  from assms(1) obtain ys zs where "xs = ys @ x # zs" "filter P ys = []" "filter P zs = []"
    by (metis filter_eq_ConsD filter_False)
  then show ?thesis using skip assms(3) none by (cases v) auto
qed

section \<open>Paths of several parts\<close>

text \<open>
  What a path means, without the code's pointers: all parts but the last name a directory of the listing
  reached so far, the last is looked for in the listing they lead to.  \<open>hit\<close> says which entries a part in
  the middle names, \<open>final\<close> which the last one does.  A directory that is missing ends the search.
\<close>

inductive leads :: "sectors \<Rightarrow> fat16_t \<Rightarrow> ('p \<Rightarrow> fat16_dir_entry_t \<Rightarrow> bool) \<Rightarrow> ('p \<Rightarrow> fat16_dir_entry_t \<Rightarrow> bool)
    \<Rightarrow> 'p list \<Rightarrow> fat16_dir_entry_t list \<Rightarrow> fat16_dir_entry_t option \<Rightarrow> bool" for dev fs hit final where
  here: "leads dev fs hit final [c] dir (List.find (final c) dir)"
| missing: "filter (hit c) dir = [] \<Longrightarrow> leads dev fs hit final (c # d # cs) dir None"
| down: "filter (hit c) dir = [e] \<Longrightarrow> get_dir fresh_heap dev fs e = Some (Some listing) \<Longrightarrow>
    leads dev fs hit final (d # cs) listing r \<Longrightarrow> leads dev fs hit final (c # d # cs) dir r"

text \<open>A part of a path to a file: a name and an extension, which may be empty.\<close>

definition part_text :: "u8 list \<times> u8 list \<Rightarrow> u8 list" where
  "part_text c = (if snd c = [] then fst c else fst c @ 46 # snd c)"

definition part_ok :: "u8 list \<times> u8 list \<Rightarrow> bool" where
  "part_ok c \<longleftrightarrow> fst c \<noteq> [] \<and> set (fst c) \<inter> {0, 46, 47} = {} \<and> set (snd c) \<inter> {0, 47} = {}
     \<and> length (snd c) \<le> 3 \<and> (length (fst c) < 8 \<or> length (fst c) = 8 \<and> snd c = [])"

lemma skip_slash_tail: "cstring p = 47 # r \<Longrightarrow> cstring (skip_slash p) = r"
  using char_at_cstring [of 0 p] by (cases p) (auto simp: skip_slash_def cstring_def split: if_splits)

lemma split_path_skip:
  assumes "char_at (skip_slash p) 0 \<noteq> 47"
  shows "split_path p = split_path (skip_slash p)"
  using char_at_skip_slash [OF assms] by (simp add: split_path_def)

lemma first_char_no_slash:
  assumes "cstring p = t @ r" "t \<noteq> []" "47 \<notin> set t"
  shows "char_at p 0 \<noteq> 47"
  using assms char_at_cstring [of 0 p] by (cases t) auto

text \<open>The first part of a path of several, and what \<^verbatim>\<open>descend_path\<close> leaves.\<close>

lemma path_first_part:
  assumes "cstring (skip_slash p) = t @ 47 # rest" "t \<noteq> []" "47 \<notin> set t"
  shows "\<exists>ps. parts (split_path p) = Some ps \<and> ps ! 0 = t @ [0] \<and> 1 < num_parts (split_path p)
    \<and> cstring (skip_slash (descend_path p)) = rest"
proof -
  define q where "q = skip_slash p"
  have c: "cstring q = t @ 47 # rest" using assms(1) by (simp add: q_def)
  have at: "char_at q 1 \<noteq> 0" using c assms(2) by (intro char_at_nonzero_cstring) (cases t; simp)
  have tw: "takeWhile (\<lambda>c. c \<noteq> 47) (cstring q) = t"
    unfolding c using assms(3) by (subst takeWhile_append2) auto
  then have t: "take (part_length q) q = t" using part_facts(2) [OF refl, of q] by simp
  have s: "47 \<in> set (cstring q)" using c by simp
  have "parts (split_path p) = Some (split_loop q)" "num_parts (split_path p) = length (split_loop q)"
    using at by (simp_all add: split_path_def Let_def q_def split_loop_length length_filter_slashes)
  moreover have "split_loop q ! 0 = t @ [0]" "1 < length (split_loop q)"
    using split_loop_more [OF s] t split_loop_nonempty by auto
  moreover have "cstring (descend_path p) = 47 # rest"
  proof -
    have "part_length q = length t" using tw by (simp add: part_length_eq)
    then show ?thesis using part_facts(1) [OF refl, of q] c by (simp add: descend_path_def Let_def cstring_drop flip: q_def)
  qed
  ultimately show ?thesis by (intro exI [of _ "split_loop q"]) (simp add: skip_slash_tail)
qed

lemma path_last_part:
  assumes "cstring (skip_slash p) = t" "47 \<notin> set t" "2 \<le> length t"
  shows "parts (split_path p) = Some [t @ [0]]" "num_parts (split_path p) = 1"
proof -
  have "char_at (skip_slash p) 0 \<noteq> 47" using first_char_no_slash [of "skip_slash p" t "[]"] assms by (cases t) auto
  then show "parts (split_path p) = Some [t @ [0]]" "num_parts (split_path p) = 1"
    using split_path_skip split_path_one [of "skip_slash p"] assms by simp_all
qed

lemma join_parts_Cons: "cs \<noteq> [] \<Longrightarrow> join_parts (x # cs) = x @ 47 # join_parts cs"
  by (cases cs) simp_all

lemma fold_no_match:
  assumes "filter P xs = []" "\<And>y r. \<not> P y \<Longrightarrow> f y (Some r) = Some r"
  shows "fold f xs (Some r) = Some r"
  using assms(1) by (induction xs) (auto simp: assms(2) split: if_splits)

lemma part_names:
  assumes "part_ok c"
  shows "same_name (split_filename (part_text c @ [0])) = named (fst c) (snd c)" "47 \<notin> set (part_text c)" "part_text c \<noteq> []"
  using assms same_name_ext [of "fst c" "snd c"] same_name_plain [of "fst c"] by (auto simp: part_ok_def part_text_def)

lemma find_file_leads:
  assumes "leads dev fs (\<lambda>c e. is_dir e \<and> named (fst c) (snd c) e) (\<lambda>c. named (fst c) (snd c)) cs dir r"
    "\<forall>c \<in> set cs. part_ok c" "2 \<le> length (part_text (last cs))" "cstring (skip_slash p) = join_parts (map part_text cs)"
  shows "find_file dev fs p dir = Some r"
  using assms
proof (induction arbitrary: p)
  case (here c dir)
  then show ?case using part_names [of c] path_last_part [of p "part_text c"] by (subst find_file.simps) simp
next
  case (missing c dir d cs)
  have ok: "part_ok c" and j: "cstring (skip_slash p) = part_text c @ 47 # join_parts (map part_text (d # cs))"
    using missing.prems by (simp_all add: join_parts_Cons)
  obtain ps where ps: "parts (split_path p) = Some ps" "ps ! 0 = part_text c @ [0]" "1 < num_parts (split_path p)"
    using path_first_part [OF j] part_names [OF ok] by blast
  then show ?case
    using missing.hyps part_names(1) [OF ok] by (subst find_file.simps) (auto simp: Let_def intro!: fold_no_match [OF missing.hyps] split: if_splits)
next
  case (down c dir e listing d cs r)
  have ok: "part_ok c" and j: "cstring (skip_slash p) = part_text c @ 47 # join_parts (map part_text (d # cs))"
    using down.prems by (simp_all add: join_parts_Cons)
  obtain ps where ps: "parts (split_path p) = Some ps" "ps ! 0 = part_text c @ [0]" "1 < num_parts (split_path p)"
      "cstring (skip_slash (descend_path p)) = join_parts (map part_text (d # cs))"
    using path_first_part [OF j] part_names [OF ok] by blast
  have ih: "find_file dev fs (descend_path p) listing = Some r" using down.IH [OF _ _ ps(4)] down.prems by simp
  have "e \<in> set (filter (\<lambda>e. is_dir e \<and> named (fst c) (snd c) e) dir)" unfolding down.hyps(1) by simp
  then show ?case
    using ps(1-3) ih down.hyps(2) part_names(1) [OF ok]
    by (subst find_file.simps) (auto simp: Let_def intro!: fold_one_match [OF down.hyps(1)] split: if_splits)
qed

lemma find_dir_leads:
  assumes "leads dev fs (\<lambda>c e. is_dir e \<and> cstring (filename e) = c) (\<lambda>c e. is_dir e \<and> cstring (filename e) = c) cs dir r"
    "\<forall>c \<in> set cs. part_ok (c, [])" "2 \<le> length (last cs)" "cstring (skip_slash p) = join_parts cs"
  shows "find_dir dev fs p dir = Some r"
  using assms
proof (induction arbitrary: p)
  case (here c dir)
  then have "c \<noteq> []" "0 \<notin> set c" "46 \<notin> set c" "length c \<le> 8" "47 \<notin> set c" by (auto simp: part_ok_def)
  then have "cstring (name (split_filename (c @ [0]))) = c" using cstring_pad_end [of c] by (simp add: split_filename_plain)
  then show ?case
    using here \<open>47 \<notin> set c\<close> path_last_part [of p c] by (subst find_dir.simps) (auto simp: eq_commute [of c])
next
  case (missing c dir d cs)
  have c: "c \<noteq> []" "0 \<notin> set c" "47 \<notin> set c" and j: "cstring (skip_slash p) = c @ 47 # join_parts (d # cs)"
    using missing.prems by (auto simp: join_parts_Cons part_ok_def)
  obtain ps where ps: "parts (split_path p) = Some ps" "ps ! 0 = c @ [0]" "1 < num_parts (split_path p)"
    using path_first_part [OF j c(1,3)] by blast
  then show ?case
    using missing.hyps c by (subst find_dir.simps) (auto simp: Let_def cstring_append_zero eq_commute [of c] intro!: fold_no_match [OF missing.hyps] split: if_splits)
next
  case (down c dir e listing d cs r)
  have c: "c \<noteq> []" "0 \<notin> set c" "47 \<notin> set c" and j: "cstring (skip_slash p) = c @ 47 # join_parts (d # cs)"
    using down.prems by (auto simp: join_parts_Cons part_ok_def)
  obtain ps where ps: "parts (split_path p) = Some ps" "ps ! 0 = c @ [0]" "1 < num_parts (split_path p)"
      "cstring (skip_slash (descend_path p)) = join_parts (d # cs)"
    using path_first_part [OF j c(1,3)] by blast
  have ih: "find_dir dev fs (descend_path p) listing = Some r" using down.IH [OF _ _ ps(4)] down.prems by simp
  have "e \<in> set (filter (\<lambda>e. is_dir e \<and> cstring (filename e) = c) dir)" unfolding down.hyps(1) by simp
  then show ?case
    using ps(1-3) ih down.hyps(2) c
    by (subst find_dir.simps) (auto simp: cstring_append_zero intro!: fold_one_match [OF down.hyps(1)] split: if_splits)
qed

section \<open>A disk with a directory\<close>

definition demo_slot :: "string \<Rightarrow> u8 \<Rightarrow> u8 \<Rightarrow> u8 list" where
  "demo_slot s attrs first = lit s @ [attrs] @ replicate 14 0 @ [first, 0, 5, 0, 0, 0]"

definition tree_dev :: sectors where
  "tree_dev = [replicate 512 0, [0xF8, 0xFF, 0xFF, 0xFF, 0xFF, 0xFF, 0xFF, 0xFF] @ replicate 504 0,
     demo_slot ''AB         '' 0x10 2 @ replicate 480 0,
     demo_slot ''LOG     TXT'' 0x20 3 @ replicate 480 0, replicate 512 8, replicate 512 0]"

section \<open>Properties\<close>

text \<open>
  \<^verbatim>\<open>split_path\<close> takes a path of at least two characters (behind a leading slash) apart
  without loss: the parts joined by slashes are the path, none holds a slash, each fits the
  block allocated for it, and there are exactly as many as the array \<^verbatim>\<open>parts\<close> was allocated for.
  \<^verbatim>\<open>descend_path\<close> then points at the slash in front of the remaining parts.
\<close>

lemma split_path_joins:
  assumes "2 \<le> length (cstring (skip_slash p))"
  shows "\<exists>ps. parts (split_path p) = Some ps \<and> num_parts (split_path p) = length ps
    \<and> join_parts (map cstring ps) = cstring (skip_slash p)
    \<and> (\<forall>x \<in> set ps. 47 \<notin> set x \<and> length x = length (cstring x) + 1)
    \<and> (1 < length ps \<longrightarrow> cstring (descend_path p) = 47 # join_parts (map cstring (tl ps)))"
proof -
  define q where "q = skip_slash p"
  have c: "char_at q 1 \<noteq> 0" using assms by (intro char_at_nonzero_cstring) (simp add: q_def)
  then have "parts (split_path p) = Some (split_loop q)" "num_parts (split_path p) = length (split_loop q)"
    by (simp_all add: split_path_def Let_def q_def split_loop_length length_filter_slashes)
  moreover have "cstring (descend_path p) = 47 # join_parts (map cstring (tl (split_loop q)))"
    if "1 < length (split_loop q)"
  proof -
    have s: "47 \<in> set (cstring q)" using that split_loop_length [of q] by (auto simp: filter_empty_conv)
    have "length (take (part_length q) q) = part_length q"
      using part_facts(1) [OF refl, of q] length_cstring_le [of q] by simp
    then have "drop (part_length q) (cstring q) = 47 # cstring (drop (part_length q + 1) q)"
      by (subst cstring_split [OF s]) (metis append_eq_conv_conj)
    then have "cstring (drop (part_length q) q) = 47 # cstring (drop (part_length q + 1) q)"
      using part_facts(1) [OF refl, of q] by (simp add: cstring_drop)
    then show ?thesis
      using split_loop_more [OF s] by (simp add: descend_path_def Let_def split_loop_join flip: q_def)
  qed
  ultimately show ?thesis
    using split_loop_join [of q] split_loop_elems [of _ q] by (auto simp: q_def)
qed

lemma split_path_joins_witness:
  "\<exists>ps. parts (split_path (lit ''/AB/LOG'')) = Some ps \<and> num_parts (split_path (lit ''/AB/LOG'')) = length ps
    \<and> join_parts (map cstring ps) = lit ''AB/LOG''"
proof -
  have c: "cstring (skip_slash (lit ''/AB/LOG'')) = lit ''AB/LOG''" by code_simp
  then have "2 \<le> length (cstring (skip_slash (lit ''/AB/LOG'')))" by (simp add: lit_def)
  from split_path_joins [OF this] c show ?thesis by metis
qed

text \<open>
  A path is its directory, a slash and its file name: \<^verbatim>\<open>to_directory\<close> and \<^verbatim>\<open>to_filename\<close> cut it
  at its last slash.  A path without a slash is cut behind its first character instead: the
  directory is empty and the file name has lost its first character.
\<close>

lemma path_cut_at_last_slash:
  "(\<forall>a b. cstring p = a @ 47 # b \<and> 47 \<notin> set b \<longrightarrow>
      cstring (to_directory p) = a \<and> cstring (to_filename p) = b)
   \<and> (47 \<notin> set (cstring p) \<and> cstring p \<noteq> [] \<longrightarrow>
      cstring (to_directory p) = [] \<and> cstring (to_filename p) = tl (cstring p))"
proof (intro conjI allI impI; elim conjE)
  fix a b assume ab: "cstring p = a @ 47 # b" "47 \<notin> set b"
  have "0 \<notin> set a" "0 \<notin> set b" using ab(1) zero_notin_cstring [of p] by auto
  then show "cstring (to_directory p) = a" "cstring (to_filename p) = b"
    using ab by (simp_all add: to_directory_slash to_filename_slash cstring_append_zero)
next
  assume n: "47 \<notin> set (cstring p)" "cstring p \<noteq> []"
  have "0 \<notin> set (tl (cstring p))" using zero_notin_cstring [of p] by (meson list.set_sel(2) n(2))
  then show "cstring (to_directory p) = []" "cstring (to_filename p) = tl (cstring p)"
    using n by (simp_all add: no_slash_parts cstring_append_zero) (simp add: cstring_def)
qed

lemma path_cut_at_last_slash_witness:
  "cstring (to_directory (lit ''/AB/LOG.TXT'')) = lit ''/AB'' \<and> cstring (to_filename (lit ''/AB/LOG.TXT'')) = lit ''LOG.TXT''
   \<and> cstring (to_filename (lit ''LOG.TXT'')) = lit ''OG.TXT''"
proof -
  have 1: "cstring (lit ''/AB/LOG.TXT'') = lit ''/AB'' @ 47 # lit ''LOG.TXT'' \<and> 47 \<notin> set (lit ''LOG.TXT'')" by code_simp
  have 2: "47 \<notin> set (cstring (lit ''LOG.TXT'')) \<and> cstring (lit ''LOG.TXT'') \<noteq> []" by code_simp
  have 3: "tl (cstring (lit ''LOG.TXT'')) = lit ''OG.TXT''" by code_simp
  show ?thesis
    using path_cut_at_last_slash [of "lit ''/AB/LOG.TXT''"] path_cut_at_last_slash [of "lit ''LOG.TXT''"] 1 2 3 by metis
qed

text \<open>
  Looking up a name \<open>n.e\<close> of at most 8 and 3 characters in a listing gives the first entry with
  that name and extension.  A name of exactly eight characters is the exception: it is not
  terminated in front of its extension, and what is looked up is an entry whose name is the
  name and the extension together.
\<close>

lemma find_file_by_name:
  assumes "cstring p = n @ 46 # e" "n \<noteq> []" "length n \<le> 8" "length e \<le> 3"
    "46 \<notin> set n" "47 \<notin> set n" "47 \<notin> set e"
  shows "find_file dev fs p dir = Some (List.find
      (\<lambda>x. cstring (filename x) = (if length n < 8 then n else n @ e) \<and> cstring (extension x) = e) dir)"
  using find_file_here_ext [OF assms(1,6,7,5,3,4,2), of dev fs dir] unfolding named_def [abs_def] .

lemma find_file_by_name_witness:
  "find_file demo_dev demo_fs (lit ''LOG.TXT'') [parse_entry (0, 0) (lit ''LOG     TXT'' @ replicate 21 0) 0]
    = Some (Some (parse_entry (0, 0) (lit ''LOG     TXT'' @ replicate 21 0) 0))"
proof -
  have "cstring (lit ''LOG.TXT'') = lit ''LOG'' @ 46 # lit ''TXT''" by code_simp
  from find_file_by_name [OF this, of demo_dev demo_fs] show ?thesis by code_simp
qed

text \<open>
  C31: \<^verbatim>\<open>find_file\<close> resolves paths.  A path of any number of parts, with or without a leading slash, leads to the entry that its
  parts name one after the other: each part but the last to the listing of the directory of that name
  and extension, the last to the first entry of that name and extension; or to nothing, when a directory is
  missing or the last listing has no such entry.  (Parts are names of up to 8 characters, or of up to 7 with an extension of
  up to 3; the last has two characters or more; a directory on the way is the only one of its name.)
\<close>

theorem find_file_resolves_path:
  assumes "leads dev fs (\<lambda>(n, x) e. is_dir e \<and> cstring (filename e) = n \<and> cstring (extension e) = x)
      (\<lambda>(n, x) e. cstring (filename e) = n \<and> cstring (extension e) = x) cs dir r"
    "\<forall>c \<in> set cs. part_ok c" "2 \<le> length (part_text (last cs))"
    "cstring p = join_parts (map part_text cs) \<or> cstring p = 47 # join_parts (map part_text cs)"
  shows "find_file dev fs p dir = Some r"
proof -
  have cs: "cs \<noteq> []" using assms(1) by cases auto
  have "cstring (skip_slash p) = join_parts (map part_text cs)"
    using assms(4)
  proof
    assume p: "cstring p = join_parts (map part_text cs)"
    obtain c ds where c: "cs = c # ds" "part_ok c" using cs assms(2) by (cases cs) auto
    then have "\<exists>u. cstring p = part_text c @ u" using p by (cases ds) auto
    then have "char_at p 0 \<noteq> 47" using first_char_no_slash part_names(2,3) [OF c(2)] by blast
    then show ?thesis using p by (simp add: skip_slash_def)
  qed (rule skip_slash_tail)
  then show ?thesis
    using find_file_leads [of dev fs cs dir r p] assms(1-3) by (simp add: named_def [abs_def] case_prod_beta')
qed

text \<open>
  C32: \<^verbatim>\<open>find_dir\<close> resolves paths of directories in the same way, by their names alone.
\<close>

theorem find_dir_resolves_path:
  assumes "leads dev fs (\<lambda>n e. is_dir e \<and> cstring (filename e) = n) (\<lambda>n e. is_dir e \<and> cstring (filename e) = n) cs dir r"
    "\<forall>c \<in> set cs. part_ok (c, [])" "2 \<le> length (last cs)" "cstring p = join_parts cs \<or> cstring p = 47 # join_parts cs"
  shows "find_dir dev fs p dir = Some r"
proof -
  have cs: "cs \<noteq> []" using assms(1) by cases auto
  have "cstring (skip_slash p) = join_parts cs"
    using assms(4)
  proof
    assume p: "cstring p = join_parts cs"
    obtain c ds where c: "cs = c # ds" "c \<noteq> []" "47 \<notin> set c" using cs assms(2) by (cases cs) (auto simp: part_ok_def)
    then have "\<exists>u. cstring p = c @ u" using p by (cases ds) auto
    then have "char_at p 0 \<noteq> 47" using first_char_no_slash c(2,3) by blast
    then show ?thesis using p by (simp add: skip_slash_def)
  qed (rule skip_slash_tail)
  then show ?thesis using find_dir_leads [OF assms(1-3)] by blast
qed

theorem find_file_resolves_path_witness:
  "find_file tree_dev demo_fs (lit ''/AB/LOG.TXT'') [parse_entry (0, 0) (demo_slot ''AB         '' 0x10 2) 0]
    = Some (Some (parse_entry (0, 0) (demo_slot ''LOG     TXT'' 0x20 3) 0))"
proof -
  define ab log where "ab = parse_entry (0, 0) (demo_slot ''AB         '' 0x10 2) 0"
    and "log = parse_entry (0, 0) (demo_slot ''LOG     TXT'' 0x20 3) 0"
  let ?final = "\<lambda>(n, x) e. cstring (filename e) = n \<and> cstring (extension e) = x"
  let ?hit = "\<lambda>(n, x) e. is_dir e \<and> cstring (filename e) = n \<and> cstring (extension e) = x"
  have 1: "filter (?hit (lit ''AB'', [])) [ab] = [ab]" "List.find (?final (lit ''LOG'', lit ''TXT'')) [log] = Some log"
    unfolding ab_def log_def by code_simp+
  have 2: "get_dir fresh_heap tree_dev demo_fs ab = Some (Some [log])" unfolding ab_def log_def by code_simp
  have "leads tree_dev demo_fs ?hit ?final [(lit ''LOG'', lit ''TXT'')] [log] (Some log)"
    using leads.here [of tree_dev demo_fs ?hit ?final "(lit ''LOG'', lit ''TXT'')" "[log]"] unfolding 1(2) .
  then have l: "leads tree_dev demo_fs ?hit ?final [(lit ''AB'', []), (lit ''LOG'', lit ''TXT'')] [ab] (Some log)"
    using leads.down [of ?hit "(lit ''AB'', [])", OF 1(1) 2] by blast
  have c: "\<forall>c \<in> set [(lit ''AB'', []), (lit ''LOG'', lit ''TXT'')]. part_ok c"
      "2 \<le> length (part_text (last [(lit ''AB'', []), (lit ''LOG'', lit ''TXT'')]))"
      "cstring (lit ''/AB/LOG.TXT'') = 47 # join_parts (map part_text [(lit ''AB'', []), (lit ''LOG'', lit ''TXT'')])"
    by code_simp+
  show ?thesis using find_file_resolves_path [OF l c(1,2) disjI2 [OF c(3)]] unfolding ab_def log_def .
qed

theorem find_dir_resolves_path_witness:
  "find_dir tree_dev demo_fs (lit ''AB/CD'') [parse_entry (0, 0) (demo_slot ''AB         '' 0x10 2) 0] = Some None"
proof -
  define ab log where "ab = parse_entry (0, 0) (demo_slot ''AB         '' 0x10 2) 0"
    and "log = parse_entry (0, 0) (demo_slot ''LOG     TXT'' 0x20 3) 0"
  let ?hit = "\<lambda>n e. is_dir e \<and> cstring (filename e) = n"
  have 1: "filter (?hit (lit ''AB'')) [ab] = [ab]" "List.find (?hit (lit ''CD'')) [log] = None"
    unfolding ab_def log_def by code_simp+
  have 2: "get_dir fresh_heap tree_dev demo_fs ab = Some (Some [log])" unfolding ab_def log_def by code_simp
  have "leads tree_dev demo_fs ?hit ?hit [lit ''CD''] [log] None"
    using leads.here [of tree_dev demo_fs ?hit ?hit "lit ''CD''" "[log]"] unfolding 1(2) .
  then have l: "leads tree_dev demo_fs ?hit ?hit [lit ''AB'', lit ''CD''] [ab] None"
    using leads.down [of ?hit "lit ''AB''", OF 1(1) 2] by blast
  have c: "\<forall>c \<in> set [lit ''AB'', lit ''CD'']. part_ok (c, [])" "2 \<le> length (last [lit ''AB'', lit ''CD''])"
      "cstring (lit ''AB/CD'') = join_parts [lit ''AB'', lit ''CD'']"
    by code_simp+
  show ?thesis using find_dir_resolves_path [OF l c(1,2) disjI1 [OF c(3)]] unfolding ab_def .
qed

end
