(* ===== verification/Stdstream.thy ===== *)
theory Stdstream
  imports Tailq
begin

text \<open>
  The character buffers of \<^verbatim>\<open>mlibc/src/stdstream.c\<close>, used for the kernel's stdin and by
  the shell.  A buffer is a tail queue whose nodes carry one character each; the model
  is the pointer structure of theory \<open>Tailq\<close> with the \<^verbatim>\<open>c\<close> field of every node.  The
  node a push inserts is the block returned by \<^verbatim>\<open>stdmem_allocate\<close>, an argument here.

  Shown: a buffer is a FIFO of characters (\<open>stream_repr\<close>), no queue check can fail, and
  popping an empty buffer gives \<^verbatim>\<open>EOF\<close>.
\<close>

section \<open>Definitions\<close>

record 'a stream =
  stream_links :: "'a tailq"
  stream_c :: "'a \<Rightarrow> u8"

definition EOF :: u8 where
  "EOF = - 1"

definition stdstream_initialise_buffer :: "'a stream \<Rightarrow> 'a stream" where
  "stdstream_initialise_buffer head = head\<lparr>stream_links := TAILQ_INIT (stream_links head)\<rparr>"

definition stdstream_push_char :: "'a stream \<Rightarrow> 'a \<Rightarrow> u8 \<Rightarrow> 'a tailq_panic + 'a stream" where
  "stdstream_push_char stream chr c =
     (let s1 = stream\<lparr>stream_c := (stream_c stream)(chr := c)\<rparr> in
      case TAILQ_INSERT_TAIL (stream_links s1) chr of
        Inl p \<Rightarrow> Inl p
      | Inr q \<Rightarrow> Inr (s1\<lparr>stream_links := q\<rparr>))"

definition stdstream_pop_char :: "'a stream \<Rightarrow> 'a tailq_panic + (u8 \<times> 'a stream)" where
  "stdstream_pop_char stream =
     (if TAILQ_EMPTY (stream_links stream) then Inr (EOF, stream)
      else case TAILQ_FIRST (stream_links stream) of
        None \<Rightarrow> Inr (EOF, stream)
      | Some chr \<Rightarrow>
          (case TAILQ_REMOVE (stream_links stream) chr of
             Inl p \<Rightarrow> Inl p
           | Inr q \<Rightarrow> Inr (stream_c stream chr, stream\<lparr>stream_links := q\<rparr>)))"

text \<open>The characters a buffer holds, oldest first, and the nodes in use.\<close>

definition stream_repr :: "'a stream \<Rightarrow> 'a list \<Rightarrow> u8 list \<Rightarrow> bool" where
  "stream_repr s es cs \<longleftrightarrow> tailq_repr (stream_links s) es \<and> map (stream_c s) es = cs"

fun push_all :: "'a stream \<Rightarrow> ('a \<times> u8) list \<Rightarrow> 'a tailq_panic + 'a stream" where
  "push_all s [] = Inr s"
| "push_all s ((e, c) # ecs) =
     (case stdstream_push_char s e c of Inl p \<Rightarrow> Inl p | Inr s' \<Rightarrow> push_all s' ecs)"

fun pop_n :: "nat \<Rightarrow> 'a stream \<Rightarrow> 'a tailq_panic + (u8 list \<times> 'a stream)" where
  "pop_n 0 s = Inr ([], s)"
| "pop_n (Suc n) s =
     (case stdstream_pop_char s of
        Inl p \<Rightarrow> Inl p
      | Inr (c, s') \<Rightarrow>
          (case pop_n n s' of Inl p \<Rightarrow> Inl p | Inr (cs, s'') \<Rightarrow> Inr (c # cs, s'')))"

section \<open>One operation\<close>

lemma stream_repr_init: "stream_repr (stdstream_initialise_buffer s) [] []"
  by (simp add: stream_repr_def stdstream_initialise_buffer_def tq.repr_init)

lemma stream_push:
  assumes "stream_repr s es cs" "e \<notin> set es"
  shows "\<exists>s'. stdstream_push_char s e c = Inr s' \<and> stream_repr s' (es @ [e]) (cs @ [c])"
  using tq.insert_tail_values [of "stream_links s" es e "stream_c s" c] assms
  by (auto simp: stream_repr_def stdstream_push_char_def)

lemma stream_pop_empty:
  "stream_repr s es [] \<Longrightarrow> stdstream_pop_char s = Inr (EOF, s)"
  using tailq_repr_empty by (auto simp: stream_repr_def stdstream_pop_char_def)

lemma stream_pop:
  assumes "stream_repr s (e # es) (c # cs)"
  shows "\<exists>s'. stdstream_pop_char s = Inr (c, s') \<and> stream_repr s' es cs"
  using assms tq.remove_first [of "stream_links s" e es] tailq_repr_empty [of "stream_links s" "e # es"]
  by (auto simp: stream_repr_def stdstream_pop_char_def)

section \<open>Sequences of operations\<close>

lemma push_all_repr:
  assumes "stream_repr s es cs" "distinct (es @ map fst ecs)"
  shows "\<exists>s'. push_all s ecs = Inr s' \<and> stream_repr s' (es @ map fst ecs) (cs @ map snd ecs)"
  using assms
proof (induction ecs arbitrary: s es cs)
  case Nil
  then show ?case by simp
next
  case (Cons ec ecs)
  obtain e c where ec: "ec = (e, c)" by (cases ec)
  with Cons.prems stream_push [of s es cs e c]
  obtain s1 where "stdstream_push_char s e c = Inr s1" "stream_repr s1 (es @ [e]) (cs @ [c])"
    by auto
  with Cons.IH [of s1 "es @ [e]" "cs @ [c]"] Cons.prems(2) ec show ?case by simp
qed

lemma pop_n_repr:
  assumes "stream_repr s es cs"
  shows "\<exists>s' es'. pop_n n s = Inr (take n cs @ replicate (n - length cs) EOF, s')
    \<and> stream_repr s' es' (drop n cs)"
  using assms
proof (induction n arbitrary: s es cs)
  case 0
  then show ?case by auto
next
  case (Suc n)
  show ?case
  proof (cases cs)
    case Nil
    with Suc.prems have "stdstream_pop_char s = Inr (EOF, s)" by (simp add: stream_pop_empty)
    with Suc.IH [OF Suc.prems] Nil show ?thesis by auto
  next
    case (Cons c cs')
    then obtain e es' where "es = e # es'" using Suc.prems by (auto simp: stream_repr_def)
    with Cons Suc.prems stream_pop [of s e es' c cs']
    obtain s1 where s1: "stdstream_pop_char s = Inr (c, s1)" "stream_repr s1 es' cs'" by auto
    from Suc.IH [OF s1(2)] s1(1) Cons show ?thesis by auto
  qed
qed

section \<open>Properties\<close>

text \<open>
  A stream buffer is a FIFO.  Characters pushed into a freshly initialised buffer
  (each in a node of its own) are popped in the order they arrived, popping more than
  was pushed yields \<^verbatim>\<open>EOF\<close> for the excess, and no step panics.
\<close>

lemma stdstream_fifo:
  assumes "distinct (map fst ecs)"
  shows "\<exists>s s'. push_all (stdstream_initialise_buffer s0) ecs = Inr s
    \<and> pop_n n s = Inr (take n (map snd ecs) @ replicate (n - length ecs) EOF, s')"
proof -
  obtain s where s: "push_all (stdstream_initialise_buffer s0) ecs = Inr s"
    "stream_repr s (map fst ecs) (map snd ecs)"
    using push_all_repr [OF stream_repr_init, of ecs s0] assms by auto
  from pop_n_repr [OF s(2), of n] s(1) show ?thesis by auto
qed

lemma stdstream_fifo_witness:
  "\<exists>s s'. push_all (stdstream_initialise_buffer
        \<lparr>stream_links = three_node_queue, stream_c = (\<lambda>_. 0)\<rparr>) [(10, 108), (20, 115)] = Inr s
     \<and> pop_n 3 s = Inr ([108, 115, EOF], s')"
  using stdstream_fifo [of "[(10, 108), (20, 115)]"
      "\<lparr>stream_links = three_node_queue, stream_c = (\<lambda>_. 0)\<rparr>" 3]
  by (simp del: push_all.simps pop_n.simps)

end
