(* ===== verification/FileCalls.thy ===== *)
theory FileCalls
  imports Paths Stdstream
begin

text \<open>
  Open files and the file system calls of \<^verbatim>\<open>os/src/kernel/file.c\<close>.  \<open>files\<close> holds the globals of
  the file: the disk and its geometry, the list of open files (a tail queue), the counter of
  descriptors, the working directory and the queue of typed characters (theory \<open>Stdstream\<close>),
  and what went out on UART0.

  A path is a pointer into the memory of a process and an open file keeps that pointer, not a
  copy: the calls take the strings in memory at the time of the call (\<open>strings\<close>).  \<open>None\<close> is a
  call that does not return: a NULL pointer is dereferenced, a buffer overrun, or the disk
  refuses a block.
\<close>

unbundle bit_operations_syntax

section \<open>State\<close>

record open_file_t =
  fd :: filedesc_t
  directory_entry :: fat16_dir_entry_t
  path :: u32
  offset :: i32
  append_flag :: bool

record files =
  fdisk :: sectors
  ffs :: fat16_t
  open_files :: "open_file_t list"
  next_fd :: filedesc_t
  current_working_dir :: "u8 list"
  stdin_buffer :: "u8 list"
  uart_out :: "u8 list"

text \<open>The strings in the memory of the processes: the bytes from each address on.\<close>

type_synonym strings = "u32 \<Rightarrow> cstr"

section \<open>Open files\<close>

definition find_open_file :: "strings \<Rightarrow> u32 \<Rightarrow> files \<Rightarrow> open_file_t option" where
  "find_open_file um pathname s =
     List.find (\<lambda>f. stdstring_compare (um (path f)) (um pathname) = 0) (open_files s)"

definition find_open_file_by_fd :: "filedesc_t \<Rightarrow> files \<Rightarrow> open_file_t option" where
  "find_open_file_by_fd d s = List.find (\<lambda>f. fd f = d) (open_files s)"

text \<open>An assignment through the pointer to an open file.\<close>

definition modify_open_file :: "filedesc_t \<Rightarrow> (open_file_t \<Rightarrow> open_file_t) \<Rightarrow> files \<Rightarrow> files" where
  "modify_open_file d f s = s\<lparr>open_files := update_first (\<lambda>x. fd x = d) f (open_files s)\<rparr>"

definition get_next_filedesc :: "files \<Rightarrow> filedesc_t \<times> files" where
  "get_next_filedesc s = (next_fd s, s\<lparr>next_fd := next_fd s + 1\<rparr>)"

definition insert_open_file :: "fat16_dir_entry_t \<Rightarrow> u32 \<Rightarrow> files \<Rightarrow> open_file_t \<times> files" where
  "insert_open_file entry pathname s =
     (let (d, s1) = get_next_filedesc s;
          f = \<lparr>fd = d, directory_entry = entry, path = pathname, offset = 0, append_flag = False\<rparr>
      in (f, s1\<lparr>open_files := open_files s1 @ [f]\<rparr>))"

definition root_entry :: "fat16_t \<Rightarrow> fat16_dir_entry_t" where
  "root_entry fs = \<lparr>filename = 47 # replicate 8 0, extension = replicate 4 0, attributes = 0x10,
     first_cluster = 0,
     file_size_bytes = root_directory_region_size (calculate_regions fs) * ucast (bytes_per_sector fs)\<rparr>"

definition open_file :: "strings \<Rightarrow> u32 \<Rightarrow> files \<Rightarrow> (open_file_t option \<times> files) option" where
  "open_file um pathname s = do {
     root_dir \<leftarrow> get_root_dir fresh_heap (fdisk s) (ffs s);
     if char_at (um pathname) 0 \<noteq> 47 then Some (None, s)
     else if char_at (um pathname) 1 = 0
     then let (f, s1) = insert_open_file (root_entry (ffs s)) pathname s in Some (Some f, s1)
     else do {
       file \<leftarrow> find_file (fdisk s) (ffs s) (drop 1 (um pathname)) root_dir;
       (case file of
          None \<Rightarrow> Some (None, s)
        | Some e \<Rightarrow> let (f, s1) = insert_open_file e pathname s in Some (Some f, s1)) } }"

section \<open>Creating and updating directory entries\<close>

text \<open>The loops that copy a name of at most \<open>k\<close> characters and pad it with spaces.\<close>

definition pad_name :: "nat \<Rightarrow> cstr \<Rightarrow> u8 list" where
  "pad_name k s = (let w = cstring (take k s) in w @ replicate (k - length w) 0x20)"

definition new_entry :: "cstr \<Rightarrow> u8 \<Rightarrow> u16 \<Rightarrow> fat16_dir_entry_t" where
  "new_entry pathname attrs first =
     (let file = split_filename (to_filename pathname)
      in \<lparr>filename = pad_name 8 (name file) @ [0], extension = pad_name 3 (ext file) @ [0],
          attributes = attrs, first_cluster = first, file_size_bytes = 0\<rparr>)"

definition create_new_file :: "cstr \<Rightarrow> u8 \<Rightarrow> files \<Rightarrow> (i32 \<times> files) option" where
  "create_new_file pathname attrs s = do {
     first \<leftarrow> find_first_free_cluster (fdisk s) (ffs s);
     let new_file = new_entry pathname attrs first;
     root_dir \<leftarrow> get_root_dir fresh_heap (fdisk s) (ffs s);
     let dir_path = to_directory pathname;
     (r, dev) \<leftarrow>
       (if char_at dir_path 0 = 0 then add_root_directory_entry (fdisk s) (ffs s) new_file
        else do {
          dir \<leftarrow> find_dir (fdisk s) (ffs s) dir_path root_dir;
          (case dir of
             None \<Rightarrow> Some (- 1, fdisk s)
           | Some d \<Rightarrow> add_directory_entry (fdisk s) (ffs s) (first_cluster d) new_file) });
     if r \<noteq> 0 then Some (- 1, s\<lparr>fdisk := dev\<rparr>)
     else do {
       dev' \<leftarrow> set_successor_cluster dev (ffs s) (first_cluster new_file) 0xFFFF;
       Some (0, s\<lparr>fdisk := dev'\<rparr>) } }"

definition update_file_details ::
    "cstr \<Rightarrow> fat16_dir_entry_t \<Rightarrow> u8 list \<Rightarrow> u8 list \<Rightarrow> files \<Rightarrow> (i32 \<times> files) option" where
  "update_file_details pathname updated_entry old_filename old_extension s = do {
     root_dir \<leftarrow> get_root_dir fresh_heap (fdisk s) (ffs s);
     if char_at pathname 0 \<noteq> 47 then Some (- 1, s)
     else do {
       let stripped_pathname = drop 1 pathname;
       let dir_path = to_directory stripped_pathname;
       file \<leftarrow> find_file (fdisk s) (ffs s) stripped_pathname root_dir;
       if file = None then Some (- 1, s)
       else if char_at dir_path 0 = 0
       then do {
         (r, dev) \<leftarrow> update_root_directory_entry (fdisk s) (ffs s) updated_entry old_filename old_extension;
         Some (r, s\<lparr>fdisk := dev\<rparr>) }
       else do {
         dir \<leftarrow> find_dir (fdisk s) (ffs s) dir_path root_dir;
         (case dir of
            None \<Rightarrow> Some (- 1, s)
          | Some d \<Rightarrow> do {
              (r, dev) \<leftarrow> update_directory_entry (fdisk s) (ffs s) (first_cluster d) updated_entry
                             old_filename old_extension;
              Some (r, s\<lparr>fdisk := dev\<rparr>) }) } } }"

section \<open>The system calls\<close>

definition sys_open :: "strings \<Rightarrow> u32 \<Rightarrow> i32 \<Rightarrow> files \<Rightarrow> (filedesc_t \<times> files) option" where
  "sys_open um pathname flags s = do {
     (result, s1) \<leftarrow>
       (case find_open_file um pathname s of
          Some f \<Rightarrow> Some (Some f, s)
        | None \<Rightarrow> do {
            (opened, s1) \<leftarrow> open_file um pathname s;
            (case opened of
               Some f \<Rightarrow> Some (Some f, s1)
             | None \<Rightarrow>
                 if flags AND 1 \<noteq> 0
                 then do {
                   (r, s2) \<leftarrow> create_new_file (um pathname) 0x0 s1;
                   if r = - 1 then Some (None, s2) else open_file um pathname s2 }
                 else Some (None, s1)) });
     (case result of
        None \<Rightarrow> Some (- 1, s1)
      | Some f \<Rightarrow> Some (fd f, modify_open_file (fd f) (\<lambda>x. x\<lparr>append_flag := flags AND 2 \<noteq> 0\<rparr>) s1)) }"

text \<open>The update of the entry in \<^verbatim>\<open>sys_write\<close> when the file has grown to \<open>end\<close> bytes.\<close>

definition record_growth :: "strings \<Rightarrow> open_file_t \<Rightarrow> u32 \<Rightarrow> files \<Rightarrow> files option" where
  "record_growth um f new_end s =
     (if file_size_bytes (directory_entry f) < new_end
      then let e = (directory_entry f)\<lparr>file_size_bytes := new_end\<rparr>;
               s1 = modify_open_file (fd f) (\<lambda>x. x\<lparr>directory_entry := e\<rparr>) s
           in map_option snd (update_file_details (um (path f)) e (filename e) (extension e) s1)
      else Some s)"

definition sys_write :: "strings \<Rightarrow> filedesc_t \<Rightarrow> u8 list \<Rightarrow> files \<Rightarrow> (i32 \<times> files) option" where
  "sys_write um d buf s =
     (if d = 1 then Some (of_nat (length buf), s\<lparr>uart_out := uart_out s @ buf\<rparr>)
      else
        (case find_open_file_by_fd d s of
           None \<Rightarrow> Some (- 1, s)
         | Some f \<Rightarrow>
             if is_dir (directory_entry f) then Some (- 1, s)
             else do {
               let off = (if append_flag f then file_size_bytes (directory_entry f) else offset f);
               let s1 = modify_open_file d (\<lambda>x. x\<lparr>offset := off\<rparr>) s;
               (k, dev) \<leftarrow> write_to_file (fdisk s1) (ffs s1) (directory_entry f) off buf;
               let num_bytes_written = (of_nat k :: i32);
               let s2 = s1\<lparr>fdisk := dev\<rparr>;
               if sint num_bytes_written < 0 then Some (- 1, s2)
               else do {
                 s3 \<leftarrow> record_growth um f (off + num_bytes_written) s2;
                 Some (num_bytes_written,
                   modify_open_file d (\<lambda>x. x\<lparr>offset := off + num_bytes_written\<rparr>) s3) } }))"

text \<open>\<^verbatim>\<open>sys_read\<close>: the result, the bytes stored in the buffer, and the state.\<close>

fun pop_chars :: "nat \<Rightarrow> u8 list \<Rightarrow> u8 list \<times> u8 list" where
  "pop_chars 0 q = ([], q)"
| "pop_chars (Suc n) [] = (let (cs, q') = pop_chars n [] in (EOF # cs, q'))"
| "pop_chars (Suc n) (c # q) = (let (cs, q') = pop_chars n q in (c # cs, q'))"

definition sys_read :: "filedesc_t \<Rightarrow> u32 \<Rightarrow> files \<Rightarrow> (i32 \<times> u8 list \<times> files) option" where
  "sys_read d nbytes s =
     (if d = 0
      then let (cs, q) = pop_chars (unat nbytes) (stdin_buffer s)
           in Some (nbytes, cs, s\<lparr>stdin_buffer := q\<rparr>)
      else
        (case find_open_file_by_fd d s of
           None \<Rightarrow> Some (- 1, [], s)
         | Some f \<Rightarrow>
             if first_cluster (directory_entry f) < 2 then Some (- 1, [], s)
             else do {
               bs \<leftarrow> read_from_file (fdisk s) (ffs s) (directory_entry f) (offset f) nbytes;
               let num_bytes_read = (of_nat (length bs) :: i32);
               if sint num_bytes_read < 0 then Some (- 1, bs, s)
               else Some (num_bytes_read, bs,
                      modify_open_file d (\<lambda>x. x\<lparr>offset := offset x + num_bytes_read\<rparr>) s) }))"

fun remove_first :: "('a \<Rightarrow> bool) \<Rightarrow> 'a list \<Rightarrow> 'a list" where
  "remove_first P [] = []"
| "remove_first P (x # xs) = (if P x then xs else x # remove_first P xs)"

definition sys_close :: "filedesc_t \<Rightarrow> files \<Rightarrow> i32 \<times> files" where
  "sys_close d s =
     (case find_open_file_by_fd d s of
        None \<Rightarrow> (- 1, s)
      | Some _ \<Rightarrow> (0, s\<lparr>open_files := remove_first (\<lambda>f. fd f = d) (open_files s)\<rparr>))"

definition sys_unlink :: "strings \<Rightarrow> u32 \<Rightarrow> files \<Rightarrow> (i32 \<times> files) option" where
  "sys_unlink um pathname s =
     (if find_open_file um pathname s \<noteq> None then Some (- 1, s)
      else if char_at (um pathname) 0 \<noteq> 47 then Some (- 1, s)
      else do {
        root_dir \<leftarrow> get_root_dir fresh_heap (fdisk s) (ffs s);
        file \<leftarrow> find_file (fdisk s) (ffs s) (drop 1 (um pathname)) root_dir;
        (case file of
           None \<Rightarrow> Some (- 1, s)
         | Some e \<Rightarrow> do {
             (_, s1) \<leftarrow> update_file_details (um pathname) (e\<lparr>filename := (filename e)[0 := 0xe5]\<rparr>)
                          (filename e) (extension e) s;
             Some (0, s1) }) })"

definition sys_lseek :: "filedesc_t \<Rightarrow> i32 \<Rightarrow> i32 \<Rightarrow> files \<Rightarrow> i32 \<times> files" where
  "sys_lseek d off whence s =
     (case find_open_file_by_fd d s of
        None \<Rightarrow> (- 1, s)
      | Some f \<Rightarrow>
          if whence = 1 then (0, modify_open_file d (\<lambda>x. x\<lparr>offset := off\<rparr>) s)
          else if whence = 2 then (0, modify_open_file d (\<lambda>x. x\<lparr>offset := offset x + off\<rparr>) s)
          else if whence = 3
          then (0, modify_open_file d (\<lambda>x. x\<lparr>offset := file_size_bytes (directory_entry x) + off\<rparr>) s)
          else (- 1, s))"

text \<open>\<^verbatim>\<open>sys_getdents\<close>: \<open>Some None\<close> is NULL.\<close>

definition sys_getdents :: "filedesc_t \<Rightarrow> files \<Rightarrow> fat16_dir_entry_t list option option" where
  "sys_getdents d s =
     (case find_open_file_by_fd d s of
        None \<Rightarrow> Some None
      | Some f \<Rightarrow>
          if first_cluster (directory_entry f) < 2
          then map_option Some (get_root_dir fresh_heap (fdisk s) (ffs s))
          else get_dir fresh_heap (fdisk s) (ffs s) (directory_entry f))"

text \<open>
  \<^verbatim>\<open>sys_chdir\<close>.  \<open>None\<close>: the path does not fit the 100 bytes of the buffer, or the current
  directory is not found and \<^verbatim>\<open>get_dir\<close> dereferences NULL.
\<close>

definition sys_chdir :: "cstr \<Rightarrow> files \<Rightarrow> (i32 \<times> files) option" where
  "sys_chdir p s =
     (let len = stdstring_length p; cwd = current_working_dir s
      in if stdstring_compare (lit ''/'') p = 0
         then Some (0, s\<lparr>current_working_dir := cwd[0 := 47, 1 := 0]\<rparr>)
         else do {
           root_dir \<leftarrow> get_root_dir fresh_heap (fdisk s) (ffs s);
           absolute \<leftarrow> (if char_at p 0 = 47 then find_dir (fdisk s) (ffs s) p root_dir else Some None);
           if absolute \<noteq> None
           then (if len + 1 \<le> 100
                 then Some (0, s\<lparr>current_working_dir := map (char_at p) [0..<len + 1] @ drop (len + 1) cwd\<rparr>)
                 else None)
           else do {
             here \<leftarrow> find_dir (fdisk s) (ffs s) cwd root_dir;
             e \<leftarrow> here;
             listing \<leftarrow> get_dir fresh_heap (fdisk s) (ffs s) e;
             dir \<leftarrow> listing;
             relative \<leftarrow> find_dir (fdisk s) (ffs s) p dir;
             if relative \<noteq> None
             then let start = stdstring_length cwd
                  in if start < 100
                     then Some (0, s\<lparr>current_working_dir :=
                            take start cwd @ [47] @ map (char_at p) [0..<100 - (start + 1)]\<rparr>)
                     else None
             else Some (- 1, s) } })"

text \<open>\<^verbatim>\<open>sys_getcwd\<close>: the bytes stored in the buffer.\<close>

definition sys_getcwd :: "u32 \<Rightarrow> files \<Rightarrow> u8 list" where
  "sys_getcwd nbytes s =
     (let cwd_len = stdstring_length (current_working_dir s);
          len = (if cwd_len > unat nbytes then unat nbytes else cwd_len)
      in take len (current_working_dir s))"

text \<open>The two \<^verbatim>\<open>stat\<close> calls: the result and the entry copied to the buffer.\<close>

definition sys_stat :: "cstr \<Rightarrow> files \<Rightarrow> (i32 \<times> fat16_dir_entry_t option) option" where
  "sys_stat p s = do {
     root_dir \<leftarrow> get_root_dir fresh_heap (fdisk s) (ffs s);
     file \<leftarrow> find_file (fdisk s) (ffs s) p root_dir;
     Some (if file \<noteq> None then 0 else - 1, file) }"

definition sys_fstat :: "filedesc_t \<Rightarrow> files \<Rightarrow> i32 \<times> fat16_dir_entry_t option" where
  "sys_fstat d s =
     (case find_open_file_by_fd d s of
        Some f \<Rightarrow> (0, Some (directory_entry f))
      | None \<Rightarrow> (- 1, None))"

definition sys_mkdir :: "cstr \<Rightarrow> files \<Rightarrow> (i32 \<times> files) option" where
  "sys_mkdir p s = do {
     root_dir \<leftarrow> get_root_dir fresh_heap (fdisk s) (ffs s);
     if char_at p 0 \<noteq> 47 then Some (- 1, s)
     else if char_at p 1 = 0 then Some (- 1, s)
     else do {
       file \<leftarrow> find_file (fdisk s) (ffs s) (drop 1 p) root_dir;
       if file \<noteq> None then Some (- 1, s) else create_new_file p 0x10 s } }"

text \<open>
  \<^verbatim>\<open>open_files\<close> is a pointer that is never assigned, so \<^verbatim>\<open>TAILQ_INIT(open_files)\<close> stores its two words at the
  addresses 0 and 4, and the table lives there from then on.  \<open>low_memory\<close> says whether the machine has
  memory at these addresses; without it the store faults.
\<close>

definition file_initialise :: "bool \<Rightarrow> files \<Rightarrow> files option" where
  "file_initialise low_memory s = do {
     fs \<leftarrow> inspect_file_system (fdisk s);
     _ \<leftarrow> (if low_memory then Some () else None);
     (_, s1) \<leftarrow> sys_chdir (lit ''/'')
       (s\<lparr>ffs := fs, stdin_buffer := [], open_files := [], current_working_dir := replicate 100 0\<rparr>);
     Some s1 }"

section \<open>The shape of the disk\<close>

definition same_shape :: "sectors \<Rightarrow> sectors \<Rightarrow> bool" where
  "same_shape dev dev' \<longleftrightarrow> map length dev' = map length dev"

lemma same_shape_refl [simp]: "same_shape dev dev"
  by (simp add: same_shape_def)

lemma same_shape_trans [trans]: "same_shape a b \<Longrightarrow> same_shape b c \<Longrightarrow> same_shape a c"
  by (simp add: same_shape_def)

lemma fs_wr_shape: "fs_wr dev a bs = Some dev' \<Longrightarrow> same_shape dev dev'"
  by (auto simp: fs_wr_def same_shape_def map_update split: if_splits)
    (metis length_map list_update_id nth_map)

lemma write_sectors_shape: "write_sectors dev n a k buf = Some dev' \<Longrightarrow> same_shape dev dev'"
  by (induction dev n a k buf rule: write_sectors.induct)
    (auto split: bind_splits dest!: fs_wr_shape intro: same_shape_trans)

lemma write_cluster_shape: "write_cluster dev fs c buf = Some dev' \<Longrightarrow> same_shape dev dev'"
  unfolding write_cluster_def by (rule write_sectors_shape)

lemma set_successor_shape: "set_successor_cluster dev fs c v = Some dev' \<Longrightarrow> same_shape dev dev'"
  by (auto simp: set_successor_cluster_def Let_def split: bind_splits dest!: fs_wr_shape)

lemma write_existing_shape: "write_existing dev fs p c bs = Some r \<Longrightarrow> same_shape dev (fst r)"
proof (erule write_existing.raw_induct [where P = "\<lambda>dev fs p c bs r. same_shape dev (fst r)", rotated])
  fix rec dev fs p c bs and r :: "sectors \<times> u8 list \<times> u16"
  assume ih: "\<And>dev fs p c bs r. rec dev fs p c bs = Some r \<Longrightarrow> same_shape dev (fst r)"
    and r: "(if in_chain c \<and> 0 < length bs
      then case load_cluster dev fs c of None \<Rightarrow> None
           | Some cluster \<Rightarrow>
               case write_cluster dev fs c (patch cluster 0 (take (bytes_per_cluster fs) bs)) of None \<Rightarrow> None
               | Some dev1 \<Rightarrow>
                   case get_successor_cluster dev1 fs c of None \<Rightarrow> None
                   | Some next \<Rightarrow> rec dev1 fs c next (drop (bytes_per_cluster fs) bs)
      else Some (dev, bs, p)) = Some r"
  show "same_shape dev (fst r)"
    using r by (auto split: if_splits option.splits dest!: write_cluster_shape ih intro: same_shape_trans)
qed

lemma write_extend_shape: "write_extend dev fs p bs = Some r \<Longrightarrow> same_shape dev (fst r)"
proof (erule write_extend.raw_induct [where P = "\<lambda>dev fs p bs r. same_shape dev (fst r)", rotated], goal_cases)
  case (1 rec dev fs p bs r)
  then show ?case
    by (auto simp: same_shape_def split: if_splits option.splits
        dest!: write_cluster_shape set_successor_shape 1(1))
qed

lemma write_to_file_shape: "write_to_file dev fs e off buf = Some (n, dev') \<Longrightarrow> same_shape dev dev'"
  unfolding write_to_file_def Let_def
  by (fastforce split: bind_splits if_splits dest!: write_cluster_shape write_existing_shape write_extend_shape
      intro: same_shape_trans)

lemma directory_shape:
  "add_root_directory_entry dev fs e = Some (r, dev') \<Longrightarrow> same_shape dev dev'"
  "update_root_directory_entry dev fs e n x = Some (r, dev') \<Longrightarrow> same_shape dev dev'"
  "add_directory_entry dev fs c e = Some (r, dev') \<Longrightarrow> same_shape dev dev'"
  "update_directory_entry dev fs c e n x = Some (r, dev') \<Longrightarrow> same_shape dev dev'"
  unfolding add_root_directory_entry_def update_root_directory_entry_def add_directory_entry_def update_directory_entry_def
  by (auto split: bind_splits option.splits prod.splits dir_search.splits if_splits
      dest!: fs_wr_shape write_cluster_shape set_successor_shape intro: same_shape_trans)

section \<open>What the calls keep\<close>

definition files_inv :: "files \<Rightarrow> bool" where
  "files_inv s \<longleftrightarrow> distinct (map fd (open_files s)) \<and> 3 \<le> sint (next_fd s)
     \<and> (\<forall>f \<in> set (open_files s). 3 \<le> sint (fd f) \<and> sint (fd f) < sint (next_fd s))"

definition disk_only :: "files \<Rightarrow> files \<Rightarrow> bool" where
  "disk_only s s' \<longleftrightarrow> s' = s\<lparr>fdisk := fdisk s'\<rparr> \<and> same_shape (fdisk s) (fdisk s')"

lemma disk_only_simps [simp]: "disk_only s s" "disk_only s (s\<lparr>fdisk := dev\<rparr>) \<longleftrightarrow> same_shape (fdisk s) dev"
  by (simp_all add: disk_only_def)

lemma create_new_file_disk_only: "create_new_file p a s = Some (r, s') \<Longrightarrow> disk_only s s'"
  unfolding create_new_file_def Let_def
  by (auto split: bind_splits option.splits if_splits dest!: directory_shape set_successor_shape)
    (auto intro: same_shape_trans)

lemma update_file_details_disk_only: "update_file_details p e n x s = Some (r, s') \<Longrightarrow> disk_only s s'"
  unfolding update_file_details_def Let_def
  by (auto split: bind_splits option.splits if_splits dest!: directory_shape) 

text \<open>Reordering, inserting and changing open files without touching their descriptors.\<close>

interpretation open_table: keyed_table fd open_files find_open_file_by_fd modify_open_file
  by unfold_locales (simp_all add: find_open_file_by_fd_def modify_open_file_def)

lemma modify_open_file_fds [simp]:
  "(\<And>x. fd (g x) = fd x) \<Longrightarrow> map fd (open_files (modify_open_file d g s)) = map fd (open_files s)"
  by (rule open_table.keys_change)

lemma modify_open_file_other [simp]:
  "fdisk (modify_open_file d g s) = fdisk s" "ffs (modify_open_file d g s) = ffs s"
  "next_fd (modify_open_file d g s) = next_fd s" "stdin_buffer (modify_open_file d g s) = stdin_buffer s"
  "current_working_dir (modify_open_file d g s) = current_working_dir s"
  "uart_out (modify_open_file d g s) = uart_out s"
  by (simp_all add: modify_open_file_def)

lemma files_inv_fds:
  "files_inv s \<longleftrightarrow> distinct (map fd (open_files s)) \<and> 3 \<le> sint (next_fd s)
     \<and> (\<forall>d \<in> set (map fd (open_files s)). 3 \<le> sint d \<and> sint d < sint (next_fd s))"
  by (simp add: files_inv_def)

text \<open>What every call but \<^verbatim>\<open>sys_open\<close> and \<^verbatim>\<open>sys_close\<close> keeps.\<close>

definition calm :: "files \<Rightarrow> files \<Rightarrow> bool" where
  "calm s s' \<longleftrightarrow> map fd (open_files s') = map fd (open_files s) \<and> next_fd s' = next_fd s
     \<and> ffs s' = ffs s \<and> same_shape (fdisk s) (fdisk s')"

lemma calm_refl [simp]: "calm s s"
  by (simp add: calm_def)

lemma calm_trans [trans]: "calm a b \<Longrightarrow> calm b c \<Longrightarrow> calm a c"
  by (auto simp: calm_def intro: same_shape_trans)

lemma calm_disk_only: "disk_only s s' \<Longrightarrow> calm s s'"
  by (auto simp: disk_only_def calm_def) (metis files.ext_inject files.surjective files.update_convs(1))+

lemma calm_modify: "(\<And>x. fd (g x) = fd x) \<Longrightarrow> calm s (modify_open_file d g s)"
  by (simp add: calm_def)

lemma calm_inv: "calm s s' \<Longrightarrow> files_inv s \<Longrightarrow> files_inv s'"
  by (simp add: calm_def files_inv_fds del: set_map)

lemma sys_read_calm: "sys_read d n s = Some (r, bs, s') \<Longrightarrow> calm s s' \<and> fdisk s' = fdisk s"
  by (auto simp: sys_read_def Let_def calm_def split: if_splits option.splits bind_splits prod.splits)

lemma sys_lseek_calm: "sys_lseek d off w s = (r, s') \<Longrightarrow> calm s s' \<and> fdisk s' = fdisk s"
  by (auto simp: sys_lseek_def calm_def split: if_splits option.splits)

lemma sys_unlink_calm: "sys_unlink um p s = Some (r, s') \<Longrightarrow> calm s s'"
  by (auto simp: sys_unlink_def split: if_splits option.splits bind_splits
      dest!: update_file_details_disk_only calm_disk_only)

lemma sys_chdir_calm: "sys_chdir p s = Some (r, s') \<Longrightarrow> calm s s' \<and> fdisk s' = fdisk s"
  by (auto simp: sys_chdir_def Let_def calm_def split: if_splits option.splits bind_splits)

lemma sys_mkdir_calm: "sys_mkdir p s = Some (r, s') \<Longrightarrow> calm s s'"
  by (auto simp: sys_mkdir_def split: if_splits option.splits bind_splits
      dest!: create_new_file_disk_only calm_disk_only)

lemma record_growth_calm:
  assumes "record_growth um f n s = Some s'"
  shows "calm s s'"
proof (cases "file_size_bytes (directory_entry f) < n")
  case True
  define e where "e = (directory_entry f)\<lparr>file_size_bytes := n\<rparr>"
  define s1 where "s1 = modify_open_file (fd f) (\<lambda>x. x\<lparr>directory_entry := e\<rparr>) s"
  obtain r where "update_file_details (um (path f)) e (filename e) (extension e) s1 = Some (r, s')"
    using assms True by (auto simp: record_growth_def Let_def e_def s1_def)
  then have "calm s1 s'" using update_file_details_disk_only calm_disk_only by blast
  moreover have "calm s s1" unfolding s1_def by (rule calm_modify) simp
  ultimately show ?thesis by (rule calm_trans [rotated])
qed (use assms in \<open>simp add: record_growth_def\<close>)

definition write_offset :: "open_file_t \<Rightarrow> u32" where
  "write_offset f = (if append_flag f then file_size_bytes (directory_entry f) else offset f)"

lemma sys_write_file:
  assumes "d \<noteq> 1" "find_open_file_by_fd d s = Some f" "\<not> is_dir (directory_entry f)"
  shows "sys_write um d buf s = do {
    (k, dev) \<leftarrow> write_to_file (fdisk s) (ffs s) (directory_entry f) (write_offset f) buf;
    let s2 = (modify_open_file d (\<lambda>x. x\<lparr>offset := write_offset f\<rparr>) s)\<lparr>fdisk := dev\<rparr>;
    if sint (of_nat k :: i32) < 0 then Some (- 1, s2)
    else do {
      s3 \<leftarrow> record_growth um f (write_offset f + of_nat k) s2;
      Some (of_nat k, modify_open_file d (\<lambda>x. x\<lparr>offset := write_offset f + of_nat k\<rparr>) s3) } }"
  using assms unfolding sys_write_def write_offset_def by (simp add: Let_def)

lemma sys_write_calm:
  assumes "sys_write um d buf s = Some (r, s')"
  shows "calm s s'"
proof (cases "d \<noteq> 1 \<and> (\<exists>f. find_open_file_by_fd d s = Some f \<and> \<not> is_dir (directory_entry f))")
  case True
  then obtain f where f: "d \<noteq> 1" "find_open_file_by_fd d s = Some f" "\<not> is_dir (directory_entry f)" by blast
  define s1 where "s1 = modify_open_file d (\<lambda>x. x\<lparr>offset := write_offset f\<rparr>) s"
  obtain k dev where w: "write_to_file (fdisk s) (ffs s) (directory_entry f) (write_offset f) buf = Some (k, dev)"
    using assms unfolding sys_write_file [OF f] by (auto split: bind_splits)
  have "calm s s1" unfolding s1_def by (rule calm_modify) simp
  then have c2: "calm s (s1\<lparr>fdisk := dev\<rparr>)"
    using write_to_file_shape [OF w] by (simp add: calm_def s1_def)
  show ?thesis
  proof (cases "sint (of_nat k :: i32) < 0")
    case True
    then show ?thesis using assms c2 unfolding sys_write_file [OF f] w by (simp add: s1_def Let_def)
  next
    case False
    then obtain s3 where s3: "record_growth um f (write_offset f + of_nat k) (s1\<lparr>fdisk := dev\<rparr>) = Some s3"
        "s' = modify_open_file d (\<lambda>x. x\<lparr>offset := write_offset f + of_nat k\<rparr>) s3"
      using assms unfolding sys_write_file [OF f] w by (auto simp: s1_def Let_def split: bind_splits)
    have "calm s3 s'" unfolding s3(2) by (rule calm_modify) simp
    then show ?thesis using c2 record_growth_calm [OF s3(1)] by (blast intro: calm_trans)
  qed
next
  case False
  then show ?thesis using assms by (auto simp: sys_write_def calm_def split: option.splits if_splits)
qed

text \<open>\<^verbatim>\<open>open_file\<close> inserts an open file with a new descriptor, or changes nothing.\<close>

definition opened :: "u32 \<Rightarrow> files \<Rightarrow> open_file_t \<Rightarrow> files \<Rightarrow> bool" where
  "opened p s f s' \<longleftrightarrow> fd f = next_fd s \<and> path f = p \<and> offset f = 0
     \<and> s' = s\<lparr>next_fd := next_fd s + 1, open_files := open_files s @ [f]\<rparr>"

lemma insert_open_file_opened: "insert_open_file e p s = (f, s') \<Longrightarrow> opened p s f s' \<and> directory_entry f = e"
  by (auto simp: insert_open_file_def get_next_filedesc_def Let_def opened_def)

lemma open_file_opened:
  assumes "open_file um p s = Some (r, s')"
  shows "(r = None \<and> s' = s) \<or> (\<exists>f. r = Some f \<and> opened p s f s')"
proof -
  obtain f1 s1 where 1: "insert_open_file (root_entry (ffs s)) p s = (f1, s1)" by fastforce
  have 2: "\<exists>f2 s2. insert_open_file e p s = (f2, s2)" for e by fastforce
  show ?thesis
    using assms 1 insert_open_file_opened [OF 1] 2 unfolding open_file_def Let_def
    by (auto split: if_splits option.splits bind_splits prod.splits dest: insert_open_file_opened)
qed

lemma opened_inv:
  assumes "opened p s f s'" "files_inv s" "sint (next_fd s) < 2 ^ 31 - 1"
  shows "files_inv s'"
  using assms sint_Suc [OF assms(3)] unfolding opened_def files_inv_def by fastforce

definition set_append :: "i32 \<Rightarrow> open_file_t \<Rightarrow> files \<Rightarrow> files" where
  "set_append fl f = modify_open_file (fd f) (\<lambda>x. x\<lparr>append_flag := fl AND 2 \<noteq> 0\<rparr>)"

lemma sys_open_known: "find_open_file um p s = Some f \<Longrightarrow> sys_open um p fl s = Some (fd f, set_append fl f s)"
  by (simp add: sys_open_def set_append_def)

lemma sys_open_new:
  assumes "find_open_file um p s = None" "sys_open um p fl s = Some (r, s')"
  shows "\<exists>s0. disk_only s s0 \<and> (fl AND 1 = 0 \<longrightarrow> s0 = s)
    \<and> (r = - 1 \<and> s' = s0 \<or> (\<exists>f s1. opened p s0 f s1 \<and> r = fd f \<and> s' = set_append fl f s1))"
proof -
  obtain o1 s1 where o: "open_file um p s = Some (o1, s1)"
    using assms by (auto simp: sys_open_def split: bind_splits)
  show ?thesis
  proof (cases o1)
    case (Some f)
    then show ?thesis
      using assms o open_file_opened [OF o]
      by (intro exI [of _ s]) (auto simp: sys_open_def set_append_def)
  next
    case n1: None
    then have s1: "s1 = s" using open_file_opened [OF o] by auto
    show ?thesis
    proof (cases "fl AND 1 = 0")
      case True
      then show ?thesis using assms o n1 s1 by (intro exI [of _ s]) (auto simp: sys_open_def)
    next
      case False
      obtain r2 s2 where c: "create_new_file (um p) 0x0 s = Some (r2, s2)"
        using assms o n1 s1 False by (auto simp: sys_open_def split: bind_splits)
      note d = create_new_file_disk_only [OF c]
      show ?thesis
      proof (cases "r2 = - 1")
        case True
        then show ?thesis
          using assms o n1 s1 False c d by (intro exI [of _ s2]) (auto simp: sys_open_def)
      next
        case r2: False
        obtain o3 s3 where o3: "open_file um p s2 = Some (o3, s3)"
          using assms o n1 s1 False c r2 by (auto simp: sys_open_def split: bind_splits)
        then show ?thesis
          using assms o n1 s1 False c r2 d open_file_opened [OF o3]
          by (intro exI [of _ s2]) (auto simp: sys_open_def set_append_def split: option.splits)
      qed
    qed
  qed
qed

lemma set_append_calm: "calm s (set_append fl f s)"
  unfolding set_append_def by (rule calm_modify) simp

lemma sys_open_inv:
  assumes "sys_open um p fl s = Some (r, s')" "files_inv s" "sint (next_fd s) < 2 ^ 31 - 1"
  shows "files_inv s'"
proof (cases "find_open_file um p s")
  case None
  then obtain s0 where s0: "disk_only s s0" and
      c: "r = - 1 \<and> s' = s0 \<or> (\<exists>f s1. opened p s0 f s1 \<and> r = fd f \<and> s' = set_append fl f s1)"
    using sys_open_new [OF _ assms(1)] by blast
  have cs: "calm s s0" using s0 by (rule calm_disk_only)
  then have i0: "files_inv s0" "sint (next_fd s0) < 2 ^ 31 - 1" using assms(2,3) calm_inv by (auto simp: calm_def)
  then show ?thesis using c opened_inv calm_inv [OF set_append_calm] by blast
next
  case (Some f)
  then show ?thesis using assms(1,2) calm_inv [OF set_append_calm] by (auto simp: sys_open_known)
qed

lemma fd_remove_first:
  "distinct (map g xs) \<Longrightarrow> remove_first (\<lambda>x. g x = d) xs = filter (\<lambda>x. g x \<noteq> d) xs"
proof (induction xs)
  case (Cons x xs)
  show ?case
  proof (cases "g x = d")
    case True
    then have "filter (\<lambda>x. g x \<noteq> d) xs = xs" using Cons.prems by (auto simp: filter_id_conv image_iff)
    then show ?thesis using True by simp
  qed (use Cons in auto)
qed simp

lemma sys_close_eq:
  "files_inv s \<Longrightarrow> sys_close d s = (if d \<in> fd ` set (open_files s)
     then (0, s\<lparr>open_files := filter (\<lambda>f. fd f \<noteq> d) (open_files s)\<rparr>) else (- 1, s))"
  by (auto simp: sys_close_def find_open_file_by_fd_def find_None_iff fd_remove_first files_inv_def
      split: option.split dest!: find_Some_iff [THEN iffD1])

lemma sys_close_inv: "sys_close d s = (r, s') \<Longrightarrow> files_inv s \<Longrightarrow> files_inv s'"
  by (auto simp: sys_close_eq files_inv_def distinct_map_filter split: if_splits)

section \<open>Every sequence of calls\<close>

text \<open>One call, with whatever strings the processes have in memory, or a character typed on UART0.\<close>

inductive fstep :: "files \<Rightarrow> files \<Rightarrow> bool" where
  fs_open: "sint (next_fd s) < 2 ^ 31 - 1 \<Longrightarrow> sys_open um p fl s = Some (r, s') \<Longrightarrow> fstep s s'"
| fs_write: "sys_write um d buf s = Some (r, s') \<Longrightarrow> fstep s s'"
| fs_read: "sys_read d n s = Some (r, bs, s') \<Longrightarrow> fstep s s'"
| fs_close: "sys_close d s = (r, s') \<Longrightarrow> fstep s s'"
| fs_unlink: "sys_unlink um p s = Some (r, s') \<Longrightarrow> fstep s s'"
| fs_lseek: "sys_lseek d off w s = (r, s') \<Longrightarrow> fstep s s'"
| fs_chdir: "sys_chdir q s = Some (r, s') \<Longrightarrow> fstep s s'"
| fs_mkdir: "sys_mkdir q s = Some (r, s') \<Longrightarrow> fstep s s'"
| fs_typed: "fstep s (s\<lparr>stdin_buffer := stdin_buffer s @ [c]\<rparr>)"

inductive freachable :: "files \<Rightarrow> files \<Rightarrow> bool" for s0 where
  start: "file_initialise low_memory s0 = Some s \<Longrightarrow> freachable s0 s"
| call: "freachable s0 s \<Longrightarrow> fstep s s' \<Longrightarrow> freachable s0 s'"

definition geometry_kept :: "files \<Rightarrow> files \<Rightarrow> bool" where
  "geometry_kept s s' \<longleftrightarrow> ffs s' = ffs s \<and> same_shape (fdisk s) (fdisk s')"

lemma calm_geometry: "calm s s' \<Longrightarrow> geometry_kept s s'"
  by (simp add: calm_def geometry_kept_def)

lemma geometry_trans: "geometry_kept a b \<Longrightarrow> geometry_kept b c \<Longrightarrow> geometry_kept a c"
  by (auto simp: geometry_kept_def intro: same_shape_trans)

lemma calm_keeps: "calm s s' \<Longrightarrow> geometry_kept s s' \<and> (files_inv s \<longrightarrow> files_inv s')"
  using calm_geometry calm_inv by blast

lemma sys_open_geometry:
  assumes "sys_open um p fl s = Some (r, s')"
  shows "geometry_kept s s'"
proof (cases "find_open_file um p s")
  case None
  then obtain s0 where s0: "disk_only s s0" and
      c: "r = - 1 \<and> s' = s0 \<or> (\<exists>f s1. opened p s0 f s1 \<and> r = fd f \<and> s' = set_append fl f s1)"
    using sys_open_new [OF _ assms] by blast
  have "geometry_kept s s0" using s0 calm_disk_only calm_geometry by blast
  moreover have "geometry_kept s0 s1" if "opened p s0 f s1" for f s1
    using that by (simp add: opened_def geometry_kept_def)
  ultimately show ?thesis using c calm_geometry [OF set_append_calm] geometry_trans by metis
next
  case (Some f)
  then show ?thesis using assms calm_geometry [OF set_append_calm] by (auto simp: sys_open_known)
qed

lemma fstep_keeps: "fstep s s' \<Longrightarrow> geometry_kept s s' \<and> (files_inv s \<longrightarrow> files_inv s')"
proof (induction rule: fstep.induct)
  case (fs_open s um p fl r s')
  then show ?case using sys_open_geometry sys_open_inv by blast
next
  case (fs_close d s r s')
  then have "geometry_kept s s'" by (auto simp: sys_close_def geometry_kept_def split: option.splits)
  then show ?case using fs_close sys_close_inv by blast
next
  case (fs_typed s c)
  then show ?case by (simp add: geometry_kept_def files_inv_def)
next
  case fs_write
  then show ?case by (rule calm_keeps [OF sys_write_calm])
next
  case fs_unlink
  then show ?case by (rule calm_keeps [OF sys_unlink_calm])
next
  case fs_mkdir
  then show ?case by (rule calm_keeps [OF sys_mkdir_calm])
qed (rule calm_keeps, simp add: sys_read_calm sys_lseek_calm sys_chdir_calm)+

lemma cwd_start: "(replicate 100 0)[0 := 47, Suc 0 := 0] = 47 # replicate 99 (0 :: u8)"
  by (simp add: numeral_eq_Suc)

lemma file_initialise_eq:
  "file_initialise low_memory s0 = Some s \<Longrightarrow> open_files s = [] \<and> next_fd s = next_fd s0 \<and> fdisk s = fdisk s0
     \<and> inspect_file_system (fdisk s0) = Some (ffs s) \<and> cstring (current_working_dir s) = [47]"
  by (auto simp: file_initialise_def sys_chdir_def Let_def cstring_def lit_def cwd_start split: bind_splits if_splits)

end
