(* ===== verification/Descriptors.thy ===== *)
theory Descriptors
  imports FileCalls
begin

text \<open>
  What the file system calls promise about descriptors: the table of open files in every
  reachable state, opening and closing, and writing, seeking and reading through a descriptor.
\<close>

section \<open>A small file system with open files\<close>

definition demo_files :: files where
  "demo_files = \<lparr>fdisk = demo_dev, ffs = demo_fs,
     open_files = [\<lparr>fd = 3, directory_entry = demo_entry, path = 100, offset = 511, append_flag = False\<rparr>],
     next_fd = 4, current_working_dir = 47 # replicate 99 0, stdin_buffer = [], uart_out = []\<rparr>"

lemma demo_files_inv: "files_inv demo_files"
  by (simp add: files_inv_def demo_files_def)

section \<open>Opening\<close>

lemma opened_look:
  assumes "opened p s f s'" "files_inv s"
  shows "find_open_file_by_fd (fd f) s' = Some f" "d \<noteq> fd f \<Longrightarrow> find_open_file_by_fd d s' = find_open_file_by_fd d s"
    "fd f \<notin> fd ` set (open_files s)"
proof -
  have app: "open_files s' = open_files s @ [f]" using assms(1) by (simp add: opened_def)
  show n: "fd f \<notin> fd ` set (open_files s)" using assms by (auto simp: opened_def files_inv_def)
  then have "find_open_file_by_fd (fd f) s = None" by (simp add: open_table.look_None)
  then show "find_open_file_by_fd (fd f) s' = Some f" by (simp add: open_table.look_append [OF app])
  show "find_open_file_by_fd d s' = find_open_file_by_fd d s" if "d \<noteq> fd f"
    using that by (simp add: open_table.look_append [OF app] split: option.split)
qed

lemma set_append_look:
  assumes "find_open_file_by_fd (fd f) s = Some g"
  shows "find_open_file_by_fd (fd f) (set_append fl f s) = Some (g\<lparr>append_flag := fl AND 2 \<noteq> 0\<rparr>)"
    "d \<noteq> fd f \<Longrightarrow> find_open_file_by_fd d (set_append fl f s) = find_open_file_by_fd d s"
  unfolding set_append_def
  using open_table.look_change_same [OF assms, of "\<lambda>x. x\<lparr>append_flag := fl AND 2 \<noteq> 0\<rparr>"]
    open_table.look_SomeD [OF assms] open_table.look_change_other
  by auto

section \<open>Properties\<close>

text \<open>
  C9: whatever calls the processes make after \<^verbatim>\<open>file_initialise\<close>, and whatever strings they keep in
  memory: descriptors of open files are distinct, at least 3 and below the counter, so that none is
  handed out twice and none is a standard stream; and the disk keeps its number of sectors, the
  size of each, and the geometry read from its boot sector.  (Stated up to the 2147483644th open.)
\<close>

theorem file_calls_keep_table:
  assumes "freachable s0 s" "next_fd s0 = 3"
  shows "distinct (map fd (open_files s)) \<and> 3 \<le> sint (next_fd s)
    \<and> (\<forall>f \<in> set (open_files s). 3 \<le> sint (fd f) \<and> sint (fd f) < sint (next_fd s))
    \<and> map length (fdisk s) = map length (fdisk s0) \<and> inspect_file_system (fdisk s0) = Some (ffs s)"
proof -
  from assms(1) have "files_inv s \<and> same_shape (fdisk s0) (fdisk s) \<and> inspect_file_system (fdisk s0) = Some (ffs s)"
  proof induction
    case (start s)
    then show ?case using file_initialise_eq [OF start] assms(2) by (simp add: files_inv_def)
  next
    case (call s s')
    then show ?case
      using fstep_keeps [OF call(2)] by (auto simp: geometry_kept_def intro: same_shape_trans)
  qed
  then show ?thesis by (auto simp: files_inv_def same_shape_def)
qed

theorem file_calls_keep_table_witness:
  "\<exists>s s'. freachable (demo_files\<lparr>next_fd := 3\<rparr>) s \<and> fstep s s' \<and> distinct (map fd (open_files s'))
     \<and> length (fdisk s') = 6"
proof -
  let ?s0 = "demo_files\<lparr>next_fd := 3\<rparr>"
  have "inspect_file_system demo_dev \<noteq> None"
    by (simp add: inspect_file_system_def fs_rd_def demo_dev_def)
  then obtain s where s: "file_initialise True ?s0 = Some s"
    by (auto simp: file_initialise_def demo_files_def sys_chdir_def Let_def)
  then have r: "freachable ?s0 s" by (rule freachable.start)
  have t: "fstep s (s\<lparr>stdin_buffer := stdin_buffer s @ [65]\<rparr>)" by (rule fs_typed)
  have "map length (fdisk (s\<lparr>stdin_buffer := stdin_buffer s @ [65]\<rparr>)) = map length (fdisk ?s0)"
    using file_calls_keep_table [OF freachable.call [OF r t]] by simp
  then have "length (fdisk s) = length (fdisk ?s0)" by (metis files.select_convs(1) files.surjective files.update_convs(6) length_map)
  also have "\<dots> = 6" by (simp add: demo_files_def demo_dev_def)
  finally have "length (fdisk s) = 6" .
  then show ?thesis
    using r t file_calls_keep_table [OF freachable.call [OF r t]]
    by (intro exI [of _ s] exI [of _ "s\<lparr>stdin_buffer := stdin_buffer s @ [65]\<rparr>"]) simp
qed

text \<open>
  C29: \<^verbatim>\<open>sys_open\<close> returns -1 and leaves the table alone, or the descriptor of an open file whose path
  reads the same as the argument and whose append flag is set from the flags; all other
  descriptors mean what they meant.  A descriptor that was not open before is new, and without
  \<^verbatim>\<open>O_CREAT\<close> the disk is not written.
\<close>

theorem sys_open_result:
  assumes "files_inv s" "sint (next_fd s) < 2 ^ 31 - 1" "sys_open um p fl s = Some (r, s')"
  shows "(r = - 1 \<and> open_files s' = open_files s
      \<or> (\<exists>f. find_open_file_by_fd r s' = Some f \<and> cstring (um (path f)) = cstring (um p)
             \<and> append_flag f = (fl AND 2 \<noteq> 0)))
    \<and> (\<forall>d. d \<noteq> r \<longrightarrow> find_open_file_by_fd d s' = find_open_file_by_fd d s)
    \<and> (r \<noteq> - 1 \<and> find_open_file_by_fd r s = None \<longrightarrow> r = next_fd s)
    \<and> (fl AND 1 = 0 \<longrightarrow> fdisk s' = fdisk s)"
proof (cases "find_open_file um p s")
  case (Some f)
  then have f: "f \<in> set (open_files s)" "cstring (um (path f)) = cstring (um p)"
    by (auto simp: find_open_file_def find_Some_iff)
  have l: "find_open_file_by_fd (fd f) s = Some f"
    using assms(1) f(1) by (intro open_table.look_mem) (simp add: files_inv_def)
  from set_append_look [OF this, where fl = fl] show ?thesis
    using assms(3) f(2) l by (auto simp: sys_open_known [OF Some] set_append_def)
next
  case None
  from sys_open_new [OF None assms(3)] obtain s0 where s0: "disk_only s s0" "fl AND 1 = 0 \<Longrightarrow> s0 = s"
    and c: "r = - 1 \<and> s' = s0 \<or> (\<exists>f s1. opened p s0 f s1 \<and> r = fd f \<and> s' = set_append fl f s1)"
    by blast
  have same: "open_files s0 = open_files s" "next_fd s0 = next_fd s"
    using s0(1) by (metis disk_only_def files.select_convs(3) files.surjective files.update_convs(1),
        metis disk_only_def files.select_convs(4) files.surjective files.update_convs(1))
  then have look0: "find_open_file_by_fd d s0 = find_open_file_by_fd d s" for d by (simp add: find_open_file_by_fd_def)
  have i0: "files_inv s0" using assms(1) same by (simp add: files_inv_def)
  show ?thesis
  proof (cases "r = - 1 \<and> s' = s0")
    case True
    then show ?thesis using same look0 s0(2) by auto
  next
    case False
    then obtain f s1 where f: "opened p s0 f s1" "r = fd f" "s' = set_append fl f s1" using c by blast
    note o = opened_look [OF f(1) i0] and a = set_append_look [OF opened_look(1) [OF f(1) i0], where fl = fl]
    have "path f = p" "fdisk s1 = fdisk s0" "fd f = next_fd s" using same(2) f(1) by (auto simp: opened_def)
    then show ?thesis using f o(2) a look0 s0(2) by (auto simp: set_append_def)
  qed
qed

theorem sys_open_result_witness:
  "find_open_file_by_fd 3 demo_files \<noteq> None
   \<and> (\<exists>s'. sys_open (\<lambda>_. lit ''/LOG.TXT'') 100 2 demo_files = Some (3, s') \<and> find_open_file_by_fd 3 s' \<noteq> None)"
proof -
  have f: "find_open_file (\<lambda>_. lit ''/LOG.TXT'') 100 demo_files = Some (hd (open_files demo_files))"
    by (simp add: find_open_file_def demo_files_def)
  define s' where "s' = set_append 2 (hd (open_files demo_files)) demo_files"
  have "fd (hd (open_files demo_files)) = 3" by (simp add: demo_files_def)
  then have o: "sys_open (\<lambda>_. lit ''/LOG.TXT'') 100 2 demo_files = Some (3, s')"
    using sys_open_known [OF f, of 2] by (simp add: s'_def)
  have "open_files s' \<noteq> []" by (simp add: s'_def set_append_def modify_open_file_def demo_files_def)
  then show ?thesis
    using sys_open_result [OF demo_files_inv _ o] o
    by (auto simp: find_open_file_by_fd_def demo_files_def)
qed

text \<open>
  C30: a closed descriptor is dead: after \<^verbatim>\<open>sys_close\<close> of an open descriptor other than the standard
  streams, a second close, reads, writes, seeks and \<^verbatim>\<open>sys_fstat\<close> through it fail with -1 and change
  nothing, and \<^verbatim>\<open>sys_getdents\<close> gives NULL; all other descriptors still work.
\<close>

theorem sys_close_releases:
  assumes "files_inv s" "find_open_file_by_fd d s = Some f" "sys_close d s = (r, s')"
  shows "r = 0 \<and> fdisk s' = fdisk s \<and> sys_close d s' = (- 1, s') \<and> sys_read d n s' = Some (- 1, [], s')
    \<and> sys_write um d buf s' = Some (- 1, s') \<and> sys_lseek d off w s' = (- 1, s')
    \<and> sys_fstat d s' = (- 1, None) \<and> sys_getdents d s' = Some None
    \<and> (\<forall>j. j \<noteq> d \<longrightarrow> find_open_file_by_fd j s' = find_open_file_by_fd j s)"
proof -
  have f: "f \<in> set (open_files s)" "fd f = d" using open_table.look_SomeD [OF assms(2)] by auto
  then have d: "d \<noteq> 0" "d \<noteq> 1" using assms(1) by (auto simp: files_inv_def)
  have s': "r = 0" "s' = s\<lparr>open_files := filter (\<lambda>f. fd f \<noteq> d) (open_files s)\<rparr>"
    using assms(3) f by (auto simp: sys_close_eq [OF assms(1)])
  have none: "find_open_file_by_fd d s' = None" by (auto simp: s' open_table.look_None)
  have "List.find (\<lambda>f. fd f = j) (filter (\<lambda>f. fd f \<noteq> d) xs) = List.find (\<lambda>f. fd f = j) xs" if "j \<noteq> d" for j xs
    using that by (induction xs) auto
  then have "find_open_file_by_fd j s' = find_open_file_by_fd j s" if "j \<noteq> d" for j
    using that by (simp add: find_open_file_by_fd_def s')
  then show ?thesis
    using d none s'
    by (simp add: sys_close_def sys_read_def sys_write_def sys_lseek_def sys_fstat_def sys_getdents_def)
qed

theorem sys_close_releases_witness:
  "sys_read 3 10 (snd (sys_close 3 demo_files)) = Some (- 1, [], snd (sys_close 3 demo_files))"
  using sys_close_releases [OF demo_files_inv, of 3 "hd (open_files demo_files)" "fst (sys_close 3 demo_files)"
      "snd (sys_close 3 demo_files)" 10]
  by (simp add: demo_files_def find_open_file_by_fd_def)

text \<open>A write within the clusters and the recorded length of the file.\<close>

lemma sys_write_in_place:
  assumes ok: "fs_ok (fdisk s) (ffs s)" "bytes_per_cluster (ffs s) < 65536"
    and d: "d \<noteq> 1" and f: "find_open_file_by_fd d s = Some f"
    and plain: "\<not> is_dir (directory_entry f)" "\<not> append_flag f"
    and ch: "chain (fdisk s) (ffs s) (first_cluster (directory_entry f)) cs" "distinct cs" "length cs \<le> 65536"
    and fit: "unat (offset f) + length buf \<le> length cs * bytes_per_cluster (ffs s)"
      "unat (offset f) + length buf \<le> unat (file_size_bytes (directory_entry f))"
      "unat (offset f) < length cs * bytes_per_cluster (ffs s)" "length buf < 2147483648"
  shows "\<exists>s1. sys_write um d buf s = Some (of_nat (length buf), s1) \<and> ffs s1 = ffs s
    \<and> find_open_file_by_fd d s1 = Some (f\<lparr>offset := offset f + of_nat (length buf)\<rparr>)
    \<and> data_change (ffs s) (fdisk s) (fdisk s1) (set cs)
    \<and> chain_data (fdisk s1) (ffs s) cs = patch (chain_data (fdisk s) (ffs s) cs) (unat (offset f)) buf"
proof -
  define n where "n = (of_nat (length buf) :: u32)"
  define off where "off = offset f"
  define e where "e = directory_entry f"
  have fd: "fd f = d" using open_table.look_SomeD [OF f] by auto
  have n: "unat n = length buf" "\<not> sint n < 0"
    using fit(4) sint_word_of_int_i32 [of "int (length buf)"] by (simp_all add: n_def unat_of_nat)
  have wo: "write_offset f = off" using plain(2) by (simp add: write_offset_def off_def)
  obtain dev' where w: "write_to_file (fdisk s) (ffs s) e off buf = Some (length buf, dev')"
      "data_change (ffs s) (fdisk s) dev' (set cs)"
      "chain_data dev' (ffs s) cs = patch (chain_data (fdisk s) (ffs s) cs) (unat off) buf"
    using write_to_file_eq [OF ok ch(1,2) _ _ ch(3), of off buf] fit(1,3) by (auto simp: off_def e_def)
  have "unat (off + n) = unat off + length buf"
    using fit(2) n(1) unat_u32_less [of "file_size_bytes e"] by (simp add: unat_word_ariths off_def e_def)
  then have ng: "\<not> file_size_bytes e < off + n" using fit(2) by (simp add: word_less_nat_alt off_def e_def)
  define s0 where "s0 = (modify_open_file d (\<lambda>x. x\<lparr>offset := off\<rparr>) s)\<lparr>fdisk := dev'\<rparr>"
  have l0: "find_open_file_by_fd d s0 = Some (f\<lparr>offset := off\<rparr>)"
    using open_table.look_change_same [OF f, of "\<lambda>x. x\<lparr>offset := off\<rparr>"] fd
    by (simp add: find_open_file_by_fd_def s0_def)
  have "sys_write um d buf s = Some (n, modify_open_file d (\<lambda>x. x\<lparr>offset := off + n\<rparr>) s0)"
    unfolding sys_write_file [OF d f plain(1)] wo e_def [symmetric] w(1)
    using ng n(2) by (simp add: record_growth_def e_def s0_def n_def [symmetric] Let_def)
  moreover have "find_open_file_by_fd d (modify_open_file d (\<lambda>x. x\<lparr>offset := off + n\<rparr>) s0) = Some (f\<lparr>offset := off + n\<rparr>)"
    using open_table.look_change_same [OF l0, of "\<lambda>x. x\<lparr>offset := off + n\<rparr>"] fd by simp
  ultimately show ?thesis using w(2,3) by (simp add: n_def off_def s0_def)
qed

lemma sys_read_in_place:
  assumes ok: "fs_ok (fdisk s) (ffs s)" "bytes_per_cluster (ffs s) < 65536"
    and d: "d \<noteq> 0" and f: "find_open_file_by_fd d s = Some f"
    and ch: "chain (fdisk s) (ffs s) (first_cluster (directory_entry f)) cs" "length cs \<le> 65536"
    and o: "unat (offset f) < length cs * bytes_per_cluster (ffs s)"
    and bs: "bs = take (unat n) (drop (unat (offset f)) (chain_data (fdisk s) (ffs s) cs))"
    and len: "length bs < 2147483648"
  shows "sys_read d n s = Some (of_nat (length bs), bs,
      modify_open_file d (\<lambda>x. x\<lparr>offset := offset x + of_nat (length bs)\<rparr>) s)"
proof -
  have "\<not> first_cluster (directory_entry f) < 2"
  proof (cases cs)
    case (Cons c r)
    then have "1 < first_cluster (directory_entry f)" using ch(1) by simp
    then show ?thesis by (simp add: word_less_nat_alt)
  qed (use o in simp)
  moreover have "\<not> sint (of_nat (length bs) :: i32) < 0"
    using len sint_word_of_int_i32 [of "int (length bs)"] by simp
  ultimately show ?thesis
    using d f read_from_file_eq [OF ok ch(1) o ch(2), of n] bs by (simp add: sys_read_def Let_def)
qed

text \<open>
  C10: writing, seeking back and reading.  For an open file whose clusters form a chain and a buffer that
  fits them and the recorded length: \<^verbatim>\<open>sys_write\<close> at the file's position returns the number of
  bytes and moves the position behind them; \<^verbatim>\<open>sys_lseek\<close> back and \<^verbatim>\<open>sys_read\<close> then return the
  bytes written; no cluster outside the file is changed.
\<close>

theorem write_seek_read:
  assumes ok: "fs_ok (fdisk s) (ffs s)" "bytes_per_cluster (ffs s) < 65536"
    and inv: "files_inv s" and f: "find_open_file_by_fd d s = Some f"
    and plain: "\<not> is_dir (directory_entry f)" "\<not> append_flag f"
    and ch: "chain (fdisk s) (ffs s) (first_cluster (directory_entry f)) cs" "distinct cs" "length cs \<le> 65536"
    and fit: "unat (offset f) + length buf \<le> length cs * bytes_per_cluster (ffs s)"
      "unat (offset f) + length buf \<le> unat (file_size_bytes (directory_entry f))"
      "buf \<noteq> []" "length buf < 2147483648"
  shows "\<exists>s1 s2 s3. sys_write um d buf s = Some (of_nat (length buf), s1)
    \<and> sys_lseek d (- of_nat (length buf)) 2 s1 = (0, s2)
    \<and> sys_read d (of_nat (length buf)) s2 = Some (of_nat (length buf), buf, s3)
    \<and> map_option offset (find_open_file_by_fd d s3) = Some (offset f + of_nat (length buf))
    \<and> (\<forall>c. has_cluster (fdisk s) (ffs s) c \<and> c \<notin> set cs \<longrightarrow>
          cluster_data (fdisk s3) (ffs s) c = cluster_data (fdisk s) (ffs s) c)"
proof -
  define n where "n = (of_nat (length buf) :: u32)"
  define e where "e = directory_entry f"
  have fd: "fd f = d" "f \<in> set (open_files s)" using open_table.look_SomeD [OF f] by auto
  then have d: "d \<noteq> 0" "d \<noteq> 1" using inv by (auto simp: files_inv_def)
  have n: "unat n = length buf" using fit(4) by (simp add: n_def unat_of_nat)
  have o: "unat (offset f) < length cs * bytes_per_cluster (ffs s)" using fit(1,3) by (cases buf) auto
  obtain s1 where s1: "sys_write um d buf s = Some (n, s1)" "ffs s1 = ffs s"
      "find_open_file_by_fd d s1 = Some (f\<lparr>offset := offset f + n\<rparr>)" "data_change (ffs s) (fdisk s) (fdisk s1) (set cs)"
      "chain_data (fdisk s1) (ffs s) cs = patch (chain_data (fdisk s) (ffs s) cs) (unat (offset f)) buf"
    using sys_write_in_place [OF ok d(2) f plain ch fit(1,2) o fit(4)] unfolding n_def by blast
  define s2 where "s2 = modify_open_file d (\<lambda>x. x\<lparr>offset := offset x + (- n)\<rparr>) s1"
  have sl: "sys_lseek d (- n) 2 s1 = (0, s2)" using s1(3) by (simp add: sys_lseek_def s2_def)
  have "f\<lparr>offset := offset f\<rparr> = f" by simp
  then have l2: "find_open_file_by_fd d s2 = Some f"
    using open_table.look_change_same [OF s1(3), of "\<lambda>x. x\<lparr>offset := offset x + (- n)\<rparr>"] fd(1) by (simp add: s2_def)
  have disk2: "fdisk s2 = fdisk s1" "ffs s2 = ffs s" by (simp_all add: s2_def s1(2))
  have ok': "fs_ok (fdisk s1) (ffs s)" using s1(4) by (simp add: data_change_def)
  note ch' = data_change_chain [OF s1(4) ok(1) ch(1)]
  have "unat (offset f) \<le> length (chain_data (fdisk s) (ffs s) cs)"
    using length_chain_data [OF ok(1) ch(1)] o by simp
  then have buf: "buf = take (unat n) (drop (unat (offset f)) (chain_data (fdisk s1) (ffs s) cs))"
    using s1(5) n by (simp add: patch_def)
  have sr: "sys_read d n s2 = Some (n, buf, modify_open_file d (\<lambda>x. x\<lparr>offset := offset x + n\<rparr>) s2)"
    using sys_read_in_place [of s2, unfolded disk2, OF ok' ok(2) d(1) l2 ch' ch(3) o buf fit(4)] unfolding n_def .
  have "find_open_file_by_fd d (modify_open_file d (\<lambda>x. x\<lparr>offset := offset x + n\<rparr>) s2) = Some (f\<lparr>offset := offset f + n\<rparr>)"
    using open_table.look_change_same [OF l2, of "\<lambda>x. x\<lparr>offset := offset x + n\<rparr>"] fd(1) by simp
  then show ?thesis
    unfolding n_def [symmetric]
    using s1(1,4) sl sr disk2 by (auto simp: data_change_def intro!: exI [of _ s1] exI [of _ s2])
qed

theorem write_seek_read_witness:
  "\<exists>s1 s2 s3. sys_write (\<lambda>_. []) 3 [1, 2, 3] demo_files = Some (3, s1)
    \<and> sys_lseek 3 (- 3) 2 s1 = (0, s2) \<and> sys_read 3 3 s2 = Some (3, [1, 2, 3], s3)"
proof -
  let ?f = "hd (open_files demo_files)"
  have [simp]: "fdisk demo_files = demo_dev" "ffs demo_files = demo_fs" by (simp_all add: demo_files_def)
  have f: "find_open_file_by_fd 3 demo_files = Some ?f" "directory_entry ?f = demo_entry" "offset ?f = 511" "\<not> append_flag ?f"
    by (simp_all add: demo_files_def find_open_file_by_fd_def)
  have "\<not> is_dir (directory_entry ?f)" unfolding f(2) by code_simp
  then show ?thesis
    using write_seek_read [OF _ _ demo_files_inv f(1) _ f(4), of "[2, 3]" "[1, 2, 3]" "\<lambda>_. []"] demo_ok demo_chain
    by (auto simp: f demo_layout demo_entry_def)
qed

text \<open>
  An open file keeps the caller's pointer to its path.  Opening through the same pointer finds the
  open file whatever string the buffer holds by then: no file is opened or created, and with one
  open file its descriptor is returned for every path that is written into the buffer.
\<close>

lemma open_through_same_buffer:
  assumes "f \<in> set (open_files s)" "path f = p"
  shows "\<exists>g \<in> set (open_files s). \<exists>s'. sys_open um p fl s = Some (fd g, s') \<and> fdisk s' = fdisk s
      \<and> map fd (open_files s') = map fd (open_files s) \<and> (open_files s = [f] \<longrightarrow> g = f)"
proof -
  have "find_open_file um p s \<noteq> None" using assms by (auto simp: find_open_file_def find_None_iff)
  then obtain g where g: "find_open_file um p s = Some g" by blast
  then have "g \<in> set (open_files s)" by (auto simp: find_open_file_def find_Some_iff)
  then show ?thesis
    using sys_open_known [OF g, of fl] set_append_calm [of s fl g]
    by (intro bexI [of _ g] exI [of _ "set_append fl g s"]) (auto simp: set_append_def calm_def)
qed

lemma open_through_same_buffer_witness:
  "\<exists>s'. sys_open (\<lambda>_. lit ''/OTHER.TXT'') 100 0 demo_files = Some (3, s')
     \<and> map (filename \<circ> directory_entry) (open_files demo_files) = [filename demo_entry]"
proof -
  have "open_files demo_files = [hd (open_files demo_files)]" "path (hd (open_files demo_files)) = 100"
    "fd (hd (open_files demo_files)) = 3" by (simp_all add: demo_files_def)
  then show ?thesis
    using open_through_same_buffer [of "hd (open_files demo_files)" demo_files 100 "\<lambda>_. lit ''/OTHER.TXT''" 0]
    by (auto simp: demo_files_def)
qed
end
