(* ===== verification/Kernel.thy ===== *)
theory Kernel
  imports Scheduling Ipc Descriptors
begin

text \<open>
  The trap handlers of \<^verbatim>\<open>os/src/kernel/kernel.c\<close>, which put the scheduler, the file calls and
  the messages together: \<open>kernel\<close> is the whole state, with one memory and one UART0 for all parts.
  The frame \<^verbatim>\<open>ctx\<close> holds the registers of the running process; every case of
  \<^verbatim>\<open>kernel_handler_svc\<close> is a definition of its own.  \<open>None\<close> is a handler that does not return.
  The lists that \<^verbatim>\<open>getdents\<close> and \<^verbatim>\<open>lprocs\<close> hand to the caller are built by \<^verbatim>\<open>sys_getdents\<close> and
  \<^verbatim>\<open>scheduler_list_procs\<close>; they are not laid out in the memory of the model, and only their
  address is returned.
\<close>

unbundle bit_operations_syntax

section \<open>State\<close>

text \<open>The device registers that \<^verbatim>\<open>kernel.c\<close> writes.\<close>

datatype reg = TIMER0_Load | TIMER0_Ctrl | TIMER0_IntClr | UART0_IMSC | UART0_CR | UART1_CR | UART0_ICR
  | GICC0_PMR | GICD0_ISENABLER1 | GICC0_CTLR | GICD0_CTLR | GICC0_EOIR

record kernel =
  ks :: sched
  kf :: files
  kmessages :: "message_t list"
  regs :: "reg \<Rightarrow> u32"
  irq_on :: bool
  uart0_rx :: "u8 list"

text \<open>
  What a trap depends on and the model does not compute: the heap, the memory a new process
  control block is found in, the address of a list handed to the caller, and the value of
  a variable that is never assigned; and whether there is memory at address 0, where the reset code
  (\<^verbatim>\<open>table_copy\<close> of \<^verbatim>\<open>startup.s\<close>) puts the interrupt vectors.
\<close>

record kenv =
  heap_low :: u32
  heap_top :: u32
  heap_brk :: u32
  fresh_pcb :: pcb_t
  result_block :: u32
  unassigned :: i32
  low_memory :: bool

section \<open>Memory of the processes\<close>

text \<open>A string in memory: its bytes up to the NUL, and the 101 bytes from there on.\<close>

fun string_upto :: "nat \<Rightarrow> memory \<Rightarrow> u32 \<Rightarrow> u8 list" where
  "string_upto 0 m a = []"
| "string_upto (Suc n) m a = (if m a = 0 then [] else m a # string_upto n m (a + 1))"

definition string_at :: "memory \<Rightarrow> u32 \<Rightarrow> cstr" where
  "string_at m a = (let s = string_upto 4294967296 m a in s @ bytes_at m (a + of_nat (length s)) 101)"

definition store_bytes :: "u32 \<Rightarrow> u8 list \<Rightarrow> memory \<Rightarrow> memory" where
  "store_bytes a bs m = (\<lambda>x. if unat (x - a) < length bs then bs ! unat (x - a) else m x)"

text \<open>The 20 bytes of a \<^verbatim>\<open>fat16_dir_entry_t\<close>.\<close>

definition entry_bytes :: "fat16_dir_entry_t \<Rightarrow> u8 list" where
  "entry_bytes e = filename e @ extension e @ [attributes e]
     @ [ucast (first_cluster e), ucast (drop_bit 8 (first_cluster e))]
     @ [ucast (file_size_bytes e), ucast (drop_bit 8 (file_size_bytes e)),
        ucast (drop_bit 16 (file_size_bytes e)), ucast (drop_bit 24 (file_size_bytes e))]"

text \<open>The file calls and the message calls work on parts of the state; memory and UART0 are shared.\<close>

abbreviation kmem :: "kernel \<Rightarrow> memory" where
  "kmem k \<equiv> ram (ks k)"

definition set_mem :: "memory \<Rightarrow> kernel \<Rightarrow> kernel" where
  "set_mem m k = k\<lparr>ks := (ks k)\<lparr>ram := m\<rparr>\<rparr>"

definition files_of :: "kernel \<Rightarrow> files" where
  "files_of k = (kf k)\<lparr>uart_out := uart0 (ks k)\<rparr>"

definition set_files :: "files \<Rightarrow> kernel \<Rightarrow> kernel" where
  "set_files f k = k\<lparr>kf := f, ks := (ks k)\<lparr>uart0 := uart_out f\<rparr>\<rparr>"

definition ipc_of :: "kenv \<Rightarrow> kernel \<Rightarrow> ipc" where
  "ipc_of env k = \<lparr>messages = kmessages k, mem = kmem k, heap_break = heap_brk env\<rparr>"

definition set_ipc :: "ipc \<Rightarrow> kernel \<Rightarrow> kernel" where
  "set_ipc st k = set_mem (mem st) (k\<lparr>kmessages := messages st\<rparr>)"

definition set_r0 :: "u32 \<Rightarrow> ctx_t \<Rightarrow> ctx_t" where
  "set_r0 v c = c\<lparr>gpr := (gpr c)[0 := v]\<rparr>"

abbreviation arg :: "ctx_t \<Rightarrow> nat \<Rightarrow> u32" where
  "arg c i \<equiv> gpr c ! i"

section \<open>The cases of \<^verbatim>\<open>kernel_handler_svc\<close>\<close>

definition svc_exit :: "ctx_t \<Rightarrow> kernel \<Rightarrow> (ctx_t \<times> kernel) option" where
  "svc_exit c k = do { (c', s) \<leftarrow> scheduler_exit c (ks k); Some (c', k\<lparr>ks := s\<rparr>) }"

definition svc_fork :: "kenv \<Rightarrow> ctx_t \<Rightarrow> kernel \<Rightarrow> (ctx_t \<times> kernel) option" where
  "svc_fork env c k = do {
     (result, s) \<leftarrow> scheduler_fork (fresh_pcb env) c (arg c 0) (arg c 1) (ks k);
     Some (set_r0 result c, k\<lparr>ks := s\<rparr>) }"

definition svc_read :: "ctx_t \<Rightarrow> kernel \<Rightarrow> (ctx_t \<times> kernel) option" where
  "svc_read c k = do {
     (result, bs, f) \<leftarrow> sys_read (arg c 0) (arg c 2) (files_of k);
     Some (set_r0 result c, set_mem (store_bytes (arg c 1) bs (kmem k)) (set_files f k)) }"

definition svc_write :: "ctx_t \<Rightarrow> kernel \<Rightarrow> (ctx_t \<times> kernel) option" where
  "svc_write c k = do {
     (result, f) \<leftarrow> sys_write (string_at (kmem k)) (arg c 0)
                     (bytes_at (kmem k) (arg c 1) (unat (arg c 2))) (files_of k);
     Some (set_r0 result c, set_files f k) }"

definition svc_open :: "ctx_t \<Rightarrow> kernel \<Rightarrow> (ctx_t \<times> kernel) option" where
  "svc_open c k = do {
     (result, f) \<leftarrow> sys_open (string_at (kmem k)) (arg c 0) (arg c 1) (files_of k);
     Some (set_r0 result c, set_files f k) }"

definition svc_close :: "ctx_t \<Rightarrow> kernel \<Rightarrow> (ctx_t \<times> kernel) option" where
  "svc_close c k = (let (result, f) = sys_close (arg c 0) (files_of k)
     in Some (set_r0 result c, set_files f k))"

text \<open>A wait that blocks switches the process before the result is stored in the frame.\<close>

definition svc_waitpid :: "ctx_t \<Rightarrow> kernel \<Rightarrow> (ctx_t \<times> kernel) option" where
  "svc_waitpid c k =
     (let until_event = \<lparr>event = arg c 0, from_process = arg c 1\<rparr>
      in if arg c 2 AND 1 \<noteq> 0
         then Some (set_r0 (scheduler_has_event_occurred until_event (ks k)) c, k)
         else do {
           (result, c', s) \<leftarrow> scheduler_block_process c until_event (ks k);
           Some (set_r0 result c', k\<lparr>ks := s\<rparr>) })"

definition svc_unlink :: "ctx_t \<Rightarrow> kernel \<Rightarrow> (ctx_t \<times> kernel) option" where
  "svc_unlink c k = do {
     (result, f) \<leftarrow> sys_unlink (string_at (kmem k)) (arg c 0) (files_of k);
     Some (set_r0 result c, set_files f k) }"

definition svc_chdir :: "ctx_t \<Rightarrow> kernel \<Rightarrow> (ctx_t \<times> kernel) option" where
  "svc_chdir c k = do {
     (result, f) \<leftarrow> sys_chdir (string_at (kmem k) (arg c 0)) (files_of k);
     Some (set_r0 result c, set_files f k) }"

definition svc_stat :: "ctx_t \<Rightarrow> kernel \<Rightarrow> (ctx_t \<times> kernel) option" where
  "svc_stat c k = do {
     (result, e) \<leftarrow> sys_stat (string_at (kmem k) (arg c 0)) (files_of k);
     Some (set_r0 result c, set_mem (case e of None \<Rightarrow> kmem k
             | Some e \<Rightarrow> store_bytes (arg c 1) (entry_bytes e) (kmem k)) k) }"

definition svc_lseek :: "ctx_t \<Rightarrow> kernel \<Rightarrow> (ctx_t \<times> kernel) option" where
  "svc_lseek c k = (let (result, f) = sys_lseek (arg c 0) (arg c 1) (arg c 2) (files_of k)
     in Some (set_r0 result c, set_files f k))"

definition svc_getpid :: "ctx_t \<Rightarrow> kernel \<Rightarrow> (ctx_t \<times> kernel) option" where
  "svc_getpid c k = Some (set_r0 (scheduler_getpid (ks k)) c, k)"

definition svc_fstat :: "ctx_t \<Rightarrow> kernel \<Rightarrow> (ctx_t \<times> kernel) option" where
  "svc_fstat c k = (let (result, e) = sys_fstat (arg c 0) (files_of k)
     in Some (set_r0 result c, set_mem (case e of None \<Rightarrow> kmem k
             | Some e \<Rightarrow> store_bytes (arg c 1) (entry_bytes e) (kmem k)) k))"

text \<open>For a signal other than \<^verbatim>\<open>SIGKILL\<close> the result is never assigned.\<close>

definition svc_kill :: "kenv \<Rightarrow> ctx_t \<Rightarrow> kernel \<Rightarrow> (ctx_t \<times> kernel) option" where
  "svc_kill env c k =
     (if arg c 1 = 9
      then do {
        (result, c', s) \<leftarrow> scheduler_kill c (arg c 0) (ks k);
        Some (set_r0 result c', k\<lparr>ks := s\<rparr>) }
      else Some (set_r0 (unassigned env) c, k))"

definition svc_mkdir :: "ctx_t \<Rightarrow> kernel \<Rightarrow> (ctx_t \<times> kernel) option" where
  "svc_mkdir c k = do {
     (result, f) \<leftarrow> sys_mkdir (string_at (kmem k) (arg c 0)) (files_of k);
     Some (set_r0 result c, set_files f k) }"

definition svc_setpriority :: "ctx_t \<Rightarrow> kernel \<Rightarrow> (ctx_t \<times> kernel) option" where
  "svc_setpriority c k = (let (result, s) = scheduler_setpriority (arg c 0) (arg c 2) (ks k)
     in Some (set_r0 result c, k\<lparr>ks := s\<rparr>))"

definition svc_getdents :: "kenv \<Rightarrow> ctx_t \<Rightarrow> kernel \<Rightarrow> (ctx_t \<times> kernel) option" where
  "svc_getdents env c k = do {
     result \<leftarrow> sys_getdents (arg c 0) (files_of k);
     Some (set_r0 (case result of None \<Rightarrow> 0 | Some _ \<Rightarrow> result_block env) c, k) }"

definition svc_yield :: "ctx_t \<Rightarrow> kernel \<Rightarrow> (ctx_t \<times> kernel) option" where
  "svc_yield c k = do { (c', s) \<leftarrow> scheduler_run c (ks k); Some (c', k\<lparr>ks := s\<rparr>) }"

definition svc_getcwd :: "ctx_t \<Rightarrow> kernel \<Rightarrow> (ctx_t \<times> kernel) option" where
  "svc_getcwd c k =
     Some (set_r0 (arg c 0) c,
       set_mem (store_bytes (arg c 0) (sys_getcwd (arg c 1) (files_of k)) (kmem k)) k)"

definition svc_exec :: "ctx_t \<Rightarrow> kernel \<Rightarrow> (ctx_t \<times> kernel) option" where
  "svc_exec c k = do {
     (_, c', s) \<leftarrow> scheduler_exec c (arg c 0) (arg c 1) (arg c 2) (ks k);
     Some (c', k\<lparr>ks := s\<rparr>) }"

text \<open>\<^verbatim>\<open>ipc_send_message\<close> ends without a \<^verbatim>\<open>return\<close>.\<close>

definition svc_smessage :: "kenv \<Rightarrow> ctx_t \<Rightarrow> kernel \<Rightarrow> (ctx_t \<times> kernel) option" where
  "svc_smessage env c k = do {
     st \<leftarrow> ipc_send_message (heap_low env) (heap_top env) (arg c 0) (arg c 1) (arg c 2) (arg c 3) (ipc_of env k);
     Some (set_r0 (unassigned env) c, set_ipc st k) }"

definition svc_rmessagefr :: "kenv \<Rightarrow> ctx_t \<Rightarrow> kernel \<Rightarrow> (ctx_t \<times> kernel) option" where
  "svc_rmessagefr env c k =
     (let (result, st) = ipc_receive_message_from (arg c 0) (arg c 1) (arg c 2) (arg c 3) (ipc_of env k)
      in Some (set_r0 result c, set_ipc st k))"

definition svc_rmessage :: "kenv \<Rightarrow> ctx_t \<Rightarrow> kernel \<Rightarrow> (ctx_t \<times> kernel) option" where
  "svc_rmessage env c k =
     (let (result, st) = ipc_receive_any_message (arg c 0) (arg c 1) (arg c 2) (ipc_of env k)
      in Some (set_r0 result c, set_ipc st k))"

definition svc_lprocs :: "kenv \<Rightarrow> ctx_t \<Rightarrow> kernel \<Rightarrow> (ctx_t \<times> kernel) option" where
  "svc_lprocs env c k = Some (set_r0 (result_block env) c, k)"

section \<open>The handlers\<close>

definition kernel_handler_svc :: "kenv \<Rightarrow> u32 \<Rightarrow> ctx_t \<Rightarrow> kernel \<Rightarrow> (ctx_t \<times> kernel) option" where
  "kernel_handler_svc env svc c k =
     (if svc = 0 then svc_exit c k
      else if svc = 2 then svc_fork env c k
      else if svc = 3 then svc_read c k
      else if svc = 4 then svc_write c k
      else if svc = 5 then svc_open c k
      else if svc = 6 then svc_close c k
      else if svc = 7 then svc_waitpid c k
      else if svc = 10 then svc_unlink c k
      else if svc = 12 then svc_chdir c k
      else if svc = 18 then svc_stat c k
      else if svc = 19 then svc_lseek c k
      else if svc = 20 then svc_getpid c k
      else if svc = 28 then svc_fstat c k
      else if svc = 37 then svc_kill env c k
      else if svc = 39 then svc_mkdir c k
      else if svc = 97 then svc_setpriority c k
      else if svc = 141 then svc_getdents env c k
      else if svc = 158 then svc_yield c k
      else if svc = 183 then svc_getcwd c k
      else if svc = 1000 then svc_exec c k
      else if svc = 1001 then svc_smessage env c k
      else if svc = 1002 then svc_rmessagefr env c k
      else if svc = 1003 then svc_rmessage env c k
      else if svc = 1004 then svc_lprocs env c k
      else Some (c, k))"

definition write_reg :: "reg \<Rightarrow> u32 \<Rightarrow> kernel \<Rightarrow> kernel" where
  "write_reg r v k = k\<lparr>regs := (regs k)(r := v)\<rparr>"

definition or_reg :: "reg \<Rightarrow> u32 \<Rightarrow> kernel \<Rightarrow> kernel" where
  "or_reg r v k = write_reg r (regs k r OR v) k"

text \<open>\<^verbatim>\<open>PL011_getc\<close> waits until a character has been received: \<open>None\<close> when none ever is.\<close>

definition kernel_handler_irq :: "u32 \<Rightarrow> ctx_t \<Rightarrow> kernel \<Rightarrow> (ctx_t \<times> kernel) option" where
  "kernel_handler_irq source c k = do {
     (c1, k1) \<leftarrow>
       (if source = 36 then do {
          (c', s) \<leftarrow> scheduler_run c (ks k);
          Some (c', write_reg TIMER0_IntClr 0x01 (k\<lparr>ks := s\<rparr>)) }
        else if source = 44 then
          (case uart0_rx k of
             [] \<Rightarrow> None
           | ch # rest \<Rightarrow>
               Some (c, write_reg UART0_ICR 0x10
                 (k\<lparr>uart0_rx := rest, kf := (kf k)\<lparr>stdin_buffer := stdin_buffer (kf k) @ [ch]\<rparr>\<rparr>)))
        else Some (c, k));
     Some (c1, write_reg GICC0_EOIR source k1) }"

definition uart0_puts :: "string \<Rightarrow> nat \<Rightarrow> kernel \<Rightarrow> kernel" where
  "uart0_puts str n k = k\<lparr>ks := (ks k)\<lparr>uart0 := uart0 (ks k) @ puts str n\<rparr>\<rparr>"

definition kernel_handler_rst :: "kenv \<Rightarrow> u32 \<Rightarrow> ctx_t \<Rightarrow> kernel \<Rightarrow> (ctx_t \<times> kernel) option" where
  "kernel_handler_rst env entry_sh c k0 = do {
     let k1 = uart0_puts (''Starting MalapropOS'' @ [CHR 0x0A]) 20 k0;
     (c', s) \<leftarrow> scheduler_initialise (fresh_pcb env) entry_sh c (ks k1);
     let k2 = k1\<lparr>ks := s\<rparr>;
     f \<leftarrow> file_initialise (low_memory env) (files_of k2);
     let k3 = set_files f k2;
     st \<leftarrow> ipc_initialise (heap_low env) (heap_top env) (ipc_of env k3);
     let k4 = uart0_puts (''Configuring Timer'' @ [CHR 0x0A]) 18 (set_ipc st k3);
     let k5 = or_reg TIMER0_Ctrl 0x80 (or_reg TIMER0_Ctrl 0x20 (or_reg TIMER0_Ctrl 0x40
                (write_reg TIMER0_Ctrl 0x02 (write_reg TIMER0_Load 0x00100000 k4))));
     let k6 = uart0_puts (''Configuring UART'' @ [CHR 0x0A]) 17 k5;
     let k7 = write_reg UART1_CR 0x301 (write_reg UART0_CR 0x301 (or_reg UART0_IMSC 0x10 k6));
     let k8 = uart0_puts (''Configuring Interrupt Controller'' @ [CHR 0x0A]) 33 k7;
     let k9 = write_reg GICD0_CTLR 1 (write_reg GICC0_CTLR 1 (or_reg GICD0_ISENABLER1 0x10
                (or_reg GICD0_ISENABLER1 0x1000 (write_reg GICC0_PMR 0xF0 k8))));
     let k10 = (uart0_puts (''Enabling interrupts'' @ [CHR 0x0A]) 20 k9)\<lparr>irq_on := True\<rparr>;
     Some (c', uart0_puts (''Relinquishing control'' @ [CHR 0x0A]) 22 k10) }"

section \<open>Traps as steps of the parts\<close>

text \<open>
  A trap is one step of the scheduler (theory \<open>Scheduler\<close>) up to what was printed, and at most one
  step of the file table (theory \<open>FileCalls\<close>).
\<close>

definition refines_parts :: "ctx_t \<Rightarrow> kernel \<Rightarrow> ctx_t \<Rightarrow> kernel \<Rightarrow> bool" where
  "refines_parts c k c' k' \<longleftrightarrow>
     (\<exists>call s1. kstep call (c, ks k) (c', s1) \<and> considerate_call call (ks k) \<and> ks k' = s1\<lparr>uart0 := uart0 (ks k')\<rparr>)
   \<and> (kf k' = kf k \<or> fstep (files_of k) (files_of k'))"

text \<open>
  The handler of system calls does not check these arguments, and the invariant needs them: a priority 0 or 1
  is set for a process that can run, and the counters of PIDs and of descriptors do not overflow.
  It is an assumption on the programs, never a part of the handler.
\<close>

definition considerate :: "u32 \<Rightarrow> ctx_t \<Rightarrow> kernel \<Rightarrow> bool" where
  "considerate svc c k \<longleftrightarrow> (svc = 2 \<longrightarrow> sint (next_pid (ks k)) < 2 ^ 31 - 1)
     \<and> (svc = 5 \<longrightarrow> sint (next_fd (kf k)) < 2 ^ 31 - 1)
     \<and> (svc = 97 \<and> arg c 2 \<in> {0, 1} \<longrightarrow> arg c 0 \<in> runnable_pids (ks k))"

lemma length_set_r0 [simp]: "length (gpr (set_r0 v c)) = length (gpr c)"
  by (simp add: set_r0_def)

lemma files_of_fields [simp]:
  "fdisk (files_of k) = fdisk (kf k)" "ffs (files_of k) = ffs (kf k)" "open_files (files_of k) = open_files (kf k)"
  "next_fd (files_of k) = next_fd (kf k)" "stdin_buffer (files_of k) = stdin_buffer (kf k)"
  "current_working_dir (files_of k) = current_working_dir (kf k)" "uart_out (files_of k) = uart0 (ks k)"
  by (simp_all add: files_of_def)

lemma set_fields [simp]:
  "kf (set_mem m k) = kf k" "ks (set_mem m k) = (ks k)\<lparr>ram := m\<rparr>"
  "kf (set_files f k) = f" "ks (set_files f k) = (ks k)\<lparr>uart0 := uart_out f\<rparr>"
  "kf (set_ipc st k) = kf k" "ks (set_ipc st k) = (ks k)\<lparr>ram := mem st\<rparr>"
  by (simp_all add: set_mem_def set_files_def set_ipc_def)

lemma files_of_set [simp]: "files_of (set_files f k) = f" "files_of (set_mem m k) = files_of k"
  by (simp_all add: files_of_def)

text \<open>A trap that returns to the caller and touches the scheduler's state only in memory and output.\<close>

lemma refines_user:
  assumes "length (gpr c') = 13" "ks k' = (ks k)\<lparr>ram := m, uart0 := u\<rparr>" "kf k' = kf k \<or> fstep (files_of k) (files_of k')"
  shows "refines_parts c k c' k'"
proof -
  have "kstep Call_user (c, ks k) (c', (ks k)\<lparr>ram := m\<rparr>)" using assms(1) by (rule kstep.user)
  then show ?thesis unfolding refines_parts_def
    using assms(2,3) by (intro conjI exI [of _ Call_user] exI [of _ "(ks k)\<lparr>ram := m\<rparr>"]) auto
qed

lemma refines_kstep:
  "kstep call (c, ks k) (c', ks k') \<Longrightarrow> considerate_call call (ks k) \<Longrightarrow> kf k' = kf k \<Longrightarrow> refines_parts c k c' k'"
  unfolding refines_parts_def by (intro conjI exI [of _ call] exI [of _ "ks k'"]) auto

lemma kstep_registers: "length (gpr c') = 13 \<Longrightarrow> kstep Call_user (c, s) (c', s)"
  using kstep.user [of c' c s "ram s"] by simp

lemma refines_scheduler:
  assumes "length (gpr c) = 13"
  shows "svc_exit c k = Some (c', k') \<Longrightarrow> refines_parts c k c' k'"
    "svc_fork env c k = Some (c', k') \<Longrightarrow> sint (next_pid (ks k)) < 2 ^ 31 - 1 \<Longrightarrow> refines_parts c k c' k'"
    "svc_waitpid c k = Some (c', k') \<Longrightarrow> refines_parts c k c' k'"
    "svc_kill env c k = Some (c', k') \<Longrightarrow> refines_parts c k c' k'"
    "svc_setpriority c k = Some (c', k') \<Longrightarrow> (arg c 2 \<in> {0, 1} \<longrightarrow> arg c 0 \<in> runnable_pids (ks k)) \<Longrightarrow>
       refines_parts c k c' k'"
    "svc_yield c k = Some (c', k') \<Longrightarrow> refines_parts c k c' k'"
    "svc_exec c k = Some (c', k') \<Longrightarrow> refines_parts c k c' k'"
    "svc_getpid c k = Some (c', k') \<Longrightarrow> refines_parts c k c' k'"
    "svc_lprocs env c k = Some (c', k') \<Longrightarrow> refines_parts c k c' k'"
proof -
  note step = refines_kstep [OF kstep.exit] refines_kstep [OF kstep.fork] refines_kstep [OF kstep.block]
    refines_kstep [OF kstep.kill] refines_kstep [OF kstep.setpriority] refines_kstep [OF kstep.tick]
    refines_kstep [OF kstep.exec] refines_kstep [OF kstep_registers]
  note [simp] = set_r0_def
  note split = bind_splits if_splits prod.splits
  show "svc_exit c k = Some (c', k') \<Longrightarrow> refines_parts c k c' k'"
    by (auto simp: svc_exit_def split: split intro: step(1))
  show "svc_fork env c k = Some (c', k') \<Longrightarrow> sint (next_pid (ks k)) < 2 ^ 31 - 1 \<Longrightarrow> refines_parts c k c' k'"
    by (auto simp: svc_fork_def split: split intro: step(2))
  show "svc_waitpid c k = Some (c', k') \<Longrightarrow> refines_parts c k c' k'"
    using assms by (auto simp: svc_waitpid_def Let_def split: split intro: step(3) step(8))
  show "svc_kill env c k = Some (c', k') \<Longrightarrow> refines_parts c k c' k'"
    using assms by (auto simp: svc_kill_def split: split intro: step(4) step(8))
  show "svc_setpriority c k = Some (c', k') \<Longrightarrow> (arg c 2 \<in> {0, 1} \<longrightarrow> arg c 0 \<in> runnable_pids (ks k)) \<Longrightarrow>
      refines_parts c k c' k'"
    by (auto simp: svc_setpriority_def split: split intro: step(5))
  show "svc_yield c k = Some (c', k') \<Longrightarrow> refines_parts c k c' k'"
    by (auto simp: svc_yield_def split: split intro: step(6))
  show "svc_exec c k = Some (c', k') \<Longrightarrow> refines_parts c k c' k'"
    by (auto simp: svc_exec_def split: split intro: step(7))
  show "svc_getpid c k = Some (c', k') \<Longrightarrow> refines_parts c k c' k'"
    "svc_lprocs env c k = Some (c', k') \<Longrightarrow> refines_parts c k c' k'"
    using assms by (auto simp: svc_getpid_def svc_lprocs_def Let_def split: split intro: step(8))
qed

text \<open>The file calls and the messages.\<close>

lemma refines_files:
  assumes "length (gpr c) = 13"
  shows "svc_read c k = Some (c', k') \<Longrightarrow> refines_parts c k c' k'"
    "svc_write c k = Some (c', k') \<Longrightarrow> refines_parts c k c' k'"
    "svc_open c k = Some (c', k') \<Longrightarrow> sint (next_fd (kf k)) < 2 ^ 31 - 1 \<Longrightarrow> refines_parts c k c' k'"
    "svc_close c k = Some (c', k') \<Longrightarrow> refines_parts c k c' k'"
    "svc_unlink c k = Some (c', k') \<Longrightarrow> refines_parts c k c' k'"
    "svc_chdir c k = Some (c', k') \<Longrightarrow> refines_parts c k c' k'"
    "svc_lseek c k = Some (c', k') \<Longrightarrow> refines_parts c k c' k'"
    "svc_mkdir c k = Some (c', k') \<Longrightarrow> refines_parts c k c' k'"
proof -
  have calls: "refines_parts c k (set_r0 r c) (set_mem m (set_files f k))"
    "refines_parts c k (set_r0 r c) (set_files f k)" if "fstep (files_of k) f" for r m f
    using refines_user [where c = c and c' = "set_r0 r c" and k = k and k' = "set_mem m (set_files f k)" and m = m and u = "uart_out f"]
      refines_user [where c = c and c' = "set_r0 r c" and k = k and k' = "set_files f k" and m = "kmem k" and u = "uart_out f"]
      assms that by simp_all
  show "svc_read c k = Some (c', k') \<Longrightarrow> refines_parts c k c' k'"
    by (auto simp: svc_read_def split: bind_splits intro!: calls(1) intro: fs_read)
  show "svc_write c k = Some (c', k') \<Longrightarrow> refines_parts c k c' k'"
    by (auto simp: svc_write_def split: bind_splits intro!: calls(2) intro: fs_write)
  show "svc_open c k = Some (c', k') \<Longrightarrow> sint (next_fd (kf k)) < 2 ^ 31 - 1 \<Longrightarrow> refines_parts c k c' k'"
    by (auto simp: svc_open_def split: bind_splits intro!: calls(2) intro: fs_open)
  show "svc_close c k = Some (c', k') \<Longrightarrow> refines_parts c k c' k'"
    by (auto simp: svc_close_def split: prod.splits intro!: calls(2) intro: fs_close)
  show "svc_unlink c k = Some (c', k') \<Longrightarrow> refines_parts c k c' k'"
    by (auto simp: svc_unlink_def split: bind_splits intro!: calls(2) intro: fs_unlink)
  show "svc_chdir c k = Some (c', k') \<Longrightarrow> refines_parts c k c' k'"
    by (auto simp: svc_chdir_def split: bind_splits intro!: calls(2) intro: fs_chdir)
  show "svc_lseek c k = Some (c', k') \<Longrightarrow> refines_parts c k c' k'"
    by (auto simp: svc_lseek_def split: prod.splits intro!: calls(2) intro: fs_lseek)
  show "svc_mkdir c k = Some (c', k') \<Longrightarrow> refines_parts c k c' k'"
    by (auto simp: svc_mkdir_def split: bind_splits intro!: calls(2) intro: fs_mkdir)
qed

lemma refines_memory:
  assumes "length (gpr c) = 13"
  shows "svc_stat c k = Some (c', k') \<Longrightarrow> refines_parts c k c' k'"
    "svc_fstat c k = Some (c', k') \<Longrightarrow> refines_parts c k c' k'"
    "svc_getdents env c k = Some (c', k') \<Longrightarrow> refines_parts c k c' k'"
    "svc_getcwd c k = Some (c', k') \<Longrightarrow> refines_parts c k c' k'"
    "svc_smessage env c k = Some (c', k') \<Longrightarrow> refines_parts c k c' k'"
    "svc_rmessagefr env c k = Some (c', k') \<Longrightarrow> refines_parts c k c' k'"
    "svc_rmessage env c k = Some (c', k') \<Longrightarrow> refines_parts c k c' k'"
proof -
  have mem: "refines_parts c k (set_r0 r c) (set_mem m k)" "refines_parts c k (set_r0 r c) (set_ipc st k)"
    "refines_parts c k (set_r0 r c) k" for r m st
    using refines_user [where c = c and c' = "set_r0 r c" and k = k and k' = "set_mem m k" and m = m and u = "uart0 (ks k)"]
      refines_user [where c = c and c' = "set_r0 r c" and k = k and k' = "set_ipc st k" and m = "mem st" and u = "uart0 (ks k)"]
      refines_user [where c = c and c' = "set_r0 r c" and k = k and k' = k and m = "kmem k" and u = "uart0 (ks k)"]
      assms by simp_all
  show "svc_stat c k = Some (c', k') \<Longrightarrow> refines_parts c k c' k'"
    "svc_fstat c k = Some (c', k') \<Longrightarrow> refines_parts c k c' k'"
    "svc_getcwd c k = Some (c', k') \<Longrightarrow> refines_parts c k c' k'"
    "svc_smessage env c k = Some (c', k') \<Longrightarrow> refines_parts c k c' k'"
    "svc_rmessagefr env c k = Some (c', k') \<Longrightarrow> refines_parts c k c' k'"
    "svc_rmessage env c k = Some (c', k') \<Longrightarrow> refines_parts c k c' k'"
    unfolding svc_stat_def svc_fstat_def svc_getcwd_def svc_smessage_def svc_rmessagefr_def svc_rmessage_def
    by (auto split: bind_splits prod.splits intro: mem)
  assume "svc_getdents env c k = Some (c', k')"
  then have "k' = k" "\<exists>r. c' = set_r0 r c" by (auto simp: svc_getdents_def split: bind_splits)
  then show "refines_parts c k c' k'" using mem(3) by blast
qed

lemma if_eqE: "(if b then x else y) = z \<Longrightarrow> (b \<Longrightarrow> x = z \<Longrightarrow> P) \<Longrightarrow> (\<not> b \<Longrightarrow> y = z \<Longrightarrow> P) \<Longrightarrow> P"
  by (cases b) auto

lemma svc_refines:
  assumes "kernel_handler_svc env svc c k = Some (c', k')" "length (gpr c) = 13" "considerate svc c k"
  shows "refines_parts c k c' k'"
proof -
  have g: "svc = 2 \<Longrightarrow> sint (next_pid (ks k)) < 2 ^ 31 - 1" "svc = 5 \<Longrightarrow> sint (next_fd (kf k)) < 2 ^ 31 - 1"
    "svc = 97 \<Longrightarrow> arg c 2 \<in> {0, 1} \<longrightarrow> arg c 0 \<in> runnable_pids (ks k)"
    using assms(3) by (simp_all add: considerate_def)
  have same: "Some (c, k) = Some (c', k') \<Longrightarrow> refines_parts c k c' k'"
    using refines_user [where c = c and c' = c and k = k and k' = k and m = "kmem k" and u = "uart0 (ks k)"] assms(2) by simp
  note steps = refines_scheduler(1,3,4,6-9) [OF assms(2)] refines_files(1,2,4-8) [OF assms(2)] refines_memory [OF assms(2)] same
    refines_scheduler(2) [OF assms(2) _ g(1)] refines_scheduler(5) [OF assms(2) _ g(3)] refines_files(3) [OF assms(2) _ g(2)]
  from assms(1) show ?thesis
    unfolding kernel_handler_svc_def by (elim if_eqE) (erule steps; assumption?)+
qed

lemma irq_refines:
  assumes "kernel_handler_irq source c k = Some (c', k')" "length (gpr c) = 13"
  shows "refines_parts c k c' k'"
proof -
  consider (timer) "source = 36" | (uart) "source = 44" | (other) "source \<noteq> 36" "source \<noteq> 44" by blast
  then show ?thesis
  proof cases
    case timer
    then show ?thesis
      using assms by (auto simp: kernel_handler_irq_def write_reg_def split: bind_splits intro!: refines_kstep [OF kstep.tick])
  next
    case uart
    then obtain ch rest where "uart0_rx k = ch # rest" using assms by (auto simp: kernel_handler_irq_def split: list.splits)
    then have k': "c' = c" "files_of k' = files_of k\<lparr>stdin_buffer := stdin_buffer (files_of k) @ [ch]\<rparr>" "ks k' = ks k"
      using uart assms by (auto simp: kernel_handler_irq_def write_reg_def files_of_def)
    have "fstep (files_of k) (files_of k')" unfolding k'(2) by (rule fs_typed)
    then show ?thesis
      using kstep_registers [OF assms(2), of c "ks k"] unfolding refines_parts_def k'(1,3)
      by (intro conjI exI [of _ Call_user] exI [of _ "ks k"]) simp_all
  next
    case other
    then show ?thesis
      using assms refines_user [where c = c and c' = c' and k = k and k' = k' and m = "kmem k" and u = "uart0 (ks k)"]
      by (auto simp: kernel_handler_irq_def write_reg_def)
  qed
qed

end
