(* ===== verification/Machine.thy ===== *)
theory Machine
  imports Kernel
begin

text \<open>
  The running system: user programs, received characters, system calls and interrupts in any order
  (\<open>machine_step\<close>), from the reset handler on (\<open>running allowed\<close>, with an explicit assumption \<open>allowed\<close> on the
  calls programs make).  Shown: the invariants of the scheduler and of the file table hold together in
  every state that \<open>considerate\<close> programs reach, and what a single call outside this assumption does;
  which traps always return; what a trap does to the registers of the process it returns to; the path of a
  typed character; and the boot.
\<close>

section \<open>The machine\<close>

text \<open>
  What can happen: a user program runs (and changes registers and memory), a character arrives at
  UART0, a program makes a system call with any number and arguments, or an interrupt is taken.
\<close>

datatype machine_event = Ev_program | Ev_received u8 | Ev_svc u32 | Ev_irq u32

inductive machine_step :: "machine_event \<Rightarrow> ctx_t \<times> kernel \<Rightarrow> ctx_t \<times> kernel \<Rightarrow> bool" where
  program: "length (gpr c') = 13 \<Longrightarrow> machine_step Ev_program (c, k) (c', set_mem m k)"
| received: "machine_step (Ev_received ch) (c, k) (c, k\<lparr>uart0_rx := uart0_rx k @ [ch]\<rparr>)"
| svc: "kernel_handler_svc env n c k = Some (c', k') \<Longrightarrow> machine_step (Ev_svc n) (c, k) (c', k')"
| irq: "kernel_handler_irq n c k = Some (c', k') \<Longrightarrow> machine_step (Ev_irq n) (c, k) (c', k')"

text \<open>The state before the reset handler runs, with the initial values of the global variables.\<close>

definition power_on :: "u32 \<Rightarrow> memory \<Rightarrow> sectors \<Rightarrow> kernel \<Rightarrow> bool" where
  "power_on stack_top m dev k \<longleftrightarrow> ks k = boot_sched stack_top m \<and> fdisk (kf k) = dev \<and> next_fd (kf k) = 3"

text \<open>
  The states reached from the boot when every system call that is made satisfies \<open>allowed\<close>.  With
  \<open>\<lambda>_ _ _. True\<close> these are all the states of the machine.
\<close>

inductive running :: "(u32 \<Rightarrow> ctx_t \<Rightarrow> kernel \<Rightarrow> bool) \<Rightarrow> sectors \<Rightarrow> ctx_t \<times> kernel \<Rightarrow> bool" for allowed dev where
  boot: "kernel_handler_rst env entry_sh c k = Some st \<Longrightarrow> power_on stack_top m dev k \<Longrightarrow>
    length (gpr (ctx (fresh_pcb env))) = 13 \<Longrightarrow> running allowed dev st"
| step: "running allowed dev (c, k) \<Longrightarrow> machine_step ev (c, k) st' \<Longrightarrow> (\<And>n. ev = Ev_svc n \<Longrightarrow> allowed n c k) \<Longrightarrow>
    running allowed dev st'"

lemma running_mono:
  assumes "running allowed dev st" "\<And>n c k. allowed n c k \<Longrightarrow> allowed' n c k"
  shows "running allowed' dev st"
  using assms(1)
proof induction
  case (boot env entry_sh c k st stack_top m)
  then show ?case by (rule running.boot)
next
  case (step c k ev st')
  then show ?case using assms(2) by (intro running.step [OF step.IH]) auto
qed

lemma running_program: "running allowed dev (c, k) \<Longrightarrow> length (gpr c') = 13 \<Longrightarrow> running allowed dev (c', set_mem m k)"
  by (erule running.step, erule machine_step.program) simp

lemma running_svc:
  "running allowed dev (c, k) \<Longrightarrow> kernel_handler_svc env n c k = Some st \<Longrightarrow> allowed n c k \<Longrightarrow> running allowed dev st"
  by (cases st) (auto intro: running.step [OF _ machine_step.svc])

definition kernel_inv :: "sectors \<Rightarrow> ctx_t \<times> kernel \<Rightarrow> bool" where
  "kernel_inv dev st \<longleftrightarrow> sched_inv (ks (snd st)) \<and> length (gpr (fst st)) = 13 \<and> files_inv (kf (snd st))
     \<and> same_shape dev (fdisk (kf (snd st))) \<and> inspect_file_system dev = Some (ffs (kf (snd st)))"

lemma sched_inv_frame [simp]: "sched_inv (s\<lparr>uart0 := u\<rparr>) = sched_inv s" "sched_inv (s\<lparr>ram := m\<rparr>) = sched_inv s"
  by (simp_all add: sched_inv_def sched_wf_def)

lemma files_inv_files_of [simp]: "files_inv (files_of k) = files_inv (kf k)"
  by (simp add: files_inv_def)

lemma refines_parts_inv:
  assumes "refines_parts c k c' k'" "kernel_inv dev (c, k)"
  shows "kernel_inv dev (c', k')"
proof -
  obtain call s1 where s1: "kstep call (c, ks k) (c', s1)" "considerate_call call (ks k)" "ks k' = s1\<lparr>uart0 := uart0 (ks k')\<rparr>"
    using assms(1) by (auto simp: refines_parts_def)
  have "sched_inv s1 \<and> length (gpr c') = 13"
    using kstep_inv [OF s1(1)] s1(2) assms(2) by (simp add: kernel_inv_def)
  then have 1: "sched_inv (ks k')" "length (gpr c') = 13" using s1(3) by (metis sched_inv_frame(1), simp)
  have "kf k' = kf k \<or> fstep (files_of k) (files_of k')" using assms(1) by (simp add: refines_parts_def)
  then have "files_inv (kf k') \<and> same_shape (fdisk (kf k)) (fdisk (kf k')) \<and> ffs (kf k') = ffs (kf k)"
    using assms(2) fstep_keeps [of "files_of k" "files_of k'"] by (auto simp: kernel_inv_def geometry_kept_def)
  then show ?thesis using 1 assms(2) by (auto simp: kernel_inv_def intro: same_shape_trans)
qed

lemma machine_step_inv:
  assumes "machine_step ev (c, k) st'" "kernel_inv dev (c, k)" "\<And>n. ev = Ev_svc n \<Longrightarrow> considerate n c k"
  shows "kernel_inv dev st'"
  using assms(1)
proof cases
  case (svc env n c' k')
  then show ?thesis using svc_refines refines_parts_inv assms(2,3) by (simp add: kernel_inv_def) blast
next
  case (irq n c' k')
  then show ?thesis using irq_refines refines_parts_inv assms(2) by (simp add: kernel_inv_def) blast
qed (use assms(2) in \<open>simp_all add: kernel_inv_def\<close>)

text \<open>The reset handler.\<close>

lemma reg_fields [simp]:
  "ks (write_reg r v k) = ks k" "kf (write_reg r v k) = kf k" "ks (or_reg r v k) = ks k" "kf (or_reg r v k) = kf k"
  "kf (uart0_puts str n k) = kf k" "ks (uart0_puts str n k) = (ks k)\<lparr>uart0 := uart0 (ks k) @ puts str n\<rparr>"
  by (simp_all add: write_reg_def or_reg_def uart0_puts_def)

lemma files_of_puts [simp]: "files_of ((uart0_puts str n k)\<lparr>ks := s\<rparr>) = files_of (k\<lparr>ks := s\<rparr>)"
  by (simp add: files_of_def)

text \<open>The scheduler after \<^verbatim>\<open>scheduler_initialise\<close>: one process, the shell.\<close>

lemma initialise_eq:
  "scheduler_initialise fresh entry c s =
     (let sh = fresh\<lparr>pid := next_pid s, status := PROCESS_STATUS_RUNNING,
            ctx := (ctx fresh)\<lparr>cpsr := 0x50, pc := entry, sp := current_stack_break s\<rparr>\<rparr>
      in Some (ctx sh, s\<lparr>low_priority_queue := [next_pid s], high_priority_queue := [], events := [],
            process_list := [sh], next_pid := next_pid s + 1, current_stack_break := current_stack_break s - 2000,
            current_pid := next_pid s\<rparr>))"
  by (simp add: scheduler_initialise_def get_new_pid_def set_stack_break_def run_process_def find_process_def Let_def)

lemma initialised_inv:
  assumes "scheduler_initialise fresh entry c s = Some (c', s')" "next_pid s = 1" "length (gpr (ctx fresh)) = 13"
  shows "sched_inv s' \<and> length (gpr c') = 13 \<and> pids s' = [1] \<and> current_pid s' = 1 \<and> pc c' = entry"
  using assms
  by (auto simp: initialise_eq Let_def sched_inv_def sched_wf_def pids_def runnable_pids_def runnable_def)

lemma rst_parts:
  assumes "kernel_handler_rst env entry_sh c k = Some (c', k')"
  shows "\<exists>s f. scheduler_initialise (fresh_pcb env) entry_sh c (ks (uart0_puts (''Starting MalapropOS'' @ [CHR 0x0A]) 20 k)) = Some (c', s)
    \<and> file_initialise (low_memory env) (files_of (k\<lparr>ks := s\<rparr>)) = Some f \<and> kf k' = f \<and> ks k' = s\<lparr>uart0 := uart0 (ks k'), ram := kmem k'\<rparr>"
  using assms unfolding kernel_handler_rst_def Let_def by (auto split: bind_splits)

lemma rst_inv:
  assumes "kernel_handler_rst env entry_sh c k = Some (c', k')" "power_on stack_top m dev k"
    "length (gpr (ctx (fresh_pcb env))) = 13"
  shows "kernel_inv dev (c', k') \<and> pids (ks k') = [1] \<and> current_pid (ks k') = 1 \<and> pc c' = entry_sh \<and> open_files (kf k') = []"
proof -
  obtain s f where s: "scheduler_initialise (fresh_pcb env) entry_sh c
        (ks (uart0_puts (''Starting MalapropOS'' @ [CHR 0x0A]) 20 k)) = Some (c', s)"
    and f: "file_initialise (low_memory env) (files_of (k\<lparr>ks := s\<rparr>)) = Some f" "kf k' = f" and k': "ks k' = s\<lparr>uart0 := uart0 (ks k'), ram := kmem k'\<rparr>"
    using rst_parts [OF assms(1)] by blast
  have "sched_inv s \<and> length (gpr c') = 13 \<and> pids s = [1] \<and> current_pid s = 1 \<and> pc c' = entry_sh"
    using initialised_inv [OF s _ assms(3)] assms(2) by (simp add: power_on_def boot_sched_def)
  moreover have "files_inv f \<and> fdisk f = dev \<and> inspect_file_system dev = Some (ffs f) \<and> open_files f = []"
    using file_initialise_eq [OF f(1)] assms(2) by (simp add: power_on_def files_of_def files_inv_def)
  moreover have "sched_inv (ks k') = sched_inv s" "pids (ks k') = pids s" "current_pid (ks k') = current_pid s"
    by (subst k', simp)+
  ultimately show ?thesis using f(2) by (simp add: kernel_inv_def)
qed

lemma running_inv: "running considerate dev st \<Longrightarrow> kernel_inv dev st"
proof (induction rule: running.induct)
  case (boot env entry_sh c k st stack_top m)
  then show ?case using rst_inv by (cases st) blast
next
  case (step c k ev st')
  then show ?case using machine_step_inv by blast
qed

section \<open>Blocking\<close>

text \<open>
  \<^verbatim>\<open>scheduler_block_process\<close>: the caller is saved and blocked, and another process runs from its own
  saved context; only register 0 of that context may have been set, by the wake-up.
\<close>

lemma block_effect:
  assumes "sched_inv s" "length (gpr c) = 13" "scheduler_block_process c e s = Some (n, c', s')"
    "e \<noteq> blocked_event s"
  shows "n = from_process e" "current_pid s' \<noteq> current_pid s"
    "\<exists>y. find_process s' (current_pid s) = Some y \<and> ctx y = c \<and> status y = PROCESS_STATUS_BLOCKED \<and> blocked_until y = e"
    "\<exists>x v. find_process s (current_pid s') = Some x \<and> c' = set_r0 v (ctx x)"
proof -
  have wf: "sched_wf {} s" using assms(1) by (simp add: sched_inv_def)
  let ?p = "current_pid s" and ?b = "blocked_event s"
  define s4 where "s4 = scheduler_emit_event ?b (marked_blocked c e s)"
  note wf3 = sched_wf_marked_blocked [OF wf assms(2), of e]
  have wf4: "sched_wf {} s4" unfolding s4_def using wf3 by (rule sched_wf_emit)
  note run = block_process_run(1) [OF wf assms(2,3), folded s4_def]
  show "n = from_process e" by (rule block_process_run(2) [OF wf assms(2,3)])
  note low = scheduler_run_Some_low [OF wf4 run]
  note eff = scheduler_run_effect [OF wf4 low run] and rw = scheduler_run_wf [OF wf4 low assms(2) run]
  have cur4: "current_pid s4 = ?p" unfolding s4_def emit_fields(1) [OF wf3] by (simp add: marked_blocked_def saved_def)
  obtain y0 where y0: "find_process s ?p = Some y0" using current_found [OF wf] .
  define y where "y = y0\<lparr>ctx := c, blocked_until := e, status := PROCESS_STATUS_BLOCKED\<rparr>"
  have f3: "find_process (marked_blocked c e s) q = (if q = ?p then Some y else find_process s q)" for q
    using y0 by (auto simp: marked_blocked_def find_process_on_process saved_def y_def)
  have "\<not> waiting ?b y" using assms(4) by (cases e) (auto simp: waiting_def y_def blocked_event_def)
  then have f4: "find_process s4 q = (if q = ?p then Some y else map_option (wake ?b) (find_process s q))" for q
    unfolding s4_def find_process_wake [OF wf3] f3 by (simp add: wake_def)
  then have y: "find_process s' ?p = Some (y\<lparr>ctx := c\<rparr>)" using eff(1) cur4 by simp
  then show "\<exists>y. find_process s' ?p = Some y \<and> ctx y = c \<and> status y = PROCESS_STATUS_BLOCKED \<and> blocked_until y = e"
    by (simp add: y_def)
  have "current_pid s' \<in> runnable_pids s'" using sched_wfD(6) [OF rw(1)] rw(4) by auto
  moreover have "?p \<notin> runnable_pids s'"
    using runnable_pids_iff [OF sched_wfD(1) [OF rw(1)] y] by (simp add: runnable_def y_def)
  ultimately show ne: "current_pid s' \<noteq> ?p" by auto
  obtain z where z: "find_process s' (current_pid s') = Some z" using current_found [OF rw(1)] .
  then obtain x where x: "find_process s (current_pid s') = Some x" "z = wake ?b x"
    using eff(1) [of "current_pid s'"] f4 [of "current_pid s'"] ne cur4 by auto
  have "c' = ctx (wake ?b x)" using eff(2) z x(2) by (simp add: ctx_of_def)
  then have "c' = set_r0 (if waiting ?b x then from_process ?b else gpr (ctx x) ! 0) (ctx x)"
    by (cases "gpr (ctx x)") (auto simp: wake_def set_r0_def)
  then show "\<exists>x v. find_process s (current_pid s') = Some x \<and> c' = set_r0 v (ctx x)" using x(1) by blast
qed

lemma block_returns:
  assumes "sched_inv s" "length (gpr c) = 13" "q \<in> runnable_pids s" "q \<noteq> current_pid s"
  shows "\<exists>n c' s'. scheduler_block_process c e s = Some (n, c', s')"
proof -
  have wf: "sched_wf {} s" using assms(1) by (simp add: sched_inv_def)
  note wf3 = sched_wf_marked_blocked [OF wf assms(2), of e]
  have "q \<in> set (low_priority_queue s)" using assms(1,3) by (auto simp: sched_inv_def sched_wf_def)
  then have "q \<in> set (low_priority_queue (marked_blocked c e s))"
    using assms(4) by (simp add: marked_blocked_def remove_pid_def saved_def)
  then have "low_priority_queue (scheduler_emit_event (blocked_event s) (marked_blocked c e s)) \<noteq> []"
    using emit_fields(3) [OF wf3, of "blocked_event s"] by auto
  then show ?thesis by (simp add: block_process_eq [OF wf assms(2)] scheduler_run_eq [OF sched_wf_emit [OF wf3]])
qed

section \<open>Traps that return\<close>

lemma exec_returns: "sched_inv s \<Longrightarrow> \<exists>r. scheduler_exec c f a v s = Some r"
proof -
  assume "sched_inv s"
  then have wf: "sched_wf {} s" by (simp add: sched_inv_def)
  let ?c = "c\<lparr>pc := f, gpr := (gpr c)[0 := a, 1 := v]\<rparr>"
  have "save_current_process ?c s = Some (saved ?c s)"
    using sched_wfD(1,2) [OF wf] by (simp add: save_current_process_def saved_def modify_process_eq)
  then show ?thesis
    using sched_wfD(1,2) [OF wf] by (simp add: scheduler_exec_def Let_def saved_def modify_process_eq pids_on_process)
qed

lemma run_returns: "sched_inv s \<Longrightarrow> \<exists>r. scheduler_run c s = Some r"
  using scheduler_run_eq by (metis sched_inv_def empty_iff list.set(1))

section \<open>Traps that return to the caller\<close>

lemma set_priority_current: "current_pid (set_priority p n s) = current_pid s"
  by (simp add: set_priority_def add_pid_def remove_pid_def)

lemma emit_loop_current: "current_pid (snd (emit_loop e items s)) = current_pid s"
  by (induction e items s rule: emit_loop.induct) (auto simp: Let_def set_priority_current split: prod.splits)

lemma emit_current: "current_pid (scheduler_emit_event e s) = current_pid s"
  using emit_loop_current [of e "process_list s" "s\<lparr>events := events s @ [e]\<rparr>"] emit_loop_current [of e "process_list s" s]
  by (auto simp: scheduler_emit_event_def Let_def split: prod.splits)

lemma fork_current: "scheduler_fork fresh c a b s = Some (r, s') \<Longrightarrow> current_pid s' = current_pid s"
  by (auto simp: scheduler_fork_def get_new_pid_def set_stack_break_def Let_def emit_current set_priority_current
      split: if_splits bind_splits)

lemma setpriority_current: "scheduler_setpriority p n s = (r, s') \<Longrightarrow> current_pid s' = current_pid s"
  by (auto simp: scheduler_setpriority_def Let_def set_priority_current split: if_splits)

definition returns_to :: "ctx_t \<Rightarrow> kernel \<Rightarrow> ctx_t \<Rightarrow> kernel \<Rightarrow> bool" where
  "returns_to c k c' k' \<longleftrightarrow> current_pid (ks k') = current_pid (ks k) \<and> (c' = c \<or> (\<exists>v. c' = set_r0 v c))"

lemma returns_scheduler:
  "svc_fork env c k = Some (c', k') \<Longrightarrow> returns_to c k c' k'"
  "svc_setpriority c k = Some (c', k') \<Longrightarrow> returns_to c k c' k'"
  "svc_getpid c k = Some (c', k') \<Longrightarrow> returns_to c k c' k'"
  "svc_lprocs env c k = Some (c', k') \<Longrightarrow> returns_to c k c' k'"
  unfolding svc_fork_def svc_setpriority_def svc_getpid_def svc_lprocs_def returns_to_def
  by (auto dest: fork_current setpriority_current split: bind_splits prod.splits)

lemma returns_files:
  "svc_read c k = Some (c', k') \<Longrightarrow> returns_to c k c' k'"
  "svc_write c k = Some (c', k') \<Longrightarrow> returns_to c k c' k'"
  "svc_open c k = Some (c', k') \<Longrightarrow> returns_to c k c' k'"
  "svc_close c k = Some (c', k') \<Longrightarrow> returns_to c k c' k'"
  "svc_unlink c k = Some (c', k') \<Longrightarrow> returns_to c k c' k'"
  "svc_chdir c k = Some (c', k') \<Longrightarrow> returns_to c k c' k'"
  "svc_lseek c k = Some (c', k') \<Longrightarrow> returns_to c k c' k'"
  "svc_mkdir c k = Some (c', k') \<Longrightarrow> returns_to c k c' k'"
  unfolding svc_read_def svc_write_def svc_open_def svc_close_def svc_unlink_def svc_chdir_def svc_lseek_def
    svc_mkdir_def returns_to_def
  by (auto split: bind_splits prod.splits)

lemma returns_memory:
  "svc_stat c k = Some (c', k') \<Longrightarrow> returns_to c k c' k'"
  "svc_fstat c k = Some (c', k') \<Longrightarrow> returns_to c k c' k'"
  "svc_getdents env c k = Some (c', k') \<Longrightarrow> returns_to c k c' k'"
  "svc_getcwd c k = Some (c', k') \<Longrightarrow> returns_to c k c' k'"
  "svc_smessage env c k = Some (c', k') \<Longrightarrow> returns_to c k c' k'"
  "svc_rmessagefr env c k = Some (c', k') \<Longrightarrow> returns_to c k c' k'"
  "svc_rmessage env c k = Some (c', k') \<Longrightarrow> returns_to c k c' k'"
  unfolding svc_stat_def svc_fstat_def svc_getdents_def svc_getcwd_def svc_smessage_def svc_rmessagefr_def
    svc_rmessage_def returns_to_def
  by (auto split: bind_splits prod.splits)

text \<open>A waitpid that does not block, and a signal other than \<^verbatim>\<open>SIGKILL\<close>.\<close>

lemma returns_conditional:
  "svc_waitpid c k = Some (c', k') \<Longrightarrow> arg c 2 AND 1 \<noteq> 0 \<Longrightarrow> returns_to c k c' k'"
  "svc_kill env c k = Some (c', k') \<Longrightarrow> arg c 1 \<noteq> 9 \<Longrightarrow> returns_to c k c' k'"
  by (auto simp: svc_waitpid_def svc_kill_def returns_to_def Let_def)

section \<open>Timer interrupts with a PID that no process has\<close>

fun timer_irqs :: "ctx_t list \<Rightarrow> kernel \<Rightarrow> kernel option" where
  "timer_irqs [] k = Some k"
| "timer_irqs (c # cs) k = do { (_, k') \<leftarrow> kernel_handler_irq 36 c k; timer_irqs cs k' }"

lemma timer_irqs_None: "timer_irqs cs k = None \<longleftrightarrow> tick_all cs (ks k) = None"
proof (induction cs arbitrary: k)
  case (Cons c cs)
  then show ?case
    by (cases "scheduler_run c (ks k)") (auto simp: kernel_handler_irq_def write_reg_def split: bind_splits)
qed simp

lemma pids_update_first: "map pid (update_first P (\<lambda>p. p\<lparr>ctx := f p\<rparr>) xs) = map pid xs"
  by (induction xs) auto

lemma save_keeps:
  assumes "save_current_process c s = Some s'"
  shows "pids s' = pids s" "high_priority_queue s' = high_priority_queue s"
  using assms by (auto simp: save_current_process_def modify_process_def pids_def pids_update_first split: option.splits)

lemma save_run_keeps:
  assumes "save_current_process c s = Some s1" "run_process c p s1 = Some (c', s')"
  shows "map pid (process_list s') = map pid (process_list s) \<and> high_priority_queue s' = high_priority_queue s"
  using save_keeps [OF assms(1)] assms(2) by (auto simp: run_process_def pids_def split: option.splits)

lemma run_rotates_high:
  assumes "scheduler_run c s = Some (c', s')" "high_priority_queue s = h # hs"
  shows "pids s' = pids s \<and> high_priority_queue s' = hs @ [h]"
  using assms
  by (auto simp: scheduler_run_def get_next_process_def pids_def dest: save_run_keeps
      split: bind_splits if_splits list.splits)

lemma ghost_in_high_queue:
  "high_priority_queue s = hs @ p # rest \<Longrightarrow> p \<notin> set (pids s) \<Longrightarrow> p \<noteq> - 1 \<Longrightarrow> length hs < length cs \<Longrightarrow> tick_all cs s = None"
proof (induction cs arbitrary: s hs rest)
  case (Cons c cs)
  show ?case
  proof (cases hs)
    case Nil
    have "find_process s' p = None" if "save_current_process c (s\<lparr>high_priority_queue := rest @ [p]\<rparr>) = Some s'" for s'
      using save_keeps(1) [OF that] Cons.prems(2) by (simp add: find_process_None pids_def)
    then have "scheduler_run c s = None"
      using Cons.prems(1,3) Nil by (auto simp: scheduler_run_def get_next_process_def run_process_def split: bind_splits)
    then show ?thesis by simp
  next
    case (Cons h hs')
    have "tick_all cs s' = None" if "scheduler_run c s = Some (c', s')" for c' s'
      using run_rotates_high [OF that, of h "hs' @ p # rest"] Cons Cons.IH [of s' hs' "rest @ [h]"] Cons.prems by simp
    then show ?thesis by (auto split: bind_splits)
  qed
qed simp

section \<open>Typed characters\<close>

fun uart_irqs :: "nat \<Rightarrow> ctx_t \<Rightarrow> kernel \<Rightarrow> kernel option" where
  "uart_irqs 0 c k = Some k"
| "uart_irqs (Suc n) c k = do { (_, k') \<leftarrow> kernel_handler_irq 44 c k; uart_irqs n c k' }"

lemma uart_irqs_queue:
  "uart0_rx k = cs @ rest \<Longrightarrow> \<exists>k'. uart_irqs (length cs) c k = Some k' \<and> uart0_rx k' = rest \<and> ks k' = ks k
     \<and> kf k' = (kf k)\<lparr>stdin_buffer := stdin_buffer (kf k) @ cs\<rparr>"
proof (induction cs arbitrary: k)
  case (Cons ch cs)
  obtain k1 where k1: "kernel_handler_irq 44 c k = Some (c, k1)" "uart0_rx k1 = cs @ rest" "ks k1 = ks k"
      "kf k1 = (kf k)\<lparr>stdin_buffer := stdin_buffer (kf k) @ [ch]\<rparr>"
    using Cons.prems by (auto simp: kernel_handler_irq_def write_reg_def)
  then show ?case using Cons.IH [OF k1(2)] by auto
qed simp

lemma pop_chars_eq: "pop_chars n q = (take n q @ replicate (n - length q) EOF, drop n q)"
  by (induction n q rule: pop_chars.induct) (auto simp: Let_def split: prod.splits)

lemma bytes_at_store: "length bs \<le> 4294967295 \<Longrightarrow> bytes_at (store_bytes a bs m) a (length bs) = bs"
  by (rule nth_equalityI) (simp_all add: bytes_at_def store_bytes_def unat_of_nat)

section \<open>Properties\<close>

text \<open>
  C1: in every state of the running system that programs can bring about with \<open>considerate\<close> calls - priorities
  0 and 1 set only for processes that can run, and fewer than $2^{31}$ forks and opens; every other call is
  unrestricted, with any arguments - the run queue holds exactly the runnable processes once each, the running
  process is one of them, PIDs are distinct, file descriptors are distinct and none is a standard
  stream, the disk keeps its number and sizes of sectors, and the geometry is that of its boot sector.
\<close>

theorem machine_invariant:
  assumes "running considerate dev (c, k)"
  shows "set (low_priority_queue (ks k)) = runnable_pids (ks k) \<and> distinct (low_priority_queue (ks k))
    \<and> current_pid (ks k) \<in> runnable_pids (ks k) \<and> distinct (pids (ks k))
    \<and> distinct (map fd (open_files (kf k))) \<and> (\<forall>f \<in> set (open_files (kf k)). 3 \<le> sint (fd f))
    \<and> map length (fdisk (kf k)) = map length dev \<and> inspect_file_system dev = Some (ffs (kf k))"
  using running_inv [OF assms]
  by (auto simp: kernel_inv_def sched_inv_def sched_wf_def files_inv_def same_shape_def)

text \<open>
  C2: the kernel does not check the PID given to \<^verbatim>\<open>setpriority\<close>.  From any state of the system, one call
  \<^verbatim>\<open>setpriority(p, _, 0)\<close> for a PID that no process has (other than -1) returns 0, and leaves in the run queues a
  PID with no process behind it: as soon as one more timer interrupt has come than the high priority
  queue had entries, the scheduler dereferences NULL.
\<close>

theorem setpriority_unchecked_faults:
  assumes "running considerate dev (c, k)" "arg c 0 \<notin> set (pids (ks k))" "arg c 0 \<noteq> - 1" "arg c 2 = 0"
    "length (high_priority_queue (ks k)) < length cs"
  shows "\<exists>k'. kernel_handler_svc env 97 c k = Some (set_r0 0 c, k') \<and> running (\<lambda>_ _ _. True) dev (set_r0 0 c, k')
    \<and> \<not> considerate 97 c k \<and> set (low_priority_queue (ks k')) \<noteq> runnable_pids (ks k') \<and> timer_irqs cs k' = None"
proof -
  define s where "s = set_priority (arg c 0) 0 (ks k)"
  have svc: "kernel_handler_svc env 97 c k = Some (set_r0 0 c, k\<lparr>ks := s\<rparr>)"
    using assms(4) by (simp add: kernel_handler_svc_def svc_setpriority_def scheduler_setpriority_def s_def)
  have "running (\<lambda>_ _ _. True) dev (set_r0 0 c, k\<lparr>ks := s\<rparr>)"
    using running_svc [OF running_mono [OF assms(1), of "\<lambda>_ _ _. True"] svc] by simp
  moreover have no: "arg c 0 \<notin> runnable_pids (ks k)" using assms(2) runnable_pids_subset by blast
  then have "\<not> considerate 97 c k" using assms(4) by (simp add: considerate_def)
  moreover have "arg c 0 \<in> set (low_priority_queue s)" "runnable_pids s = runnable_pids (ks k)" "pids s = pids (ks k)"
      "high_priority_queue s = filter (\<lambda>q. q \<noteq> arg c 0) (high_priority_queue (ks k)) @ [arg c 0]"
    by (simp_all add: s_def set_priority_0)
  moreover from this have "timer_irqs cs (k\<lparr>ks := s\<rparr>) = None"
    using ghost_in_high_queue [of s _ "arg c 0" "[]" cs] assms(2,3,5)
      le_less_trans [OF length_filter_le assms(5)] by (simp add: timer_irqs_None)
  ultimately show ?thesis using svc no by (intro exI [of _ "k\<lparr>ks := s\<rparr>"]) auto
qed

text \<open>
  C24: calls that always return.  In every state of the running system that \<open>considerate\<close> programs reach
  (one inconsiderate \<^verbatim>\<open>setpriority\<close> is enough for the timer interrupt not to return) a timer interrupt, \<^verbatim>\<open>yield\<close>, \<^verbatim>\<open>fork\<close>, \<^verbatim>\<open>exec\<close>, \<^verbatim>\<open>getpid\<close>, \<^verbatim>\<open>setpriority\<close>, \<^verbatim>\<open>close\<close>, \<^verbatim>\<open>lseek\<close>, \<^verbatim>\<open>fstat\<close>, \<^verbatim>\<open>getcwd\<close>, both
  receives and \<^verbatim>\<open>lprocs\<close> return, a \<^verbatim>\<open>waitpid\<close> with \<^verbatim>\<open>WAITPID_NOHANG\<close> returns, and an unknown call changes nothing.
\<close>

theorem traps_return:
  assumes "running considerate dev (c, k)"
  shows "kernel_handler_irq 36 c k \<noteq> None
    \<and> (n \<in> {2, 6, 19, 20, 28, 97, 158, 183, 1000, 1002, 1003, 1004} \<longrightarrow> kernel_handler_svc env n c k \<noteq> None)
    \<and> (arg c 2 AND 1 \<noteq> 0 \<longrightarrow> kernel_handler_svc env 7 c k \<noteq> None)
    \<and> (n \<notin> {0, 2, 3, 4, 5, 6, 7, 10, 12, 18, 19, 20, 28, 37, 39, 97, 141, 158, 183, 1000, 1001, 1002, 1003, 1004} \<longrightarrow>
         kernel_handler_svc env n c k = Some (c, k))"
proof -
  have inv: "sched_inv (ks k)" using running_inv [OF assms] by (simp add: kernel_inv_def)
  obtain x where "find_process (ks k) (current_pid (ks k)) = Some x"
    using current_found [of "{}" "ks k"] inv by (auto simp: sched_inv_def)
  then have fork: "\<exists>r. scheduler_fork (fresh_pcb env) c (arg c 0) (arg c 1) (ks k) = Some r"
    using scheduler_fork_eq inv by (metis sched_inv_def)
  note some = run_returns [OF inv, of c] exec_returns [OF inv, of c "arg c 0" "arg c 1" "arg c 2"] fork
  have "kernel_handler_svc env n c k \<noteq> None" if "n \<in> {2, 6, 19, 20, 28, 97, 158, 183, 1000, 1002, 1003, 1004}"
    using that some unfolding kernel_handler_svc_def
    by (auto simp: svc_fork_def svc_close_def svc_lseek_def svc_getpid_def svc_fstat_def svc_setpriority_def
        svc_yield_def svc_getcwd_def svc_exec_def svc_rmessagefr_def svc_rmessage_def svc_lprocs_def Let_def split: prod.split)
  then show ?thesis
    using some(1) by (auto simp: kernel_handler_irq_def kernel_handler_svc_def svc_waitpid_def Let_def)
qed

text \<open>
  C23: returning to the caller.  Every system call but \<^verbatim>\<open>exit\<close>, \<^verbatim>\<open>yield\<close>, a \<^verbatim>\<open>waitpid\<close> that blocks and a kill with
  \<^verbatim>\<open>SIGKILL\<close>, which may switch to another process, and \<^verbatim>\<open>exec\<close>, which replaces the registers, returns to its
  caller: the process stays the current one and its registers are unchanged but for the result in r0.
  This includes a \<^verbatim>\<open>waitpid\<close> with \<^verbatim>\<open>WAITPID_NOHANG\<close>, a kill with any other signal and unknown calls.
\<close>

theorem calls_return_to_caller:
  assumes "kernel_handler_svc env n c k = Some (c', k')" "n \<notin> {0, 158, 1000}"
    "n = 7 \<longrightarrow> arg c 2 AND 1 \<noteq> 0" "n = 37 \<longrightarrow> arg c 1 \<noteq> 9"
  shows "current_pid (ks k') = current_pid (ks k) \<and> (c' = c \<or> (\<exists>v. c' = set_r0 v c))"
proof -
  consider "n = 7" | "n = 37" | "n \<noteq> 0" "n \<noteq> 7" "n \<noteq> 37" "n \<noteq> 158" "n \<noteq> 1000" using assms(2) by blast
  then have "returns_to c k c' k'"
  proof cases
    case 1
    then show ?thesis using assms(1,3) returns_conditional(1) by (simp add: kernel_handler_svc_def)
  next
    case 2
    then show ?thesis using assms(1,4) returns_conditional(2) by (simp add: kernel_handler_svc_def)
  next
    case 3
    with assms(1) show ?thesis
      unfolding kernel_handler_svc_def
      by (elim if_eqE) (simp; fail | erule returns_scheduler returns_files returns_memory | simp add: returns_to_def)+
  qed
  then show ?thesis by (simp add: returns_to_def)
qed

text \<open>
  C25: a \<^verbatim>\<open>waitpid\<close> without \<^verbatim>\<open>WAITPID_NOHANG\<close> for any event but the caller's own being blocked always blocks the caller, even when the
  event has already happened, and returns from the trap whenever another process can run.  Its result is stored in
  the frame of the process it switched to: that process resumes with its own registers except
  r0, which holds the PID the caller waits for.
\<close>

theorem blocking_wait_overwrites_r0:
  assumes "running considerate dev (c, k)" "arg c 2 AND 1 = 0" "(arg c 0, arg c 1) \<noteq> (4, current_pid (ks k))"
    "q \<in> runnable_pids (ks k)" "q \<noteq> current_pid (ks k)"
  shows "\<exists>c' k'. kernel_handler_svc env 7 c k = Some (c', k') \<and> current_pid (ks k') \<noteq> current_pid (ks k)
    \<and> (\<exists>x. find_process (ks k) (current_pid (ks k')) = Some x \<and> c' = set_r0 (arg c 1) (ctx x))
    \<and> (\<exists>y. find_process (ks k') (current_pid (ks k)) = Some y \<and> ctx y = c \<and> status y = PROCESS_STATUS_BLOCKED)"
proof -
  have inv: "sched_inv (ks k)" "length (gpr c) = 13" using running_inv [OF assms(1)] by (simp_all add: kernel_inv_def)
  define e where "e = \<lparr>event = arg c 0, from_process = arg c 1\<rparr>"
  obtain n c1 s where b: "scheduler_block_process c e (ks k) = Some (n, c1, s)"
    using block_returns [OF inv assms(4,5)] by blast
  then have call: "kernel_handler_svc env 7 c k = Some (set_r0 n c1, k\<lparr>ks := s\<rparr>)"
    using assms(2) by (simp add: kernel_handler_svc_def svc_waitpid_def e_def)
  have "e \<noteq> blocked_event (ks k)" using assms(3) by (auto simp: e_def blocked_event_def)
  note eff = block_effect [OF inv b this]
  obtain x v where x: "find_process (ks k) (current_pid s) = Some x" "c1 = set_r0 v (ctx x)" using eff(4) by blast
  then have "set_r0 n c1 = set_r0 (arg c 1) (ctx x)" using eff(1) by (simp add: set_r0_def e_def)
  then show ?thesis using call x(1) eff(2,3) by auto
qed

text \<open>
  Typed characters.  When the characters \<open>cs\<close> have been received on UART0 and each has raised its interrupt,
  a \<^verbatim>\<open>read\<close> of \<open>n\<close> bytes from standard input stores the first \<open>n\<close> of those not read before, in
  the order they were typed, and EOF for each one that is missing.
\<close>

lemma typed_characters_are_read:
  assumes "uart0_rx k = cs @ rest" "stdin_buffer (kf k) = old" "arg c 0 = 0" "length (gpr c) = 13"
  shows "\<exists>k1 c2 k2. uart_irqs (length cs) c0 k = Some k1 \<and> kernel_handler_svc env 3 c k1 = Some (c2, k2)
    \<and> c2 = set_r0 (arg c 2) c
    \<and> bytes_at (kmem k2) (arg c 1) (unat (arg c 2))
        = take (unat (arg c 2)) (old @ cs) @ replicate (unat (arg c 2) - length (old @ cs)) EOF
    \<and> stdin_buffer (kf k2) = drop (unat (arg c 2)) (old @ cs) \<and> uart0_rx k2 = rest"
proof -
  obtain k1 where k1: "uart_irqs (length cs) c0 k = Some k1" "uart0_rx k1 = rest" "ks k1 = ks k"
      "kf k1 = (kf k)\<lparr>stdin_buffer := old @ cs\<rparr>"
    using uart_irqs_queue [OF assms(1)] assms(2) by auto
  define n where "n = unat (arg c 2)"
  define bs where "bs = take n (old @ cs) @ replicate (n - length (old @ cs)) EOF"
  define k2 where "k2 = set_mem (store_bytes (arg c 1) bs (kmem k1))
    (set_files ((files_of k1)\<lparr>stdin_buffer := drop n (old @ cs)\<rparr>) k1)"
  have "kernel_handler_svc env 3 c k1 = Some (set_r0 (arg c 2) c, k2)"
    using assms(3) k1(4) by (simp add: kernel_handler_svc_def svc_read_def sys_read_def pop_chars_eq k2_def n_def bs_def Let_def)
  moreover have len: "length bs = n" by (simp add: bs_def)
  have "n \<le> 4294967295" using unat_u32_less [of "arg c 2"] by (simp add: n_def)
  then have "bytes_at (store_bytes (arg c 1) bs m) (arg c 1) n = bs" for m
    using bytes_at_store [of bs "arg c 1" m] unfolding len by simp
  then have "bytes_at (kmem k2) (arg c 1) n = bs" by (simp add: k2_def)
  moreover have "stdin_buffer (kf k2) = drop n (old @ cs)" "uart0_rx k2 = rest"
    using k1(2) by (simp_all add: k2_def set_mem_def set_files_def)
  ultimately show ?thesis using k1(1) unfolding n_def bs_def by blast
qed

section \<open>The boot\<close>

lemma reg_values [simp]:
  "regs (write_reg r v k) = (regs k)(r := v)" "regs (or_reg r v k) = (regs k)(r := regs k r OR v)"
  "regs (uart0_puts str n k) = regs k" "regs (set_files f k) = regs k" "regs (set_ipc st k) = regs k"
  "kmessages (write_reg r v k) = kmessages k" "kmessages (or_reg r v k) = kmessages k"
  "kmessages (uart0_puts str n k) = kmessages k" "kmessages (set_ipc st k) = messages st"
  by (simp_all add: write_reg_def or_reg_def uart0_puts_def set_files_def set_ipc_def set_mem_def)

lemma file_initialise_returns:
  assumes "fdisk s = b # dev'" "length b = 512" low
  shows "\<exists>s'. file_initialise low s = Some s'"
  using assms by (simp add: file_initialise_def inspect_file_system_def fs_rd_def sys_chdir_def Let_def)

lemma ipc_initialise_returns:
  "fst (stdmem_allocate lo hi (heap_break st) 8) \<noteq> 0 \<Longrightarrow> \<exists>st'. ipc_initialise lo hi st = Some st' \<and> messages st' = []"
  by (cases "stdmem_allocate lo hi (heap_break st) 8") (simp add: ipc_initialise_def)

lemma rst_returns:
  assumes "power_on stack_top m (b # dev) k" "length b = 512"
    "fst (stdmem_allocate (heap_low env) (heap_top env) (heap_brk env) 8) \<noteq> 0"
    "low_memory env"
  shows "\<exists>c' k'. kernel_handler_rst env entry_sh c k = Some (c', k')"
proof -
  let ?k1 = "uart0_puts (''Starting MalapropOS'' @ [CHR 0x0A]) 20 k"
  obtain c1 s where s: "scheduler_initialise (fresh_pcb env) entry_sh c (ks ?k1) = Some (c1, s)"
    by (simp add: initialise_eq Let_def)
  have "fdisk (files_of (?k1\<lparr>ks := s\<rparr>)) = b # dev" using assms(1) by (simp add: power_on_def)
  then obtain f where f: "file_initialise (low_memory env) (files_of (?k1\<lparr>ks := s\<rparr>)) = Some f"
    using file_initialise_returns [OF _ assms(2,4)] by blast
  obtain st where "ipc_initialise (heap_low env) (heap_top env) (ipc_of env (set_files f (?k1\<lparr>ks := s\<rparr>))) = Some st"
    using ipc_initialise_returns [of "heap_low env" "heap_top env" "ipc_of env (set_files f (?k1\<lparr>ks := s\<rparr>))"] assms(3)
    by (auto simp: ipc_of_def)
  then show ?thesis using s f by (simp add: kernel_handler_rst_def Let_def)
qed

text \<open>The device registers and the message table after the reset handler.\<close>

lemma rst_devices:
  assumes "kernel_handler_rst env entry_sh c k = Some (c', k')"
  shows "kmessages k' = [] \<and> irq_on k' \<and> regs k' TIMER0_Load = 0x100000 \<and> regs k' TIMER0_Ctrl = 0xE2 \<and> regs k' UART0_CR = 0x301
    \<and> bit (regs k' UART0_IMSC) 4 \<and> bit (regs k' GICD0_ISENABLER1) 4 \<and> bit (regs k' GICD0_ISENABLER1) 12
    \<and> regs k' UART1_CR = 0x301 \<and> regs k' GICC0_PMR = 0xF0 \<and> regs k' GICC0_CTLR = 1 \<and> regs k' GICD0_CTLR = 1"
  using assms by (auto simp: kernel_handler_rst_def Let_def bit_or_iff ipc_initialise_def uart0_puts_def split: bind_splits prod.splits if_splits)

text \<open>
  C3: the reset handler returns and leaves a running system.  With a disk whose first sector has 512
  bytes, room for 8 bytes on the heap and memory at address 0 (the table of open files is set up
  through a NULL pointer), the shell is process 1 and the only one, it starts at its entry point in
  user mode on its own stack, no file is open and no message waits; the timer is loaded and enabled as a
  periodic interrupt source; both UARTs are on, with the receive interrupt of UART0 unmasked; and the interrupt
  controller has the timer and UART0 enabled, the priority mask set, and its interface and distributor on.
\<close>

theorem kernel_boots:
  assumes "power_on stack_top m (b # dev) k" "length b = 512" "length (gpr (ctx (fresh_pcb env))) = 13"
    "fst (stdmem_allocate (heap_low env) (heap_top env) (heap_brk env) 8) \<noteq> 0" "low_memory env"
  shows "\<exists>c' k'. kernel_handler_rst env entry_sh c k = Some (c', k') \<and> running considerate (b # dev) (c', k')
    \<and> pids (ks k') = [1] \<and> current_pid (ks k') = 1 \<and> pc c' = entry_sh \<and> cpsr c' = 0x50 \<and> sp c' = stack_top
    \<and> open_files (kf k') = [] \<and> kmessages k' = [] \<and> irq_on k'
    \<and> regs k' TIMER0_Load = 0x100000 \<and> regs k' TIMER0_Ctrl = 0xE2
    \<and> regs k' UART0_CR = 0x301 \<and> regs k' UART1_CR = 0x301 \<and> bit (regs k' UART0_IMSC) 4
    \<and> bit (regs k' GICD0_ISENABLER1) 4 \<and> bit (regs k' GICD0_ISENABLER1) 12
    \<and> regs k' GICC0_PMR = 0xF0 \<and> regs k' GICC0_CTLR = 1 \<and> regs k' GICD0_CTLR = 1"
proof -
  obtain c' k' where k': "kernel_handler_rst env entry_sh c k = Some (c', k')"
    using rst_returns [OF assms(1,2,4,5)] by blast
  then have "cpsr c' = 0x50 \<and> sp c' = stack_top"
    using rst_parts [OF k'] assms(1) by (auto simp: initialise_eq Let_def power_on_def boot_sched_def)
  then show ?thesis
    using k' rst_devices [OF k'] rst_inv [OF k' assms(1,3)] running.boot [OF k' assms(1,3)] by blast
qed

section \<open>A booted machine\<close>

definition demo_env :: kenv where
  "demo_env = \<lparr>heap_low = 0x10000, heap_top = 0x20000, heap_brk = 0x10000, fresh_pcb = demo_pcb 0 0,
     result_block = 0x10000, unassigned = 0, low_memory = True\<rparr>"

definition demo_power_on :: kernel where
  "demo_power_on = \<lparr>ks = boot_sched 0x8000 (\<lambda>_. 0), kf = demo_files\<lparr>next_fd := 3\<rparr>, kmessages = [], regs = (\<lambda>_. 0),
     irq_on = False, uart0_rx = []\<rparr>"

lemma demo_power_on:
  "power_on 0x8000 (\<lambda>_. 0) demo_dev demo_power_on" "demo_dev = hd demo_dev # tl demo_dev" "length (hd demo_dev) = 512"
  "length (gpr (ctx (fresh_pcb demo_env))) = 13"
  "fst (stdmem_allocate (heap_low demo_env) (heap_top demo_env) (heap_brk demo_env) 8) \<noteq> 0" "low_memory demo_env"
  by (simp_all add: power_on_def demo_power_on_def demo_files_def demo_dev_def demo_env_def demo_pcb_def demo_inv(2)
      stdmem_allocate_def sbrk_def Let_def)

lemma demo_booted:
  "\<exists>c k. running considerate demo_dev (c, k) \<and> pids (ks k) = [1] \<and> current_pid (ks k) = 1 \<and> next_pid (ks k) = 2"
proof -
  obtain c k where r: "kernel_handler_rst demo_env 0x100 (demo_ctx 0) demo_power_on = Some (c, k)"
    using rst_returns [of "0x8000" "\<lambda>_. 0" "hd demo_dev" "tl demo_dev"] demo_power_on by metis
  obtain s where s: "scheduler_initialise (fresh_pcb demo_env) 0x100 (demo_ctx 0)
      (ks (uart0_puts (''Starting MalapropOS'' @ [CHR 0x0A]) 20 demo_power_on)) = Some (c, s)"
    "ks k = s\<lparr>uart0 := uart0 (ks k), ram := kmem k\<rparr>" using rst_parts [OF r] by blast
  have "next_pid s = 2" using s(1) by (auto simp: initialise_eq Let_def demo_power_on_def boot_sched_def)
  then have "next_pid (ks k) = 2" by (subst s(2)) simp
  then show ?thesis
    using rst_inv [OF r demo_power_on(1,4)] running.boot [OF r demo_power_on(1,4)] by blast
qed

text \<open>After a fork, and with the registers the parent chooses: two runnable processes.\<close>

lemma demo_forked:
  assumes "length (gpr c) = 13"
  shows "\<exists>k. running considerate demo_dev (c, k) \<and> current_pid (ks k) = 1 \<and> {1, 2} \<subseteq> runnable_pids (ks k)"
proof -
  obtain c0 k0 where r0: "running considerate demo_dev (c0, k0)" "pids (ks k0) = [1]" "current_pid (ks k0) = 1" "next_pid (ks k0) = 2"
    using demo_booted by blast
  have inv: "sched_inv (ks k0)" "length (gpr c0) = 13" using running_inv [OF r0(1)] by (simp_all add: kernel_inv_def)
  have wf: "sched_wf {} (ks k0)" using inv by (simp add: sched_inv_def)
  obtain x where x: "find_process (ks k0) 1 = Some x" using current_found [OF wf] r0(3) by auto
  define s where "s = scheduler_emit_event \<lparr>event = PROCESS_EVENT_CREATED, from_process = 2\<rparr>
    (forked c0 (arg c0 0) (arg c0 1) (ks k0) x)"
  have f: "scheduler_fork (fresh_pcb demo_env) c0 (arg c0 0) (arg c0 1) (ks k0) = Some (2, s)"
    using scheduler_fork_eq [OF wf, of x] x r0 by (simp add: s_def)
  then have "kernel_handler_svc demo_env 2 c0 k0 = Some (set_r0 2 c0, k0\<lparr>ks := s\<rparr>)"
    by (simp add: kernel_handler_svc_def svc_fork_def)
  moreover have "considerate 2 c0 k0" using r0(4) by (simp add: considerate_def)
  ultimately have "running considerate demo_dev (set_r0 2 c0, k0\<lparr>ks := s\<rparr>)" using running_svc [OF r0(1)] by blast
  then have r: "running considerate demo_dev (c, set_mem (ram s) (k0\<lparr>ks := s\<rparr>))"
    using running_program assms by blast
  have wff: "sched_wf {} (forked c0 (arg c0 0) (arg c0 1) (ks k0) x)" using sched_wf_forked [OF wf] x r0 inv by simp
  have "2 \<in> runnable_pids s"
    unfolding s_def runnable_pids_emit [OF wff] using r0(4) by (simp add: forked_def runnable_pids_def runnable_def forked_pcb_def)
  moreover have "current_pid s = 1" using fork_current [OF f] r0(3) by simp
  moreover have "current_pid s \<in> runnable_pids s"
    using running_inv [OF r] by (auto simp: kernel_inv_def sched_inv_def sched_wf_def set_mem_def)
  ultimately show ?thesis using r by (intro exI [of _ "set_mem (ram s) (k0\<lparr>ks := s\<rparr>)"]) (simp add: set_mem_def)
qed

theorem kernel_boots_witness:
  "\<exists>c' k'. kernel_handler_rst demo_env 0x100 (demo_ctx 0) demo_power_on = Some (c', k') \<and> running considerate demo_dev (c', k')
     \<and> pids (ks k') = [1] \<and> pc c' = 0x100 \<and> sp c' = 0x8000 \<and> regs k' TIMER0_Ctrl = 0xE2 \<and> regs k' GICD0_CTLR = 1"
  using kernel_boots [of "0x8000" "\<lambda>_. 0" "hd demo_dev" "tl demo_dev" demo_power_on demo_env "0x100" "demo_ctx 0"] demo_power_on
  by (metis demo_power_on)

theorem machine_invariant_witness:
  "\<exists>c k. running considerate demo_dev (c, k) \<and> runnable_pids (ks k) \<supseteq> {1, 2} \<and> set (low_priority_queue (ks k)) = runnable_pids (ks k)
     \<and> map length (fdisk (kf k)) = map length demo_dev"
proof -
  obtain k where "running considerate demo_dev (demo_ctx 0, k)" "{1, 2} \<subseteq> runnable_pids (ks k)" using demo_forked [OF demo_inv(2)] by blast
  then show ?thesis using machine_invariant by blast
qed

theorem setpriority_unchecked_faults_witness:
  "\<exists>c k k'. running considerate demo_dev (c, k) \<and> arg c 0 = 99 \<and> kernel_handler_svc demo_env 97 c k = Some (set_r0 0 c, k')
     \<and> timer_irqs (replicate (Suc (length (high_priority_queue (ks k)))) c) k' = None"
proof -
  define c where "c = (demo_ctx 0)\<lparr>gpr := 99 # 0 # 0 # replicate 10 0\<rparr>"
  have c: "length (gpr c) = 13" "arg c 0 = 99" "arg c 2 = 0" by (simp_all add: c_def)
  obtain c0 k0 where r0: "running considerate demo_dev (c0, k0)" "pids (ks k0) = [1]" using demo_booted by blast
  define k where "k = set_mem (kmem k0) k0"
  have "running considerate demo_dev (c, k)" "pids (ks k) = [1]"
    using running_program [OF r0(1) c(1)] r0(2) by (simp_all add: k_def pids_def)
  then show ?thesis
    using setpriority_unchecked_faults [of demo_dev c k "replicate (Suc (length (high_priority_queue (ks k)))) c" demo_env] c
    by fastforce
qed

theorem traps_return_witness:
  "\<exists>c k. running considerate demo_dev (c, k) \<and> kernel_handler_irq 36 c k \<noteq> None \<and> kernel_handler_svc demo_env 1002 c k \<noteq> None
     \<and> kernel_handler_svc demo_env 8 c k = Some (c, k)"
proof -
  obtain k where k: "running considerate demo_dev (demo_ctx 0, k)" using demo_forked [OF demo_inv(2)] by blast
  show ?thesis using k traps_return [OF k, of 1002 demo_env] traps_return [OF k, of 8 demo_env] by auto
qed

theorem calls_return_to_caller_witness:
  "\<exists>c k c' k'. kernel_handler_svc demo_env 37 c k = Some (c', k') \<and> arg c 1 = 1 \<and> current_pid (ks k') = current_pid (ks k)
     \<and> (c' = c \<or> (\<exists>v. c' = set_r0 v c))"
proof -
  have "kernel_handler_svc demo_env 37 (demo_ctx 0) demo_power_on = Some (set_r0 0 (demo_ctx 0), demo_power_on)"
    by (simp add: kernel_handler_svc_def svc_kill_def demo_ctx_def demo_env_def)
  then show ?thesis
    using calls_return_to_caller [of demo_env 37 "demo_ctx 0" demo_power_on]
    by (intro exI [of _ "demo_ctx 0"] exI [of _ demo_power_on] exI conjI) (assumption, auto simp: demo_ctx_def)
qed

theorem blocking_wait_overwrites_r0_witness:
  "\<exists>c k c' k' x. running considerate demo_dev (c, k) \<and> kernel_handler_svc demo_env 7 c k = Some (c', k')
     \<and> current_pid (ks k') \<noteq> 1 \<and> find_process (ks k) (current_pid (ks k')) = Some x \<and> c' = set_r0 2 (ctx x)"
proof -
  define c where "c = (demo_ctx 0)\<lparr>gpr := 1 # 2 # 0 # replicate 10 0\<rparr>"
  have c: "length (gpr c) = 13" "arg c 0 = 1" "arg c 1 = 2" "arg c 2 = 0" by (simp_all add: c_def)
  obtain k where k: "running considerate demo_dev (c, k)" "current_pid (ks k) = 1" "2 \<in> runnable_pids (ks k)"
    using demo_forked [OF c(1)] by auto
  then obtain c' k' x where "kernel_handler_svc demo_env 7 c k = Some (c', k')" "current_pid (ks k') \<noteq> 1"
      "find_process (ks k) (current_pid (ks k')) = Some x" "c' = set_r0 2 (ctx x)"
    using blocking_wait_overwrites_r0 [OF k(1) _ _ k(3), of demo_env] c by auto
  then show ?thesis using k(1) by blast
qed

lemma typed_characters_are_read_witness:
  "\<exists>k1 c2 k2. uart_irqs 2 (demo_ctx 0) (demo_power_on\<lparr>uart0_rx := [104, 105]\<rparr>) = Some k1
     \<and> kernel_handler_svc demo_env 3 (demo_ctx 0) k1 = Some (c2, k2)
     \<and> bytes_at (kmem k2) 1 2 = [104, 105] \<and> stdin_buffer (kf k2) = []"
proof -
  let ?k = "demo_power_on\<lparr>uart0_rx := [104, 105]\<rparr>" and ?c = "demo_ctx 0"
  have c: "arg ?c 0 = 0" "arg ?c 1 = 1" "arg ?c 2 = 2" "length (gpr ?c) = 13" by (simp_all add: demo_ctx_def)
  have k: "uart0_rx ?k = [104, 105] @ []" "stdin_buffer (kf ?k) = []" by (simp_all add: demo_power_on_def demo_files_def)
  obtain k1 c2 k2 where r: "uart_irqs (length ([104, 105] :: u8 list)) ?c ?k = Some k1" "kernel_handler_svc demo_env 3 ?c k1 = Some (c2, k2)"
      "bytes_at (kmem k2) (arg ?c 1) (unat (arg ?c 2)) = take (unat (arg ?c 2)) ([] @ [104, 105])
         @ replicate (unat (arg ?c 2) - length ([] @ [104, 105 :: u8])) EOF"
      "stdin_buffer (kf k2) = drop (unat (arg ?c 2)) ([] @ [104, 105])"
    using typed_characters_are_read [OF k c(1,4), of ?c demo_env] by blast
  have "length ([104, 105] :: u8 list) = 2" "unat (2 :: u32) = 2" by simp_all
  with r have "uart_irqs 2 ?c ?k = Some k1" "bytes_at (kmem k2) 1 2 = [104, 105]" "stdin_buffer (kf k2) = []"
    unfolding c by (simp_all only: append_Nil) simp_all
  then show ?thesis using r(2) by blast
qed

end
