(* ===== verification/Syscalls.thy ===== *)
theory Syscalls
  imports Machine
begin

text \<open>
  The user side of the system calls, \<^verbatim>\<open>os/src/user/syscall.c\<close>: every stub moves its arguments to the registers,
  traps, and reads the result from r0.  Shown: stubs and kernel agree on call numbers and argument order; a message
  travels from one process's memory to another's; and \<^verbatim>\<open>_fork\<close> returns in both processes.
\<close>

section \<open>The stubs of \<^verbatim>\<open>syscall.c\<close>\<close>

text \<open>The instructions of a stub: the arguments are moved to r0, r1, \<dots>, the trap is taken, and the result is read from r0.\<close>

definition with_args :: "u32 list \<Rightarrow> ctx_t \<Rightarrow> ctx_t" where
  "with_args args c = c\<lparr>gpr := args @ drop (length args) (gpr c)\<rparr>"

definition trap_call :: "kenv \<Rightarrow> u32 \<Rightarrow> u32 list \<Rightarrow> ctx_t \<Rightarrow> kernel \<Rightarrow> (ctx_t \<times> kernel) option" where
  "trap_call env n args c k = kernel_handler_svc env n (with_args args c) k"

definition result_call :: "kenv \<Rightarrow> u32 \<Rightarrow> u32 list \<Rightarrow> ctx_t \<Rightarrow> kernel \<Rightarrow> (u32 \<times> ctx_t \<times> kernel) option" where
  "result_call env n args c k = do { (c', k') \<leftarrow> trap_call env n args c k; Some (arg c' 0, c', k') }"

definition user_yield :: "kenv \<Rightarrow> ctx_t \<Rightarrow> kernel \<Rightarrow> (ctx_t \<times> kernel) option" where
  "user_yield env = trap_call env 158 []"

definition user_exit :: "kenv \<Rightarrow> u32 \<Rightarrow> ctx_t \<Rightarrow> kernel \<Rightarrow> (ctx_t \<times> kernel) option" where
  "user_exit env code = trap_call env 0 [code]"

definition user_fork :: "kenv \<Rightarrow> u32 \<Rightarrow> ctx_t \<Rightarrow> kernel \<Rightarrow> (u32 \<times> ctx_t \<times> kernel) option" where
  "user_fork env fp c k = result_call env 2 [sp c, fp] c k"

definition user_read :: "kenv \<Rightarrow> u32 \<Rightarrow> u32 \<Rightarrow> u32 \<Rightarrow> ctx_t \<Rightarrow> kernel \<Rightarrow> (u32 \<times> ctx_t \<times> kernel) option" where
  "user_read env d buf n = result_call env 3 [d, buf, n]"

definition user_write :: "kenv \<Rightarrow> u32 \<Rightarrow> u32 \<Rightarrow> u32 \<Rightarrow> ctx_t \<Rightarrow> kernel \<Rightarrow> (u32 \<times> ctx_t \<times> kernel) option" where
  "user_write env d buf n = result_call env 4 [d, buf, n]"

definition user_getpid :: "kenv \<Rightarrow> ctx_t \<Rightarrow> kernel \<Rightarrow> (u32 \<times> ctx_t \<times> kernel) option" where
  "user_getpid env = result_call env 20 []"

definition user_waitpid :: "kenv \<Rightarrow> u32 \<Rightarrow> u32 \<Rightarrow> u32 \<Rightarrow> ctx_t \<Rightarrow> kernel \<Rightarrow> (u32 \<times> ctx_t \<times> kernel) option" where
  "user_waitpid env ev p options = result_call env 7 [ev, p, options]"

definition user_exec :: "kenv \<Rightarrow> u32 \<Rightarrow> u32 \<Rightarrow> u32 \<Rightarrow> ctx_t \<Rightarrow> kernel \<Rightarrow> (ctx_t \<times> kernel) option" where
  "user_exec env f argc argv = trap_call env 1000 [f, argc, argv]"

definition user_kill :: "kenv \<Rightarrow> u32 \<Rightarrow> u32 \<Rightarrow> ctx_t \<Rightarrow> kernel \<Rightarrow> (u32 \<times> ctx_t \<times> kernel) option" where
  "user_kill env p sig = result_call env 37 [p, sig]"

definition user_setpriority :: "kenv \<Rightarrow> u32 \<Rightarrow> u32 \<Rightarrow> u32 \<Rightarrow> ctx_t \<Rightarrow> kernel \<Rightarrow> (u32 \<times> ctx_t \<times> kernel) option" where
  "user_setpriority env which who priority = result_call env 97 [which, who, priority]"

definition user_open :: "kenv \<Rightarrow> u32 \<Rightarrow> u32 \<Rightarrow> ctx_t \<Rightarrow> kernel \<Rightarrow> (u32 \<times> ctx_t \<times> kernel) option" where
  "user_open env pathname flags = result_call env 5 [pathname, flags]"

definition user_close :: "kenv \<Rightarrow> u32 \<Rightarrow> ctx_t \<Rightarrow> kernel \<Rightarrow> (u32 \<times> ctx_t \<times> kernel) option" where
  "user_close env d = result_call env 6 [d]"

definition user_unlink :: "kenv \<Rightarrow> u32 \<Rightarrow> ctx_t \<Rightarrow> kernel \<Rightarrow> (u32 \<times> ctx_t \<times> kernel) option" where
  "user_unlink env pathname = result_call env 10 [pathname]"

definition user_getdents :: "kenv \<Rightarrow> u32 \<Rightarrow> u32 \<Rightarrow> ctx_t \<Rightarrow> kernel \<Rightarrow> (u32 \<times> ctx_t \<times> kernel) option" where
  "user_getdents env d max_num = result_call env 141 [d, max_num]"

definition user_lseek :: "kenv \<Rightarrow> u32 \<Rightarrow> u32 \<Rightarrow> u32 \<Rightarrow> ctx_t \<Rightarrow> kernel \<Rightarrow> (u32 \<times> ctx_t \<times> kernel) option" where
  "user_lseek env d off whence = result_call env 19 [d, off, whence]"

definition user_chdir :: "kenv \<Rightarrow> u32 \<Rightarrow> ctx_t \<Rightarrow> kernel \<Rightarrow> (u32 \<times> ctx_t \<times> kernel) option" where
  "user_chdir env pathname = result_call env 12 [pathname]"

definition user_getcwd :: "kenv \<Rightarrow> u32 \<Rightarrow> u32 \<Rightarrow> ctx_t \<Rightarrow> kernel \<Rightarrow> (u32 \<times> ctx_t \<times> kernel) option" where
  "user_getcwd env buf n = result_call env 183 [buf, n]"

definition user_stat :: "kenv \<Rightarrow> u32 \<Rightarrow> u32 \<Rightarrow> ctx_t \<Rightarrow> kernel \<Rightarrow> (u32 \<times> ctx_t \<times> kernel) option" where
  "user_stat env pathname buf = result_call env 18 [pathname, buf]"

definition user_fstat :: "kenv \<Rightarrow> u32 \<Rightarrow> u32 \<Rightarrow> ctx_t \<Rightarrow> kernel \<Rightarrow> (u32 \<times> ctx_t \<times> kernel) option" where
  "user_fstat env d buf = result_call env 28 [d, buf]"

definition user_mkdir :: "kenv \<Rightarrow> u32 \<Rightarrow> ctx_t \<Rightarrow> kernel \<Rightarrow> (u32 \<times> ctx_t \<times> kernel) option" where
  "user_mkdir env pathname = result_call env 39 [pathname]"

definition user_smessage :: "kenv \<Rightarrow> u32 \<Rightarrow> u32 \<Rightarrow> u32 \<Rightarrow> u32 \<Rightarrow> ctx_t \<Rightarrow> kernel \<Rightarrow> (u32 \<times> ctx_t \<times> kernel) option" where
  "user_smessage env buf n sender receiver = result_call env 1001 [buf, n, sender, receiver]"

definition user_rmessagefr :: "kenv \<Rightarrow> u32 \<Rightarrow> u32 \<Rightarrow> u32 \<Rightarrow> u32 \<Rightarrow> ctx_t \<Rightarrow> kernel \<Rightarrow> (u32 \<times> ctx_t \<times> kernel) option" where
  "user_rmessagefr env buf n sender receiver = result_call env 1002 [buf, n, sender, receiver]"

definition user_rmessage :: "kenv \<Rightarrow> u32 \<Rightarrow> u32 \<Rightarrow> u32 \<Rightarrow> ctx_t \<Rightarrow> kernel \<Rightarrow> (u32 \<times> ctx_t \<times> kernel) option" where
  "user_rmessage env buf n receiver = result_call env 1003 [buf, n, receiver]"

definition user_lprocs :: "kenv \<Rightarrow> ctx_t \<Rightarrow> kernel \<Rightarrow> (u32 \<times> ctx_t \<times> kernel) option" where
  "user_lprocs env = result_call env 1004 []"

text \<open>
  The functions of \<^verbatim>\<open>mlibc/src/stdproc.c\<close>, where \<^verbatim>\<open>stdproc_fork\<close> reads the frame pointer from r11, and
  \<^verbatim>\<open>stdio_file_print\<close>.
\<close>

definition stdproc_exit :: "kenv \<Rightarrow> u32 \<Rightarrow> ctx_t \<Rightarrow> kernel \<Rightarrow> (ctx_t \<times> kernel) option" where
  "stdproc_exit env code = user_exit env code"

definition stdproc_fork :: "kenv \<Rightarrow> ctx_t \<Rightarrow> kernel \<Rightarrow> (u32 \<times> ctx_t \<times> kernel) option" where
  "stdproc_fork env c k = user_fork env (gpr c ! 11) c k"

definition stdproc_getpid :: "kenv \<Rightarrow> ctx_t \<Rightarrow> kernel \<Rightarrow> (u32 \<times> ctx_t \<times> kernel) option" where
  "stdproc_getpid env = user_getpid env"

definition stdio_file_print :: "kenv \<Rightarrow> u32 \<Rightarrow> u32 \<Rightarrow> ctx_t \<Rightarrow> kernel \<Rightarrow> (u32 \<times> ctx_t \<times> kernel) option" where
  "stdio_file_print env d str c k = user_write env d str (of_nat (stdstring_length (string_at (kmem k) str))) c k"

lemmas stub_defs = user_yield_def user_exit_def user_fork_def user_read_def user_write_def user_getpid_def user_waitpid_def
  user_exec_def user_kill_def user_setpriority_def user_open_def user_close_def user_unlink_def user_getdents_def user_lseek_def
  user_chdir_def user_getcwd_def user_stat_def user_fstat_def user_mkdir_def user_smessage_def user_rmessagefr_def
  user_rmessage_def user_lprocs_def result_call_def trap_call_def

text \<open>What a caller sees of a call: the result and the new state of the kernel.\<close>

definition seen :: "(u32 \<times> ctx_t \<times> kernel) option \<Rightarrow> (u32 \<times> kernel) option" where
  "seen r = map_option (\<lambda>(v, c, k). (v, k)) r"

lemma seen_Some [simp]: "seen (Some (v, c, k)) = Some (v, k)" and seen_None [simp]: "seen None = None"
  by (simp_all add: seen_def)

lemma with_args_nth [simp]: "i < length args \<Longrightarrow> arg (with_args args c) i = args ! i"
  by (simp add: with_args_def nth_append)

lemma with_args_some [simp]: "args \<noteq> [] \<Longrightarrow> gpr (with_args args c) \<noteq> []" "with_args [] c = c"
  by (simp_all add: with_args_def)

lemma r0_set [simp]: "gpr c \<noteq> [] \<Longrightarrow> arg (set_r0 v c) 0 = v"
  by (simp add: set_r0_def)
lemma smessage_stub:
  "user_smessage env buf n a b c k = map_option (\<lambda>st. (unassigned env,
     set_r0 (unassigned env) (with_args [buf, n, a, b] c), set_ipc st k))
     (ipc_send_message (heap_low env) (heap_top env) buf n a b (ipc_of env k))"
  by (simp add: stub_defs kernel_handler_svc_def svc_smessage_def map_option_case split: option.splits)

lemma rmessagefr_stub:
  "user_rmessagefr env buf n a b c k = (let (r, st) = ipc_receive_message_from buf n a b (ipc_of env k)
     in Some (r, set_r0 r (with_args [buf, n, a, b] c), set_ipc st k))"
  by (simp add: stub_defs kernel_handler_svc_def svc_rmessagefr_def split: prod.splits)

text \<open>
  The stubs and the kernel agree on call numbers and argument registers.  Each stub that works on files
  or memory returns the result of the C function behind it, called with the arguments of the stub in
  the order of its prototype, and has its effect: bytes read are stored at \<open>buf\<close>, bytes written are taken from there.
\<close>

lemma file_stubs_reach_kernel:
  "seen (user_read env d buf n c k) =
     map_option (\<lambda>(r, bs, f). (r, set_mem (store_bytes buf bs (kmem k)) (set_files f k))) (sys_read d n (files_of k))
   \<and> seen (user_write env d buf n c k) =
     map_option (\<lambda>(r, f). (r, set_files f k)) (sys_write (string_at (kmem k)) d (bytes_at (kmem k) buf (unat n)) (files_of k))
   \<and> seen (user_open env pathname flags c k) =
     map_option (\<lambda>(r, f). (r, set_files f k)) (sys_open (string_at (kmem k)) pathname flags (files_of k))
   \<and> seen (user_close env d c k) = (let (r, f) = sys_close d (files_of k) in Some (r, set_files f k))
   \<and> seen (user_lseek env d off whence c k) = (let (r, f) = sys_lseek d off whence (files_of k) in Some (r, set_files f k))
   \<and> seen (user_unlink env pathname c k) =
     map_option (\<lambda>(r, f). (r, set_files f k)) (sys_unlink (string_at (kmem k)) pathname (files_of k))
   \<and> seen (user_chdir env pathname c k) =
     map_option (\<lambda>(r, f). (r, set_files f k)) (sys_chdir (string_at (kmem k) pathname) (files_of k))
   \<and> seen (user_mkdir env pathname c k) =
     map_option (\<lambda>(r, f). (r, set_files f k)) (sys_mkdir (string_at (kmem k) pathname) (files_of k))
   \<and> seen (user_getcwd env buf n c k) = Some (buf, set_mem (store_bytes buf (sys_getcwd n (files_of k)) (kmem k)) k)"
  unfolding stub_defs kernel_handler_svc_def seen_def
  by (intro conjI) (auto simp: svc_read_def svc_write_def svc_open_def svc_close_def svc_lseek_def svc_unlink_def svc_chdir_def
      svc_mkdir_def svc_getcwd_def split: Option.bind_split prod.split)

text \<open>
  The process and message calls in the same way: \<^verbatim>\<open>fork\<close> passes the stack pointer and the frame pointer of the
  caller, \<^verbatim>\<open>setpriority\<close> its first and third argument, and the message calls all their arguments.
\<close>

lemma process_stubs_reach_kernel:
  "seen (user_fork env fp c k) = map_option (\<lambda>(r, s). (r, k\<lparr>ks := s\<rparr>))
       (scheduler_fork (fresh_pcb env) (with_args [sp c, fp] c) (sp c) fp (ks k))
   \<and> seen (user_setpriority env which who priority c k) =
       (let (r, s) = scheduler_setpriority which priority (ks k) in Some (r, k\<lparr>ks := s\<rparr>))
   \<and> seen (user_waitpid env ev p 1 c k) = Some (scheduler_has_event_occurred \<lparr>event = ev, from_process = p\<rparr> (ks k), k)
   \<and> seen (user_smessage env buf n a b c k) = map_option (\<lambda>st. (unassigned env, set_ipc st k))
       (ipc_send_message (heap_low env) (heap_top env) buf n a b (ipc_of env k))
   \<and> seen (user_rmessagefr env buf n a b c k) =
       (let (r, st) = ipc_receive_message_from buf n a b (ipc_of env k) in Some (r, set_ipc st k))
   \<and> seen (user_rmessage env buf n b c k) =
       (let (r, st) = ipc_receive_any_message buf n b (ipc_of env k) in Some (r, set_ipc st k))"
  unfolding stub_defs kernel_handler_svc_def seen_def
  by (intro conjI) (auto simp: svc_fork_def svc_setpriority_def svc_waitpid_def svc_smessage_def
      svc_rmessagefr_def svc_rmessage_def Let_def split: Option.bind_split prod.split)

text \<open>
  C19: a message goes from the memory of one process to that of another.  If no message from \<open>a\<close> to \<open>b\<close> is pending,
  a send of \<open>n\<close> bytes with room on the heap succeeds, and a later receive of as many bytes returns 0 and finds exactly those
  bytes in its own buffer; the message is gone and all other messages are still pending.
\<close>

theorem user_message_delivered:
  assumes "ipc_wf (heap_low env) (heap_top env) (ipc_of env k)" "unat (heap_brk env) + 24 + unat n \<le> unat (heap_top env)"
    "apart (heap_brk env + 24) (unat n) buf (unat n)"
    "\<forall>x \<in> set (kmessages k). \<not> (msg_from x = a \<and> msg_to x = b)"
    "apart buf' (unat n) (heap_brk env + 24) (unat n)"
  shows "\<exists>c1 k1. user_smessage env buf n a b c k = Some (unassigned env, c1, k1)
    \<and> (\<forall>env' c'. \<exists>c2 k2. user_rmessagefr env' buf' n a b c' k1 = Some (0, c2, k2)
         \<and> bytes_at (kmem k2) buf' (unat n) = bytes_at (kmem k) buf (unat n) \<and> kmessages k2 = kmessages k)"
proof -
  let ?st = "ipc_of env k" and ?x = "\<lparr>content = heap_brk env + 24, nbytes = n, msg_from = a, msg_to = b\<rparr>"
  let ?P = "\<lambda>x. msg_from x = a \<and> msg_to x = b"
  define m1 where "m1 = stdmem_copy (kmem k) (heap_brk env + 24) buf n"
  define st1 where "st1 = ?st\<lparr>mem := m1, heap_break := heap_brk env + 24 + n, messages := kmessages k @ [?x]\<rparr>"
  have send: "ipc_send_message (heap_low env) (heap_top env) buf n a b ?st = Some st1"
    using ipc_send_message_eq(1) [OF assms(1)] assms(2) by (simp add: ipc_of_def st1_def m1_def)
  have filt: "filter ?P (kmessages k @ [?x]) = ?x # []" using assms(4) by (simp add: filter_empty_conv)
  have pay: "bytes_at m1 (heap_brk env + 24) (unat n) = bytes_at (kmem k) buf (unat n)"
    using stdmem_copy_bytes [OF copy_safe_apart [OF assms(3)]] by (simp add: m1_def)
  have rec: "receive_loop ?P buf' n (kmessages k @ [?x]) m1 = (0, kmessages k, stdmem_copy m1 buf' (heap_brk env + 24) n)"
  proof -
    obtain pre post where "kmessages k @ [?x] = pre @ ?x # post" "\<forall>y \<in> set pre. \<not> ?P y" "filter ?P post = []"
      "receive_loop ?P buf' n (kmessages k @ [?x]) m1 = (0, pre @ post, stdmem_copy m1 buf' (heap_brk env + 24) n)"
      using receive_loop_Some [OF filt, of buf' n m1] by auto
    moreover have "post = []"
      using calculation(1,3) by (cases post rule: rev_cases) auto
    ultimately show ?thesis by simp
  qed
  have got: "bytes_at (stdmem_copy m1 buf' (heap_brk env + 24) n) buf' (unat n) = bytes_at (kmem k) buf (unat n)"
    using stdmem_copy_bytes [OF copy_safe_apart [OF assms(5)], of m1] pay by simp
  define k1 where "k1 = set_ipc st1 k"
  have k1: "kmessages k1 = kmessages k @ [?x]" "kmem k1 = m1" by (simp_all add: k1_def set_ipc_def set_mem_def st1_def)
  have "\<exists>c2 k2. user_rmessagefr env' buf' n a b c' k1 = Some (0, c2, k2)
      \<and> bytes_at (kmem k2) buf' (unat n) = bytes_at (kmem k) buf (unat n) \<and> kmessages k2 = kmessages k" for env' c'
    using rec got unfolding rmessagefr_stub by (simp add: ipc_receive_message_from_def ipc_of_def k1 set_ipc_def set_mem_def)
  then show ?thesis using send unfolding smessage_stub by (auto simp: k1_def)
qed

theorem user_message_delivered_witness:
  "\<exists>c1 k1 c2 k2. user_smessage demo_env 0x100 5 1 2 (demo_ctx 0) demo_power_on = Some (0, c1, k1)
     \<and> user_rmessagefr demo_env 0x200 5 1 2 (demo_ctx 0) k1 = Some (0, c2, k2)
     \<and> bytes_at (kmem k2) 0x200 5 = bytes_at (kmem demo_power_on) 0x100 5 \<and> kmessages k2 = []"
proof -
  have "ipc_wf (heap_low demo_env) (heap_top demo_env) (ipc_of demo_env demo_power_on)"
    "unat (heap_brk demo_env) + 24 + unat (5 :: u32) \<le> unat (heap_top demo_env)"
    "apart (heap_brk demo_env + 24) (unat (5 :: u32)) 0x100 (unat (5 :: u32))"
    "\<forall>x \<in> set (kmessages demo_power_on). \<not> (msg_from x = 1 \<and> msg_to x = 2)"
    "apart 0x200 (unat (5 :: u32)) (heap_brk demo_env + 24) (unat (5 :: u32))" "unassigned demo_env = 0" "kmessages demo_power_on = []"
    by (simp_all add: ipc_wf_def heap_ok_def apart_def ipc_of_def demo_env_def demo_power_on_def)
  then show ?thesis
    using user_message_delivered [of demo_env demo_power_on 5 "0x100" 1 2 "0x200" "demo_ctx 0"] by simp blast
qed

text \<open>
  C26: fork returns twice.  In the running system \<^verbatim>\<open>_fork\<close> returns to the caller with the PID of the new
  process, which is positive; and the new process is ready, with the registers of the caller
  at the trap, 0 as its result, the same program counter, and stack and frame pointer as far below its own
  stack break as the caller's are below \<open>fp\<close>.
\<close>

theorem fork_returns_twice:
  assumes "running considerate dev (c, k)" "sint (next_pid (ks k)) < 2 ^ 31 - 1"
  shows "\<exists>child c1 k1 x. user_fork env fp c k = Some (child, c1, k1) \<and> 0 < sint child \<and> child \<notin> set (pids (ks k))
    \<and> current_pid (ks k1) = current_pid (ks k) \<and> pc c1 = pc c \<and> sp c1 = sp c
    \<and> find_process (ks k1) child = Some x \<and> status x = PROCESS_STATUS_READY \<and> pc (ctx x) = pc c
    \<and> gpr (ctx x) ! 0 = 0 \<and> (\<forall>i. 1 < i \<longrightarrow> i < 13 \<longrightarrow> i \<noteq> 11 \<longrightarrow> gpr (ctx x) ! i = gpr c ! i)
    \<and> sp (ctx x) = current_stack_break (ks k) - (fp - sp c)
    \<and> gpr (ctx x) ! 11 = current_stack_break (ks k) - (fp - gpr c ! 11)"
proof -
  let ?c = "with_args [sp c, fp] c" and ?s = "ks k"
  have inv: "sched_inv ?s" "length (gpr c) = 13" using running_inv [OF assms(1)] by (simp_all add: kernel_inv_def)
  have wf: "sched_wf {} ?s" using inv by (simp add: sched_inv_def)
  obtain parent where p: "find_process ?s (current_pid ?s) = Some parent" using current_found [OF wf] .
  define s1 where "s1 = forked ?c (sp c) fp ?s parent"
  define s2 where "s2 = scheduler_emit_event \<lparr>event = PROCESS_EVENT_CREATED, from_process = next_pid ?s\<rparr> s1"
  have len: "length (gpr ?c) = 13" using inv(2) by (simp add: with_args_def)
  have wf1: "sched_wf {} s1" unfolding s1_def using sched_wf_forked [OF wf p] assms(2) len by simp
  have fork: "scheduler_fork (fresh_pcb env) ?c (sp c) fp ?s = Some (next_pid ?s, s2)"
    unfolding s2_def s1_def by (rule scheduler_fork_eq [OF wf p])
  have call: "user_fork env fp c k = Some (next_pid ?s, set_r0 (next_pid ?s) ?c, k\<lparr>ks := s2\<rparr>)"
    using fork by (simp add: stub_defs kernel_handler_svc_def svc_fork_def)
  have new: "next_pid ?s \<notin> set (pids ?s)" "0 < sint (next_pid ?s)"
    using sched_wfD(7) [OF wf] sched_wfD(2) [OF wf] by force+
  let ?child = "forked_pcb ?c (sp c) fp ?s parent"
  have "find_process s1 (next_pid ?s) = Some ?child"
    unfolding s1_def by (simp add: find_process_Some [OF sched_wfD(1) [OF wf1 [unfolded s1_def]]]) (simp add: forked_def forked_pcb_def)
  then have child: "find_process s2 (next_pid ?s) = Some ?child"
    unfolding s2_def by (simp add: find_process_wake [OF wf1] wake_def waiting_def forked_pcb_def)
  have regs: "\<forall>i. 1 < i \<longrightarrow> i < 13 \<longrightarrow> i \<noteq> 11 \<longrightarrow> gpr (ctx ?child) ! i = gpr c ! i" "gpr (ctx ?child) ! 0 = 0"
    "gpr (ctx ?child) ! 11 = current_stack_break ?s - (fp - gpr c ! 11)"
    using len by (auto simp: forked_pcb_def with_args_def nth_append Suc_diff_Suc)
  show ?thesis using call new child regs fork_current [OF fork]
    by (intro exI [of _ "next_pid ?s"] exI [of _ "set_r0 (next_pid ?s) ?c"] exI [of _ "k\<lparr>ks := s2\<rparr>"] exI [of _ ?child])
      (simp add: set_r0_def with_args_def forked_pcb_def)
qed

theorem fork_returns_twice_witness:
  "\<exists>c k c1 k1 x child. running considerate demo_dev (c, k) \<and> user_fork demo_env 0x7FFC c k = Some (child, c1, k1) \<and> 0 < sint child
     \<and> find_process (ks k1) child = Some x \<and> gpr (ctx x) ! 0 = 0 \<and> pc (ctx x) = pc c"
proof -
  obtain c k where k: "running considerate demo_dev (c, k)" "next_pid (ks k) = 2" using demo_booted by blast
  then have "sint (next_pid (ks k)) < 2 ^ 31 - 1" by simp
  then show ?thesis using fork_returns_twice [OF k(1), of demo_env "0x7FFC"] k(1) by blast
qed
end
