(* ===== verification/Debug.thy ===== *)
theory Debug
  imports Kernel
begin

text \<open>
  The printers of the kernel's lists for a debugger: \<^verbatim>\<open>debug_process_list\<close>, \<^verbatim>\<open>debug_event_list\<close> and \<^verbatim>\<open>debug_priority\<close> of
  \<^verbatim>\<open>os/src/kernel/scheduler.c\<close>, \<^verbatim>\<open>debug_message_list\<close> of \<^verbatim>\<open>ipc.c\<close> and \<^verbatim>\<open>file_debug.c\<close>.  They append strings to a buffer of
  fixed size without looking at its end.  Shown: the text they write, and for how many entries the buffer is large enough.
\<close>

section \<open>Printers\<close>

text \<open>A printer appends strings to a buffer; its state is the position of the NUL and the memory from the buffer on.\<close>

type_synonym buffer = "nat \<times> (nat \<Rightarrow> u8)"

definition put_str :: "cstr \<Rightarrow> buffer \<Rightarrow> buffer" where
  "put_str str b = stdstring_append (snd b) (fst b) str"

definition debug_process :: "pcb_t \<Rightarrow> buffer \<Rightarrow> buffer" where
  "debug_process item b =
     (let tmp = stdstring_int_to_str (pid item);
          b1 = put_str (lit '', '') (put_str tmp (put_str (lit ''{'') b));
          b2 = (if status item = PROCESS_STATUS_RUNNING then put_str (lit ''RUNNING'') b1
                else if status item = PROCESS_STATUS_READY then put_str (lit ''READY'') b1
                else if status item = PROCESS_STATUS_BLOCKED then put_str (lit ''BLOCKED'') b1
                else if status item = PROCESS_STATUS_TERMINATED then put_str (lit ''TERMINATED'') b1
                else b1)
      in put_str (lit ''} '') b2)"

definition debug_process_list :: "sched \<Rightarrow> (nat \<Rightarrow> u8) \<Rightarrow> buffer" where
  "debug_process_list s buf = fold debug_process (process_list s) (put_str (lit ''Processes: '') (0, buf))"

definition debug_event :: "event_t \<Rightarrow> buffer \<Rightarrow> buffer" where
  "debug_event item b =
     (let b1 = put_str (lit ''{'') b;
          b2 = (if event item = PROCESS_EVENT_EXITED then put_str (lit ''EXITED'') b1
                else if event item = PROCESS_EVENT_SUSPENDED then put_str (lit ''SUSPENDED'') b1
                else if event item = PROCESS_EVENT_UNSUSPENDED then put_str (lit ''UNSUSPENDED'') b1
                else if event item = PROCESS_EVENT_BLOCKED then put_str (lit ''BLOCKED'') b1
                else if event item = PROCESS_EVENT_UNBLOCKED then put_str (lit ''UNBLOCKED'') b1
                else if event item = PROCESS_EVENT_CREATED then put_str (lit ''CREATED'') b1
                else b1);
          tmp = stdstring_int_to_str (from_process item)
      in put_str (lit ''} '') (put_str tmp (put_str (lit '', '') b2)))"

definition debug_event_list :: "sched \<Rightarrow> (nat \<Rightarrow> u8) \<Rightarrow> buffer" where
  "debug_event_list s buf = fold debug_event (events s) (put_str (lit ''Events: '') (0, buf))"

definition debug_pid :: "pid_t \<Rightarrow> buffer \<Rightarrow> buffer" where
  "debug_pid p b = put_str (lit ''} '') (put_str (stdstring_int_to_str p) (put_str (lit ''{'') b))"

text \<open>\<^verbatim>\<open>debug_priority\<close>: \<open>None\<close> is the empty string that is returned for another priority.\<close>

definition debug_priority :: "i32 \<Rightarrow> sched \<Rightarrow> (nat \<Rightarrow> u8) \<Rightarrow> buffer option" where
  "debug_priority priority s buf =
     (let b = put_str (lit ''Priority queue: '') (0, buf)
      in if priority = 0 then Some (fold debug_pid (high_priority_queue s) b)
         else if priority = 1 then Some (fold debug_pid (low_priority_queue s) b)
         else None)"

definition debug_message :: "memory \<Rightarrow> message_t \<Rightarrow> buffer \<Rightarrow> buffer" where
  "debug_message m message b =
     (let b1 = put_str (lit ''->'') (put_str (stdstring_int_to_str (msg_from message)) (put_str (lit ''{'') b));
          b2 = put_str (lit '', '') (put_str (stdstring_int_to_str (msg_to message)) b1)
      in put_str (lit ''} '') (put_str (string_at m (content message)) b2))"

definition debug_message_list :: "ipc \<Rightarrow> (nat \<Rightarrow> u8) \<Rightarrow> buffer" where
  "debug_message_list st buf = fold (debug_message (mem st)) (messages st) (put_str (lit ''Messages: '') (0, buf))"

definition debug_file :: "strings \<Rightarrow> open_file_t \<Rightarrow> buffer \<Rightarrow> buffer" where
  "debug_file um item b =
     (let b1 = put_str (lit '', ofst: '') (put_str (stdstring_int_to_str (fd item)) (put_str (lit ''{ fd: '') b));
          b2 = put_str (lit '', size: '') (put_str (stdstring_int_to_str (offset item)) b1);
          b3 = put_str (lit '', pth: '') (put_str (stdstring_int_to_str (file_size_bytes (directory_entry item))) b2)
      in put_str (lit ''} '') (put_str (um (path item)) b3))"

definition debug_file_list :: "strings \<Rightarrow> files \<Rightarrow> (nat \<Rightarrow> u8) \<Rightarrow> buffer" where
  "debug_file_list um s buf = fold (debug_file um) (open_files s) (put_str (lit ''Files: '') (0, buf))"

definition debug_read_file :: "filedesc_t \<Rightarrow> i32 \<Rightarrow> files \<Rightarrow> (u8 list \<times> files) option" where
  "debug_read_file d n s = do { (nbytes_read, buf, s') \<leftarrow> sys_read d n s; Some (buf, s') }"

definition debug_write_file :: "strings \<Rightarrow> filedesc_t \<Rightarrow> u8 list \<Rightarrow> files \<Rightarrow> (i32 \<times> files) option" where
  "debug_write_file um d buf s = sys_write um d buf s"

section \<open>Text written\<close>

text \<open>A text and its NUL at the beginning of the buffer, the rest as it was.\<close>

definition written :: "u8 list \<Rightarrow> (nat \<Rightarrow> u8) \<Rightarrow> buffer" where
  "written t buf = (length t, \<lambda>k. if k < length t then t ! k else if k = length t then 0 else buf k)"

lemma put_written: "put_str str (written t buf) = written (t @ cstring str) buf"
  by (auto simp: put_str_def written_def stdstring_append_eq nth_append fun_eq_iff)

lemma put_first: "put_str str (0, buf) = written (cstring str) buf"
  by (auto simp: put_str_def written_def stdstring_append_eq fun_eq_iff)

lemma written_fits:
  "length t < 200 \<Longrightarrow> (\<forall>k \<ge> 200. snd (written t buf) k = buf k)" "fst (written t buf) = length t"
  "200 \<le> length t \<Longrightarrow> 200 \<le> fst (written t buf) \<and> snd (written t buf) (fst (written t buf)) = 0"
  by (auto simp: written_def)

lemma fold_written:
  assumes "\<And>x t. x \<in> set xs \<Longrightarrow> f x (written t buf) = written (t @ g x) buf"
  shows "fold f xs (written t buf) = written (t @ concat (map g xs)) buf"
  using assms by (induction xs arbitrary: t) simp_all

definition number :: "i32 \<Rightarrow> u8 list" where
  "number n = cstring (stdstring_int_to_str n)"

lemma number_length: "1 \<le> length (number n) \<and> length (number n) \<le> 11"
proof (cases "sint n = - 2147483648")
  case True
  then have "sint n = sint (0x80000000 :: i32)" by simp
  then have "n = 0x80000000" by (rule signed_word_eqI)
  then have "stdstring_int_to_str n = [45, 40, 0]" using int_to_str_bytes_written by simp
  then show ?thesis by (simp add: number_def cstring_def)
next
  case False
  define t where "t = (if sint n < 0 then [45] else []) @ rev (int_to_str_loop \<bar>sint n\<bar>)"
  have d: "0 \<notin> set (int_to_str_loop \<bar>sint n\<bar>)" "int_to_str_loop \<bar>sint n\<bar> \<noteq> []"
    using int_to_str_loop_digits [of "\<bar>sint n\<bar>"] by (auto simp: list_all_iff dest: isdigit_nonzero)
  then have "0 \<notin> set t" by (simp add: t_def)
  moreover have e: "stdstring_int_to_str n = t @ [0]" using int_to_str_shape [OF False] by (simp add: t_def)
  ultimately have "number n = t" by (simp add: number_def cstring_append_zero)
  moreover have "length t + 1 \<le> 12" using int_to_str_bytes_written [of n] e by simp
  moreover have "1 \<le> length t" using d(2) by (cases "int_to_str_loop \<bar>sint n\<bar>") (simp_all add: t_def)
  ultimately show ?thesis by simp
qed

definition status_text :: "i32 \<Rightarrow> u8 list" where
  "status_text st = (if st = PROCESS_STATUS_RUNNING then lit ''RUNNING'' else if st = PROCESS_STATUS_READY then lit ''READY''
     else if st = PROCESS_STATUS_BLOCKED then lit ''BLOCKED'' else if st = PROCESS_STATUS_TERMINATED then lit ''TERMINATED'' else [])"

definition event_text :: "i32 \<Rightarrow> u8 list" where
  "event_text e = (if e = PROCESS_EVENT_EXITED then lit ''EXITED'' else if e = PROCESS_EVENT_SUSPENDED then lit ''SUSPENDED''
     else if e = PROCESS_EVENT_UNSUSPENDED then lit ''UNSUSPENDED'' else if e = PROCESS_EVENT_BLOCKED then lit ''BLOCKED''
     else if e = PROCESS_EVENT_UNBLOCKED then lit ''UNBLOCKED'' else if e = PROCESS_EVENT_CREATED then lit ''CREATED'' else [])"

lemma cstring_words:
  "cstring (lit ''{'') = lit ''{''"
  "cstring (lit ''} '') = lit ''} ''"
  "cstring (lit '', '') = lit '', ''"
  "cstring (lit ''->'') = lit ''->''"
  "cstring (lit ''Processes: '') = lit ''Processes: ''"
  "cstring (lit ''Events: '') = lit ''Events: ''"
  "cstring (lit ''Priority queue: '') = lit ''Priority queue: ''"
  "cstring (lit ''RUNNING'') = lit ''RUNNING''"
  "cstring (lit ''READY'') = lit ''READY''"
  "cstring (lit ''BLOCKED'') = lit ''BLOCKED''"
  "cstring (lit ''TERMINATED'') = lit ''TERMINATED''"
  "cstring (lit ''EXITED'') = lit ''EXITED''"
  "cstring (lit ''SUSPENDED'') = lit ''SUSPENDED''"
  "cstring (lit ''UNSUSPENDED'') = lit ''UNSUSPENDED''"
  "cstring (lit ''UNBLOCKED'') = lit ''UNBLOCKED''"
  "cstring (lit ''CREATED'') = lit ''CREATED''"
  "cstring (lit ''Messages: '') = lit ''Messages: ''"
  "cstring (lit ''Files: '') = lit ''Files: ''"
  "cstring (lit ''{ fd: '') = lit ''{ fd: ''"
  "cstring (lit '', ofst: '') = lit '', ofst: ''"
  "cstring (lit '', size: '') = lit '', size: ''"
  "cstring (lit '', pth: '') = lit '', pth: ''"
  by (simp_all add: lit_def cstring_def)

lemma process_list_written:
  "debug_process_list s buf = written (lit ''Processes: ''
     @ concat (map (\<lambda>x. lit ''{'' @ number (pid x) @ lit '', '' @ status_text (status x) @ lit ''} '') (process_list s))) buf"
proof -
  have "debug_process x (written t buf) = written (t @ lit ''{'' @ number (pid x) @ lit '', '' @ status_text (status x) @ lit ''} '') buf" for x t
    unfolding debug_process_def Let_def put_written status_text_def number_def
    by (simp add: put_written cstring_words)
  then show ?thesis
    unfolding debug_process_list_def put_first by (subst fold_written) (simp_all add: cstring_words)
qed

lemma event_list_written:
  "debug_event_list s buf = written (lit ''Events: ''
     @ concat (map (\<lambda>x. lit ''{'' @ event_text (event x) @ lit '', '' @ number (from_process x) @ lit ''} '') (events s))) buf"
proof -
  have "debug_event x (written t buf) = written (t @ lit ''{'' @ event_text (event x) @ lit '', '' @ number (from_process x) @ lit ''} '') buf" for x t
    unfolding debug_event_def Let_def put_written event_text_def number_def
    by (simp add: put_written cstring_words)
  then show ?thesis
    unfolding debug_event_list_def put_first by (subst fold_written) (simp_all add: cstring_words)
qed

lemma priority_written:
  "debug_priority p s buf = (if p = 0 \<or> p = 1 then Some (written (lit ''Priority queue: ''
     @ concat (map (\<lambda>q. lit ''{'' @ number q @ lit ''} '') (if p = 0 then high_priority_queue s else low_priority_queue s))) buf) else None)"
proof -
  have "debug_pid q (written t buf) = written (t @ lit ''{'' @ number q @ lit ''} '') buf" for q t
    by (simp add: debug_pid_def put_written number_def cstring_words)
  then have "fold debug_pid qs (written (lit ''Priority queue: '') buf)
      = written (lit ''Priority queue: '' @ concat (map (\<lambda>q. lit ''{'' @ number q @ lit ''} '') qs)) buf" for qs
    by (rule fold_written)
  moreover have "cstring (lit ''Priority queue: '') = lit ''Priority queue: ''" by (simp add: cstring_words)
  ultimately show ?thesis by (simp add: debug_priority_def put_first)
qed

lemma message_list_written:
  "debug_message_list st buf = written (lit ''Messages: '' @ concat (map (\<lambda>x. lit ''{'' @ number (msg_from x) @ lit ''->'' @ number (msg_to x)
     @ lit '', '' @ cstring (string_at (mem st) (content x)) @ lit ''} '') (messages st))) buf"
proof -
  have "debug_message (mem st) x (written t buf) = written (t @ lit ''{'' @ number (msg_from x) @ lit ''->'' @ number (msg_to x)
      @ lit '', '' @ cstring (string_at (mem st) (content x)) @ lit ''} '') buf" for x t
    by (simp add: debug_message_def put_written number_def cstring_words)
  then show ?thesis
    unfolding debug_message_list_def put_first by (subst fold_written) (simp_all add: cstring_words)
qed

lemma file_list_written:
  "debug_file_list um s buf = written (lit ''Files: '' @ concat (map (\<lambda>x. lit ''{ fd: '' @ number (fd x) @ lit '', ofst: '' @ number (offset x)
     @ lit '', size: '' @ number (file_size_bytes (directory_entry x)) @ lit '', pth: '' @ cstring (um (path x)) @ lit ''} '') (open_files s))) buf"
proof -
  have "debug_file um x (written t buf) = written (t @ lit ''{ fd: '' @ number (fd x) @ lit '', ofst: '' @ number (offset x)
      @ lit '', size: '' @ number (file_size_bytes (directory_entry x)) @ lit '', pth: '' @ cstring (um (path x)) @ lit ''} '') buf" for x t
    by (simp add: debug_file_def put_written number_def cstring_words)
  then show ?thesis
    unfolding debug_file_list_def put_first by (subst fold_written) (simp_all add: cstring_words)
qed

lemma concat_bounds:
  assumes "\<And>x. x \<in> set xs \<Longrightarrow> a \<le> length (g x) \<and> length (g x) \<le> b"
  shows "a * length xs \<le> length (concat (map g xs))" "length (concat (map g xs)) \<le> b * length xs"
  using assms by (induction xs) fastforce+

lemma word_lengths:
  "length (lit ''Processes: '') = 11" "length (lit ''Events: '') = 8" "length (lit ''Priority queue: '') = 16"
  "length (lit ''{'') = 1" "length (lit ''} '') = 2" "length (lit '', '') = 2"
  "length (status_text st) \<le> 10" "st \<in> {1, 2, 3, 4} \<Longrightarrow> 5 \<le> length (status_text st)"
  "length (event_text e) \<le> 11" "e \<in> {1, 2, 3, 4, 5, 6} \<Longrightarrow> 6 \<le> length (event_text e)"
  by (auto simp: lit_def status_text_def event_text_def)

text \<open>
  C38: the debug printers and their buffer of 200 bytes.  The text is the list of the entries in order, a NUL behind it, and nothing behind the NUL is touched.
  Up to 7 processes, 7 events and 13 queued processes the buffer is always large enough; from 18 processes, 16 events or 46
  queued processes on it is always overrun.
\<close>

theorem debug_printers_bounds:
  assumes "\<forall>x \<in> set (process_list s). status x \<in> {1, 2, 3, 4}" "\<forall>e \<in> set (events s). event e \<in> {1, 2, 3, 4, 5, 6}"
  shows "(length (process_list s) \<le> 7 \<longrightarrow> (\<forall>k \<ge> 200. snd (debug_process_list s buf) k = buf k))
    \<and> (18 \<le> length (process_list s) \<longrightarrow> 200 \<le> fst (debug_process_list s buf) \<and> snd (debug_process_list s buf) (fst (debug_process_list s buf)) = 0)
    \<and> (length (events s) \<le> 7 \<longrightarrow> (\<forall>k \<ge> 200. snd (debug_event_list s buf) k = buf k))
    \<and> (16 \<le> length (events s) \<longrightarrow> 200 \<le> fst (debug_event_list s buf) \<and> snd (debug_event_list s buf) (fst (debug_event_list s buf)) = 0)
    \<and> (length (low_priority_queue s) \<le> 13 \<longrightarrow> (\<forall>k \<ge> 200. snd (the (debug_priority 1 s buf)) k = buf k))
    \<and> (46 \<le> length (low_priority_queue s) \<longrightarrow> 200 \<le> fst (the (debug_priority 1 s buf)))"
proof -
  let ?p = "\<lambda>x. lit ''{'' @ number (pid x) @ lit '', '' @ status_text (status x) @ lit ''} ''"
  let ?e = "\<lambda>x. lit ''{'' @ event_text (event x) @ lit '', '' @ number (from_process x) @ lit ''} ''"
  let ?q = "\<lambda>q. lit ''{'' @ number q @ lit ''} ''"
  have "11 \<le> length (?p x) \<and> length (?p x) \<le> 26" if "x \<in> set (process_list s)" for x
  proof -
    have "5 \<le> length (status_text (status x))" using word_lengths(8) assms(1) that by blast
    then show ?thesis using number_length [of "pid x"] word_lengths(7) [of "status x"] by (simp add: word_lengths(4-6))
  qed
  note p = concat_bounds [of "process_list s" 11 ?p 26, OF this]
  have "12 \<le> length (?e x) \<and> length (?e x) \<le> 27" if "x \<in> set (events s)" for x
  proof -
    have "6 \<le> length (event_text (event x))" using word_lengths(10) assms(2) that by blast
    then show ?thesis using number_length [of "from_process x"] word_lengths(9) [of "event x"] by (simp add: word_lengths(4-6))
  qed
  note e = concat_bounds [of "events s" 12 ?e 27, OF this]
  have "4 \<le> length (?q x) \<and> length (?q x) \<le> 14" if "x \<in> set (low_priority_queue s)" for x
    using number_length [of x] by (simp add: word_lengths)
  note q = concat_bounds [of "low_priority_queue s" 4 ?q 14, OF this]
  show ?thesis
    using p e q unfolding process_list_written event_list_written priority_written
    by (intro conjI impI written_fits(1) written_fits(3) [THEN conjunct1] written_fits(3) [THEN conjunct2])
      (simp_all add: word_lengths(1-3) written_fits(1,2))
qed

theorem debug_printers_bounds_witness:
  "snd (debug_process_list demo_sched (\<lambda>_. 7)) 200 = 7
   \<and> 200 \<le> fst (debug_process_list (demo_sched\<lparr>process_list := replicate 18 (demo_pcb 1 PROCESS_STATUS_READY)\<rparr>) (\<lambda>_. 7))"
proof -
  let ?s = "demo_sched\<lparr>process_list := replicate 18 (demo_pcb 1 PROCESS_STATUS_READY)\<rparr>"
  have "\<forall>x \<in> set (process_list demo_sched). status x \<in> {1, 2, 3, 4}" "\<forall>e \<in> set (events demo_sched). event e \<in> {1, 2, 3, 4, 5, 6}"
      "length (process_list demo_sched) \<le> 7" "\<forall>x \<in> set (process_list ?s). status x \<in> {1, 2, 3, 4}" "\<forall>e \<in> set (events ?s). event e \<in> {1, 2, 3, 4, 5, 6}"
    by (simp_all add: demo_sched_def demo_pcb_def)
  then show ?thesis
    using debug_printers_bounds [of demo_sched "\<lambda>_. 7"] debug_printers_bounds [of ?s "\<lambda>_. 7"] by simp
qed

end
