(* ===== verification/Processes.thy ===== *)
theory Processes
  imports Syscalls Debug
begin

text \<open>
  The programs of \<^verbatim>\<open>os/src/user\<close> that work with processes and messages: \<^verbatim>\<open>producer\<close>, \<^verbatim>\<open>pipeline\<close>, \<^verbatim>\<open>consumer\<close>,
  \<^verbatim>\<open>messenger\<close>, \<^verbatim>\<open>P0\<close>, \<^verbatim>\<open>P1\<close>, \<^verbatim>\<open>proc\<close> and \<^verbatim>\<open>kill\<close>.  The first six are loops that take turns with other processes.
  Each is a state machine whose steps are its system calls with the code in front of them; a schedule says in which
  order the processes take their steps, so that they are interleaved at their system calls.  \<^verbatim>\<open>_yield\<close> and the
  delay loops change nothing that the programs share, and are part of the next step.  What a program does before its loop is
  one function of its own.

  Shown: what the console shows for every schedule, and that no message is lost, doubled or changed.
\<close>

section \<open>State\<close>

text \<open>What the programs share: messages, memory and heap, and the characters printed.\<close>

record world =
  wipc :: ipc
  wout :: "u8 list"

definition w_print :: "cstr \<Rightarrow> world \<Rightarrow> world" where
  "w_print str w = w\<lparr>wout := wout w @ take (stdstring_length str) str\<rparr>"

definition w_printchar :: "u8 \<Rightarrow> world \<Rightarrow> world" where
  "w_printchar ch w = w\<lparr>wout := wout w @ [ch]\<rparr>"

definition w_printint :: "i32 \<Rightarrow> world \<Rightarrow> world" where
  "w_printint n w = w_print (stdstring_int_to_str n) w"

abbreviation wmem :: "world \<Rightarrow> memory" where
  "wmem w \<equiv> mem (wipc w)"

definition w_store :: "u32 \<Rightarrow> u8 \<Rightarrow> world \<Rightarrow> world" where
  "w_store a v w = w\<lparr>wipc := (wipc w)\<lparr>mem := (wmem w)(a := v)\<rparr>\<rparr>"

definition w_send :: "u32 \<times> u32 \<Rightarrow> u32 \<Rightarrow> u32 \<Rightarrow> pid_t \<Rightarrow> pid_t \<Rightarrow> world \<Rightarrow> world option" where
  "w_send heap buf n sender receiver w = do {
     st \<leftarrow> ipc_send_message (fst heap) (snd heap) buf n sender receiver (wipc w);
     Some (w\<lparr>wipc := st\<rparr>) }"

definition w_receive :: "u32 \<Rightarrow> u32 \<Rightarrow> pid_t \<Rightarrow> world \<Rightarrow> i32 \<times> world" where
  "w_receive buf n receiver w =
     (let (r, st) = ipc_receive_any_message buf n receiver (wipc w) in (r, w\<lparr>wipc := st\<rparr>))"

definition w_allocate :: "u32 \<times> u32 \<Rightarrow> u32 \<Rightarrow> world \<Rightarrow> u32 \<times> world" where
  "w_allocate heap sz w =
     (let (p, brk) = stdmem_allocate (fst heap) (snd heap) (heap_break (wipc w)) sz
      in (p, w\<lparr>wipc := (wipc w)\<lparr>heap_break := brk\<rparr>\<rparr>))"

section \<open>Programs\<close>

text \<open>
  A running program: the place it has reached and its local variables.
\<close>

datatype program_state =
    Producer pid_t pid_t u32
  | Pipeline_poll pid_t pid_t u32 u32
  | Pipeline_send pid_t pid_t u32 u32
  | Consumer_poll pid_t u32
  | Consumer_print nat pid_t u32
  | Child_start pid_t
  | Child_poll pid_t u32
  | Child_print nat u32
  | Parent_send pid_t pid_t u32
  | Parent_print nat u32
  | Counting cstr nat nat
  | Exited i32

definition producer_step :: "u32 \<times> u32 \<Rightarrow> pid_t \<Rightarrow> pid_t \<Rightarrow> u32 \<Rightarrow> world \<Rightarrow> (program_state \<times> world) option" where
  "producer_step heap me out_pid argv1 w = do {
     w1 \<leftarrow> w_send heap argv1 1 me out_pid w;
     Some (Producer me out_pid argv1, w1) }"

definition pipeline_poll :: "pid_t \<Rightarrow> pid_t \<Rightarrow> u32 \<Rightarrow> u32 \<Rightarrow> world \<Rightarrow> program_state \<times> world" where
  "pipeline_poll me out_pid received outward w =
     (let (result, w1) = w_receive received 1 me w
      in if sint result < 0 then (Pipeline_poll me out_pid received outward, w1)
         else (Pipeline_send me out_pid received outward, w1))"

definition pipeline_send :: "u32 \<times> u32 \<Rightarrow> pid_t \<Rightarrow> pid_t \<Rightarrow> u32 \<Rightarrow> u32 \<Rightarrow> world \<Rightarrow> (program_state \<times> world) option" where
  "pipeline_send heap me out_pid received outward w = do {
     let w1 = w_store outward (wmem w received + 1) w;
     w2 \<leftarrow> w_send heap outward 1 me out_pid w1;
     Some (if uint (wmem w2 outward) = - 1 then Exited 0 else Pipeline_poll me out_pid received outward, w2) }"

definition consumer_poll :: "pid_t \<Rightarrow> u32 \<Rightarrow> world \<Rightarrow> program_state \<times> world" where
  "consumer_poll me received w =
     (let (result, w1) = w_receive received 1 me w
      in if sint result < 0 then (Consumer_poll me received, w1) else (Consumer_print 0 me received, w1))"

definition consumer_print :: "nat \<Rightarrow> pid_t \<Rightarrow> u32 \<Rightarrow> world \<Rightarrow> program_state \<times> world" where
  "consumer_print i me received w =
     (if i = 0 then (Consumer_print 1 me received, w_print (lit ''Consumer: received '') w)
      else if i = 1 then (Consumer_print 2 me received, w_printchar (wmem w received) w)
      else (if uint (wmem w received) = - 1 then Exited 0 else Consumer_poll me received, w_print [10] w))"

text \<open>The child of \<^verbatim>\<open>messenger\<close>: the block for the message is its own first step, which may come before or after the send.\<close>

definition child_start :: "u32 \<times> u32 \<Rightarrow> pid_t \<Rightarrow> world \<Rightarrow> program_state \<times> world" where
  "child_start heap child_pid w =
     (let (received, w1) = w_allocate heap 101 w in (Child_poll child_pid received, w1))"

definition child_poll :: "pid_t \<Rightarrow> u32 \<Rightarrow> world \<Rightarrow> program_state \<times> world" where
  "child_poll child_pid received w =
     (let (result, w1) = w_receive received 100 child_pid w
      in if sint result < 0 then (Child_poll child_pid received, w1)
         else (Child_print 0 received, w_store (received + 100) 0 w1))"

definition child_print :: "nat \<Rightarrow> u32 \<Rightarrow> world \<Rightarrow> program_state \<times> world" where
  "child_print i received w =
     (if i = 0 then (Child_print 1 received, w_print (lit ''Received message: '') w)
      else if i = 1 then (Child_print 2 received, w_print (string_at (wmem w) received) w)
      else (Exited 0, w_print [10] w))"

definition parent_send :: "u32 \<times> u32 \<Rightarrow> pid_t \<Rightarrow> pid_t \<Rightarrow> u32 \<Rightarrow> world \<Rightarrow> (program_state \<times> world) option" where
  "parent_send heap parent_pid fork_pid message w = do {
     w1 \<leftarrow> w_send heap message 4 parent_pid fork_pid w;
     Some (Parent_print 0 message, w1) }"

definition parent_print :: "nat \<Rightarrow> u32 \<Rightarrow> world \<Rightarrow> program_state \<times> world" where
  "parent_print i message w =
     (if i = 0 then (Parent_print 1 message, w_print (lit ''Sent message: '') w)
      else if i = 1 then (Parent_print 2 message, w_print (string_at (wmem w) message) w)
      else (Exited 0, w_print [10] w))"

text \<open>The loop of \<^verbatim>\<open>P0\<close> and \<^verbatim>\<open>P1\<close>: \<open>i\<close> is the loop variable, \<open>j\<close> the next of the three calls.\<close>

definition count_step :: "cstr \<Rightarrow> nat \<Rightarrow> nat \<Rightarrow> world \<Rightarrow> program_state \<times> world" where
  "count_step label i j w =
     (if i < 5 then
        (if j = 0 then (Counting label i 1, w_print label w)
         else if j = 1 then (Counting label i 2, w_printint (of_nat i) w)
         else (Counting label (Suc i) 0, w_print [10] w))
      else (Exited 0, w))"

fun program_step :: "u32 \<times> u32 \<Rightarrow> program_state \<Rightarrow> world \<Rightarrow> (program_state \<times> world) option" where
  "program_step heap (Producer me out_pid argv1) w = producer_step heap me out_pid argv1 w"
| "program_step heap (Pipeline_poll me out_pid received outward) w = Some (pipeline_poll me out_pid received outward w)"
| "program_step heap (Pipeline_send me out_pid received outward) w = pipeline_send heap me out_pid received outward w"
| "program_step heap (Consumer_poll me received) w = Some (consumer_poll me received w)"
| "program_step heap (Consumer_print i me received) w = Some (consumer_print i me received w)"
| "program_step heap (Child_start child_pid) w = Some (child_start heap child_pid w)"
| "program_step heap (Child_poll child_pid received) w = Some (child_poll child_pid received w)"
| "program_step heap (Child_print i received) w = Some (child_print i received w)"
| "program_step heap (Parent_send parent_pid fork_pid message) w = parent_send heap parent_pid fork_pid message w"
| "program_step heap (Parent_print i message) w = Some (parent_print i message w)"
| "program_step heap (Counting label i j) w = Some (count_step label i j w)"
| "program_step heap (Exited code) w = Some (Exited code, w)"

text \<open>Processes interleaved: the schedule says whose turn it is.\<close>

fun run_schedule :: "u32 \<times> u32 \<Rightarrow> nat list \<Rightarrow> program_state list \<Rightarrow> world \<Rightarrow> (program_state list \<times> world) option" where
  "run_schedule heap [] ps w = Some (ps, w)"
| "run_schedule heap (i # is) ps w = do {
     (p, w1) \<leftarrow> program_step heap (ps ! i) w;
     run_schedule heap is (ps[i := p]) w1 }"


text \<open>
  What the programs do before their loops.  \<open>me\<close> is the result of \<^verbatim>\<open>_getpid\<close>; the pointers that
  \<^verbatim>\<open>stdmem_allocate\<close> returns are not checked by the code.  An exit with wrong arguments is the first branch.
  The programs give \<^verbatim>\<open>stdstring_strtol\<close> an uninitialised pointer \<^verbatim>\<open>end\<close>, here the argument \<open>endptr\<close>: unless it happens to be
  NULL, the address behind the number is stored there (\<open>strtol_call\<close>).
\<close>

definition strtol_call :: "u32 \<Rightarrow> u32 \<Rightarrow> memory \<Rightarrow> i32 \<times> memory" where
  "strtol_call endptr a m =
     (let (n, k) = stdstring_strtol (string_at m a) 10
      in (n, if endptr \<noteq> 0 then store32 m endptr (a + of_nat k) else m))"

definition w_strtol :: "u32 \<Rightarrow> u32 \<Rightarrow> world \<Rightarrow> i32 \<times> world" where
  "w_strtol endptr a w =
     (let (n, m) = strtol_call endptr a (wmem w) in (n, w\<lparr>wipc := (wipc w)\<lparr>mem := m\<rparr>\<rparr>))"

definition number_at :: "world \<Rightarrow> u32 \<Rightarrow> i32" where
  "number_at w a = fst (stdstring_strtol (string_at (wmem w) a) 10)"

definition wrong_arguments :: "world \<Rightarrow> program_state \<times> world" where
  "wrong_arguments w = (Exited (- 1), w_print (lit ''Invalid arguments.'' @ [10]) w)"

definition producer_start :: "u32 \<Rightarrow> u32 list \<Rightarrow> pid_t \<Rightarrow> world \<Rightarrow> program_state \<times> world" where
  "producer_start endptr argv me w =
     (if length argv \<noteq> 2 then wrong_arguments w
      else let (out_pid, w1) = w_strtol endptr (argv ! 0) w
           in (Producer me out_pid (argv ! 1), w1))"

definition pipeline_start :: "u32 \<times> u32 \<Rightarrow> u32 \<Rightarrow> u32 list \<Rightarrow> pid_t \<Rightarrow> world \<Rightarrow> program_state \<times> world" where
  "pipeline_start heap endptr argv me w =
     (if length argv \<noteq> 1 then wrong_arguments w
      else let (out_pid, w0) = w_strtol endptr (argv ! 0) w;
               w1 = w_print [10] (w_printint me (w_print (lit ''Pipeline PID: '') w0));
               (received, w2) = w_allocate heap 1 w1;
               (outward, w3) = w_allocate heap 1 w2
           in (Pipeline_poll me out_pid received outward, w3))"

definition consumer_start :: "u32 \<times> u32 \<Rightarrow> pid_t \<Rightarrow> world \<Rightarrow> program_state \<times> world" where
  "consumer_start heap me w =
     (let w1 = w_print [10] (w_printint me (w_print (lit ''Consumer PID: '') w));
          (received, w2) = w_allocate heap 1 w1
      in (Consumer_poll me received, w2))"

text \<open>The two sides of \<^verbatim>\<open>messenger\<close> behind the fork; \<open>message\<close> is the address of the literal.\<close>

definition messenger_start :: "u32 \<Rightarrow> pid_t \<Rightarrow> pid_t \<Rightarrow> program_state list" where
  "messenger_start message parent_pid fork_pid =
     [Parent_send parent_pid fork_pid message, Child_start fork_pid]"

definition program_P0 :: program_state where
  "program_P0 = Counting (lit ''P0: '') 0 0"

definition program_P1 :: program_state where
  "program_P1 = Counting (lit ''P1: '') 0 0"

text \<open>\<^verbatim>\<open>proc\<close>: a line for each process of the copied list.\<close>

definition print_process :: "pcb_t \<Rightarrow> world \<Rightarrow> world" where
  "print_process item w =
     (let w1 = w_print (lit '' '') (w_printint (pid item) w);
          w2 = (if status item = PROCESS_STATUS_RUNNING then w_print (lit ''RUNNING'') w1
                else if status item = PROCESS_STATUS_READY then w_print (lit ''READY'') w1
                else if status item = PROCESS_STATUS_BLOCKED then w_print (lit ''BLOCKED'') w1
                else if status item = PROCESS_STATUS_TERMINATED then w_print (lit ''TERMINATED'') w1
                else w1)
      in w_print [10] w2)"

definition program_proc :: "pcb_t \<Rightarrow> sched \<Rightarrow> world \<Rightarrow> i32 \<times> world" where
  "program_proc fresh s w = (0, fold print_process (scheduler_list_procs fresh s) w)"

text \<open>
  \<^verbatim>\<open>kill\<close> up to its system call, and how it goes on with the value it then finds in r0.
\<close>

definition program_kill :: "kenv \<Rightarrow> u32 \<Rightarrow> u32 list \<Rightarrow> ctx_t \<Rightarrow> kernel \<Rightarrow> (ctx_t \<times> kernel) option" where
  "program_kill env endptr argv c k =
     (if length argv \<noteq> 1 then stdproc_exit env (- 1) c k
      else do {
        let (p, m) = strtol_call endptr (argv ! 0) (kmem k);
        (result, c', k') \<leftarrow> user_kill env p 9 c (set_mem m k);
        Some (c', k') })"

definition kill_exit_code :: "i32 \<Rightarrow> i32" where
  "kill_exit_code result = (if result \<noteq> 0 then - 1 else 0)"


section \<open>Interleaved output\<close>

lemma w_print_fields [simp]:
  "wipc (w_print str w) = wipc w" "wout (w_print str w) = wout w @ cstring str"
  "wipc (w_printchar ch w) = wipc w" "wout (w_printchar ch w) = wout w @ [ch]"
  by (simp_all add: w_print_def w_printchar_def cstring_def takeWhile_eq_take [symmetric])

lemma run_Cons: "run_schedule heap (i # is) ps w = do { (ps1, w1) \<leftarrow> run_schedule heap [i] ps w; run_schedule heap is ps1 w1 }"
  by (auto split: Option.bind_split)

lemma run_append: "run_schedule heap (is @ js) ps w = do { (ps1, w1) \<leftarrow> run_schedule heap is ps w; run_schedule heap js ps1 w1 }"
  by (induction "is" arbitrary: ps w) (auto split: Option.bind_split)

lemma snoc_in_shuffles: "ys @ [x] \<in> shuffles [x] ys"
  by (induction ys) (auto simp: Cons_in_shuffles_iff)

lemma shuffles_snoc1: "zs \<in> shuffles xs ys \<Longrightarrow> zs @ [x] \<in> shuffles (xs @ [x]) ys"
proof (induction xs ys arbitrary: zs rule: shuffles.induct)
  case (3 x xs y ys)
  then show ?case by auto
qed (auto simp: snoc_in_shuffles)

lemma shuffles_snoc2: "zs \<in> shuffles xs ys \<Longrightarrow> zs @ [y] \<in> shuffles xs (ys @ [y])"
  using shuffles_snoc1 [of zs ys xs y] by (simp add: shuffles_commutes)

lemma shuffles_append1: "zs \<in> shuffles xs ys \<Longrightarrow> zs @ us \<in> shuffles (xs @ us) ys"
proof (induction us rule: rev_induct)
  case (snoc u us)
  then show ?case using shuffles_snoc1 [of "zs @ us" "xs @ us" ys u] by simp
qed simp

lemma shuffles_append2: "zs \<in> shuffles xs ys \<Longrightarrow> zs @ us \<in> shuffles xs (ys @ us)"
  using shuffles_append1 [of zs ys xs us] by (simp add: shuffles_commutes)

lemma bytes_at_Suc: "bytes_at m a (Suc k) = m a # bytes_at m (a + 1) k"
  by (simp add: bytes_at_def map_upt_Suc ac_simps del: upt_Suc)

lemma string_upto_eq:
  assumes "\<And>i. i < k \<Longrightarrow> m (a + of_nat i) \<noteq> 0" "m (a + of_nat k) = 0" "k < n"
  shows "string_upto n m a = bytes_at m a k"
  using assms
proof (induction k arbitrary: a n)
  case 0
  then show ?case by (cases n) (simp_all add: bytes_at_def)
next
  case (Suc k)
  then obtain n' where n': "n = Suc n'" by (cases n) simp_all
  have "m a \<noteq> 0" using Suc.prems(1) [of 0] by simp
  moreover have "string_upto n' m (a + 1) = bytes_at m (a + 1) k"
    using Suc.IH [of "a + 1" n'] Suc.prems(1) [of "Suc _"] Suc.prems(2,3) n' by (simp add: ac_simps)
  ultimately show ?case by (simp add: n' bytes_at_Suc)
qed

text \<open>The string at an address, when its end is within the address space.\<close>

lemma cstring_string_at:
  assumes "0 \<notin> set s" "bytes_at m a (Suc (length s)) = s @ [0]" "length s < 4294967296"
  shows "cstring (string_at m a) = s"
proof -
  have s: "bytes_at m a (length s) = s" "m (a + of_nat (length s)) = 0"
    using assms(2) by (simp_all add: bytes_at_def)
  have "m (a + of_nat i) \<noteq> 0" if "i < length s" for i
  proof -
    have "m (a + of_nat i) = s ! i" using s(1) that by (metis (no_types, lifting) bytes_at_def add_0 diff_zero length_map length_upt nth_map nth_upt)
    then show ?thesis using assms(1) that by (metis nth_mem)
  qed
  then have "string_upto 4294967296 m a = s" using string_upto_eq [of "length s" m a 4294967296] s assms(3) by simp
  moreover have "bytes_at m (a + of_nat (length s)) 101 = 0 # bytes_at m (a + of_nat (length s) + 1) 100"
    using bytes_at_Suc [of m "a + of_nat (length s)" 100] s(2) by simp
  ultimately show ?thesis using assms(1) by (simp add: string_at_def Let_def cstring_append_zero)
qed


section \<open>Messages of one byte\<close>

text \<open>A byte that no message and no later message block covers.\<close>

definition byte_safe :: "u32 \<times> u32 \<Rightarrow> world \<Rightarrow> u32 \<Rightarrow> bool" where
  "byte_safe heap w x \<longleftrightarrow> buffer_ok x 1 (wipc w) \<and> (x < heap_break (wipc w) \<or> snd heap \<le> x)"

lemma cstring_lits: "cstring (lit ''Consumer: received '') = lit ''Consumer: received ''" "cstring [10] = [10]"
  by (simp_all add: lit_def cstring_def)

lemma bytes_at_1 [simp]: "bytes_at m a (Suc 0) = [m a]"
  by (simp add: bytes_at_def)

lemma bytes_at_upd:
  assumes "apart y 1 a n"
  shows "bytes_at (m(y := v)) a n = bytes_at m a n"
proof -
  have "a + of_nat i \<noteq> y" if "i < n" for i
  proof -
    have "unat (a + of_nat i) = unat a + i" using assms that by (simp add: apart_def unat_word_ariths unat_of_nat)
    then show ?thesis using assms that by (auto simp: apart_def)
  qed
  then show ?thesis by (simp add: bytes_at_def)
qed

lemma byte_safe_apart: "byte_safe heap w y \<Longrightarrow> x \<in> set (messages (wipc w)) \<Longrightarrow> apart y 1 (content x) (unat (nbytes x))"
  by (auto simp: byte_safe_def buffer_ok_def apart_def)

lemma inbox_send:
  assumes "ipc_wf lo hi st" "unat (heap_break st) + 24 + unat n \<le> unat hi"
    "apart (heap_break st + 24) (unat n) buf (unat n)" "ipc_send_message lo hi buf n a b st = Some st'"
  shows "inbox d st' = inbox d st @ (if d = b then [(a, bytes_at (mem st) buf (unat n))] else [])"
proof -
  note e = ipc_send_message_eq [OF assms(1,2)] and old = ipc_send_payload [OF assms(1,2,4)]
  have new: "bytes_at (mem st') (heap_break st + 24) (unat n) = bytes_at (mem st) buf (unat n)"
    using assms(4) stdmem_copy_bytes [OF copy_safe_apart [OF assms(3)]] by (auto simp: e(1))
  have ms: "messages st' = messages st @ [\<lparr>content = heap_break st + 24, nbytes = n, msg_from = a, msg_to = b\<rparr>]"
    using assms(4) by (auto simp: e(1))
  show ?thesis using old new by (auto simp: inbox_def ms payload_def)
qed

lemma w_send_byte:
  assumes "ipc_wf lo hi (wipc w)" "unat (heap_break (wipc w)) + 25 \<le> unat hi" "byte_safe (lo, hi) w buf"
  obtains w' where "w_send (lo, hi) buf 1 a b w = Some w'" "ipc_wf lo hi (wipc w')"
    "unat (heap_break (wipc w')) = unat (heap_break (wipc w)) + 25" "wout w' = wout w"
    "\<And>d. inbox d (wipc w') = inbox d (wipc w) @ (if d = b then [(a, [wmem w buf])] else [])"
    "\<And>x. byte_safe (lo, hi) w x \<Longrightarrow> byte_safe (lo, hi) w' x \<and> wmem w' x = wmem w x"
proof -
  let ?st = "wipc w"
  have room: "unat (heap_break ?st) + 24 + unat (1 :: u32) \<le> unat hi" using assms(2) by simp
  note e = ipc_send_message_eq [OF assms(1) room]
  obtain st' where st': "ipc_send_message lo hi buf 1 a b ?st = Some st'" using e(1) by blast
  have far: "apart (heap_break ?st + 24) 1 x 1" "apart x 1 (heap_break ?st + 24) 1" if "byte_safe (lo, hi) w x" for x
    using that assms(2) e(2) unat_u32_less [of hi] unat_u32_less [of x]
    by (auto simp: byte_safe_def apart_def word_less_nat_alt word_le_nat_alt)
  have same: "mem st' x = mem ?st x" if "byte_safe (lo, hi) w x" for x
    using bytes_at_copy_apart [of "heap_break ?st + 24" 1 x 1] far(1) [OF that] st' e(1) by auto
  have safe: "byte_safe (lo, hi) (w\<lparr>wipc := st'\<rparr>) x" if "byte_safe (lo, hi) w x" for x
    using that st' e far(2) [OF that] by (auto simp: byte_safe_def buffer_ok_def word_less_nat_alt)
  have one: "unat (1 :: u32) = Suc 0" by simp
  have "inbox d st' = inbox d ?st @ (if d = b then [(a, [mem ?st buf])] else [])" for d
    using inbox_send [OF assms(1) room _ st', of d] far(1) [OF assms(3)] by (simp add: one)
  moreover have "unat (heap_break st') = unat (heap_break ?st) + 25" using st' e(1,4) by auto
  ultimately show ?thesis
    using that [of "w\<lparr>wipc := st'\<rparr>"] st' ipc_send_wf [OF assms(1) room st'] safe same by (simp add: w_send_def)
qed

lemma w_receive_byte:
  assumes "ipc_wf lo hi (wipc w)" "byte_safe (lo, hi) w buf" "\<forall>(a, bs) \<in> set (take 1 (inbox b (wipc w))). 1 \<le> length bs"
  shows "case inbox b (wipc w) of [] \<Rightarrow> w_receive buf 1 b w = (- 1, w)
    | (a, bs) # rest \<Rightarrow> \<exists>w'. w_receive buf 1 b w = (0, w') \<and> ipc_wf lo hi (wipc w') \<and> heap_break (wipc w') = heap_break (wipc w)
        \<and> wout w' = wout w \<and> wmem w' = (wmem w)(buf := hd bs) \<and> inbox b (wipc w') = rest
        \<and> (\<forall>d. d \<noteq> b \<longrightarrow> inbox d (wipc w') = inbox d (wipc w)) \<and> (\<forall>x. byte_safe (lo, hi) w x \<longrightarrow> byte_safe (lo, hi) w' x)"
proof (cases "filter (\<lambda>x. msg_to x = b) (messages (wipc w))")
  case Nil
  then show ?thesis by (simp add: inbox_def w_receive_def ipc_receive_any_message_def receive_loop_None)
next
  case (Cons x xs)
  let ?st = "wipc w"
  obtain pre post where pp: "messages ?st = pre @ x # post" "\<forall>y \<in> set pre. msg_to y \<noteq> b" "filter (\<lambda>x. msg_to x = b) post = xs"
      "receive_loop (\<lambda>x. msg_to x = b) buf 1 (messages ?st) (mem ?st) = (0, pre @ post, stdmem_copy (mem ?st) buf (content x) 1)"
    using receive_loop_Some [OF Cons] by blast
  define w' where "w' = w\<lparr>wipc := ?st\<lparr>messages := pre @ post, mem := (mem ?st)(buf := mem ?st (content x))\<rparr>\<rparr>"
  have r: "w_receive buf 1 b w = (0, w')"
    using pp(4) by (simp add: w_receive_def ipc_receive_any_message_def w'_def stdmem_copy_def Let_def)
  have pay: "payload (wipc w') y = payload ?st y" if "y \<in> set (messages ?st)" for y
  proof -
    have "apart buf 1 (content y) (unat (nbytes y))" using assms(2) that by (rule byte_safe_apart)
    then show ?thesis by (simp add: payload_def w'_def bytes_at_upd)
  qed
  have len: "0 < unat (nbytes x)" using assms(3) Cons by (simp add: inbox_def length_payload)
  have box': "inbox d (wipc w') = map (\<lambda>x. (msg_from x, payload ?st x)) (filter (\<lambda>x. msg_to x = d) (pre @ post))" for d
  proof -
    have "messages (wipc w') = pre @ post" by (simp add: w'_def)
    then show ?thesis unfolding inbox_def using pay pp(1) by (intro map_cong) auto
  qed
  have to: "msg_to x = b" using Cons by (auto simp: filter_eq_Cons_iff)
  have pre: "filter (\<lambda>x. msg_to x = b) pre = []" using pp(2) by simp
  have box: "inbox b ?st = (msg_from x, payload ?st x) # inbox b (wipc w')" using to pre pp(1) by (simp add: box') (simp add: inbox_def)
  have other: "inbox d (wipc w') = inbox d ?st" if "d \<noteq> b" for d using to that pp(1) by (simp add: box') (simp add: inbox_def)
  have "hd (payload ?st x) = mem ?st (content x)" using len by (simp add: payload_def bytes_at_def hd_map hd_upt)
  moreover have "ipc_wf lo hi (wipc w')" "byte_safe (lo, hi) w y \<Longrightarrow> byte_safe (lo, hi) w' y" for y
    using assms(1) pp(1) by (auto simp: ipc_wf_def w'_def byte_safe_def buffer_ok_def)
  ultimately show ?thesis using r box other by (simp add: w'_def)
qed


section \<open>The invariant of the pipeline\<close>

definition consumer_line :: "u8 \<Rightarrow> u8 list" where
  "consumer_line b = lit ''Consumer: received '' @ [b, 10]"

text \<open>
  \<open>a\<close> and \<open>c\<close> messages are on their way to pipeline and consumer, the pipeline holds one (\<open>held\<close>), \<open>n\<close> lines are printed,
  and \<open>i\<close> says how far the next line is.
\<close>

definition part_printed :: "nat \<Rightarrow> u8 \<Rightarrow> u8 list" where
  "part_printed i b = (if i \<le> 1 then [] else if i = 2 then lit ''Consumer: received '' else lit ''Consumer: received '' @ [b])"

definition pipeline_ok where
  "pipeline_ok lo hi p q r ab rb ob cb b out a held c n i ps w \<longleftrightarrow>
     ps = [Producer p q ab, (if held then Pipeline_send q r rb ob else Pipeline_poll q r rb ob),
           (if i = 0 then Consumer_poll r cb else Consumer_print (i - 1) r cb)] \<and> i \<le> 3
     \<and> ipc_wf lo hi (wipc w) \<and> (\<forall>x \<in> {ab, rb, ob, cb}. byte_safe (lo, hi) w x) \<and> distinct [ab, rb, ob, cb] \<and> q \<noteq> r
     \<and> inbox q (wipc w) = replicate a (p, [b]) \<and> inbox r (wipc w) = replicate c (q, [b + 1])
     \<and> wmem w ab = b \<and> (held \<longrightarrow> wmem w rb = b) \<and> (i \<noteq> 0 \<longrightarrow> wmem w cb = b + 1)
     \<and> wout w = out @ concat (replicate n (consumer_line (b + 1))) @ part_printed i (b + 1)"

lemma producer_ok:
  assumes "pipeline_ok lo hi p q r ab rb ob cb b out a held c n i ps w" "unat (heap_break (wipc w)) + 25 \<le> unat hi"
  shows "\<exists>ps' w'. run_schedule (lo, hi) [0] ps w = Some (ps', w') \<and> unat (heap_break (wipc w')) = unat (heap_break (wipc w)) + 25
    \<and> pipeline_ok lo hi p q r ab rb ob cb b out (Suc a) held c n i ps' w'"
proof -
  note ok = assms(1) [unfolded pipeline_ok_def]
  obtain w' where w': "w_send (lo, hi) ab 1 p q w = Some w'" "ipc_wf lo hi (wipc w')"
    "unat (heap_break (wipc w')) = unat (heap_break (wipc w)) + 25" "wout w' = wout w"
    "\<And>d. inbox d (wipc w') = inbox d (wipc w) @ (if d = q then [(p, [wmem w ab])] else [])"
    "\<And>x. byte_safe (lo, hi) w x \<Longrightarrow> byte_safe (lo, hi) w' x \<and> wmem w' x = wmem w x"
    by (rule w_send_byte [of lo hi w ab p q]) (use ok assms(2) in auto)
  then have "run_schedule (lo, hi) [0] ps w = Some (ps, w')" using ok by (simp add: producer_step_def)
  moreover have "pipeline_ok lo hi p q r ab rb ob cb b out (Suc a) held c n i ps w'"
    unfolding pipeline_ok_def using ok w' by (auto simp: replicate_append_same)
  ultimately show ?thesis using w'(3) by blast
qed

lemma byte_safe_store [simp]: "byte_safe heap (w_store y v w) x = byte_safe heap w x"
  by (simp add: byte_safe_def w_store_def buffer_ok_def)

lemma payload_store:
  assumes "byte_safe heap w y" "x \<in> set (messages (wipc w))"
  shows "payload (wipc (w_store y v w)) x = payload (wipc w) x"
proof -
  have "apart y 1 (content x) (unat (nbytes x))" using assms by (rule byte_safe_apart)
  then show ?thesis by (simp add: payload_def w_store_def bytes_at_upd)
qed

lemma store_fields [simp]:
  "heap_break (wipc (w_store y v w)) = heap_break (wipc w)" "messages (wipc (w_store y v w)) = messages (wipc w)"
  "wmem (w_store y v w) = (wmem w)(y := v)" "wout (w_store y v w) = wout w" "ipc_wf lo hi (wipc (w_store y v w)) = ipc_wf lo hi (wipc w)"
  by (simp_all add: w_store_def ipc_wf_def)

lemma byte_safe_print [simp]: "byte_safe heap (w_print str w) x = byte_safe heap w x" "byte_safe heap (w_printchar ch w) x = byte_safe heap w x"
  by (simp_all add: byte_safe_def)

lemma inbox_store: "byte_safe heap w y \<Longrightarrow> inbox d (wipc (w_store y v w)) = inbox d (wipc w)"
  using payload_store by (fastforce simp: inbox_def)

lemma pipeline_step_ok:
  assumes "pipeline_ok lo hi p q r ab rb ob cb b out a held c n i ps w" "unat (heap_break (wipc w)) + 25 \<le> unat hi"
  shows "\<exists>ps' w' a' held' c'. run_schedule (lo, hi) [1] ps w = Some (ps', w') \<and> unat (heap_break (wipc w')) \<le> unat (heap_break (wipc w)) + 25
    \<and> pipeline_ok lo hi p q r ab rb ob cb b out a' held' c' n i ps' w' \<and> a' + of_bool held' + c' = a + of_bool held + c"
proof (cases held)
  case True
  note ok = assms(1) [unfolded pipeline_ok_def]
  let ?w = "w_store ob (b + 1) w"
  have ob: "byte_safe (lo, hi) w ob" using ok by simp
  obtain w' where w': "w_send (lo, hi) ob 1 q r ?w = Some w'" "ipc_wf lo hi (wipc w')"
    "unat (heap_break (wipc w')) = unat (heap_break (wipc ?w)) + 25" "wout w' = wout ?w"
    "\<And>d. inbox d (wipc w') = inbox d (wipc ?w) @ (if d = r then [(q, [wmem ?w ob])] else [])"
    "\<And>x. byte_safe (lo, hi) ?w x \<Longrightarrow> byte_safe (lo, hi) w' x \<and> wmem w' x = wmem ?w x"
    by (rule w_send_byte [of lo hi ?w ob q r]) (use ok assms(2) in auto)
  have "\<not> uint (wmem w' ob) = - 1" using uint_nonnegative [of "wmem w' ob"] by linarith
  then have "run_schedule (lo, hi) [1] ps w = Some (ps[1 := Pipeline_poll q r rb ob], w')"
    using ok True w'(1) by (simp add: pipeline_send_def)
  moreover have "pipeline_ok lo hi p q r ab rb ob cb b out a False (Suc c) n i (ps[1 := Pipeline_poll q r rb ob]) w'"
    unfolding pipeline_ok_def using ok True w' inbox_store [OF ob] by (auto simp: replicate_append_same)
  ultimately show ?thesis using w'(3) True by fastforce
next
  case False
  note ok = assms(1) [unfolded pipeline_ok_def]
  have rec: "case inbox q (wipc w) of [] \<Rightarrow> w_receive rb 1 q w = (- 1, w)
    | (a, bs) # rest \<Rightarrow> \<exists>w'. w_receive rb 1 q w = (0, w') \<and> ipc_wf lo hi (wipc w') \<and> heap_break (wipc w') = heap_break (wipc w)
        \<and> wout w' = wout w \<and> wmem w' = (wmem w)(rb := hd bs) \<and> inbox q (wipc w') = rest
        \<and> (\<forall>d. d \<noteq> q \<longrightarrow> inbox d (wipc w') = inbox d (wipc w)) \<and> (\<forall>x. byte_safe (lo, hi) w x \<longrightarrow> byte_safe (lo, hi) w' x)"
    by (rule w_receive_byte) (use ok in \<open>auto dest: in_set_takeD\<close>)
  show ?thesis
  proof (cases a)
    case 0
    then have "run_schedule (lo, hi) [1] ps w = Some (ps, w)" using ok False rec by (simp add: pipeline_poll_def)
    then show ?thesis using assms(1) by fastforce
  next
    case (Suc a')
    then obtain w' where w': "w_receive rb 1 q w = (0, w')" "ipc_wf lo hi (wipc w')" "heap_break (wipc w') = heap_break (wipc w)"
        "wout w' = wout w" "wmem w' = (wmem w)(rb := b)" "inbox q (wipc w') = replicate a' (p, [b])"
        "\<forall>d. d \<noteq> q \<longrightarrow> inbox d (wipc w') = inbox d (wipc w)" "\<forall>x. byte_safe (lo, hi) w x \<longrightarrow> byte_safe (lo, hi) w' x"
      using rec ok by auto
    have "run_schedule (lo, hi) [1] ps w = Some (ps[1 := Pipeline_send q r rb ob], w')"
      using ok False w'(1) by (simp add: pipeline_poll_def)
    moreover have "pipeline_ok lo hi p q r ab rb ob cb b out a' True c n i (ps[1 := Pipeline_send q r rb ob]) w'"
      unfolding pipeline_ok_def using ok False w' by auto
    ultimately show ?thesis using w'(3) False Suc by fastforce
  qed
qed

lemma consumer_step_ok:
  assumes "pipeline_ok lo hi p q r ab rb ob cb b out a held c n i ps w"
  shows "\<exists>ps' w' c' n' i'. run_schedule (lo, hi) [2] ps w = Some (ps', w') \<and> heap_break (wipc w') = heap_break (wipc w)
    \<and> pipeline_ok lo hi p q r ab rb ob cb b out a held c' n' i' ps' w' \<and> c' + n' + of_bool (i' \<noteq> 0) = c + n + of_bool (i \<noteq> 0)"
proof -
  note ok = assms(1) [unfolded pipeline_ok_def]
  have "i = 0 \<or> i = 1 \<or> i = 2 \<or> i = 3" using ok by linarith
  then consider "i = 0" "c = 0" | c' where "i = 0" "c = Suc c'" | "i = 1" | "i = 2" | "i = 3" by (cases c) blast+
  then show ?thesis
  proof cases
    case 1
    have "w_receive cb 1 r w = (- 1, w)" using w_receive_byte [of lo hi w cb r] ok 1 by simp
    then have "run_schedule (lo, hi) [2] ps w = Some (ps, w)" using ok 1 by (simp add: consumer_poll_def)
    then show ?thesis using assms by fastforce
  next
    case (2 c')
    then obtain w' where w': "w_receive cb 1 r w = (0, w')" "ipc_wf lo hi (wipc w')" "heap_break (wipc w') = heap_break (wipc w)"
        "wout w' = wout w" "wmem w' = (wmem w)(cb := b + 1)" "inbox r (wipc w') = replicate c' (q, [b + 1])"
        "\<forall>d. d \<noteq> r \<longrightarrow> inbox d (wipc w') = inbox d (wipc w)" "\<forall>x. byte_safe (lo, hi) w x \<longrightarrow> byte_safe (lo, hi) w' x"
      using w_receive_byte [of lo hi w cb r] ok by auto
    have "run_schedule (lo, hi) [2] ps w = Some (ps[2 := Consumer_print 0 r cb], w')"
      using ok 2 w'(1) by (simp add: consumer_poll_def)
    moreover have "pipeline_ok lo hi p q r ab rb ob cb b out a held c' n 1 (ps[2 := Consumer_print 0 r cb]) w'"
      unfolding pipeline_ok_def using ok 2 w' by (auto simp: part_printed_def)
    ultimately show ?thesis using w'(3) 2 by fastforce
  next
    case 3
    let ?w = "w_print (lit ''Consumer: received '') w"
    have "run_schedule (lo, hi) [2] ps w = Some (ps[2 := Consumer_print 1 r cb], ?w)"
      using ok 3 by (simp add: consumer_print_def)
    moreover have "pipeline_ok lo hi p q r ab rb ob cb b out a held c n 2 (ps[2 := Consumer_print 1 r cb]) ?w"
      unfolding pipeline_ok_def using ok 3 by (auto simp: part_printed_def cstring_lits)
    ultimately show ?thesis using 3 by (intro exI [of _ ?w] exI [of _ c] exI [of _ n] exI [of _ 2] exI conjI) auto
  next
    case 4
    let ?w = "w_printchar (b + 1) w"
    have "run_schedule (lo, hi) [2] ps w = Some (ps[2 := Consumer_print 2 r cb], ?w)"
      using ok 4 by (simp add: consumer_print_def)
    moreover have "pipeline_ok lo hi p q r ab rb ob cb b out a held c n 3 (ps[2 := Consumer_print 2 r cb]) ?w"
      unfolding pipeline_ok_def using ok 4 by (auto simp: part_printed_def)
    ultimately show ?thesis using 4 by (intro exI [of _ ?w] exI [of _ c] exI [of _ n] exI [of _ 3] exI conjI) auto
  next
    case 5
    let ?w = "w_print [10] w"
    have "\<not> uint (wmem w cb) = - 1" using uint_nonnegative [of "wmem w cb"] by linarith
    then have "run_schedule (lo, hi) [2] ps w = Some (ps[2 := Consumer_poll r cb], ?w)"
      using ok 5 by (simp add: consumer_print_def)
    moreover have "concat (replicate (Suc n) (consumer_line (b + 1))) = concat (replicate n (consumer_line (b + 1))) @ part_printed 3 (b + 1) @ [10]"
      unfolding replicate_append_same [symmetric] replicate_Suc by (simp add: consumer_line_def part_printed_def)
    then have "pipeline_ok lo hi p q r ab rb ob cb b out a held c (Suc n) 0 (ps[2 := Consumer_poll r cb]) ?w"
      unfolding pipeline_ok_def using ok 5
      by (auto simp del: replicate_Suc simp: part_printed_def cstring_lits)
    ultimately show ?thesis using 5 by (intro exI [of _ ?w] exI [of _ c] exI [of _ "Suc n"] exI [of _ 0] exI conjI) auto
  qed
qed


lemma pipeline_any_step:
  assumes "pipeline_ok lo hi p q r ab rb ob cb b out a held c n i ps w" "x \<in> {0, 1, 2}" "unat (heap_break (wipc w)) + 25 \<le> unat hi"
  shows "\<exists>ps1 w1 a1 h1 c1 n1 i1. run_schedule (lo, hi) [x] ps w = Some (ps1, w1) \<and> unat (heap_break (wipc w1)) \<le> unat (heap_break (wipc w)) + 25
      \<and> pipeline_ok lo hi p q r ab rb ob cb b out a1 h1 c1 n1 i1 ps1 w1
      \<and> a1 + of_bool h1 + c1 + n1 + of_bool (i1 \<noteq> 0) = a + of_bool held + c + n + of_bool (i \<noteq> 0) + of_bool (x = 0)"
proof -
  consider "x = 0" | "x = 1" | "x = 2" using assms(2) by auto
  then show ?thesis
  proof cases
    case 1
    obtain ps1 w1 where "run_schedule (lo, hi) [0] ps w = Some (ps1, w1)" "unat (heap_break (wipc w1)) = unat (heap_break (wipc w)) + 25"
      "pipeline_ok lo hi p q r ab rb ob cb b out (Suc a) held c n i ps1 w1" using producer_ok [OF assms(1,3)] by blast
    then show ?thesis using 1
      by (intro exI [of _ ps1] exI [of _ w1] exI [of _ "Suc a"] exI [of _ held] exI [of _ c] exI [of _ n] exI [of _ i]) simp
  next
    case 2
    obtain ps1 w1 a1 h1 c1 where "run_schedule (lo, hi) [1] ps w = Some (ps1, w1)" "unat (heap_break (wipc w1)) \<le> unat (heap_break (wipc w)) + 25"
      "pipeline_ok lo hi p q r ab rb ob cb b out a1 h1 c1 n i ps1 w1" "a1 + of_bool h1 + c1 = a + of_bool held + c"
      using pipeline_step_ok [OF assms(1,3)] by blast
    then show ?thesis using 2
      by (intro exI [of _ ps1] exI [of _ w1] exI [of _ a1] exI [of _ h1] exI [of _ c1] exI [of _ n] exI [of _ i]) simp
  next
    case 3
    obtain ps1 w1 c1 n1 i1 where "run_schedule (lo, hi) [2] ps w = Some (ps1, w1)" "heap_break (wipc w1) = heap_break (wipc w)"
      "pipeline_ok lo hi p q r ab rb ob cb b out a held c1 n1 i1 ps1 w1" "c1 + n1 + of_bool (i1 \<noteq> 0) = c + n + of_bool (i \<noteq> 0)"
      using consumer_step_ok [OF assms(1)] by blast
    then show ?thesis using 3
      by (intro exI [of _ ps1] exI [of _ w1] exI [of _ a] exI [of _ held] exI [of _ c1] exI [of _ n1] exI [of _ i1]) simp
  qed
qed

lemma pipeline_run:
  assumes "pipeline_ok lo hi p q r ab rb ob cb b out a held c n i ps w" "set sch \<subseteq> {0, 1, 2}"
    "unat (heap_break (wipc w)) + 25 * length sch \<le> unat hi"
  shows "\<exists>ps' w' a' held' c' n' i'. run_schedule (lo, hi) sch ps w = Some (ps', w')
    \<and> pipeline_ok lo hi p q r ab rb ob cb b out a' held' c' n' i' ps' w'
    \<and> a' + of_bool held' + c' + n' + of_bool (i' \<noteq> 0) = a + of_bool held + c + n + of_bool (i \<noteq> 0) + count_list sch 0"
  using assms
proof (induction sch arbitrary: a held c n i ps w)
  case Nil
  then show ?case by (intro exI [of _ ps] exI [of _ w] exI [of _ a] exI [of _ held] exI [of _ c] exI [of _ n] exI [of _ i]) simp
next
  case (Cons x sch)
  have "unat (heap_break (wipc w)) + 25 \<le> unat hi" "x \<in> {0, 1, 2}" using Cons.prems(2,3) by auto
  then obtain ps1 w1 a1 h1 c1 n1 i1 where s1: "run_schedule (lo, hi) [x] ps w = Some (ps1, w1)"
      "unat (heap_break (wipc w1)) \<le> unat (heap_break (wipc w)) + 25" "pipeline_ok lo hi p q r ab rb ob cb b out a1 h1 c1 n1 i1 ps1 w1"
      "a1 + of_bool h1 + c1 + n1 + of_bool (i1 \<noteq> 0) = a + of_bool held + c + n + of_bool (i \<noteq> 0) + of_bool (x = 0)"
    using pipeline_any_step [OF Cons.prems(1), of x] by meson
  have "set sch \<subseteq> {0, 1, 2}" "unat (heap_break (wipc w1)) + 25 * length sch \<le> unat hi" using Cons.prems(2,3) s1(2) by auto
  from Cons.IH [OF s1(3) this] obtain ps2 w2 a2 h2 c2 n2 i2 where
      "run_schedule (lo, hi) sch ps1 w1 = Some (ps2, w2)" "pipeline_ok lo hi p q r ab rb ob cb b out a2 h2 c2 n2 i2 ps2 w2"
      "a2 + of_bool h2 + c2 + n2 + of_bool (i2 \<noteq> 0) = a1 + of_bool h1 + c1 + n1 + of_bool (i1 \<noteq> 0) + count_list sch 0" by blast
  then show ?case unfolding run_Cons [of _ x sch] using s1(1,4) by (intro exI conjI) auto
qed

lemma part_printed_take: "\<exists>k. part_printed i b = take k (consumer_line b)"
  unfolding part_printed_def consumer_line_def
  by (rule exI [of _ "if i \<le> 1 then 0 else if i = 2 then length (lit ''Consumer: received '') else Suc (length (lit ''Consumer: received ''))"]) simp

text \<open>The programs as they start: each byte they allocate is their own.\<close>

lemma w_allocate_fits:
  assumes "ipc_wf lo hi (wipc w)" "unat (heap_break (wipc w)) + unat n \<le> unat hi"
  shows "w_allocate (lo, hi) n w = (heap_break (wipc w), w\<lparr>wipc := (wipc w)\<lparr>heap_break := heap_break (wipc w) + n\<rparr>\<rparr>)"
    "ipc_wf lo hi ((wipc w)\<lparr>heap_break := heap_break (wipc w) + n\<rparr>)" "unat (heap_break (wipc w) + n) = unat (heap_break (wipc w)) + unat n"
proof -
  have ok: "heap_ok lo hi (heap_break (wipc w))" using assms(1) by (simp add: ipc_wf_def)
  note a = stdmem_allocate_fits [OF ok assms(2)]
  then show "w_allocate (lo, hi) n w = (heap_break (wipc w), w\<lparr>wipc := (wipc w)\<lparr>heap_break := heap_break (wipc w) + n\<rparr>\<rparr>)"
    "unat (heap_break (wipc w) + n) = unat (heap_break (wipc w)) + unat n" by (simp_all add: w_allocate_def)
  show "ipc_wf lo hi ((wipc w)\<lparr>heap_break := heap_break (wipc w) + n\<rparr>)" using assms(1) a(2,3) by (fastforce simp: ipc_wf_def)
qed

lemma allocate_byte:
  assumes "ipc_wf lo hi (wipc w)" "unat (heap_break (wipc w)) + 1 \<le> unat hi" "\<forall>x \<in> set (messages (wipc w)). 0 < unat (nbytes x)"
  obtains w' where "w_allocate (lo, hi) 1 w = (heap_break (wipc w), w')" "ipc_wf lo hi (wipc w')"
    "unat (heap_break (wipc w')) = unat (heap_break (wipc w)) + 1" "byte_safe (lo, hi) w' (heap_break (wipc w))"
    "\<And>x. byte_safe (lo, hi) w x \<Longrightarrow> byte_safe (lo, hi) w' x \<and> x \<noteq> heap_break (wipc w)"
    "wout w' = wout w" "wmem w' = wmem w" "messages (wipc w') = messages (wipc w)"
proof -
  let ?b = "heap_break (wipc w)" and ?w = "w\<lparr>wipc := (wipc w)\<lparr>heap_break := heap_break (wipc w) + 1\<rparr>\<rparr>"
  note a = w_allocate_fits [OF assms(1), of 1]
  have "apart ?b 1 (content x) (max 1 (unat (nbytes x)))" if "x \<in> set (messages (wipc w))" for x
    using assms that unat_u32_less [of ?b] unat_u32_less [of hi] by (fastforce simp: apart_def ipc_wf_def max_def)
  then have "byte_safe (lo, hi) ?w ?b" using a(3) assms(2) by (simp add: byte_safe_def buffer_ok_def word_less_nat_alt)
  moreover have "byte_safe (lo, hi) ?w x \<and> x \<noteq> ?b" if "byte_safe (lo, hi) w x" for x
    using that a(3) assms(2) by (auto simp: byte_safe_def buffer_ok_def word_less_nat_alt word_le_nat_alt)
  ultimately show ?thesis using that [of ?w] a assms(2) by simp
qed

lemma strtol_fields [simp]:
  "heap_break (wipc (snd (w_strtol e a w))) = heap_break (wipc w)" "messages (wipc (snd (w_strtol e a w))) = messages (wipc w)"
  "wout (snd (w_strtol e a w)) = wout w" "ipc_wf lo hi (wipc (snd (w_strtol e a w))) = ipc_wf lo hi (wipc w)"
  "byte_safe heap (snd (w_strtol e a w)) x = byte_safe heap w x"
  by (simp_all add: w_strtol_def ipc_wf_def byte_safe_def buffer_ok_def split: prod.split)

lemma fst_w_strtol [simp]: "fst (w_strtol e a w) = number_at w a"
  by (simp add: w_strtol_def strtol_call_def number_at_def split: prod.split)

lemma programs_start:
  assumes "ipc_wf lo hi (wipc w)" "unat (heap_break (wipc w)) + 3 \<le> unat hi" "byte_safe (lo, hi) w ab" "number_at w a1 = r" "number_at w2 a2 = q"
    "\<forall>x \<in> set (messages (wipc w)). 0 < unat (nbytes x)"
    "consumer_start (lo, hi) r w = (co, w1)" "pipeline_start (lo, hi) e1 [a1] q w1 = (pl, w2)" "producer_start e2 [a2, ab] p w2 = (pr, w3)"
  shows "\<exists>cb rb ob. co = Consumer_poll r cb \<and> pl = Pipeline_poll q r rb ob \<and> pr = Producer p q ab \<and> ipc_wf lo hi (wipc w3)
    \<and> unat (heap_break (wipc w3)) = unat (heap_break (wipc w)) + 3 \<and> (\<forall>x \<in> {ab, rb, ob, cb}. byte_safe (lo, hi) w3 x) \<and> distinct [ab, rb, ob, cb]
    \<and> messages (wipc w3) = messages (wipc w)"
proof -
  let ?w = "w_print [10] (w_printint r (w_print (lit ''Consumer PID: '') w))"
  have pi: "wipc (w_printint n v) = wipc v" "byte_safe h (w_printint n v) x = byte_safe h v x" for n v h x
    by (simp_all add: w_printint_def)
  obtain v1 where v1: "w_allocate (lo, hi) 1 ?w = (heap_break (wipc ?w), v1)" "ipc_wf lo hi (wipc v1)"
      "unat (heap_break (wipc v1)) = unat (heap_break (wipc ?w)) + 1" "byte_safe (lo, hi) v1 (heap_break (wipc ?w))"
      "\<And>x. byte_safe (lo, hi) ?w x \<Longrightarrow> byte_safe (lo, hi) v1 x \<and> x \<noteq> heap_break (wipc ?w)"
      "wmem v1 = wmem ?w" "messages (wipc v1) = messages (wipc ?w)"
    by (rule allocate_byte [of lo hi ?w]) (use assms(1,2,6) in \<open>simp_all add: pi\<close>)
  have st: "w_strtol e a v = (number_at v a, snd (w_strtol e a v))" for e a v by (metis fst_w_strtol prod.collapse)
  define u1 where "u1 = snd (w_strtol e1 a1 v1)"
  have "number_at v1 a1 = r" using assms(4) v1(6) by (simp add: number_at_def pi)
  then have u1: "w_strtol e1 a1 v1 = (r, u1)" using st [of e1 a1 v1] by (simp add: u1_def)
  note u1s = strtol_fields [where e = e1 and a = a1 and w = v1, folded u1_def]
  let ?v = "w_print [10] (w_printint q (w_print (lit ''Pipeline PID: '') u1))"
  obtain v2 where v2: "w_allocate (lo, hi) 1 ?v = (heap_break (wipc ?v), v2)" "ipc_wf lo hi (wipc v2)"
      "unat (heap_break (wipc v2)) = unat (heap_break (wipc ?v)) + 1" "byte_safe (lo, hi) v2 (heap_break (wipc ?v))"
      "\<And>x. byte_safe (lo, hi) ?v x \<Longrightarrow> byte_safe (lo, hi) v2 x \<and> x \<noteq> heap_break (wipc ?v)"
      "wmem v2 = wmem ?v" "messages (wipc v2) = messages (wipc ?v)"
    by (rule allocate_byte [of lo hi ?v]) (use v1 assms(1,2,6) in \<open>simp_all add: pi u1s\<close>)
  obtain v3 where v3: "w_allocate (lo, hi) 1 v2 = (heap_break (wipc v2), v3)" "ipc_wf lo hi (wipc v3)"
      "unat (heap_break (wipc v3)) = unat (heap_break (wipc v2)) + 1" "byte_safe (lo, hi) v3 (heap_break (wipc v2))"
      "\<And>x. byte_safe (lo, hi) v2 x \<Longrightarrow> byte_safe (lo, hi) v3 x \<and> x \<noteq> heap_break (wipc v2)"
      "wmem v3 = wmem v2" "messages (wipc v3) = messages (wipc v2)"
    by (rule allocate_byte [of lo hi v2]) (use v1 v2 assms(1,2,6) in \<open>simp_all add: pi u1s\<close>)
  have mem: "messages (wipc v3) = messages (wipc w)"
    using v1(7) v2(7) v3(7) by (simp add: pi u1s)
  let ?v3 = "snd (w_strtol e2 a2 v3)"
  let ?cb = "heap_break (wipc w)" and ?rb = "heap_break (wipc v1)" and ?ob = "heap_break (wipc v2)"
  have w: "co = Consumer_poll r ?cb" "w1 = v1" "pl = Pipeline_poll q r ?rb ?ob" "w2 = v3"
    using assms(7,8) v1(1) v2(1) v3(1) u1 by (auto simp: consumer_start_def pipeline_start_def pi u1s)
  then have w3: "pr = Producer p q ab" "w3 = ?v3"
    using assms(5,9) by (simp_all add: producer_start_def case_prod_beta)
  have safe: "byte_safe (lo, hi) v1 ab" "ab \<noteq> ?cb" "byte_safe (lo, hi) v1 ?cb"
      "byte_safe (lo, hi) v2 ab" "ab \<noteq> ?rb" "byte_safe (lo, hi) v2 ?cb" "?cb \<noteq> ?rb" "byte_safe (lo, hi) v2 ?rb"
    using assms(3) v1(4,5) v2(4,5) by (auto simp: pi u1s)
  then have "\<forall>x \<in> {ab, ?rb, ?ob, ?cb}. byte_safe (lo, hi) v3 x" "distinct [ab, ?rb, ?ob, ?cb]"
    using v3(4) v3(5) [OF safe(4)] v3(5) [OF safe(6)] v3(5) [OF safe(8)] by auto
  moreover have "unat (heap_break (wipc v3)) = unat (heap_break (wipc w)) + 3" using v1(3) v2(3) v3(3) by (simp add: pi u1s)
  ultimately show ?thesis using w w3 v3(2) mem by auto
qed

text \<open>
  C20: producer, pipeline and consumer.  The three are started with the number of the next one as argument.  Whatever the order in which they
  then take their turns, as long as the heap has room for the messages, the consumer prints lines with the successor of the
  producer's character and nothing else, and no message is lost or doubled: every one sent by
  the producer is waiting at the pipeline, held by it, waiting at the consumer, being printed or printed.
  None of the three ever ends: a \<^verbatim>\<open>char\<close> is never equal to -1.  Pipeline and producer store the end of the
  number they parse through uninitialised pointers (\<open>e1\<close>, \<open>e2\<close>); wherever in the programs' memory these point, the
  statement holds for the character and the number found after the stores.
\<close>

theorem pipeline_conserves_messages:
  assumes "ipc_wf lo hi (wipc w)" "byte_safe (lo, hi) w ab" "number_at w a1 = r" "number_at w2 a2 = q" "q \<noteq> r"
    "\<forall>x \<in> set (messages (wipc w)). msg_to x \<noteq> q \<and> msg_to x \<noteq> r \<and> 0 < unat (nbytes x)"
    "set sch \<subseteq> {0, 1, 2}" "unat (heap_break (wipc w)) + 3 + 25 * length sch \<le> unat hi"
    "consumer_start (lo, hi) r w = (co, w1)" "pipeline_start (lo, hi) e1 [a1] q w1 = (pl, w2)"
    "producer_start e2 [a2, ab] p w2 = (pr, w3)"
  shows "\<exists>pl' co' w' n i. run_schedule (lo, hi) sch [pr, pl, co] w3 = Some ([pr, pl', co'], w')
    \<and> wout w' = wout w3 @ concat (replicate n (consumer_line (wmem w3 ab + 1))) @ take i (consumer_line (wmem w3 ab + 1))
    \<and> count_list sch 0 = length (inbox q (wipc w')) + of_bool (pl' \<noteq> pl) + length (inbox r (wipc w')) + of_bool (co' \<noteq> co) + n
    \<and> (\<forall>code. pl' \<noteq> Exited code \<and> co' \<noteq> Exited code)"
proof -
  let ?b = "wmem w3 ab"
  have "unat (heap_break (wipc w)) + 3 \<le> unat hi" "\<forall>x \<in> set (messages (wipc w)). 0 < unat (nbytes x)" using assms(6,8) by simp_all
  then obtain cb rb ob where s: "co = Consumer_poll r cb" "pl = Pipeline_poll q r rb ob" "pr = Producer p q ab" "ipc_wf lo hi (wipc w3)"
      "unat (heap_break (wipc w3)) = unat (heap_break (wipc w)) + 3" "\<forall>x \<in> {ab, rb, ob, cb}. byte_safe (lo, hi) w3 x"
      "distinct [ab, rb, ob, cb]" "messages (wipc w3) = messages (wipc w)"
    using programs_start [OF assms(1) _ assms(2-4) _ assms(9-11)] by blast
  have "inbox q (wipc w3) = []" "inbox r (wipc w3) = []" using assms(6) s(8) by (auto simp: inbox_def filter_empty_conv)
  then have "pipeline_ok lo hi p q r ab rb ob cb ?b (wout w3) 0 False 0 0 0 [pr, pl, co] w3"
    using assms(5) s by (simp add: pipeline_ok_def part_printed_def)
  moreover have "unat (heap_break (wipc w3)) + 25 * length sch \<le> unat hi" using s(5) assms(8) by simp
  ultimately obtain ps' w' a h c n i where
    e: "run_schedule (lo, hi) sch [pr, pl, co] w3 = Some (ps', w')"
      "pipeline_ok lo hi p q r ab rb ob cb ?b (wout w3) a h c n i ps' w'" "a + of_bool h + c + n + of_bool (i \<noteq> 0) = count_list sch 0"
    using pipeline_run [OF _ assms(7)] by fastforce
  note ok = e(2) [unfolded pipeline_ok_def]
  obtain k where "part_printed i (?b + 1) = take k (consumer_line (?b + 1))" using part_printed_take by blast
  then show ?thesis
    using e(1,3) ok s(1-3)
    by (intro exI [of _ "ps' ! 1"] exI [of _ "ps' ! 2"] exI [of _ w'] exI [of _ n] exI [of _ k]) auto
qed

text \<open>A world without messages: the numbers 3 and 2 as strings, and the letter A.\<close>

definition demo_world :: world where
  "demo_world = \<lparr>wipc = \<lparr>messages = [], mem = (\<lambda>_. 0)(0x100 := 51, 0x110 := 50, 0x120 := 65, 0x200 := 72, 0x201 := 105, 0x202 := 33),
     heap_break = 0x70030000\<rparr>, wout = []\<rparr>"

lemma demo_world_wf: "ipc_wf 0x70030000 0x70070000 (wipc demo_world)"
  by (simp add: ipc_wf_def heap_ok_def demo_world_def)

lemma number_at_digit:
  assumes "wmem w a = ch" "wmem w (a + 1) = 0" "isdigit ch"
  shows "number_at w a = of_nat (unat (ch - 48))"
proof -
  have "ch \<noteq> 0" using assms(3) by (auto simp: isdigit_def)
  then have "string_upto 4294967296 (wmem w) a = [ch]"
    using string_upto_eq [of 1 "wmem w" a 4294967296] assms(1,2) by (simp add: bytes_at_def)
  moreover have "bytes_at (wmem w) (a + 1) 101 = 0 # bytes_at (wmem w) (a + 1 + 1) 100"
    using bytes_at_Suc [of "wmem w" "a + 1" 100] assms(2) by simp
  ultimately have "string_at (wmem w) a = [] @ [] @ [ch] @ 0 # bytes_at (wmem w) (a + 1 + 1) 100" by (simp add: string_at_def)
  moreover have "uint (ch - 48) < 256" using uint_bounded [of "ch - 48"] by simp
  ultimately have "sint (number_at w a) = int (unat (ch - 48))"
    using strtol_parses_decimal [of "[]" "[]" "[ch]" "0 # bytes_at (wmem w) (a + 1 + 1) 100"] assms(3)
    by (simp add: number_at_def isdigit_def dec_from_def)
  then have "of_int (sint (number_at w a)) = (of_int (int (unat (ch - 48))) :: i32)" by simp
  then show ?thesis by simp
qed

theorem pipeline_conserves_messages_witness:
  "\<exists>co w1 pl w2 pr w3 pl' co' w' n i. consumer_start (0x70030000, 0x70070000) 3 demo_world = (co, w1)
     \<and> pipeline_start (0x70030000, 0x70070000) 0x400 [0x100] 2 w1 = (pl, w2) \<and> producer_start 0x500 [0x110, 0x120] 1 w2 = (pr, w3)
     \<and> run_schedule (0x70030000, 0x70070000) [0, 1, 0, 1, 2, 2, 2, 2] [pr, pl, co] w3 = Some ([pr, pl', co'], w')
     \<and> wout w' = wout w3 @ concat (replicate n (consumer_line 66)) @ take i (consumer_line 66)"
proof -
  let ?heap = "(0x70030000, 0x70070000) :: u32 \<times> u32"
  obtain co w1 where co: "consumer_start ?heap 3 demo_world = (co, w1)" by fastforce
  obtain pl w2 where pl: "pipeline_start ?heap 0x400 [0x100] 2 w1 = (pl, w2)" by fastforce
  obtain pr w3 where pr: "producer_start 0x500 [0x110, 0x120] 1 w2 = (pr, w3)" by fastforce
  have m1: "wmem w1 = wmem demo_world" using co by (auto simp: consumer_start_def w_allocate_def w_printint_def split: prod.splits)
  have m2: "wmem w2 x = wmem w1 x" if "x \<notin> {0x400, 0x401, 0x402, 0x403}" for x
    using pl that by (auto simp: pipeline_start_def w_allocate_def w_printint_def w_strtol_def strtol_call_def store32_def split: prod.splits)
  have m3: "wmem w3 x = wmem w2 x" if "x \<notin> {0x500, 0x501, 0x502, 0x503}" for x
    using pr that by (auto simp: producer_start_def w_strtol_def strtol_call_def store32_def split: prod.splits)
  have "byte_safe ?heap demo_world 0x120" "messages (wipc demo_world) = []"
    by (simp_all add: byte_safe_def buffer_ok_def demo_world_def)
  moreover have "number_at demo_world 0x100 = 3" "number_at w2 0x110 = 2"
    by (simp_all add: number_at_digit m1 m2 demo_world_def isdigit_def)
  moreover have "wmem w3 0x120 + 1 = 66" by (simp add: m1 m2 m3 demo_world_def)
  ultimately show ?thesis
    using pipeline_conserves_messages [OF demo_world_wf, of "0x120" "0x100" 3 w2 "0x110" 2 "[0, 1, 0, 1, 2, 2, 2, 2]" co w1 "0x400" pl "0x500" 1 pr w3] co pl pr
    by (fastforce simp: demo_world_def)
qed

section \<open>Messenger\<close>

text \<open>Where parent and child are after \<open>i\<close> and \<open>j\<close> successful calls, and what they print.\<close>

definition parent_at :: "pid_t \<Rightarrow> pid_t \<Rightarrow> u32 \<Rightarrow> nat \<Rightarrow> program_state" where
  "parent_at p c message i = (if i = 0 then Parent_send p c message else if i < 4 then Parent_print (i - 1) message else Exited 0)"

definition child_at :: "pid_t \<Rightarrow> u32 \<Rightarrow> nat \<Rightarrow> program_state" where
  "child_at c received j = (if j = 0 then Child_start c else if j = 1 then Child_poll c received
     else if j < 5 then Child_print (j - 2) received else Exited 0)"

definition parent_prints :: "u8 list list" where
  "parent_prints = [lit ''Sent message: '', lit ''Hi!'', [10]]"

definition child_prints :: "u8 list list" where
  "child_prints = [lit ''Received message: '', lit ''Hi!'', [10]]"

text \<open>
  The message has been sent.  A child that has not started will allocate its block right behind the four bytes of
  the message, so that receiving 100 bytes copies the message over its own end: only the first
  four bytes come out as they were, and they are the text.  Otherwise the child finds the message in its inbox,
  or has the text in its buffer.
\<close>

definition messenger_ok where
  "messenger_ok lo hi p c message received out i j ps w \<longleftrightarrow>
     ps = [parent_at p c message i, child_at c received j] \<and> 1 \<le> i \<and> i \<le> 4 \<and> j \<le> 5
     \<and> bytes_at (wmem w) message 4 = lit ''Hi!'' @ [0] \<and> unat message + 4 \<le> unat received \<and> unat received + 101 < 4294967296
     \<and> (j = 0 \<longrightarrow> ipc_wf lo hi (wipc w) \<and> heap_break (wipc w) = received \<and> unat received + 101 \<le> unat hi)
     \<and> (j \<le> 1 \<longrightarrow> (\<exists>x xs. filter (\<lambda>x. msg_to x = c) (messages (wipc w)) = x # xs
           \<and> bytes_at (wmem w) (content x) 4 = lit ''Hi!'' @ [0] \<and> copy_safe received (content x) 4))
     \<and> (1 < j \<longrightarrow> bytes_at (wmem w) received 4 = lit ''Hi!'' @ [0])
     \<and> (\<exists>zs \<in> shuffles (take (i - 1) parent_prints) (take (j - 2) child_prints). wout w = out @ concat zs)"

lemma cstring_hi:
  assumes "bytes_at m a 4 = lit ''Hi!'' @ [0]"
  shows "cstring (string_at m a) = lit ''Hi!''"
proof (rule cstring_string_at)
  have "Suc (length (lit ''Hi!'')) = 4" by (simp add: lit_def)
  then show "bytes_at m a (Suc (length (lit ''Hi!''))) = lit ''Hi!'' @ [0]" using assms by simp
qed (simp_all add: lit_def)

lemma cstring_labels:
  "cstring (lit ''Sent message: '') = lit ''Sent message: ''" "cstring (lit ''Received message: '') = lit ''Received message: ''" "cstring [10] = [10]"
  by (simp_all add: lit_def cstring_def)

lemma less_three: "i < 3 \<Longrightarrow> i = 0 \<or> i = 1 \<or> i = (2 :: nat)"
  by linarith

lemma parent_print_eq:
  assumes "i < 3" "bytes_at (wmem w) message 4 = lit ''Hi!'' @ [0]"
  shows "\<exists>str. parent_print i message w = (parent_at p c message (i + 2), w_print str w) \<and> cstring str = parent_prints ! i"
  using less_three [OF assms(1)]
proof (elim disjE)
  assume "i = 0"
  then show ?thesis by (intro exI [of _ "lit ''Sent message: ''"]) (simp add: parent_print_def parent_at_def parent_prints_def cstring_labels)
next
  assume "i = 1"
  then show ?thesis using cstring_hi [OF assms(2)]
    by (intro exI [of _ "string_at (wmem w) message"]) (simp add: parent_print_def parent_at_def parent_prints_def)
next
  assume "i = 2"
  then show ?thesis by (intro exI [of _ "[10]"]) (simp add: parent_print_def parent_at_def parent_prints_def cstring_labels)
qed

lemma child_print_eq:
  assumes "i < 3" "bytes_at (wmem w) received 4 = lit ''Hi!'' @ [0]"
  shows "\<exists>str. child_print i received w = (child_at c received (i + 3), w_print str w) \<and> cstring str = child_prints ! i"
  using less_three [OF assms(1)]
proof (elim disjE)
  assume "i = 0"
  then show ?thesis by (intro exI [of _ "lit ''Received message: ''"]) (simp add: child_print_def child_at_def child_prints_def cstring_labels)
next
  assume "i = 1"
  then show ?thesis using cstring_hi [OF assms(2)]
    by (intro exI [of _ "string_at (wmem w) received"]) (simp add: child_print_def child_at_def child_prints_def)
next
  assume "i = 2"
  then show ?thesis by (intro exI [of _ "[10]"]) (simp add: child_print_def child_at_def child_prints_def cstring_labels)
qed

lemma length_prints [simp]: "length parent_prints = 3" "length child_prints = 3"
  by (simp_all add: parent_prints_def child_prints_def)

lemma parent_print_ok:
  assumes "messenger_ok lo hi p c message received out i j ps w"
  shows "\<exists>ps' w'. run_schedule heap [0] ps w = Some (ps', w') \<and> messenger_ok lo hi p c message received out (min 4 (Suc i)) j ps' w'"
proof -
  note ok = assms [unfolded messenger_ok_def]
  show ?thesis
  proof (cases "i < 4")
    case True
    then obtain k where k: "i = Suc k" "k < 3" using ok by (cases i) auto
    obtain str where str: "parent_print k message w = (parent_at p c message (k + 2), w_print str w)" "cstring str = parent_prints ! k"
      using parent_print_eq [OF k(2)] ok by blast
    have run: "run_schedule heap [0] ps w = Some (ps[0 := parent_at p c message (Suc i)], w_print str w)"
      using ok True str(1) k by (simp add: parent_at_def)
    obtain zs where zs: "zs \<in> shuffles (take k parent_prints) (take (j - 2) child_prints)" "wout w = out @ concat zs" using ok k by auto
    have "zs @ [parent_prints ! k] \<in> shuffles (take i parent_prints) (take (j - 2) child_prints)"
      using shuffles_snoc1 [OF zs(1), of "parent_prints ! k"] k by (simp add: take_Suc_conv_app_nth)
    then have "\<exists>zs \<in> shuffles (take (Suc i - 1) parent_prints) (take (j - 2) child_prints). wout (w_print str w) = out @ concat zs"
      using zs(2) str(2) by (intro bexI [of _ "zs @ [parent_prints ! k]"]) simp_all
    then have "messenger_ok lo hi p c message received out (Suc i) j (ps[0 := parent_at p c message (Suc i)]) (w_print str w)"
      unfolding messenger_ok_def using ok True by simp
    moreover have "min 4 (Suc i) = Suc i" using True by simp
    ultimately show ?thesis using run by auto
  next
    case False
    then have "i = 4" using ok by simp
    then show ?thesis using assms ok by (intro exI [of _ ps] exI [of _ w]) (simp add: parent_at_def)
  qed
qed

lemma child_starts:
  assumes "messenger_ok lo hi p c message received out i 0 ps w"
  shows "\<exists>ps' w'. run_schedule (lo, hi) [1] ps w = Some (ps', w') \<and> messenger_ok lo hi p c message received out i 1 ps' w'"
proof -
  note ok = assms [unfolded messenger_ok_def]
  let ?w = "w\<lparr>wipc := (wipc w)\<lparr>heap_break := heap_break (wipc w) + 101\<rparr>\<rparr>"
  have "w_allocate (lo, hi) 101 w = (received, ?w)" using w_allocate_fits(1) [of lo hi w 101] ok by simp
  then have "run_schedule (lo, hi) [1] ps w = Some (ps[1 := child_at c received 1], ?w)"
    using ok by (simp add: child_at_def child_start_def)
  moreover have "messenger_ok lo hi p c message received out i 1 (ps[1 := child_at c received 1]) ?w"
    unfolding messenger_ok_def using ok by simp
  ultimately show ?thesis by blast
qed

lemma child_receives:
  assumes "messenger_ok lo hi p c message received out i 1 ps w"
  shows "\<exists>ps' w'. run_schedule heap [1] ps w = Some (ps', w') \<and> messenger_ok lo hi p c message received out i 2 ps' w'"
proof -
  note ok = assms [unfolded messenger_ok_def]
  obtain x xs where x: "filter (\<lambda>x. msg_to x = c) (messages (wipc w)) = x # xs" "bytes_at (wmem w) (content x) 4 = lit ''Hi!'' @ [0]"
      "copy_safe received (content x) 4" using ok by auto
  obtain ms where loop: "receive_loop (\<lambda>x. msg_to x = c) received 100 (messages (wipc w)) (wmem w) = (0, ms, stdmem_copy (wmem w) received (content x) 100)"
    using receive_loop_Some [OF x(1)] by blast
  define m where "m = stdmem_copy (wmem w) received (content x) 100"
  define w1 where "w1 = w\<lparr>wipc := (wipc w)\<lparr>messages := ms, mem := m\<rparr>\<rparr>"
  let ?w = "w_store (received + 100) 0 w1"
  have "w_receive received 100 c w = (0, w1)"
    using loop by (simp add: w_receive_def ipc_receive_any_message_def w1_def m_def)
  then have run: "run_schedule heap [1] ps w = Some (ps[1 := child_at c received 2], ?w)"
    using ok by (simp add: child_at_def child_poll_def)
  have "bytes_at m received 4 = lit ''Hi!'' @ [0]"
    unfolding m_def using stdmem_copy_prefix [OF x(3), of 100 "wmem w"] x(2) by simp
  moreover have r100: "unat (received + 100) = unat received + 100" using ok by (simp add: unat_word_ariths)
  then have "bytes_at (m(received + 100 := 0)) received 4 = bytes_at m received 4"
    using ok by (intro bytes_at_upd) (simp add: apart_def)
  moreover have "bytes_at (m(received + 100 := 0)) message 4 = bytes_at (wmem w) message 4"
  proof -
    have "apart (received + 100) 1 message 4" "apart received (unat (100 :: u32)) message 4" using ok r100 by (simp_all add: apart_def)
    then show ?thesis unfolding m_def by (simp only: bytes_at_upd bytes_at_copy_apart)
  qed
  ultimately have "messenger_ok lo hi p c message received out i 2 (ps[1 := child_at c received 2]) ?w"
    unfolding messenger_ok_def using ok by (simp add: w1_def w_store_def)
  then show ?thesis using run by blast
qed

lemma child_step_ok:
  assumes "messenger_ok lo hi p c message received out i j ps w"
  shows "\<exists>ps' w'. run_schedule (lo, hi) [1] ps w = Some (ps', w') \<and> messenger_ok lo hi p c message received out i (min 5 (Suc j)) ps' w'"
proof -
  note ok = assms [unfolded messenger_ok_def]
  have "j \<le> 5" using ok by simp
  then consider "j = 0" | "j = 1" | k where "j = Suc (Suc k)" "k < 3" | "j = 5"
    by (cases j; cases "j - 1"; cases "j = 5") force+
  then show ?thesis
  proof cases
    case 1
    then show ?thesis using child_starts assms by simp
  next
    case 2
    then show ?thesis using child_receives [of lo hi p c message received out i ps w "(lo, hi)"] assms by (simp add: numeral_2_eq_2)
  next
    case (3 k)
    obtain str where str: "child_print k received w = (child_at c received (k + 3), w_print str w)" "cstring str = child_prints ! k"
      using child_print_eq [OF 3(2)] ok 3(1) by fastforce
    have run: "run_schedule (lo, hi) [1] ps w = Some (ps[1 := child_at c received (Suc j)], w_print str w)"
      using ok str(1) 3 by (simp add: child_at_def)
    obtain zs where zs: "zs \<in> shuffles (take (i - 1) parent_prints) (take k child_prints)" "wout w = out @ concat zs" using ok 3 by auto
    have "zs @ [child_prints ! k] \<in> shuffles (take (i - 1) parent_prints) (take (Suc k) child_prints)"
      using shuffles_snoc2 [OF zs(1), of "child_prints ! k"] 3 by (simp add: take_Suc_conv_app_nth)
    then have "\<exists>zs \<in> shuffles (take (i - 1) parent_prints) (take (Suc j - 2) child_prints). wout (w_print str w) = out @ concat zs"
      using zs(2) str(2) 3 by (intro bexI [of _ "zs @ [child_prints ! k]"]) simp_all
    then have "messenger_ok lo hi p c message received out i (Suc j) (ps[1 := child_at c received (Suc j)]) (w_print str w)"
      unfolding messenger_ok_def using ok 3 by simp
    moreover have "min 5 (Suc j) = Suc j" using 3 by simp
    ultimately show ?thesis using run by auto
  next
    case 4
    then show ?thesis using assms ok by (intro exI [of _ ps] exI [of _ w]) (simp add: child_at_def)
  qed
qed

lemma messenger_run:
  assumes "messenger_ok lo hi p c message received out i j ps w" "set sch \<subseteq> {0, 1}"
  shows "\<exists>ps' w'. run_schedule (lo, hi) sch ps w = Some (ps', w')
    \<and> messenger_ok lo hi p c message received out (min 4 (i + count_list sch 0)) (min 5 (j + count_list sch 1)) ps' w'"
  using assms
proof (induction sch arbitrary: i j ps w)
  case Nil
  moreover have "min 4 i = i" "min 5 j = j" using Nil.prems(1) by (simp_all add: messenger_ok_def)
  ultimately show ?case by auto
next
  case (Cons x sch)
  let ?i = "min 4 (i + of_bool (x = 0))" and ?j = "min 5 (j + of_bool (x = 1))"
  have b: "i \<le> 4" "j \<le> 5" using Cons.prems(1) by (simp_all add: messenger_ok_def)
  have "x = 0 \<or> x = 1" using Cons.prems(2) by auto
  then obtain ps1 w1 where s1: "run_schedule (lo, hi) [x] ps w = Some (ps1, w1)" "messenger_ok lo hi p c message received out ?i ?j ps1 w1"
    using parent_print_ok [OF Cons.prems(1), of "(lo, hi)"] child_step_ok [OF Cons.prems(1)] b by (elim disjE) (auto simp: min_absorb2)
  have "min 4 (?i + count_list sch 0) = min 4 (i + count_list (x # sch) 0)" "min 5 (?j + count_list sch 1) = min 5 (j + count_list (x # sch) 1)"
    by auto
  then show ?case unfolding run_Cons [of _ x sch] using Cons.IH [OF s1(2)] Cons.prems(2) s1(1) by simp
qed

lemma early_polls:
  assumes "set sch \<subseteq> {1}" "filter (\<lambda>x. msg_to x = c) (messages (wipc w)) = []"
  shows "run_schedule heap sch [Parent_send p c message, Child_poll c received] w = Some ([Parent_send p c message, Child_poll c received], w)"
  using assms(1)
proof (induction sch)
  case (Cons x sch)
  have "w_receive received 100 c w = (- 1, w)" using assms(2) by (simp add: w_receive_def ipc_receive_any_message_def receive_loop_None)
  then have "program_step heap (Child_poll c received) w = Some (Child_poll c received, w)" by (simp add: child_poll_def)
  then show ?case using Cons by simp
qed simp

text \<open>The send, with the child started (\<open>j = 1\<close>, its buffer below the break) or not (\<open>j = 0\<close>).\<close>

lemma message_sent:
  assumes "ipc_wf lo hi (wipc w)" "unat (heap_break (wipc w)) + 129 \<le> unat hi" "bytes_at (wmem w) message 4 = lit ''Hi!'' @ [0]"
    "inbox c (wipc w) = []" "unat message + 4 \<le> unat lo"
    "j = 0 \<and> received = heap_break (wipc w) + 28
      \<or> j = 1 \<and> unat lo \<le> unat received \<and> unat received + 101 \<le> unat (heap_break (wipc w))"
  shows "\<exists>ps' w'. run_schedule (lo, hi) [0] [Parent_send p c message, child_at c received j] w = Some (ps', w')
    \<and> messenger_ok lo hi p c message received (wout w) 1 j ps' w'"
proof -
  let ?st = "wipc w"
  have n: "unat (4 :: u32) = 4" by simp
  have room: "unat (heap_break ?st) + 24 + unat (4 :: u32) \<le> unat hi" using assms(2) by simp
  note e = ipc_send_message_eq [OF assms(1) room]
  let ?x = "\<lparr>content = heap_break ?st + 24, nbytes = 4, msg_from = p, msg_to = c\<rparr>"
  obtain st' where st': "ipc_send_message lo hi message 4 p c ?st = Some st'" using e(1) by blast
  then have st: "messages st' = messages ?st @ [?x]" "mem st' = stdmem_copy (mem ?st) (heap_break ?st + 24) message 4"
      "unat (heap_break st') = unat (heap_break ?st) + 28" using e(1,4) by auto
  have "lo \<le> heap_break ?st" using assms(1) by (simp add: ipc_wf_def heap_ok_def)
  then have low: "unat message + 4 \<le> unat (heap_break ?st)" using assms(5) by (simp add: word_le_nat_alt)
  have b28: "unat (heap_break ?st + 28) = unat (heap_break ?st) + 28"
    using assms(2) unat_u32_less [of hi] by (simp add: unat_word_ariths)
  have ap: "apart (heap_break ?st + 24) 4 message 4" using assms(2) low e(2) unat_u32_less [of hi] by (simp add: apart_def)
  have safe: "copy_safe received (heap_break ?st + 24) 4"
    using assms(2,6) e(2) b28 unat_u32_less [of hi] by (intro copy_safe_disjoint) auto
  have "bytes_at (mem st') message 4 = lit ''Hi!'' @ [0]"
    using bytes_at_copy_apart [of "heap_break ?st + 24" 4 message 4] ap assms(3) unfolding st(2) n by simp
  moreover have "bytes_at (mem st') (heap_break ?st + 24) 4 = lit ''Hi!'' @ [0]"
    using stdmem_copy_bytes [of "heap_break ?st + 24" message 4 "mem ?st"] copy_safe_apart [OF ap] assms(3) unfolding st(2) n by simp
  moreover have "filter (\<lambda>x. msg_to x = c) (messages st') = ?x # []" using assms(4) st(1) by (simp add: inbox_def)
  moreover have "unat message + 4 \<le> unat received" "unat received + 101 < 4294967296"
    using assms(2,5,6) low b28 unat_u32_less [of hi] by auto
  moreover have "heap_break st' = received" "unat received + 101 \<le> unat hi" if "j = 0"
  proof -
    have r: "received = heap_break ?st + 28" using assms(6) that by simp
    show "unat received + 101 \<le> unat hi" unfolding r b28 using assms(2) by simp
    show "heap_break st' = received" unfolding r by (rule unsigned_word_eqI [where 'a = nat]) (simp only: b28 st(3))
  qed
  ultimately have "messenger_ok lo hi p c message received (wout w) 1 j [Parent_print 0 message, child_at c received j] (w\<lparr>wipc := st'\<rparr>)"
    unfolding messenger_ok_def using safe assms(6) ipc_send_wf [OF assms(1) room st'] by (auto simp: parent_at_def)
  then show ?thesis using st' by (simp add: parent_send_def w_send_def)
qed

text \<open>From the first turn of the parent on.\<close>

lemma messenger_from_send:
  assumes "ipc_wf lo hi (wipc w)" "unat (heap_break (wipc w)) + 129 \<le> unat hi" "bytes_at (wmem w) message 4 = lit ''Hi!'' @ [0]"
    "inbox c (wipc w) = []" "unat message + 4 \<le> unat lo"
    "j = 0 \<and> received = heap_break (wipc w) + 28
      \<or> j = 1 \<and> unat lo \<le> unat received \<and> unat received + 101 \<le> unat (heap_break (wipc w))" "set sch \<subseteq> {0, 1}"
  shows "\<exists>w' i k. run_schedule (lo, hi) (0 # sch) [Parent_send p c message, child_at c received j] w
      = Some ([parent_at p c message i, child_at c received k], w')
    \<and> i = min 4 (Suc (count_list sch 0)) \<and> k = min 5 (j + count_list sch 1)
    \<and> (\<exists>zs \<in> shuffles (take (i - 1) parent_prints) (take (k - 2) child_prints). wout w' = wout w @ concat zs)"
proof -
  obtain ps1 w1 where s1: "run_schedule (lo, hi) [0] [Parent_send p c message, child_at c received j] w = Some (ps1, w1)"
      "messenger_ok lo hi p c message received (wout w) 1 j ps1 w1"
    using message_sent [OF assms(1-6)] by blast
  obtain ps2 w2 where s2: "run_schedule (lo, hi) sch ps1 w1 = Some (ps2, w2)"
      "messenger_ok lo hi p c message received (wout w) (min 4 (1 + count_list sch 0)) (min 5 (j + count_list sch 1)) ps2 w2"
    using messenger_run [OF s1(2) assms(7)] by blast
  have "run_schedule (lo, hi) (0 # sch) [Parent_send p c message, child_at c received j] w = Some (ps2, w2)"
    unfolding run_Cons [of _ 0 sch] using s1(1) s2(1) by simp
  then show ?thesis using s2(2) unfolding messenger_ok_def by auto
qed

text \<open>
  C21: the messenger.  Whatever the order in which parent and child take their turns at their system calls - the child may allocate its
  block before the parent sends or after it, when the block lies right behind the message - the parent ends
  with its fourth turn; the child's first turn allocates, and its next four after both this and the
  send receive and print the text that the parent sent, whereupon it ends; and what the console shows is
  an interleaving of the pieces of the two lines.
\<close>

theorem messenger_delivers:
  assumes "ipc_wf lo hi (wipc w)" "unat (heap_break (wipc w)) + 230 \<le> unat hi" "bytes_at (wmem w) message 4 = lit ''Hi!'' @ [0]"
    "unat message + 4 \<le> unat lo" "inbox c (wipc w) = []" "set sch \<subseteq> {0, 1}"
    "before = takeWhile (\<lambda>x. x \<noteq> 0) sch" "after = dropWhile (\<lambda>x. x \<noteq> 0) sch"
  shows "\<exists>received w' i j. run_schedule (lo, hi) sch (messenger_start message p c) w = Some ([parent_at p c message i, child_at c received j], w')
    \<and> i = min 4 (count_list sch 0) \<and> j = min 5 (min 1 (length before) + count_list after 1)
    \<and> (\<exists>zs \<in> shuffles (take (i - 1) parent_prints) (take (j - 2) child_prints). wout w' = wout w @ concat zs)"
proof -
  let ?b = "heap_break (wipc w)" and ?w1 = "w\<lparr>wipc := (wipc w)\<lparr>heap_break := heap_break (wipc w) + 101\<rparr>\<rparr>"
  define received where "received = (if before = [] then ?b + 28 else ?b)"
  define w1 where "w1 = (if before = [] then w else ?w1)"
  let ?ps = "[Parent_send p c message, child_at c received (min 1 (length before))]"
  have room: "unat ?b + unat (101 :: u32) \<le> unat hi" using assms(2) by simp
  note a = w_allocate_fits [OF assms(1) room]
  have ones: "set before \<subseteq> {1}" using assms(6,7) by (auto dest: set_takeWhileD)
  have sch: "sch = before @ after" using assms(7,8) by simp
  have none: "filter (\<lambda>x. msg_to x = c) (messages (wipc w)) = []" using assms(5) by (simp add: inbox_def)
  have start: "run_schedule (lo, hi) before (messenger_start message p c) w = Some (?ps, w1)"
  proof (cases before)
    case Nil
    then show ?thesis by (simp add: messenger_start_def child_at_def w1_def)
  next
    case (Cons x bs)
    then have "x = 1" "set bs \<subseteq> {1}" using ones by auto
    then show ?thesis
      using early_polls [of bs c ?w1 "(lo, hi)" p message ?b] none a(1) Cons
      by (simp add: messenger_start_def child_start_def child_at_def received_def w1_def)
  qed
  have w1: "ipc_wf lo hi (wipc w1)" "bytes_at (wmem w1) message 4 = lit ''Hi!'' @ [0]" "inbox c (wipc w1) = []" "wout w1 = wout w"
      "unat (heap_break (wipc w1)) + 129 \<le> unat hi"
    using assms(1-3,5) a(2,3) by (simp_all add: w1_def inbox_def)
  have "unat lo \<le> unat ?b" using assms(1) by (simp add: ipc_wf_def heap_ok_def word_le_nat_alt)
  then have pos: "min 1 (length before) = 0 \<and> received = heap_break (wipc w1) + 28
      \<or> min 1 (length before) = 1 \<and> unat lo \<le> unat received \<and> unat received + 101 \<le> unat (heap_break (wipc w1))"
    using a(3) by (cases before) (simp_all add: received_def w1_def)
  have z: "count_list before 0 = 0" using ones by (auto simp: count_list_0_iff)
  show ?thesis
  proof (cases after)
    case Nil
    have "run_schedule (lo, hi) sch (messenger_start message p c) w = Some ([parent_at p c message 0, child_at c received (min 1 (length before))], w1)"
      using start unfolding sch Nil by (simp add: parent_at_def)
    moreover have "count_list sch 0 = 0" using z unfolding sch Nil by simp
    ultimately show ?thesis using w1(4) Nil by (intro exI [of _ received] exI [of _ w1] exI [of _ 0] exI [of _ "min 1 (length before)"]) simp
  next
    case (Cons x s3)
    have x: "x = 0" using Cons assms(8) hd_dropWhile [of "\<lambda>x. x \<noteq> 0" sch] by simp
    have cnt: "count_list sch 0 = Suc (count_list s3 0)" "count_list after 1 = count_list s3 1" using z x unfolding sch Cons by simp_all
    have s3: "set s3 \<subseteq> {0, 1}" using assms(6) unfolding sch Cons by auto
    obtain w' i k where g: "run_schedule (lo, hi) (0 # s3) ?ps w1 = Some ([parent_at p c message i, child_at c received k], w')"
        "i = min 4 (Suc (count_list s3 0))" "k = min 5 (min 1 (length before) + count_list s3 1)"
        "\<exists>zs \<in> shuffles (take (i - 1) parent_prints) (take (k - 2) child_prints). wout w' = wout w1 @ concat zs"
      using messenger_from_send [OF w1(1,5,2,3) assms(4) pos s3, of p] by (elim exE conjE) (rule that; assumption)
    have "run_schedule (lo, hi) sch (messenger_start message p c) w = Some ([parent_at p c message i, child_at c received k], w')"
      unfolding sch Cons x run_append start bind.bind_lunit case_prod_conv by (rule g(1))
    then show ?thesis
      unfolding cnt w1(4) [symmetric] using g(2-4) by (intro exI conjI) assumption+
  qed
qed

theorem messenger_delivers_witness:
  "\<exists>w' w''. run_schedule (0x70030000, 0x70070000) [0, 1, 1, 0, 1, 0, 1, 0, 1] (messenger_start 0x200 1 2) demo_world = Some ([Exited 0, Exited 0], w')
     \<and> run_schedule (0x70030000, 0x70070000) [1, 0, 1, 0, 1, 0, 1, 0, 1] (messenger_start 0x200 1 2) demo_world = Some ([Exited 0, Exited 0], w'')
     \<and> (\<exists>zs \<in> shuffles parent_prints child_prints. wout w' = concat zs)"
proof -
  let ?s1 = "[0, 1, 1, 0, 1, 0, 1, 0, 1] :: nat list" and ?s2 = "[1, 0, 1, 0, 1, 0, 1, 0, 1] :: nat list"
  have d: "unat (heap_break (wipc demo_world)) + 230 \<le> unat (0x70070000 :: u32)" "inbox 2 (wipc demo_world) = []" "wout demo_world = []"
    by (simp_all add: demo_world_def inbox_def)
  have h: "bytes_at (wmem demo_world) 0x200 4 = lit ''Hi!'' @ [0]" by (simp add: bytes_at_def demo_world_def lit_def upt_rec)
  note del = messenger_delivers [OF demo_world_wf d(1) h _ d(2) _ refl refl]
  show ?thesis using del [of ?s1 1] del [of ?s2 1] d(3) by (simp add: parent_at_def child_at_def) blast
qed

section \<open>P0 and P1\<close>

text \<open>The pieces that a counting program prints, and where it is after \<open>k\<close> turns.\<close>

definition count_prints :: "cstr \<Rightarrow> u8 list list" where
  "count_prints label = concat (map (\<lambda>i. [cstring label, cstring (stdstring_int_to_str (of_nat i)), [10]]) [0..<5])"

definition counting_at :: "cstr \<Rightarrow> nat \<Rightarrow> program_state" where
  "counting_at label k = (if k \<le> 15 then Counting label (k div 3) (k mod 3) else Exited 0)"

lemma nth_blocks:
  assumes "\<And>i. length (f i) = 3" "k < 3 * n"
  shows "concat (map f [0..<n]) ! k = f (k div 3) ! (k mod 3)"
  using assms(2)
proof (induction n)
  case (Suc n)
  have len: "length (concat (map f [0..<n])) = 3 * n" using assms(1) by (induction n) simp_all
  show ?case
  proof (cases "k < 3 * n")
    case False
    then have "k div 3 = n" "k mod 3 = k - 3 * n" using Suc.prems by presburger+
    then show ?thesis using False len by (simp add: nth_append)
  qed (use Suc.IH len in \<open>simp add: nth_append\<close>)
qed simp

lemma length_count_prints [simp]: "length (count_prints label) = 15"
  by (simp add: count_prints_def length_concat comp_def sum_list_triv)

lemma counting_step:
  assumes "k \<le> 16"
  shows "\<exists>w'. program_step heap (counting_at label k) w = Some (counting_at label (min 16 (Suc k)), w')
    \<and> wout w' = wout w @ concat (take 1 (drop k (count_prints label)))"
proof (cases "k < 15")
  case True
  define i j where "i = k div 3" and "j = k mod 3"
  have ij: "i < 5" "j = 0 \<or> j = 1 \<or> j = 2" "Suc k div 3 = (if j = 2 then Suc i else i)" "Suc k mod 3 = (if j = 2 then 0 else Suc j)"
    unfolding i_def j_def using True by presburger+
  have p: "count_prints label ! k = [cstring label, cstring (stdstring_int_to_str (of_nat i)), [10]] ! j"
    unfolding count_prints_def i_def j_def using True by (subst nth_blocks) simp_all
  have "cstring [10] = [10]" by (simp add: cstring_def)
  then have "\<exists>str. count_step label i j w = (counting_at label (Suc k), w_print str w) \<and> cstring str = count_prints label ! k"
    unfolding p counting_at_def ij(3,4) using ij(1,2) True by (auto simp: count_step_def w_printint_def)
  then obtain str where s: "count_step label i j w = (counting_at label (Suc k), w_print str w)" "cstring str = count_prints label ! k" by blast
  have "take 1 (drop k (count_prints label)) = [count_prints label ! k]" using True by (simp add: take_Suc_conv_app_nth)
  then show ?thesis using s True by (simp add: counting_at_def [of label k] i_def j_def)
next
  case False
  then have "k = 15 \<or> k = 16" using assms by linarith
  then show ?thesis by (auto simp: counting_at_def count_step_def)
qed

text \<open>
  \<^verbatim>\<open>P0\<close> and \<^verbatim>\<open>P1\<close> side by side: for every schedule the console shows an interleaving of what they print, and each
  ends with its sixteenth turn.
\<close>

lemma counters_interleave:
  assumes "set sch \<subseteq> {0, 1}" "i \<le> 16" "j \<le> 16" "zs \<in> shuffles (take i (count_prints l)) (take j (count_prints l'))" "wout w = out @ concat zs"
  shows "\<exists>i' j' w' zs'. run_schedule heap sch [counting_at l i, counting_at l' j] w = Some ([counting_at l i', counting_at l' j'], w')
    \<and> i' = min 16 (i + count_list sch 0) \<and> j' = min 16 (j + count_list sch 1)
    \<and> zs' \<in> shuffles (take i' (count_prints l)) (take j' (count_prints l')) \<and> wout w' = out @ concat zs'"
  using assms
proof (induction sch arbitrary: i j zs w)
  case (Cons x sch)
  have x: "x = 0 \<or> x = 1" using Cons.prems(1) by auto
  let ?i = "min 16 (i + of_bool (x = 0))" and ?j = "min 16 (j + of_bool (x = 1))"
  have tk: "take (Suc (min 15 k)) ps = take k ps @ take (Suc 0) (drop k ps)" if "length ps = 15" for k and ps :: "u8 list list"
    using that by (cases "k < 15") (simp_all add: take_Suc_conv_app_nth min_def)
  have "\<exists>w1 zs1. run_schedule heap [x] [counting_at l i, counting_at l' j] w = Some ([counting_at l ?i, counting_at l' ?j], w1)
      \<and> zs1 \<in> shuffles (take ?i (count_prints l)) (take ?j (count_prints l')) \<and> wout w1 = out @ concat zs1"
    using x
  proof
    assume x: "x = 0"
    obtain w1 where "program_step heap (counting_at l i) w = Some (counting_at l (min 16 (Suc i)), w1)"
        "wout w1 = wout w @ concat (take 1 (drop i (count_prints l)))" using counting_step [OF Cons.prems(2)] by blast
    then show ?thesis using x Cons.prems(3-5) shuffles_append1 [OF Cons.prems(4)]
      by (intro exI [of _ w1] exI [of _ "zs @ take 1 (drop i (count_prints l))"]) (simp add: tk min_absorb2)
  next
    assume x: "x = 1"
    obtain w1 where "program_step heap (counting_at l' j) w = Some (counting_at l' (min 16 (Suc j)), w1)"
        "wout w1 = wout w @ concat (take 1 (drop j (count_prints l')))" using counting_step [OF Cons.prems(3)] by blast
    then show ?thesis using x Cons.prems(2,4,5) shuffles_append2 [OF Cons.prems(4)]
      by (intro exI [of _ w1] exI [of _ "zs @ take 1 (drop j (count_prints l'))"]) (simp add: tk min_absorb2)
  qed
  then obtain w1 zs1 where s1: "run_schedule heap [x] [counting_at l i, counting_at l' j] w = Some ([counting_at l ?i, counting_at l' ?j], w1)"
      "zs1 \<in> shuffles (take ?i (count_prints l)) (take ?j (count_prints l'))" "wout w1 = out @ concat zs1" by blast
  have "min 16 (?i + count_list sch 0) = min 16 (i + count_list (x # sch) 0)" "min 16 (?j + count_list sch 1) = min 16 (j + count_list (x # sch) 1)"
    by auto
  moreover have "set sch \<subseteq> {0, 1}" using Cons.prems(1) by simp
  moreover have "run_schedule heap (x # sch) [counting_at l i, counting_at l' j] w = run_schedule heap sch [counting_at l ?i, counting_at l' ?j] w1"
    unfolding run_Cons [of _ x sch] s1(1) by simp
  ultimately show ?case using Cons.IH [OF _ min.cobounded1 min.cobounded1 s1(2,3)] by (simp only:)
qed auto

section \<open>The list of processes\<close>

text \<open>\<^verbatim>\<open>proc\<close> prints a line for each process, in the order of the process list: its number, a blank and its state.\<close>

lemma proc_prints_processes:
  "program_proc fresh s w = (0, w\<lparr>wout := wout w @ concat (map (\<lambda>x. number (pid x) @ 32 # status_text (status x) @ [10])
     (process_list s))\<rparr>)"
proof -
  have lits: "cstring (lit '' '') = [32]" "cstring (lit ''RUNNING'') = lit ''RUNNING''" "cstring (lit ''READY'') = lit ''READY''"
      "cstring (lit ''BLOCKED'') = lit ''BLOCKED''" "cstring (lit ''TERMINATED'') = lit ''TERMINATED''" "cstring [10] = [10]"
    by (simp_all add: lit_def cstring_def)
  have p: "w_print str v = v\<lparr>wout := wout v @ cstring str\<rparr>" for str v
    by (simp add: w_print_def cstring_def takeWhile_eq_take [symmetric])
  have one: "print_process x v = v\<lparr>wout := wout v @ number (pid x) @ 32 # status_text (status x) @ [10]\<rparr>" for x v
    unfolding print_process_def status_text_def w_printint_def p Let_def number_def by (simp add: lits)
  have "fold print_process (map (copy_pcb fresh) xs) v =
      v\<lparr>wout := wout v @ concat (map (\<lambda>x. number (pid x) @ 32 # status_text (status x) @ [10]) xs)\<rparr>" for xs v
    by (induction xs arbitrary: v) (simp_all add: one copy_pcb_def)
  then show ?thesis by (simp add: program_proc_def scheduler_list_procs_def)
qed

section \<open>Kill\<close>

text \<open>A process that the timer interrupt switches to gets the registers its table entry has.\<close>

lemma timer_resumes:
  assumes "running considerate dev (d, k)" "find_process (ks k) q = Some y" "q \<noteq> current_pid (ks k)"
    "kernel_handler_irq 36 d k = Some (c, k')" "current_pid (ks k') = q"
  shows "c = ctx y"
proof -
  have inv: "sched_inv (ks k)" using running_inv [OF assms(1)] by (simp add: kernel_inv_def)
  then have wf: "sched_wf {} (ks k)" and low: "low_priority_queue (ks k) \<noteq> []" by (auto simp: sched_inv_def)
  obtain s where s: "scheduler_run d (ks k) = Some (c, s)" "ks k' = s"
    using assms(4) by (auto simp: kernel_handler_irq_def write_reg_def split: bind_splits)
  show ?thesis
    using scheduler_run_effect(1) [OF wf low s(1), of q] scheduler_run_effect(2) [OF wf low s(1)] assms(2,3,5) s(2)
    by (simp add: ctx_of_def)
qed

text \<open>The process that a kill with \<^verbatim>\<open>SIGKILL\<close> returns to finds 0 in r0.\<close>

lemma kill_result_zero:
  assumes "running considerate dev (d, k)" "kernel_handler_svc env 37 d k = Some (c, k')" "arg d 1 = 9"
  shows "arg c 0 = 0"
proof -
  have inv: "sched_inv (ks k)" "length (gpr d) = 13" using running_inv [OF assms(1)] by (simp_all add: kernel_inv_def)
  obtain r c1 s where s: "scheduler_kill d (arg d 0) (ks k) = Some (r, c1, s)" "c = set_r0 r c1"
    using assms(2,3) by (auto simp: kernel_handler_svc_def svc_kill_def split: bind_splits)
  have "length (gpr c1) = 13" using inv_kill [OF inv s(1)] by simp
  moreover have "r = 0" using s(1) by (auto simp: scheduler_kill_def Let_def split: bind_splits)
  ultimately show ?thesis by (cases "gpr c1") (simp_all add: s(2) set_r0_def)
qed

text \<open>
  C36: \<^verbatim>\<open>kill\<close> terminates the process whose number it is given, but misreports it.  The kernel runs the scheduler inside the call, and its result 0
  goes to the process that runs next.  If that is the killer itself, it exits with 0.  If it is another one, the killer's registers are saved
  with the number of the process it killed in r0; and when a timer interrupt later gives the processor back to
  it, with its table entry still as it was saved, it finds this number and exits with -1.  Should the
  processor come back to it from another process's call of kill, that call's 0 is in r0 and it exits with 0.
\<close>

theorem kill_reports_failure:
  assumes "running considerate dev (c, k)" "p = fst (stdstring_strtol (string_at (kmem k) a) 10)" "find_process (ks k) p = Some x"
    "p \<noteq> current_pid (ks k)" "me = current_pid (ks k)"
  shows "\<exists>c' k' y. program_kill env endptr [a] c k = Some (c', k')
    \<and> find_process (ks k') p = Some (x\<lparr>status := PROCESS_STATUS_TERMINATED\<rparr>) \<and> find_process (ks k') me = Some y
    \<and> (current_pid (ks k') = me \<longrightarrow> kill_exit_code (arg c' 0) = 0)
    \<and> (\<forall>d k2 y2 c3 k3. running considerate dev (d, k2) \<and> current_pid (ks k2) \<noteq> me
          \<and> find_process (ks k2) me = Some y2 \<and> ctx y2 = ctx y \<and> current_pid (ks k3) = me \<longrightarrow>
        (kernel_handler_irq 36 d k2 = Some (c3, k3) \<longrightarrow> c3 = ctx y \<and> kill_exit_code (arg c3 0) = - 1)
        \<and> (kernel_handler_svc env 37 d k2 = Some (c3, k3) \<and> arg d 1 = 9 \<longrightarrow> kill_exit_code (arg c3 0) = 0))"
proof -
  let ?c = "with_args [p, 9] c"
  define m where "m = snd (strtol_call endptr a (kmem k))"
  have call: "strtol_call endptr a (kmem k) = (p, m)"
    unfolding m_def assms(2) by (simp add: strtol_call_def split: prod.split)
  let ?s = "(ks k)\<lparr>ram := m\<rparr>"
  have inv: "sched_inv ?s" "length (gpr ?c) = 13" using running_inv [OF assms(1)] by (simp_all add: kernel_inv_def with_args_def)
  have fp: "find_process ?s q = find_process (ks k) q" for q by (simp add: find_process_def)
  have wf: "sched_wf {} ?s" and cur: "me \<in> set (low_priority_queue ?s)"
    using inv(1) assms(5) by (simp_all add: sched_inv_def)
  obtain me' where me: "find_process ?s me = Some me'" using current_found [OF wf] assms(5) by auto
  have run: "runnable me'" using cur me sched_wfD(6) [OF wf] runnable_pids_iff [OF sched_wfD(1) [OF wf] me] by simp
  have "set (low_priority_queue ?s) \<noteq> {p}" using cur assms(4,5) by auto
  then obtain c' s1 where r: "scheduler_kill ?c p ?s = Some (0, c', scheduler_emit_event (exit_event p) (terminated p s1))"
      "sched_inv (terminated p s1)" "\<forall>q. find_process (terminated p s1) q = map_option (saved_killed ?c p ?s q) (find_process ?s q)" "length (gpr c') = 13"
    using kill_run [OF inv, of p] assms(3) fp by force
  let ?s' = "scheduler_emit_event (exit_event p) (terminated p s1)"
  have wf1: "sched_wf {} (terminated p s1)" using r(2) by (simp add: sched_inv_def)
  have f: "find_process ?s' me = Some (me'\<lparr>ctx := ?c\<rparr>)" "find_process ?s' p = Some (x\<lparr>status := PROCESS_STATUS_TERMINATED\<rparr>)"
    using assms(3-5) me run r(3) fp by (auto simp: find_process_wake [OF wf1] saved_killed_def wake_def waiting_def runnable_def Let_def)
  have "p \<in> set (pids (ks k))" using assms(3) find_process_None [of "ks k" p] by auto
  then have p: "p \<noteq> 0" using sched_wfD(7) [of "{}" "ks k" p] running_inv [OF assms(1)] by (force simp: kernel_inv_def sched_inv_def)
  have kill: "program_kill env endptr [a] c k = Some (set_r0 0 c', k\<lparr>ks := ?s'\<rparr>)"
    using r(1) call by (simp add: program_kill_def stub_defs kernel_handler_svc_def svc_kill_def set_mem_def)
  have now: "kill_exit_code (arg (set_r0 0 c') 0) = 0" using r(4) by (cases "gpr c'") (simp_all add: kill_exit_code_def set_r0_def)
  have tick: "c3 = ?c \<and> kill_exit_code (arg c3 0) = - 1"
    if "running considerate dev (d, k2)" "current_pid (ks k2) \<noteq> me" "find_process (ks k2) me = Some y2" "ctx y2 = ?c"
      "current_pid (ks k3) = me" "kernel_handler_irq 36 d k2 = Some (c3, k3)" for d k2 y2 c3 k3
    using timer_resumes [OF that(1) _ _ that(6)] that p by (simp add: kill_exit_code_def with_args_def)
  have other: "kill_exit_code (arg c3 0) = 0"
    if "running considerate dev (d, k2)" "kernel_handler_svc env 37 d k2 = Some (c3, k3)" "arg d 1 = 9" for d k2 c3 k3
    using kill_result_zero [OF that] by (simp add: kill_exit_code_def)
  show ?thesis
    using kill f now tick other
    by (intro exI [of _ "set_r0 0 c'"] exI [of _ "k\<lparr>ks := ?s'\<rparr>"] exI [of _ "me'\<lparr>ctx := ?c\<rparr>"]) auto
qed

theorem kill_reports_failure_witness:
  "\<exists>c k c' k'. running considerate demo_dev (c, k) \<and> program_kill demo_env 0x400 [0x100] c k = Some (c', k')
     \<and> map_option status (find_process (ks k') 2) = Some PROCESS_STATUS_TERMINATED"
proof -
  obtain k0 where k0: "running considerate demo_dev (demo_ctx 0, k0)" "current_pid (ks k0) = 1" "2 \<in> runnable_pids (ks k0)"
    using demo_forked [of "demo_ctx 0"] by (auto simp: demo_ctx_def)
  define m :: memory where "m = (\<lambda>_. 0)(0x100 := 50)"
  define k where "k = set_mem m k0"
  have k: "running considerate demo_dev (demo_ctx 0, k)" "current_pid (ks k) = 1" "2 \<in> set (pids (ks k))"
    using running_program [OF k0(1) demo_inv(2)] k0(2,3) runnable_pids_subset [of "ks k0"] by (auto simp: k_def pids_def)
  then obtain x where x: "find_process (ks k) 2 = Some x" using find_process_None [of "ks k" 2] by auto
  let ?w = "\<lparr>wipc = \<lparr>messages = [], mem = m, heap_break = 0\<rparr>, wout = []\<rparr>"
  have "2 = number_at ?w 0x100" by (simp add: number_at_digit m_def isdigit_def)
  then have "2 = fst (stdstring_strtol (string_at (kmem k) 0x100) 10)" by (simp add: number_at_def k_def)
  from kill_reports_failure [OF k(1) this x, of 1 demo_env "0x400"] k(1,2) show ?thesis by fastforce
qed

end
