(* ===== verification/Shell.thy ===== *)
theory Shell
  imports Stdstring Stdstream
begin

text \<open>
  The shell \<^verbatim>\<open>os/src/user/sh.c\<close> and the console functions of \<^verbatim>\<open>mlibc/src/stdio.c\<close> it is written with: reading
  characters, starting programs and waiting for them, editing a line, parsing a command and choosing
  the program.  The shell is one process; what the rest of the system does for it is the record
  \<open>console\<close>.  \<open>None\<close> is a function that does not return.
\<close>

section \<open>The console of a process\<close>

text \<open>
  What a program sees of the rest of the system: \<open>typed\<close> are the results of its successive one-byte reads
  from standard input, \<^verbatim>\<open>EOF\<close> where no character was waiting, and \<^verbatim>\<open>EOF\<close> for ever behind the end of the
  list; \<open>waits\<close> and \<open>forks\<close> are the results of its calls of \<^verbatim>\<open>_waitpid\<close> and \<^verbatim>\<open>_fork\<close>.
  \<open>printed\<close> are the bytes it has written to standard output, and \<open>calls\<close> the process calls it has made.
\<close>

datatype program = entry_P0 | entry_P1 | entry_ls | entry_cd | entry_pwd | entry_cat | entry_mkdir | entry_touch
  | entry_write | entry_rm | entry_append | entry_messenger | entry_producer | entry_pipeline | entry_consumer
  | entry_writemany | entry_proc | entry_kill

datatype ucall = Fork | Exec program nat "cstr list" | Setpriority pid_t pid_t i32 | Waitpid i32 pid_t i32
  | Kill pid_t i32 | Yield

record console =
  typed :: "u8 list"
  waits :: "pid_t list"
  forks :: "pid_t list"
  printed :: "u8 list"
  calls :: "ucall list"
  sh_stdin_buffer :: "u8 list"

definition stdio_print :: "cstr \<Rightarrow> console \<Rightarrow> console" where
  "stdio_print str s = s\<lparr>printed := printed s @ take (stdstring_length str) str\<rparr>"

definition stdio_printchar :: "u8 \<Rightarrow> console \<Rightarrow> console" where
  "stdio_printchar c s = s\<lparr>printed := printed s @ [c]\<rparr>"

definition stdio_printint :: "i32 \<Rightarrow> console \<Rightarrow> console" where
  "stdio_printint n s = (let str = stdstring_int_to_str n in s\<lparr>printed := printed s @ take (stdstring_length str) str\<rparr>)"

definition stdio_readchar_nonblocking :: "console \<Rightarrow> u8 \<times> console" where
  "stdio_readchar_nonblocking s = (case typed s of [] \<Rightarrow> (EOF, s) | c # cs \<Rightarrow> (c, s\<lparr>typed := cs\<rparr>))"

text \<open>\<^verbatim>\<open>stdio_readchar\<close> repeats the read until it gives a character; \<open>None\<close> when none ever comes.\<close>

fun readchar_loop :: "u8 list \<Rightarrow> (u8 \<times> u8 list) option" where
  "readchar_loop [] = None"
| "readchar_loop (c # cs) = (if c = EOF then readchar_loop cs else Some (c, cs))"

definition stdio_readchar :: "console \<Rightarrow> (u8 \<times> console) option" where
  "stdio_readchar s = do { (c, cs) \<leftarrow> readchar_loop (typed s); Some (c, s\<lparr>typed := cs\<rparr>) }"

text \<open>\<^verbatim>\<open>stdio_readline\<close>: the bytes stored and their number; it does not wait for characters.\<close>

fun readline_loop :: "nat \<Rightarrow> console \<Rightarrow> u8 list \<times> console" where
  "readline_loop 0 s = ([], s)"
| "readline_loop (Suc n) s =
     (let (c, s1) = stdio_readchar_nonblocking s
      in if c = 10 then ([c], s1) else let (cs, s2) = readline_loop n s1 in (c # cs, s2))"

definition stdio_readline :: "nat \<Rightarrow> console \<Rightarrow> nat \<times> u8 list \<times> console" where
  "stdio_readline nbytes s = (let (cs, s1) = readline_loop nbytes s in (length cs, cs @ [0], s1))"

section \<open>Reading characters in the shell\<close>

text \<open>\<^verbatim>\<open>handle_input\<close>: the characters typed while a child runs.\<close>

fun handle_input_loop :: "pid_t \<Rightarrow> u8 list \<Rightarrow> console \<Rightarrow> console" where
  "handle_input_loop child_pid [] s = s\<lparr>typed := []\<rparr>"
| "handle_input_loop child_pid (c # cs) s =
     (let s1 = (if c = 3 then s\<lparr>calls := calls s @ [Kill child_pid 9]\<rparr> else s);
          s2 = (if c \<noteq> EOF then s1\<lparr>sh_stdin_buffer := sh_stdin_buffer s1 @ [c]\<rparr> else s1)
      in if c \<noteq> EOF then handle_input_loop child_pid cs s2 else s2\<lparr>typed := cs\<rparr>)"

definition handle_input :: "pid_t \<Rightarrow> console \<Rightarrow> console" where
  "handle_input child_pid s = handle_input_loop child_pid (typed s) s"

definition get_next_char :: "console \<Rightarrow> (u8 \<times> console) option" where
  "get_next_char s =
     (let (c, s1) = (case sh_stdin_buffer s of [] \<Rightarrow> (EOF, s) | c # cs \<Rightarrow> (c, s\<lparr>sh_stdin_buffer := cs\<rparr>))
      in if c = EOF then stdio_readchar s1 else Some (c, s1))"

section \<open>Starting programs\<close>

text \<open>
  The loop of \<^verbatim>\<open>launch_process\<close>: \<open>None\<close> when the child never exits.  \<open>Inl\<close> is the child, which runs the program instead.
\<close>

fun wait_loop :: "pid_t \<Rightarrow> pid_t list \<Rightarrow> console \<Rightarrow> console option" where
  "wait_loop stored_pid [] s = None"
| "wait_loop stored_pid (result # rest) s =
     (let s1 = s\<lparr>waits := rest, calls := calls s @ [Waitpid 1 stored_pid 1]\<rparr>
      in if result = 0
         then (let s2 = handle_input stored_pid s1 in wait_loop stored_pid rest (s2\<lparr>calls := calls s2 @ [Yield]\<rparr>))
         else Some s1)"

definition user_fork_result :: "console \<Rightarrow> (pid_t \<times> console) option" where
  "user_fork_result s =
     (case forks s of [] \<Rightarrow> None | r # rs \<Rightarrow> Some (r, s\<lparr>forks := rs, calls := calls s @ [Fork]\<rparr>))"

definition launch_process :: "program \<Rightarrow> nat \<Rightarrow> cstr list \<Rightarrow> i32 \<Rightarrow> console \<Rightarrow> (ucall + console) option" where
  "launch_process function argc argv priority s = do {
     (fork_pid, s1) \<leftarrow> user_fork_result s;
     if fork_pid = 0 then Some (Inl (Exec function argc argv))
     else do {
       s2 \<leftarrow> wait_loop fork_pid (waits s1) (s1\<lparr>calls := calls s1 @ [Setpriority fork_pid 1 priority]\<rparr>);
       Some (Inr s2) } }"

definition launch_process_bg :: "program \<Rightarrow> nat \<Rightarrow> cstr list \<Rightarrow> console \<Rightarrow> (ucall + console) option" where
  "launch_process_bg function argc argv s = do {
     (fork_pid, s1) \<leftarrow> user_fork_result s;
     if fork_pid = 0 then Some (Inl (Exec function argc argv))
     else Some (Inr (s1\<lparr>calls := calls s1 @ [Yield]\<rparr>)) }"

section \<open>Editing a line\<close>

record shell_line_t =
  prompt :: cstr
  prompt_bytes :: nat
  contents :: "u8 list"
  contents_bytes :: nat
  cursor_position :: int

definition make_line :: "cstr \<Rightarrow> nat \<Rightarrow> u8 list \<Rightarrow> nat \<Rightarrow> shell_line_t" where
  "make_line prm prm_bytes block n =
     \<lparr>prompt = prm, prompt_bytes = prm_bytes, contents = block[n := 0], contents_bytes = n, cursor_position = 0\<rparr>"

text \<open>The loop of \<^verbatim>\<open>line_insert\<close> moves the bytes up, the loop of \<^verbatim>\<open>line_delete\<close> and \<^verbatim>\<open>line_backspace\<close> down.\<close>

function shift_up :: "nat \<Rightarrow> nat \<Rightarrow> u8 \<Rightarrow> u8 list \<Rightarrow> u8 list" where
  "shift_up i n prev xs = (if i < n then shift_up (Suc i) n (xs ! i) (xs[i := prev]) else xs)"
  by pat_completeness auto
termination
  by (relation "measure (\<lambda>(i, n, prev, xs). n - i)") auto

function shift_down :: "nat \<Rightarrow> nat \<Rightarrow> u8 list \<Rightarrow> u8 list" where
  "shift_down i n xs = (if i < n then shift_down (Suc i) n (xs[i := xs ! Suc i]) else xs)"
  by pat_completeness auto
termination
  by (relation "measure (\<lambda>(i, n, xs). n - i)") auto

definition line_insert :: "u8 \<Rightarrow> shell_line_t \<Rightarrow> shell_line_t" where
  "line_insert c line =
     (if 0 \<le> cursor_position line \<and> cursor_position line < int (contents_bytes line)
      then let p = nat (cursor_position line)
           in line\<lparr>contents := (shift_up p (contents_bytes line) 32 (contents line))[p := c],
                   cursor_position := cursor_position line + 1\<rparr>
      else line)"

definition line_delete :: "shell_line_t \<Rightarrow> shell_line_t" where
  "line_delete line =
     (let xs = (if 0 \<le> cursor_position line \<and> cursor_position line < int (contents_bytes line) - 1
                then shift_down (nat (cursor_position line)) (contents_bytes line) (contents line)
                else contents line)
      in line\<lparr>contents := xs[contents_bytes line := 0]\<rparr>)"

definition line_backspace :: "shell_line_t \<Rightarrow> shell_line_t" where
  "line_backspace line =
     (let line1 = (if 0 < cursor_position line \<and> cursor_position line \<le> int (contents_bytes line)
                   then line\<lparr>contents := shift_down (nat (cursor_position line - 1)) (contents_bytes line) (contents line),
                             cursor_position := cursor_position line - 1\<rparr>
                   else line)
      in line1\<lparr>contents := (contents line1)[contents_bytes line1 := 0]\<rparr>)"

definition line_control_seq :: "shell_line_t \<Rightarrow> console \<Rightarrow> (shell_line_t \<times> console) option" where
  "line_control_seq line s = do {
     (nxt, s1) \<leftarrow> get_next_char s;
     (after_next, s2) \<leftarrow> get_next_char s1;
     Some (if nxt \<noteq> 91 then line_insert nxt (line_insert 94 line)
           else if after_next = 68 then
             (if cursor_position line > 0 then line\<lparr>cursor_position := cursor_position line - 1\<rparr> else line)
           else if after_next = 67 then
             (if cursor_position line < int (stdstring_length (contents line))
              then line\<lparr>cursor_position := cursor_position line + 1\<rparr> else line)
           else line, s2) }"

definition line_print :: "shell_line_t \<Rightarrow> console \<Rightarrow> console" where
  "line_print line s =
     (let s1 = stdio_print (contents line) (stdio_print (prompt line) (stdio_print [27, 91, 50, 75, 13] s))
      in s1\<lparr>printed := printed s1 @ replicate (nat (int (stdstring_length (contents line)) - cursor_position line)) 8\<rparr>)"

definition line_print_with_newline :: "shell_line_t \<Rightarrow> console \<Rightarrow> console" where
  "line_print_with_newline line s =
     stdio_print [10] (stdio_print (contents line) (stdio_print (prompt line) (stdio_print [27, 91, 50, 75, 13] s)))"

text \<open>\<^verbatim>\<open>get_line\<close>: \<open>Some (None, _)\<close> when it was left with Ctrl+C, and \<open>None\<close> when the line is never ended.\<close>

definition unread :: "console \<Rightarrow> nat" where
  "unread s = length (sh_stdin_buffer s) + length (typed s)"

lemma readchar_shorter: "readchar_loop cs = Some (c, cs') \<Longrightarrow> length cs' < length cs"
  by (induction cs) (auto split: if_splits)

lemma get_next_char_unread [termination_simp]: "get_next_char s = Some (c, s') \<Longrightarrow> unread s' < unread s"
  by (auto simp: get_next_char_def stdio_readchar_def unread_def split: list.splits if_splits bind_splits dest!: readchar_shorter)

lemma line_control_seq_unread: "line_control_seq line s = Some (line', s') \<Longrightarrow> unread s' < unread s"
  unfolding line_control_seq_def by (fastforce split: bind_splits dest: get_next_char_unread)

lemma unread_printed [simp]: "unread (line_print line s) = unread s"
  by (simp add: line_print_def stdio_print_def unread_def Let_def)

function get_line_loop :: "u8 \<Rightarrow> shell_line_t \<Rightarrow> console \<Rightarrow> (shell_line_t option \<times> console) option" where
  "get_line_loop c line s =
     (if c = 13 then Some (Some line, s)
      else if c = 3 then Some (None, s)
      else do {
        (line1, s1) \<leftarrow> (if c = 0x7F then Some (line_backspace line, s)
                        else if c = 27 then line_control_seq line s
                        else Some (line_insert c line, s));
        (c', s2) \<leftarrow> get_next_char (line_print line1 s1);
        get_line_loop c' line1 s2 })"
  by pat_completeness auto
termination
  by (relation "measure (\<lambda>(c, line, s). unread s)")
    (auto split: if_splits dest!: get_next_char_unread line_control_seq_unread)

definition get_line :: "u8 list \<Rightarrow> u8 list \<Rightarrow> nat \<Rightarrow> console \<Rightarrow> (u8 list \<times> console) option" where
  "get_line block buf nbytes s = do {
     let line = make_line (lit ''mush> '') 6 block 100;
     (c, s1) \<leftarrow> get_next_char (line_print line s);
     (r, s2) \<leftarrow> get_line_loop c line s1;
     Some (case r of
         None \<Rightarrow> (buf[0 := 0], s2)
       | Some line1 \<Rightarrow> ((take 101 (contents line1) @ drop 101 buf)[nbytes - 1 := 0], line_print_with_newline line1 s2)) }"

section \<open>Parsing a command\<close>

record shell_command_t =
  name :: cstr
  argc :: nat
  priority :: i32
  background :: bool
  argv :: "cstr list"

lemma next_token_shorter:
  assumes "stdstring_next_token str delims = (t, str1)" "after_token t = Some p"
  shows "p \<le> length str1 \<and> length str1 = length str \<and> 0 < p"
  using assms by (auto simp: stdstring_next_token_def Let_def char_at_def split: if_splits)

text \<open>The loop over the arguments; \<open>rest\<close> is what \<^verbatim>\<open>after_token\<close> points to, \<open>None\<close> is NULL.\<close>

function parse_loop :: "cstr option \<Rightarrow> shell_command_t \<Rightarrow> shell_command_t" where
  "parse_loop rest result =
     (case rest of
        None \<Rightarrow> result
      | Some str \<Rightarrow>
          if \<not> argc result < 10 then result
          else
            let (t, str1) = stdstring_next_token str (lit '' '');
                token = drop (token_start t) str1;
                token_length = stdstring_length token
            in if stdstring_compare token (lit ''&'') = 0 then result\<lparr>background := True\<rparr>
               else if stdstring_compare token (lit ''!'') = 0 then result\<lparr>priority := 0\<rparr>
               else parse_loop (map_option (\<lambda>p. drop p str1) (after_token t))
                      (if token_length > 0
                       then result\<lparr>argv := argv result @ [take (token_length + 1) token], argc := argc result + 1\<rparr>
                       else result))"
  by pat_completeness auto

termination
  by (relation "measure (\<lambda>(rest, result). case rest of None \<Rightarrow> 0 | Some str \<Rightarrow> Suc (length str))")
    (auto split: option.splits dest!: next_token_shorter [OF sym])

definition parse_shell_command :: "cstr \<Rightarrow> shell_command_t" where
  "parse_shell_command line =
     (let (t, line1) = stdstring_next_token line (lit '' '');
          token = drop (token_start t) line1
      in parse_loop (map_option (\<lambda>p. drop p line1) (after_token t))
           \<lparr>name = take (stdstring_length token + 1) token, argc = 0, priority = 1, background = False, argv = []\<rparr>)"

definition choose_process :: "cstr \<Rightarrow> program option" where
  "choose_process str =
     (if stdstring_compare (lit ''P0'') str = 0 then Some entry_P0
      else if stdstring_compare (lit ''P1'') str = 0 then Some entry_P1
      else if stdstring_compare (lit ''ls'') str = 0 then Some entry_ls
      else if stdstring_compare (lit ''cd'') str = 0 then Some entry_cd
      else if stdstring_compare (lit ''pwd'') str = 0 then Some entry_pwd
      else if stdstring_compare (lit ''cat'') str = 0 then Some entry_cat
      else if stdstring_compare (lit ''mkdir'') str = 0 then Some entry_mkdir
      else if stdstring_compare (lit ''touch'') str = 0 then Some entry_touch
      else if stdstring_compare (lit ''write'') str = 0 then Some entry_write
      else if stdstring_compare (lit ''rm'') str = 0 then Some entry_rm
      else if stdstring_compare (lit ''append'') str = 0 then Some entry_append
      else if stdstring_compare (lit ''messenger'') str = 0 then Some entry_messenger
      else if stdstring_compare (lit ''producer'') str = 0 then Some entry_producer
      else if stdstring_compare (lit ''pipeline'') str = 0 then Some entry_pipeline
      else if stdstring_compare (lit ''consumer'') str = 0 then Some entry_consumer
      else if stdstring_compare (lit ''writemany'') str = 0 then Some entry_writemany
      else if stdstring_compare (lit ''proc'') str = 0 then Some entry_proc
      else if stdstring_compare (lit ''kill'') str = 0 then Some entry_kill
      else None)"

section \<open>The shell\<close>

text \<open>
  One round of the loop of \<^verbatim>\<open>mush\<close>, and \<open>n\<close> rounds.  \<open>blocks\<close> are the bytes found in the blocks that \<^verbatim>\<open>get_line\<close>
  allocates, one for each line; \<open>Inl\<close> is a child that goes on with another program.
\<close>

definition mush_round :: "u8 list \<Rightarrow> u8 list \<Rightarrow> console \<Rightarrow> (ucall + (u8 list \<times> console)) option" where
  "mush_round block last_line s = do {
     (line, s1) \<leftarrow> get_line block last_line 101 s;
     let command = parse_shell_command line;
     case choose_process (name command) of
       None \<Rightarrow> Some (Inr (line, stdio_print (lit (''Command not recognised.'' @ [CHR 0x0A])) s1))
     | Some function \<Rightarrow> do {
         r \<leftarrow> (if background command then launch_process_bg function (argc command) (argv command) s1
               else launch_process function (argc command) (argv command) (priority command) s1);
         Some (map_sum id (Pair line) r) } }"

fun mush_rounds :: "u8 list list \<Rightarrow> u8 list \<Rightarrow> console \<Rightarrow> (ucall + (u8 list \<times> console)) option" where
  "mush_rounds [] last_line s = Some (Inr (last_line, s))"
| "mush_rounds (block # blocks) last_line s =
     (case mush_round block last_line s of
        Some (Inr (last_line', s')) \<Rightarrow> mush_rounds blocks last_line' s'
      | r \<Rightarrow> r)"

definition mush :: "u8 list list \<Rightarrow> u8 list \<Rightarrow> console \<Rightarrow> (ucall + (u8 list \<times> console)) option" where
  "mush blocks last_line s =
     mush_rounds blocks last_line (stdio_print (lit (''Welcome to the mu shell'' @ [CHR 0x0A])) (s\<lparr>sh_stdin_buffer := []\<rparr>))"

end
