(* ===== verification/Editor.thy ===== *)
theory Editor
  imports Shell
begin

text \<open>
  The line editor of the shell refines an editor on the text in front of the cursor and the text behind it.
\<close>

declare shift_up.simps [simp del] shift_down.simps [simp del] get_line_loop.simps [simp del] parse_loop.simps [simp del]

section \<open>The editor as text around a cursor\<close>

text \<open>
  The specification of the editor: the text in front of the cursor and the text behind it, at most 100
  characters together; \<open>edit\<close> reads keys until Return (the text) or Ctrl+C (no text).
\<close>

fun put :: "u8 \<Rightarrow> u8 list \<times> u8 list \<Rightarrow> u8 list \<times> u8 list" where
  "put c (b, a) = (if length b < 100 then (b @ [c], take (99 - length b) a) else (b, a))"

fun press :: "u8 list \<Rightarrow> u8 list \<times> u8 list \<Rightarrow> u8 list \<times> u8 list" where
  "press [] (b, a) = (b, a)"
| "press [c] (b, a) = (if c = 0x7F then (butlast b, a) else put c (b, a))"
| "press (c # nxt # after_next) (b, a) =
     (if nxt \<noteq> 91 then put nxt (put 94 (b, a))
      else if after_next = [68] then (butlast b, (if b = [] then a else last b # a))
      else if after_next = [67] then (b @ take 1 a, drop 1 a)
      else (b, a))"

function edit :: "u8 list \<Rightarrow> u8 list \<times> u8 list \<Rightarrow> (u8 list option \<times> u8 list) option" where
  "edit cs ba =
     (case cs of
        [] \<Rightarrow> None
      | c # cs1 \<Rightarrow>
          if c = 13 then Some (Some (fst ba @ snd ba), cs1)
          else if c = 3 then Some (None, cs1)
          else if c = 27 then (if length cs1 < 2 then None else edit (drop 2 cs1) (press (c # take 2 cs1) ba))
          else edit cs1 (press [c] ba))"
  by pat_completeness auto
termination
  by (relation "measure (\<lambda>(cs, ba). length cs)") auto

declare edit.simps [simp del]

lemma edit_Nil: "edit [] ba = None"
  by (simp add: edit.simps)

lemma edit_Cons:
  "edit (c # cs) ba = (if c = 13 then Some (Some (fst ba @ snd ba), cs) else if c = 3 then Some (None, cs)
     else if c = 27 then (if length cs < 2 then None else edit (drop 2 cs) (press (c # take 2 cs) ba))
     else edit cs (press [c] ba))"
  by (subst edit.simps) simp

definition line_rep :: "shell_line_t \<Rightarrow> u8 list \<times> u8 list \<Rightarrow> bool" where
  "line_rep line ba \<longleftrightarrow> (case ba of (b, a) \<Rightarrow>
     contents line = b @ a @ replicate (100 - length b - length a) 0 @ [0] \<and> contents_bytes line = 100
     \<and> cursor_position line = int (length b) \<and> length b + length a \<le> 100 \<and> 0 \<notin> set b \<union> set a)"

lemma shift_up_eq:
  "i \<le> n \<Longrightarrow> n \<le> length xs \<Longrightarrow> shift_up i n p xs = take i xs @ take (n - i) (p # drop i xs) @ drop n xs"
proof (induction i n p xs rule: shift_up.induct)
  case (1 i n p xs)
  show ?case
  proof (cases "i < n")
    case True
    then have "shift_up i n p xs = take (Suc i) (xs[i := p]) @ take (n - Suc i) (xs ! i # drop (Suc i) (xs[i := p])) @ drop n (xs[i := p])"
      using 1 by (subst shift_up.simps) simp
    moreover have "take (Suc i) (xs[i := p]) = take i xs @ [p]" using True 1(3) by (simp add: take_Suc_conv_app_nth)
    moreover have "xs ! i # drop (Suc i) (xs[i := p]) = drop i xs" using True 1(3) by (simp add: Cons_nth_drop_Suc)
    moreover have "take (n - i) (p # drop i xs) = p # take (n - Suc i) (drop i xs)" using True by (simp add: Suc_diff_Suc take_Cons')
    ultimately show ?thesis using True by simp
  next
    case False
    then show ?thesis using 1 by (subst shift_up.simps) simp
  qed
qed

lemma shift_down_eq:
  "i \<le> n \<Longrightarrow> n < length xs \<Longrightarrow> shift_down i n xs = take i xs @ take (n - i) (drop (Suc i) xs) @ drop n xs"
proof (induction i n xs rule: shift_down.induct)
  case (1 i n xs)
  show ?case
  proof (cases "i < n")
    case True
    let ?ys = "xs[i := xs ! Suc i]"
    have "shift_down i n xs = take (Suc i) ?ys @ take (n - Suc i) (drop (Suc (Suc i)) ?ys) @ drop n ?ys"
      using 1 True by (subst shift_down.simps) simp
    moreover have "take (Suc i) ?ys = take i xs @ [xs ! Suc i]" using True 1(3) by (simp add: take_Suc_conv_app_nth)
    moreover have "take (n - i) (drop (Suc i) xs) = xs ! Suc i # take (n - Suc i) (drop (Suc (Suc i)) xs)"
      using True 1(3) by (simp add: Cons_nth_drop_Suc [symmetric] Suc_diff_Suc [symmetric])
    ultimately show ?thesis using True by simp
  next
    case False
    then show ?thesis using 1 by (subst shift_down.simps) simp
  qed
qed

lemma line_rep_insert:
  assumes "line_rep line (b, a)" "c \<noteq> 0"
  shows "line_rep (line_insert c line) (put c (b, a))"
proof (cases "length b < 100")
  case True
  let ?z = "replicate (100 - length b - length a) (0 :: u8)"
  have r: "contents line = b @ a @ ?z @ [0]" "contents_bytes line = 100" "cursor_position line = int (length b)"
      "length b + length a \<le> 100" "0 \<notin> set b \<union> set a"
    using assms(1) by (simp_all add: line_rep_def)
  have "length (contents line) = 101" "drop 100 (contents line) = [0]" using r(4) by (simp_all add: r(1))
  then have "shift_up (length b) 100 32 (contents line) = b @ take (100 - length b) (32 # a @ ?z @ [0]) @ [0]"
    using True by (subst shift_up_eq) (simp_all add: r(1))
  moreover have "100 - length b = Suc (99 - length b)" using True by simp
  moreover have "take (99 - length b) (a @ ?z @ [0]) = take (99 - length b) a @ replicate (99 - length b - length a) 0"
    using r(4) True by (cases "length a \<le> 99 - length b") (auto simp: min_def)
  ultimately have "(shift_up (length b) 100 32 (contents line))[length b := c]
      = b @ c # take (99 - length b) a @ replicate (99 - length b - length a) 0 @ [0]"
    by simp
  moreover have "99 - length b - length a = 100 - length (b @ [c]) - length (take (99 - length b) a)" by auto
  ultimately show ?thesis
    using True r assms(2) by (auto simp: line_rep_def line_insert_def Let_def dest: in_set_takeD)
next
  case False
  then show ?thesis using assms by (simp add: line_rep_def line_insert_def)
qed

lemma line_rep_backspace:
  assumes "line_rep line (b, a)"
  shows "line_rep (line_backspace line) (butlast b, a)"
proof (cases b rule: rev_cases)
  case Nil
  then show ?thesis using assms by (simp add: line_rep_def line_backspace_def list_update_append)
next
  case (snoc b0 x)
  let ?z = "replicate (100 - length b - length a) (0 :: u8)"
  have r: "contents line = b0 @ x # a @ ?z @ [0]" "contents_bytes line = 100" "cursor_position line = int (length b)"
      "length b + length a \<le> 100" "0 \<notin> set b \<union> set a"
    using assms snoc by (simp_all add: line_rep_def)
  have len: "length (b0 @ x # a @ ?z) = 100" using r(4) snoc by simp
  have "length (contents line) = 101" "drop 100 (contents line) = [0]"
    using drop_append [of 100 "b0 @ x # a @ ?z" "[0]"] len by (simp_all add: r(1))
  then have "shift_down (length b0) 100 (contents line) = b0 @ take (100 - length b0) (a @ ?z @ [0]) @ [0]"
    using r(4) snoc by (subst shift_down_eq) (simp_all add: r(1))
  moreover have "take (100 - length b0) (a @ ?z @ [0]) = a @ ?z @ [0]" using r(4) snoc by simp
  moreover have "?z @ [0 :: u8] = replicate (100 - length b0 - length a) 0"
  proof -
    have "100 - length b0 - length a = Suc (100 - length b - length a)" using r(4) snoc by simp
    then show ?thesis by (simp add: replicate_append_same)
  qed
  ultimately have "shift_down (length b0) 100 (contents line) = b0 @ a @ replicate (100 - length b0 - length a) 0 @ [0]" by simp
  then show ?thesis
    using r snoc by (auto simp: line_rep_def line_backspace_def Let_def list_update_append)
qed

lemma line_rep_length: "line_rep line (b, a) \<Longrightarrow> cstring (contents line) = b @ a"
  using cstring_append_zero [of "b @ a"] by (cases "100 - length b - length a") (auto simp: line_rep_def)

lemma line_rep_last:
  assumes "line_rep line (b, a)"
  shows "contents line ! 100 = 0"
proof -
  have "contents line = (b @ a @ replicate (100 - length b - length a) 0) @ [0]"
    "length (b @ a @ replicate (100 - length b - length a) 0) = 100" using assms by (simp_all add: line_rep_def)
  then show ?thesis by (metis nth_append_length)
qed

text \<open>The characters still to be read, those typed ahead first.\<close>

definition chars :: "console \<Rightarrow> u8 list" where
  "chars s = sh_stdin_buffer s @ filter (\<lambda>c. c \<noteq> EOF) (typed s)"

lemma readchar_loop_eq:
  "filter (\<lambda>c. c \<noteq> EOF) xs = c # cs \<Longrightarrow> \<exists>xs'. readchar_loop xs = Some (c, xs') \<and> filter (\<lambda>c. c \<noteq> EOF) xs' = cs"
  by (induction xs) (auto split: if_splits)

text \<open>After reading characters: \<open>cs\<close> are left, and no process call was made.\<close>

definition reads_to :: "console \<Rightarrow> u8 list \<Rightarrow> console \<Rightarrow> bool" where
  "reads_to s cs s' \<longleftrightarrow> chars s' = cs \<and> EOF \<notin> set (sh_stdin_buffer s') \<and> calls s' = calls s \<and> waits s' = waits s \<and> forks s' = forks s"

lemma get_next_char_eq:
  assumes "chars s = c # cs" "EOF \<notin> set (sh_stdin_buffer s)"
  obtains s' where "get_next_char s = Some (c, s')" "reads_to s cs s'"
proof (cases "sh_stdin_buffer s")
  case Nil
  then obtain t where "readchar_loop (typed s) = Some (c, t)" "filter (\<lambda>c. c \<noteq> EOF) t = cs"
    using assms(1) readchar_loop_eq [of "typed s"] by (auto simp: chars_def)
  then show ?thesis
    using Nil by (intro that [of "s\<lparr>typed := t\<rparr>"]) (simp_all add: get_next_char_def stdio_readchar_def chars_def reads_to_def)
next
  case (Cons d ds)
  then have "d = c" "d \<noteq> EOF" using assms by (auto simp: chars_def)
  then show ?thesis
    using assms Cons by (intro that [of "s\<lparr>sh_stdin_buffer := ds\<rparr>"]) (simp_all add: get_next_char_def chars_def reads_to_def)
qed

lemma reads_to_trans: "reads_to s cs s' \<Longrightarrow> reads_to s' ds s'' \<Longrightarrow> reads_to s ds s''"
  by (simp add: reads_to_def)

text \<open>One key, with the printing of the line behind it.\<close>

lemma line_print_typed [simp]:
  "typed (line_print line s) = typed s" "sh_stdin_buffer (line_print line s) = sh_stdin_buffer s"
  "calls (line_print line s) = calls s" "forks (line_print line s) = forks s" "waits (line_print line s) = waits s"
  "chars (line_print line s) = chars s" "reads_to (line_print line s) cs s' = reads_to s cs s'"
  by (simp_all add: line_print_def stdio_print_def chars_def reads_to_def Let_def)

lemma line_fields [simp]:
  "prompt (line_insert c line) = prompt line" "prompt (line_backspace line) = prompt line"
  by (simp_all add: line_insert_def line_backspace_def Let_def)

lemma control_seq_eq:
  assumes "chars s = n # d # cs" "EOF \<notin> set (sh_stdin_buffer s)" "line_rep line (b, a)" "n \<noteq> 0"
  obtains line' s' where "line_control_seq line s = Some (line', s')" "reads_to s cs s'"
    "line_rep line' (press [c, n, d] (b, a))" "prompt line' = prompt line"
proof -
  obtain s1 where g1: "get_next_char s = Some (n, s1)" "reads_to s (d # cs) s1"
    using get_next_char_eq [OF assms(1,2)] .
  obtain s2 where g2: "get_next_char s1 = Some (d, s2)" "reads_to s1 cs s2"
    using get_next_char_eq [of s1 d cs] g1(2) by (auto simp: reads_to_def)
  let ?l = "fst (the (line_control_seq line s))"
  have seq: "line_control_seq line s = Some (?l, s2)"
    using g1(1) g2(1) by (simp add: line_control_seq_def)
  note r = assms(3) [unfolded line_rep_def, simplified]
  consider (other) "n \<noteq> 91" | (left) "n = 91" "d = 68" | (right) "n = 91" "d = 67" | (none) "n = 91" "d \<noteq> 68" "d \<noteq> 67" by blast
  then have "line_rep ?l (press [c, n, d] (b, a)) \<and> prompt ?l = prompt line"
  proof cases
    case other
    obtain b1 a1 where p: "put 94 (b, a) = (b1, a1)" by force
    have "line_rep (line_insert n (line_insert 94 line)) (put n (b1, a1))"
      using line_rep_insert [OF line_rep_insert [OF assms(3), of 94, unfolded p] assms(4)] by simp
    then show ?thesis using other g1(1) g2(1) p by (simp add: line_control_seq_def)
  next
    case left
    then show ?thesis
      using r g1(1) g2(1) by (cases b rule: rev_cases) (simp_all add: line_control_seq_def line_rep_def)
  next
    case right
    then show ?thesis
      using r g1(1) g2(1) line_rep_length [OF assms(3)] assms(3) by (cases a) (simp_all add: line_control_seq_def line_rep_def)
  next
    case none
    then show ?thesis using assms(3) g1(1) g2(1) by (simp add: line_control_seq_def)
  qed
  then show ?thesis using that [OF seq reads_to_trans [OF g1(2) g2(2)]] by blast
qed

definition line_gives :: "cstr \<Rightarrow> u8 list option \<Rightarrow> shell_line_t option \<Rightarrow> bool" where
  "line_gives prm r l \<longleftrightarrow> (case r of
       None \<Rightarrow> l = None
     | Some tt \<Rightarrow> (case l of None \<Rightarrow> False
         | Some line \<Rightarrow> cstring (contents line) = tt \<and> length (contents line) = 101 \<and> contents line ! 100 = 0 \<and> prompt line = prm))"

definition ends_with :: "console \<Rightarrow> cstr \<Rightarrow> u8 list option \<Rightarrow> u8 list \<Rightarrow> (shell_line_t option \<times> console) option \<Rightarrow> bool" where
  "ends_with s prm r rest res \<longleftrightarrow> (\<exists>l s'. res = Some (l, s') \<and> reads_to s rest s' \<and> line_gives prm r l)"

lemma ends_with_reads: "reads_to s cs s1 \<Longrightarrow> ends_with s1 prm r rest res \<Longrightarrow> ends_with s prm r rest res"
  unfolding ends_with_def using reads_to_trans by blast

lemma get_line_loop_edits:
  assumes "edit (c # cs) ba = Some (r, rest)" "line_rep line ba" "chars s = cs" "EOF \<notin> set (sh_stdin_buffer s)" "0 \<notin> set (c # cs)"
  shows "ends_with s (prompt line) r rest (get_line_loop c line s)"
  using assms
proof (induction "length cs" arbitrary: c cs ba line s rule: less_induct)
  case less
  obtain b a where ba: "ba = (b, a)" by force
  have more: "ends_with s (prompt line) r rest (do { (c', s2) \<leftarrow> get_next_char (line_print line1 s1); get_line_loop c' line1 s2 })"
    if "reads_to s ds s1" "edit ds ba1 = Some (r, rest)" "line_rep line1 ba1" "prompt line1 = prompt line" "length ds \<le> length cs" "0 \<notin> set ds"
    for line1 s1 ds ba1
  proof (cases ds)
    case Nil
    then show ?thesis using that(2) by (simp add: edit_Nil)
  next
    case (Cons d ds')
    have "chars (line_print line1 s1) = d # ds'" "EOF \<notin> set (sh_stdin_buffer (line_print line1 s1))"
      using that(1) Cons by (simp_all add: reads_to_def)
    then obtain s2 where g: "get_next_char (line_print line1 s1) = Some (d, s2)" "reads_to (line_print line1 s1) ds' s2"
      using get_next_char_eq by blast
    have "ends_with s2 (prompt line1) r rest (get_line_loop d line1 s2)"
      using less.hyps [of ds' d ba1 line1 s2] that Cons g(2) by (simp add: reads_to_def)
    moreover have "reads_to s ds' s2" using reads_to_trans [OF that(1)] g(2) by simp
    ultimately show ?thesis using g(1) that(4) ends_with_reads by simp
  qed
  note loop = get_line_loop.simps [of c line s]
  have here: "reads_to s cs s" using less.prems(3,4) by (simp add: reads_to_def)
  consider (cr) "c = 13" | (ctrl_c) "c = 3" | (esc) "c = 27" | (bs) "c = 0x7F" | (chr) "c \<notin> {13, 3, 27, 0x7F}" by blast
  then show ?case
  proof cases
    case cr
    have "r = Some (b @ a)" "rest = cs" using less.prems(1) cr ba by (simp_all add: edit_Cons)
    moreover have "length (contents line) = 101" "contents line ! 100 = 0"
      using less.prems(2) line_rep_last [of line b a] by (simp_all add: line_rep_def ba)
    ultimately show ?thesis
      using here line_rep_length [of line b a] less.prems(2) ba cr unfolding loop by (simp add: ends_with_def line_gives_def)
  next
    case ctrl_c
    then show ?thesis
      using less.prems(1) here unfolding loop by (auto simp: edit_Cons ends_with_def line_gives_def)
  next
    case esc
    then obtain n d cs' where cs: "cs = n # d # cs'" and e: "edit cs' (press [c, n, d] ba) = Some (r, rest)"
      using less.prems(1) by (cases cs; cases "tl cs") (auto simp: edit_Cons split: if_splits)
    obtain line' s' where q: "line_control_seq line s = Some (line', s')" "reads_to s cs' s'"
        "line_rep line' (press [c, n, d] (b, a))" "prompt line' = prompt line"
      using control_seq_eq [of s n d cs' line b a c] less.prems(2-5) ba cs by auto
    have "ends_with s (prompt line) r rest (do { (c', s2) \<leftarrow> get_next_char (line_print line' s'); get_line_loop c' line' s2 })"
      using more [OF q(2) e] q(3,4) ba cs less.prems(5) by simp
    then show ?thesis using q(1) esc unfolding loop by simp
  next
    case bs
    then have e: "edit cs (press [c] ba) = Some (r, rest)" using less.prems(1) by (simp add: edit_Cons)
    have "line_rep (line_backspace line) (press [c] ba)" using line_rep_backspace less.prems(2) ba bs by simp
    from more [OF here e this] show ?thesis using less.prems(5) bs unfolding loop by simp
  next
    case chr
    then have e: "edit cs (press [c] ba) = Some (r, rest)" using less.prems(1) by (simp add: edit_Cons)
    have "line_rep (line_insert c line) (press [c] ba)" using line_rep_insert less.prems(2,5) ba chr by auto
    from more [OF here e this] show ?thesis using less.prems(5) chr unfolding loop by simp
  qed
qed

lemma put_plain: "length b < 100 \<Longrightarrow> put c (b, []) = (b @ [c], [])"
  by simp

definition plain :: "u8 \<Rightarrow> bool" where
  "plain c \<longleftrightarrow> c \<notin> {0, 3, 13, 27, 0x7F, EOF}"

lemma edit_plain:
  "list_all plain tt \<Longrightarrow> length b + length tt \<le> 100 \<Longrightarrow> edit (tt @ 13 # rest) (b, []) = Some (Some (b @ tt), rest)"
  by (induction tt arbitrary: b) (auto simp: edit_Cons plain_def)

lemma line_print_newline:
  "printed (line_print_with_newline line s) =
     printed s @ [27, 91, 50, 75, 13] @ cstring (prompt line) @ cstring (contents line) @ [10]"
  "reads_to s0 cs (line_print_with_newline line s) = reads_to s0 cs s"
  by (simp_all add: line_print_with_newline_def stdio_print_def cstring_def takeWhile_eq_take [symmetric] reads_to_def chars_def)

lemma get_line_eq:
  assumes "edit (chars s) ([], []) = Some (r, rest)" "0 \<notin> set (chars s)" "EOF \<notin> set (sh_stdin_buffer s)"
    "length buf = 101"
  shows "\<exists>line s'. get_line (replicate 101 0) buf 101 s = Some (line, s') \<and> reads_to s rest s' \<and> length line = 101
    \<and> (case r of None \<Rightarrow> cstring line = []
       | Some tt \<Rightarrow> cstring line = tt \<and> (\<exists>pre. printed s' = pre @ [27, 91, 50, 75, 13] @ lit ''mush> '' @ tt @ [10]))"
proof -
  define line where "line = make_line (lit ''mush> '') 6 (replicate 101 0) 100"
  have "(replicate 101 (0 :: u8))[100 := 0] = replicate 100 0 @ [0]"
    by code_simp
  then have line: "line_rep line ([], [])" "prompt line = lit ''mush> ''"
    by (simp_all add: line_def make_line_def line_rep_def)
  obtain c cs where cs: "chars s = c # cs" using assms(1) by (cases "chars s") (simp_all add: edit_Nil)
  obtain s1 where s1: "get_next_char (line_print line s) = Some (c, s1)" "reads_to s cs s1"
    using get_next_char_eq [of "line_print line s" c cs] cs assms(3) by auto
  have "ends_with s1 (lit ''mush> '') r rest (get_line_loop c line s1)"
    using get_line_loop_edits [of c cs "([], [])" r rest line s1] assms(1,2) cs line s1(2) by (simp add: reads_to_def)
  then obtain l s2 where l: "get_line_loop c line s1 = Some (l, s2)" "reads_to s rest s2" "line_gives (lit ''mush> '') r l"
    using reads_to_trans [OF s1(2)] by (auto simp: ends_with_def)
  show ?thesis
  proof (cases l)
    case None
    then have "r = None" using l(3) by (auto simp: line_gives_def split: option.splits)
    moreover have "cstring (buf[0 := 0]) = []" using assms(4) by (cases buf) (simp_all add: cstring_def)
    ultimately show ?thesis using l s1(1) None assms(4) by (simp add: get_line_def line_def [symmetric])
  next
    case (Some line1)
    then obtain tt where r: "r = Some tt" "cstring (contents line1) = tt" "length (contents line1) = 101" "contents line1 ! 100 = 0" "prompt line1 = lit ''mush> ''"
      using l(3) by (auto simp: line_gives_def split: option.splits)
    then have "(contents line1)[100 := 0] = contents line1" by (metis list_update_id)
    moreover have "cstring (lit ''mush> '') = lit ''mush> ''" by (simp add: cstring_def lit_def)
    ultimately show ?thesis
      using l s1(1) Some r assms(4) by (auto simp: get_line_def line_def [symmetric] line_print_newline)
  qed
qed

section \<open>Property\<close>

text \<open>
  C27: the line editor.  On a zeroed block \<^verbatim>\<open>get_line\<close> returns as soon as Return or Ctrl+C is typed, with the text that the editor of
  the specification computes from the keys (none after Ctrl+C): insertion at the cursor up to 100 characters, backspace, the two
  arrows, and other escape sequences shown as \<open>^\<close>.  It reads no character behind the line, and the line as it stands is
  the last that is printed.
\<close>

theorem get_line_refines_editor:
  assumes "edit (chars s) ([], []) = Some (r, rest)" "0 \<notin> set (chars s)" "EOF \<notin> set (sh_stdin_buffer s)" "length buf = 101"
  shows "\<exists>line s'. get_line (replicate 101 0) buf 101 s = Some (line, s') \<and> chars s' = rest \<and> calls s' = calls s
    \<and> cstring line = (case r of None \<Rightarrow> [] | Some tt \<Rightarrow> tt) \<and> length line = 101
    \<and> (\<forall>tt. r = Some tt \<longrightarrow> (\<exists>pre. printed s' = pre @ [27, 91, 50, 75, 13] @ lit ''mush> '' @ tt @ [10]))"
  using get_line_eq [OF assms] by (cases r) (auto simp: reads_to_def)

theorem get_line_refines_editor_witness:
  "\<exists>line s'. get_line (replicate 101 0) (replicate 101 0) 101 \<lparr>typed = [97, EOF, 99, 27, 91, 68, 120, 0x7F, 98, 13], waits = [], forks = [],
      printed = [], calls = [], sh_stdin_buffer = []\<rparr> = Some (line, s') \<and> cstring line = [97, 98, 99]"
proof -
  let ?s = "\<lparr>typed = [97, EOF, 99, 27, 91, 68, 120, 0x7F, 98, 13], waits = [], forks = [], printed = [], calls = [], sh_stdin_buffer = []\<rparr>"
  have c: "chars ?s = [97, 99, 27, 91, 68, 120, 0x7F, 98, 13]" by (simp add: chars_def EOF_def)
  have "edit (chars ?s) ([], []) = Some (Some [97, 98, 99], [])" unfolding c by (simp add: edit_Cons)
  moreover have "0 \<notin> set (chars ?s)" unfolding c by simp
  ultimately show ?thesis using get_line_refines_editor [of ?s "Some [97, 98, 99]" "[]" "replicate 101 0"] by auto
qed

end
