(* ===== verification/Commands.thy ===== *)
theory Commands
  imports Editor
begin

text \<open>
  From the typed line to the program: the parser splits a line into words, a program is started by fork and
  exec with the words as arguments, and the shell waits for it without losing characters typed ahead.
\<close>

section \<open>Commands as words\<close>

text \<open>The specification of the parser: the words of a line, separated by blanks.\<close>

function words_of :: "u8 list \<Rightarrow> u8 list list" where
  "words_of cs = (let cs1 = dropWhile (\<lambda>c. c = 32) cs
     in if cs1 = [] then [] else takeWhile (\<lambda>c. c \<noteq> 32) cs1 # words_of (dropWhile (\<lambda>c. c \<noteq> 32) cs1))"
  by pat_completeness auto
termination
proof (relation "measure length", simp)
  fix cs cs1 :: "u8 list" assume *: "cs1 = dropWhile (\<lambda>c. c = 32) cs" "cs1 \<noteq> []"
  from *(2) obtain x xs where x: "cs1 = x # xs" by (cases cs1) simp_all
  have "hd cs1 \<noteq> 32" using hd_dropWhile [of "\<lambda>c. c = 32" cs] * by simp
  then have "dropWhile (\<lambda>c. c \<noteq> 32) cs1 = dropWhile (\<lambda>c. c \<noteq> 32) xs" using x by simp
  moreover have "length cs1 \<le> length cs" using *(1) by (simp add: length_dropWhile_le)
  ultimately show "(dropWhile (\<lambda>c. c \<noteq> 32) cs1, cs) \<in> measure length"
    using length_dropWhile_le [of "\<lambda>c. c \<noteq> 32" xs] x by simp
qed

declare words_of.simps [simp del]

lemma words_of_blank: "words_of (32 # cs) = words_of cs"
  by (simp add: words_of.simps [of "32 # cs"] words_of.simps [of cs])

text \<open>What the words after the name mean: at most ten arguments, up to the first \<open>&\<close> or \<open>!\<close>.\<close>

fun take_args :: "nat \<Rightarrow> u8 list list \<Rightarrow> shell_command_t \<Rightarrow> shell_command_t" where
  "take_args 0 ws cmd = cmd"
| "take_args (Suc n) [] cmd = cmd"
| "take_args (Suc n) (w # ws) cmd =
     (if w = lit ''&'' then cmd\<lparr>background := True\<rparr>
      else if w = lit ''!'' then cmd\<lparr>priority := 0\<rparr>
      else take_args n ws (cmd\<lparr>argv := argv cmd @ [w], argc := Suc (argc cmd)\<rparr>))"

definition meaning :: "u8 list \<Rightarrow> shell_command_t" where
  "meaning cs = take_args 10 (tl (words_of cs))
     \<lparr>name = (case words_of cs of [] \<Rightarrow> [] | w # ws \<Rightarrow> w), argc = 0, priority = 1, background = False, argv = []\<rparr>"

text \<open>A command up to what stands behind the NULs of its strings.\<close>

definition same_command :: "shell_command_t \<Rightarrow> shell_command_t \<Rightarrow> bool" where
  "same_command x y \<longleftrightarrow> cstring (name x) = name y \<and> argc x = argc y \<and> priority x = priority y
     \<and> background x = background y \<and> map cstring (argv x) = argv y"

lemma next_token_words:
  assumes "stdstring_next_token str (lit '' '') = (t, str1)"
  shows "cstring (drop (token_start t) str1) = (case words_of (cstring str) of [] \<Rightarrow> [] | w # ws \<Rightarrow> w)"
    "(case after_token t of None \<Rightarrow> tl (words_of (cstring str)) = []
      | Some p \<Rightarrow> words_of (cstring (drop p str1)) = tl (words_of (cstring str)))"
proof -
  define cs1 where "cs1 = dropWhile (\<lambda>c. c = 32) (cstring str)"
  have w: "words_of (cstring str) = (if cs1 = [] then [] else takeWhile (\<lambda>c. c \<noteq> 32) cs1 # words_of (dropWhile (\<lambda>c. c \<noteq> 32) cs1))"
    unfolding cs1_def by (subst words_of.simps) (simp only: Let_def)
  have D: "(\<lambda>c. c \<in> set (cstring (lit '' ''))) = (\<lambda>c. c = 32)" "(\<lambda>c. c \<notin> set (cstring (lit '' ''))) = (\<lambda>c. c \<noteq> 32)"
    by (simp_all add: lit_def cstring_def)
  note tok = next_token_eq [OF assms, unfolded D, folded cs1_def]
  show "cstring (drop (token_start t) str1) = (case words_of (cstring str) of [] \<Rightarrow> [] | w # ws \<Rightarrow> w)"
    using tok unfolding w by (cases "cs1 = []") simp_all
  show "(case after_token t of None \<Rightarrow> tl (words_of (cstring str)) = []
      | Some p \<Rightarrow> words_of (cstring (drop p str1)) = tl (words_of (cstring str)))"
  proof (cases "after_token t")
    case None
    then have "dropWhile (\<lambda>c. c \<noteq> 32) cs1 = []" using tok by simp
    moreover have "words_of [] = []" by (subst words_of.simps) simp
    ultimately have "words_of (dropWhile (\<lambda>c. c \<noteq> 32) cs1) = []" by (simp only:)
    then show ?thesis using None unfolding w by simp
  next
    case (Some p)
    then have d: "dropWhile (\<lambda>c. c \<noteq> 32) cs1 = cstring str ! (p - 1) # cstring (drop p str1)" using tok by simp
    then have "cstring str ! (p - 1) = 32" using hd_dropWhile [of "\<lambda>c. c \<noteq> 32" cs1] by simp
    moreover have "cs1 \<noteq> []" using d by auto
    ultimately show ?thesis using Some d unfolding w by (simp add: words_of_blank)
  qed
qed

lemma words_of_nonempty: "[] \<notin> set (words_of cs)"
proof (induction cs rule: words_of.induct)
  case (1 cs)
  let ?cs1 = "dropWhile (\<lambda>c. c = 32) cs"
  have "takeWhile (\<lambda>c. c \<noteq> 32) ?cs1 \<noteq> []" if "?cs1 \<noteq> []"
    using hd_dropWhile [of "\<lambda>c. c = 32" cs] that by (cases ?cs1) auto
  then show ?case using 1 [OF refl] unfolding words_of.simps [of cs] Let_def by (cases "?cs1 = []") auto
qed

lemma cstring_take: "cstring (take (length (cstring str) + 1) str) = cstring str"
proof (induction str)
  case (Cons c str)
  then show ?case by (cases "c = 0") (simp_all add: cstring_def)
qed (simp add: cstring_def)

text \<open>One argument of the loop.\<close>

definition add_arg :: "cstr \<Rightarrow> shell_command_t \<Rightarrow> shell_command_t" where
  "add_arg token cmd = cmd\<lparr>argv := argv cmd @ [token], argc := argc cmd + 1\<rparr>"

lemma parse_loop_None: "parse_loop None cmd = cmd"
  by (subst parse_loop.simps) simp

lemma parse_loop_full: "\<not> argc cmd < 10 \<Longrightarrow> parse_loop rest cmd = cmd"
  by (subst parse_loop.simps) (simp split: option.split)

lemma parse_loop_step:
  assumes "stdstring_next_token str (lit '' '') = (t, str1)" "argc cmd < 10"
  shows "parse_loop (Some str) cmd =
    (let token = drop (token_start t) str1; rest = map_option (\<lambda>p. drop p str1) (after_token t)
     in if cstring token = lit ''&'' then cmd\<lparr>background := True\<rparr>
        else if cstring token = lit ''!'' then cmd\<lparr>priority := 0\<rparr>
        else if cstring token = [] then parse_loop rest cmd
        else parse_loop rest (add_arg (take (length (cstring token) + 1) token) cmd))"
proof -
  have "cstring (lit ''&'') = lit ''&''" "cstring (lit ''!'') = lit ''!''" by (simp_all add: cstring_def lit_def)
  then show ?thesis by (subst parse_loop.simps) (simp add: assms Let_def add_arg_def)
qed

lemma parse_loop_eq:
  "argc cmd \<le> 10 \<Longrightarrow> same_command cmd cmd' \<Longrightarrow>
   same_command (parse_loop rest cmd)
     (take_args (10 - argc cmd) (case rest of None \<Rightarrow> [] | Some str \<Rightarrow> words_of (cstring str)) cmd')"
proof (induction "case rest of None \<Rightarrow> 0 | Some str \<Rightarrow> Suc (length str)" arbitrary: rest cmd cmd' rule: less_induct)
  case less
  show ?case
  proof (cases rest)
    case None
    then show ?thesis using less.prems by (cases "10 - argc cmd") (simp_all add: parse_loop_None)
  next
    case (Some str)
    define ws where "ws = words_of (cstring str)"
    obtain t str1 where t: "stdstring_next_token str (lit '' '') = (t, str1)" by force
    define token where "token = drop (token_start t) str1"
    define rest' where "rest' = map_option (\<lambda>p. drop p str1) (after_token t)"
    have tok: "cstring token = (case ws of [] \<Rightarrow> [] | w # ws' \<Rightarrow> w)"
      using next_token_words(1) [OF t] by (simp add: token_def ws_def)
    have rest': "(case rest' of None \<Rightarrow> [] | Some s \<Rightarrow> words_of (cstring s)) = tl ws"
      using next_token_words(2) [OF t] by (cases "after_token t") (simp_all add: rest'_def ws_def)
    have "(case rest' of None \<Rightarrow> 0 | Some s \<Rightarrow> Suc (length s)) < (case rest of None \<Rightarrow> 0 | Some s \<Rightarrow> Suc (length s))"
      using next_token_shorter [OF t] Some by (cases "after_token t") (auto simp: rest'_def)
    note ih = less.hyps [OF this, unfolded rest']
    show ?thesis
    proof (cases "argc cmd < 10")
      case False
      then show ?thesis using less.prems by (simp add: parse_loop_full)
    next
      case True
      then obtain n where n: "10 - argc cmd = Suc n" by (cases "10 - argc cmd") simp_all
      note step = parse_loop_step [OF t True, folded token_def rest'_def]
      have lits: "lit ''&'' \<noteq> []" "lit ''!'' \<noteq> []" "lit ''&'' \<noteq> lit ''!''" by (simp_all add: lit_def)
      show ?thesis
      proof (cases ws)
        case Nil
        then have "parse_loop rest cmd = parse_loop rest' cmd" using tok lits step Some by (simp add: Let_def)
        then show ?thesis using ih [OF less.prems] Nil Some n ws_def by simp
      next
        case (Cons w ws')
        then have w: "cstring token = w" "w \<noteq> []" using tok words_of_nonempty [of "cstring str"] by (auto simp: ws_def)
        let ?cmd1 = "add_arg (take (length w + 1) token) cmd"
        have c1: "argc ?cmd1 \<le> 10" "same_command ?cmd1 (cmd'\<lparr>argv := argv cmd' @ [w], argc := Suc (argc cmd')\<rparr>)"
          "10 - argc ?cmd1 = n"
          using less.prems True n cstring_take [of token] w by (auto simp: same_command_def add_arg_def)
        have ws: "(case rest of None \<Rightarrow> [] | Some s \<Rightarrow> words_of (cstring s)) = w # ws'" using Some Cons by (simp add: ws_def)
        have p: "parse_loop rest cmd = (if w = lit ''&'' then cmd\<lparr>background := True\<rparr>
            else if w = lit ''!'' then cmd\<lparr>priority := 0\<rparr> else parse_loop rest' ?cmd1)"
          using step w Some by (simp only: Let_def if_False)
        have marks: "same_command (cmd\<lparr>background := True\<rparr>) (cmd'\<lparr>background := True\<rparr>)"
          "same_command (cmd\<lparr>priority := 0\<rparr>) (cmd'\<lparr>priority := 0\<rparr>)"
          using less.prems(2) by (simp_all add: same_command_def)
        show ?thesis
          using ih [OF c1(1,2), unfolded c1(3)] marks Cons unfolding ws p n
          by (cases "w = lit ''&''"; cases "w = lit ''!''") simp_all
      qed
    qed
  qed
qed

lemma parse_shell_command_eq: "same_command (parse_shell_command line) (meaning (cstring line))"
proof -
  obtain t line1 where t: "stdstring_next_token line (lit '' '') = (t, line1)" by force
  define token where "token = drop (token_start t) line1"
  let ?c0 = "\<lambda>x. \<lparr>name = x, argc = 0, priority = 1, background = False, argv = []\<rparr>"
  have "same_command (?c0 (take (length (cstring token) + 1) token)) (?c0 (cstring token))"
    using cstring_take [of token] by (simp add: same_command_def)
  from parse_loop_eq [OF _ this, of "map_option (\<lambda>p. drop p line1) (after_token t)"]
  show ?thesis
    using t next_token_words [OF t] unfolding parse_shell_command_def meaning_def
    by (cases "after_token t") (simp_all add: token_def Let_def)
qed

section \<open>Waiting for a program\<close>

lemma handle_input_loop_eq:
  "\<exists>k t q. handle_input_loop p cs s = s\<lparr>typed := t, sh_stdin_buffer := sh_stdin_buffer s @ q, calls := calls s @ replicate k (Kill p 9)\<rparr>
     \<and> q @ filter (\<lambda>c. c \<noteq> EOF) t = filter (\<lambda>c. c \<noteq> EOF) cs \<and> EOF \<notin> set q \<and> k = length (filter (\<lambda>c. c = 3) q)"
proof (induction p cs s rule: handle_input_loop.induct)
  case (1 p s)
  show ?case by (intro exI [of _ 0] exI [of _ "[]"]) (cases s, simp)
next
  case (2 p c cs s)
  show ?case
  proof (cases "c = EOF")
    case True
    moreover have "(3 :: u8) \<noteq> EOF" by (simp add: EOF_def)
    ultimately show ?thesis by (intro exI [of _ 0] exI [of _ cs] exI [of _ "[]"]) (cases s, simp)
  next
    case False
    let ?s1 = "if c = 3 then s\<lparr>calls := calls s @ [Kill p 9]\<rparr> else s"
    let ?s2 = "?s1\<lparr>sh_stdin_buffer := sh_stdin_buffer ?s1 @ [c]\<rparr>"
    obtain k t q where r: "handle_input_loop p cs ?s2 = ?s2\<lparr>typed := t, sh_stdin_buffer := sh_stdin_buffer ?s2 @ q,
          calls := calls ?s2 @ replicate k (Kill p 9)\<rparr>"
        "q @ filter (\<lambda>c. c \<noteq> EOF) t = filter (\<lambda>c. c \<noteq> EOF) cs" "EOF \<notin> set q" "k = length (filter (\<lambda>c. c = 3) q)"
      using 2 [of ?s1 ?s2] False by auto
    show ?thesis
      using r False
      by (intro exI [of _ "if c = 3 then Suc k else k"] exI [of _ t] exI [of _ "c # q"]) (simp add: Let_def)
  qed
qed

text \<open>What a call of the wait loop may add: only waits, yields and kills of the child.\<close>

definition waiting_calls :: "pid_t \<Rightarrow> nat \<Rightarrow> ucall list \<Rightarrow> bool" where
  "waiting_calls p n cs \<longleftrightarrow> set cs \<subseteq> {Waitpid 1 p 1, Yield, Kill p 9} \<and> length (filter (\<lambda>c. c = Yield) cs) = n"

lemma handle_input_eq:
  obtains k where "chars (handle_input p s) = chars s" "calls (handle_input p s) = calls s @ replicate k (Kill p 9)"
    "forks (handle_input p s) = forks s" "EOF \<notin> set (sh_stdin_buffer s) \<Longrightarrow> EOF \<notin> set (sh_stdin_buffer (handle_input p s))"
  using handle_input_loop_eq [of p "typed s" s] unfolding handle_input_def chars_def by auto

lemma wait_loop_eq:
  assumes "r \<noteq> 0" "EOF \<notin> set (sh_stdin_buffer s)"
  shows "\<exists>s' cs. wait_loop p (replicate n 0 @ r # ws) s = Some s' \<and> chars s' = chars s \<and> waits s' = ws \<and> forks s' = forks s
    \<and> EOF \<notin> set (sh_stdin_buffer s') \<and> calls s' = calls s @ cs @ [Waitpid 1 p 1] \<and> waiting_calls p n cs"
  using assms(2)
proof (induction n arbitrary: s)
  case 0
  then show ?case using assms(1) by (auto simp: chars_def waiting_calls_def)
next
  case (Suc n)
  define s1 where "s1 = s\<lparr>waits := replicate n 0 @ r # ws, calls := calls s @ [Waitpid 1 p 1]\<rparr>"
  obtain k where h: "chars (handle_input p s1) = chars s1" "calls (handle_input p s1) = calls s1 @ replicate k (Kill p 9)"
      "forks (handle_input p s1) = forks s1" "EOF \<notin> set (sh_stdin_buffer (handle_input p s1))"
    using handle_input_eq [of p s1] Suc.prems by (metis (no_types, lifting) console.select_convs(6) console.surjective console.update_convs(2,5) s1_def)
  define s2 where "s2 = (handle_input p s1)\<lparr>calls := calls (handle_input p s1) @ [Yield]\<rparr>"
  obtain s' cs where ih: "wait_loop p (replicate n 0 @ r # ws) s2 = Some s'" "chars s' = chars s2" "waits s' = ws" "forks s' = forks s2"
      "EOF \<notin> set (sh_stdin_buffer s')" "calls s' = calls s2 @ cs @ [Waitpid 1 p 1]" "waiting_calls p n cs"
    using Suc.IH [of s2] h(4) by (auto simp: s2_def)
  have "wait_loop p (replicate (Suc n) 0 @ r # ws) s = Some s'"
    using ih(1) by (simp add: s2_def s1_def Let_def)
  moreover have "chars s' = chars s" "forks s' = forks s"
    using ih(2,4) h(1,3) by (simp_all add: s2_def s1_def chars_def)
  moreover have "calls s' = calls s @ ([Waitpid 1 p 1] @ replicate k (Kill p 9) @ [Yield] @ cs) @ [Waitpid 1 p 1]"
    using ih(6) h(2) by (simp add: s2_def s1_def)
  moreover have "waiting_calls p (Suc n) ([Waitpid 1 p 1] @ replicate k (Kill p 9) @ [Yield] @ cs)"
    using ih(7) by (auto simp: waiting_calls_def)
  ultimately show ?case using ih(3,5) by blast
qed

section \<open>From the typed line to the program\<close>

definition mark :: "u8 list \<Rightarrow> bool" where
  "mark w \<longleftrightarrow> w = lit ''&'' \<or> w = lit ''!''"

lemma take_args_eq:
  fixes ws
  defines "as \<equiv> takeWhile (\<lambda>w. \<not> mark w) ws"
  shows "take_args n ws cmd = cmd\<lparr>argv := argv cmd @ take n as, argc := argc cmd + length (take n as),
     background := background cmd \<or> (length as < n \<and> length as < length ws \<and> ws ! length as = lit ''&''),
     priority := if length as < n \<and> length as < length ws \<and> ws ! length as = lit ''!'' then 0 else priority cmd\<rparr>"
  unfolding as_def
proof (induction n ws cmd rule: take_args.induct)
  case (3 n w ws cmd)
  have "lit ''&'' \<noteq> lit ''!''" by (simp add: lit_def)
  then show ?case using 3 by (auto simp: mark_def)
qed simp_all

lemma cstring_idem [simp]: "cstring (cstring str) = cstring str"
  by (rule cstring_id [OF zero_notin_cstring])

lemma choose_process_cstring: "choose_process (cstring str) = choose_process str"
  by (simp add: choose_process_def)

text \<open>
  C28: the parser.  The name of a command is the first word of the line, or empty; its arguments are the next words up to
  the first \<open>&\<close> or \<open>!\<close>, at most ten; \<open>&\<close> runs it in the background and \<open>!\<close> with priority 0, unless ten arguments stand in front of the mark,
  which is then ignored.
\<close>

theorem parse_shell_command_words:
  "let cmd = parse_shell_command line; ws = words_of (cstring line);
       as = takeWhile (\<lambda>w. w \<noteq> lit ''&'' \<and> w \<noteq> lit ''!'') (tl ws)
   in cstring (name cmd) = concat (take 1 ws) \<and> map cstring (argv cmd) = take 10 as \<and> argc cmd = length (argv cmd)
    \<and> (background cmd \<longleftrightarrow> length as < 10 \<and> take 1 (drop (length as) (tl ws)) = [lit ''&''])
    \<and> priority cmd = (if length as < 10 \<and> take 1 (drop (length as) (tl ws)) = [lit ''!''] then 0 else 1)"
proof -
  define cmd where "cmd = parse_shell_command line"
  define ws where "ws = words_of (cstring line)"
  define as where "as = takeWhile (\<lambda>w. w \<noteq> lit ''&'' \<and> w \<noteq> lit ''!'') (tl ws)"
  have as: "takeWhile (\<lambda>w. \<not> mark w) (tl ws) = as" by (simp add: as_def mark_def)
  have nth: "take 1 (drop k xs) = [x] \<longleftrightarrow> k < length xs \<and> xs ! k = x" for k x and xs :: "u8 list list"
    by (cases "k < length xs") (simp_all add: take_Suc_conv_app_nth Cons_nth_drop_Suc [symmetric])
  have "same_command cmd (meaning (cstring line))" unfolding cmd_def by (rule parse_shell_command_eq)
  then have *: "cstring (name cmd) = name (meaning (cstring line))" "argc cmd = argc (meaning (cstring line))"
      "priority cmd = priority (meaning (cstring line))" "background cmd = background (meaning (cstring line))"
      "map cstring (argv cmd) = argv (meaning (cstring line))"
    by (simp_all add: same_command_def)
  have "length (argv cmd) = length (map cstring (argv cmd))" by simp
  then show ?thesis
    unfolding Let_def cmd_def [symmetric] ws_def [symmetric] as_def [symmetric] * nth meaning_def take_args_eq as
    by (cases ws) simp_all
qed

text \<open>A typed line of plain characters arrives in the buffer of the shell.\<close>

definition at_prompt :: "u8 list \<Rightarrow> u8 list \<Rightarrow> console \<Rightarrow> bool" where
  "at_prompt tt rest s \<longleftrightarrow> chars s = tt @ 13 # rest \<and> list_all plain tt \<and> length tt \<le> 100 \<and> 0 \<notin> set rest
     \<and> EOF \<notin> set (sh_stdin_buffer s)"

lemma typed_line:
  assumes "at_prompt tt rest s" "length buf = 101"
  obtains line s' where "get_line (replicate 101 0) buf 101 s = Some (line, s')" "reads_to s rest s'" "cstring line = tt"
    "\<exists>pre. printed s' = pre @ lit ''mush> '' @ tt @ [10]"
proof -
  have "edit (chars s) ([], []) = Some (Some tt, rest)" "0 \<notin> set (chars s)" "EOF \<notin> set (sh_stdin_buffer s)"
    using assms(1) edit_plain [of tt "[]" rest] by (auto simp: at_prompt_def list_all_iff plain_def)
  then obtain line s' pre where l: "get_line (replicate 101 0) buf 101 s = Some (line, s')" "reads_to s rest s'" "cstring line = tt"
      "printed s' = pre @ [27, 91, 50, 75, 13] @ lit ''mush> '' @ tt @ [10]"
    using get_line_eq [OF _ _ _ assms(2), of s "Some tt" rest] by auto
  have "\<exists>pre. printed s' = pre @ lit ''mush> '' @ tt @ [10]"
    using l(4) by (intro exI [of _ "pre @ [27, 91, 50, 75, 13]"]) simp
  then show ?thesis by (rule that [OF l(1-3)])
qed

lemma unknown_command:
  assumes "get_line block buf 101 s = Some (line, s1)" "choose_process (concat (take 1 (words_of (cstring line)))) = None"
  shows "mush_round block buf s = Some (Inr (line, s1\<lparr>printed := printed s1 @ lit (''Command not recognised.'' @ [CHR 0x0A])\<rparr>))"
proof -
  have "cstring (name (parse_shell_command line)) = concat (take 1 (words_of (cstring line)))"
    using parse_shell_command_eq [of line] by (cases "words_of (cstring line)") (simp_all add: same_command_def meaning_def take_args_eq)
  then have "choose_process (name (parse_shell_command line)) = None"
    using assms(2) choose_process_cstring [of "name (parse_shell_command line)"] by simp
  then show ?thesis using assms(1) by (simp add: mush_round_def stdio_print_def cstring_def lit_def)
qed

text \<open>The command of a line without marks.\<close>

lemma parse_plain:
  assumes "words_of (cstring line) = w # ws" "list_all (\<lambda>x. \<not> mark x) ws" "length ws \<le> 10"
  shows "same_command (parse_shell_command line) \<lparr>name = w, argc = length ws, priority = 1, background = False, argv = ws\<rparr>"
proof -
  have tw: "takeWhile (\<lambda>w. \<not> mark w) ws = ws" using assms(2) by (simp add: list_all_iff)
  have "meaning (cstring line) = \<lparr>name = w, argc = length ws, priority = 1, background = False, argv = ws\<rparr>"
    using assms(1,3) by (simp add: meaning_def take_args_eq tw)
  then show ?thesis using parse_shell_command_eq [of line] by simp
qed

text \<open>
  C4: a command typed at the prompt is run.  When a line of plain characters is typed that names a program and has at most ten arguments
  and no mark, the child that \<^verbatim>\<open>fork\<close> makes executes that program with these words as
  arguments.  The shell itself sets the priority of the child, asks for its exit until it has happened, yielding the
  processor in between, and makes no other calls but kills of the child; afterwards every character typed behind the line
  is still to be read.
\<close>

theorem shell_runs_typed_command:
  assumes "at_prompt tt rest s" "length buf = 101" "words_of tt = w # ws" "choose_process w = Some f"
    "list_all (\<lambda>x. x \<notin> {lit ''&'', lit ''!''}) ws" "length ws \<le> 10"
  shows "(forks s = 0 # fs \<longrightarrow>
       (\<exists>args. mush_round (replicate 101 0) buf s = Some (Inl (Exec f (length ws) args)) \<and> map cstring args = ws))
   \<and> (forks s = p # fs \<longrightarrow> p \<noteq> 0 \<longrightarrow> waits s = replicate n 0 @ r # rs \<longrightarrow> r \<noteq> 0 \<longrightarrow>
       (\<exists>line s' cs. mush_round (replicate 101 0) buf s = Some (Inr (line, s'))
          \<and> calls s' = calls s @ [Fork, Setpriority p 1 1] @ cs @ [Waitpid 1 p 1]
          \<and> set cs \<subseteq> {Waitpid 1 p 1, Yield, Kill p 9} \<and> chars s' = rest \<and> waits s' = rs))"
proof -
  obtain line s1 where l: "get_line (replicate 101 0) buf 101 s = Some (line, s1)" "reads_to s rest s1" "cstring line = tt"
    using typed_line [OF assms(1,2)] .
  define cmd where "cmd = parse_shell_command line"
  have cmd: "cstring (name cmd) = w" "map cstring (argv cmd) = ws" "argc cmd = length ws" "\<not> background cmd" "priority cmd = 1"
    unfolding cmd_def using parse_plain [of line w ws] assms(3,5,6) l(3) by (auto simp: mark_def same_command_def)
  have f: "choose_process (name cmd) = Some f" using assms(4) cmd(1) choose_process_cstring [of "name cmd"] by simp
  have round: "mush_round (replicate 101 0) buf s = do { r \<leftarrow> launch_process f (length ws) (argv cmd) 1 s1; Some (map_sum id (Pair line) r) }"
    using l(1) f cmd(3-5) by (simp add: mush_round_def Let_def cmd_def [symmetric])
  have s1: "forks s1 = forks s" "waits s1 = waits s" "calls s1 = calls s" "chars s1 = rest" "EOF \<notin> set (sh_stdin_buffer s1)"
    using l(2) by (simp_all add: reads_to_def)
  have child: ?thesis if "forks s = 0 # fs"
    using that round cmd(2) s1 by (auto simp: launch_process_def user_fork_result_def)
  have "\<exists>line s' cs. mush_round (replicate 101 0) buf s = Some (Inr (line, s'))
          \<and> calls s' = calls s @ [Fork, Setpriority p 1 1] @ cs @ [Waitpid 1 p 1]
          \<and> set cs \<subseteq> {Waitpid 1 p 1, Yield, Kill p 9} \<and> chars s' = rest \<and> waits s' = rs"
    if h: "forks s = p # fs" "p \<noteq> 0" "waits s = replicate n 0 @ r # rs" "r \<noteq> 0"
  proof -
    define s2 where "s2 = s1\<lparr>forks := fs, calls := (calls s1 @ [Fork]) @ [Setpriority p 1 1]\<rparr>"
    have "EOF \<notin> set (sh_stdin_buffer s2)" "chars s2 = rest" using s1 by (simp_all add: s2_def chars_def)
    then obtain s' cs where s': "wait_loop p (replicate n 0 @ r # rs) s2 = Some s'" "chars s' = rest" "waits s' = rs"
        "calls s' = calls s2 @ cs @ [Waitpid 1 p 1]" "waiting_calls p n cs"
      using wait_loop_eq [OF h(4), of s2 p n rs] by auto
    have "mush_round (replicate 101 0) buf s = Some (Inr (line, s'))"
      using round s'(1) h s1(1,2) by (simp add: launch_process_def user_fork_result_def s2_def)
    then show ?thesis using s' s1(3) by (auto simp: s2_def waiting_calls_def)
  qed
  then show ?thesis using child by blast
qed

text \<open>
  A line that names no program (an empty one, too) makes no process call: the shell prints its message behind the
  line and goes on with the characters behind it.
\<close>

lemma shell_rejects_unknown_command:
  assumes "at_prompt tt rest s" "length buf = 101" "choose_process (concat (take 1 (words_of tt))) = None"
  shows "\<exists>line s' pre. mush_round (replicate 101 0) buf s = Some (Inr (line, s')) \<and> calls s' = calls s \<and> chars s' = rest
    \<and> printed s' = pre @ lit ''mush> '' @ tt @ [10] @ lit (''Command not recognised.'' @ [CHR 0x0A])"
proof -
  obtain line s1 pre where l: "get_line (replicate 101 0) buf 101 s = Some (line, s1)" "reads_to s rest s1" "cstring line = tt"
      "printed s1 = pre @ lit ''mush> '' @ tt @ [10]"
    using typed_line [OF assms(1,2)] by blast
  have "mush_round (replicate 101 0) buf s = Some (Inr (line, s1\<lparr>printed := printed s1 @ lit (''Command not recognised.'' @ [CHR 0x0A])\<rparr>))"
    using unknown_command [OF l(1)] l(3) assms(3) by simp
  then show ?thesis using l(2,4) by (simp add: reads_to_def chars_def)
qed

text \<open>
  Ctrl+C while a program runs kills it, but the character is also kept as typed ahead: the next prompt takes it as
  a cancelled line, and the shell complains about an unknown command that nobody has typed.
\<close>

lemma ctrl_c_kills_child:
  assumes "typed s = 3 # EOF # ts" "sh_stdin_buffer s = []" "forks s = p # fs" "p \<noteq> 0" "waits s = 0 # r # rs" "r \<noteq> 0"
    "0 \<notin> set ts" "length buf = 101"
  shows "\<exists>s1 line s2. launch_process f n args prio s = Some (Inr s1)
    \<and> calls s1 = calls s @ [Fork, Setpriority p 1 prio, Waitpid 1 p 1, Kill p 9, Yield, Waitpid 1 p 1]
    \<and> mush_round (replicate 101 0) buf s1 = Some (Inr (line, s2)) \<and> calls s2 = calls s1
    \<and> (\<exists>pre. printed s2 = pre @ lit (''Command not recognised.'' @ [CHR 0x0A])) \<and> chars s2 = filter (\<lambda>c. c \<noteq> EOF) ts"
proof -
  let ?ts = "filter (\<lambda>c. c \<noteq> EOF) ts"
  have eof: "(3 :: u8) \<noteq> EOF" "EOF \<noteq> (3 :: u8)" by (simp_all add: EOF_def)
  define s1 where "s1 = s\<lparr>typed := ts, waits := rs, forks := fs, sh_stdin_buffer := [3],
    calls := calls s @ [Fork, Setpriority p 1 prio, Waitpid 1 p 1, Kill p 9, Yield, Waitpid 1 p 1]\<rparr>"
  have launch: "launch_process f n args prio s = Some (Inr s1)"
    using assms(1-6) eof by (simp add: launch_process_def user_fork_result_def handle_input_def s1_def)
  have c: "chars s1 = 3 # ?ts" "EOF \<notin> set (sh_stdin_buffer s1)" using eof by (simp_all add: s1_def chars_def)
  have "edit (chars s1) ([], []) = Some (None, ?ts)" "0 \<notin> set (chars s1)" using c(1) assms(7) by (simp_all add: edit_Cons)
  then obtain line s2 where l: "get_line (replicate 101 0) buf 101 s1 = Some (line, s2)" "reads_to s1 ?ts s2" "cstring line = []"
    using get_line_eq [OF _ _ c(2) assms(8), of None ?ts] by auto
  have "choose_process (concat (take 1 (words_of (cstring line)))) = None"
    using l(3) by (simp add: words_of.simps [of "[]"] choose_process_def cstring_def lit_def)
  note round = unknown_command [OF l(1) this]
  have "calls s1 = calls s @ [Fork, Setpriority p 1 prio, Waitpid 1 p 1, Kill p 9, Yield, Waitpid 1 p 1]" by (simp add: s1_def)
  then show ?thesis using launch round l(2) by (auto simp: reads_to_def chars_def)
qed

definition demo_console :: "u8 list \<Rightarrow> console" where
  "demo_console keys = \<lparr>typed = keys, waits = [0, 0, 2], forks = [2], printed = [], calls = [], sh_stdin_buffer = []\<rparr>"

lemma demo_prompt: "at_prompt (lit ''cat A.TXT'') [] (demo_console (lit ''cat'' @ [EOF] @ lit '' A.TXT'' @ [13]))"
  by (simp add: at_prompt_def demo_console_def chars_def lit_def plain_def EOF_def)

lemma demo_words: "words_of (lit ''cat A.TXT'') = [lit ''cat'', lit ''A.TXT'']" "words_of (lit ''foo'') = [lit ''foo'']"
  by (simp_all add: lit_def words_of.simps Let_def)

lemma demo_choose: "choose_process (lit ''cat'') = Some entry_cat" "choose_process (lit ''foo'') = None"
  by (simp_all add: choose_process_def lit_def cstring_def)

theorem shell_runs_typed_command_witness:
  "\<exists>line s' cs. mush_round (replicate 101 0) (replicate 101 0) (demo_console (lit ''cat'' @ [EOF] @ lit '' A.TXT'' @ [13])) = Some (Inr (line, s'))
     \<and> calls s' = [Fork, Setpriority 2 1 1] @ cs @ [Waitpid 1 2 1]"
  using shell_runs_typed_command [OF demo_prompt _ demo_words(1) demo_choose(1), of "replicate 101 0" "[]" 2 2 2 "[]"]
  by (simp add: lit_def) (auto simp: demo_console_def numeral_2_eq_2)

lemma shell_rejects_unknown_command_witness:
  "\<exists>line s' pre. mush_round (replicate 101 0) (replicate 101 0) (demo_console (lit ''foo'' @ [13])) = Some (Inr (line, s'))
     \<and> printed s' = pre @ lit (''Command not recognised.'' @ [CHR 0x0A])"
proof -
  have "at_prompt (lit ''foo'') [] (demo_console (lit ''foo'' @ [13]))"
    by (simp add: at_prompt_def demo_console_def chars_def lit_def plain_def EOF_def)
  moreover have "choose_process (concat (take 1 (words_of (lit ''foo'')))) = None" using demo_words(2) demo_choose(2) by simp
  ultimately obtain line s' pre where "mush_round (replicate 101 0) (replicate 101 0) (demo_console (lit ''foo'' @ [13])) = Some (Inr (line, s'))"
      "printed s' = pre @ lit ''mush> '' @ lit ''foo'' @ [10] @ lit (''Command not recognised.'' @ [CHR 0x0A])"
    using shell_rejects_unknown_command [of "lit ''foo''" "[]" _ "replicate 101 0"] by (meson length_replicate)
  then show ?thesis by (metis append.assoc)
qed

lemma ctrl_c_kills_child_witness:
  "\<exists>s1. launch_process entry_P0 0 [] 1 ((demo_console [3, EOF])\<lparr>waits := [0, 2]\<rparr>) = Some (Inr s1)
     \<and> Kill 2 9 \<in> set (calls s1)"
  using ctrl_c_kills_child [of "(demo_console [3, EOF])\<lparr>waits := [0, 2]\<rparr>" "[]" 2 "[]" 2 "[]" "replicate 101 0" entry_P0 0 "[]" 1]
  by (auto simp: demo_console_def)

end
