(* ===== verification/Programs.thy ===== *)
theory Programs
  imports Descriptors
begin

text \<open>
  The programs of \<^verbatim>\<open>os/src/user\<close> that work on files: \<^verbatim>\<open>cat\<close>, \<^verbatim>\<open>write\<close>, \<^verbatim>\<open>append\<close>, \<^verbatim>\<open>rm\<close>, \<^verbatim>\<open>touch\<close>, \<^verbatim>\<open>mkdir\<close>, \<^verbatim>\<open>cd\<close>,
  \<^verbatim>\<open>pwd\<close>, \<^verbatim>\<open>ls\<close> and \<^verbatim>\<open>writemany\<close>.  They call the functions behind the stubs (\<open>Syscalls\<close> shows that the stubs reach them).
  The property follows a text from the command line of \<^verbatim>\<open>write\<close> through the file to the output of \<^verbatim>\<open>cat\<close>.
\<close>

section \<open>Programs\<close>

text \<open>
  A program runs on the state of the file system to its exit code; \<open>argv\<close> are the addresses of its arguments, \<open>um\<close> the strings
  in memory.  What a block from the heap holds before it is written is the argument \<open>blk\<close>.  An exit ends the program.
\<close>

definition print_out :: "cstr \<Rightarrow> files \<Rightarrow> files" where
  "print_out str s = s\<lparr>uart_out := uart_out s @ take (stdstring_length str) str\<rparr>"

abbreviation newline :: cstr where
  "newline \<equiv> [10]"

definition invalid_arguments :: "files \<Rightarrow> (i32 \<times> files) option" where
  "invalid_arguments s = Some (- 1, print_out (lit ''Invalid arguments.'' @ newline) s)"

definition program_cat :: "strings \<Rightarrow> u8 list \<Rightarrow> u32 list \<Rightarrow> files \<Rightarrow> (i32 \<times> files) option" where
  "program_cat um blk argv s =
     (if length argv = 1 then do {
        (d, s1) \<leftarrow> sys_open um (argv ! 0) 0 s;
        let s2 = snd (sys_lseek d 0 1 s1);
        (case snd (sys_fstat d s2) of
           None \<Rightarrow> Some (- 1, print_out (lit ''File not found.'' @ newline) s2)
         | Some file_entry \<Rightarrow>
             if is_dir file_entry then Some (- 1, print_out (lit ''Cannot cat a directory.'' @ newline) s2)
             else do {
               (bytes_read, bs, s3) \<leftarrow> sys_read d (file_size_bytes file_entry) s2;
               let buf = (bs @ drop (length bs) blk)[unat bytes_read := 0];
               Some (0, print_out newline (print_out buf s3)) }) }
      else invalid_arguments s)"

text \<open>The loop of \<^verbatim>\<open>write\<close> and \<^verbatim>\<open>append\<close>: each word and a blank.\<close>

fun write_words :: "strings \<Rightarrow> filedesc_t \<Rightarrow> u32 list \<Rightarrow> files \<Rightarrow> (i32 \<times> files) option" where
  "write_words um d [] s = Some (0, s)"
| "write_words um d (w # ws) s = do {
     let len = stdstring_length (um w);
     (len_written, s1) \<leftarrow> sys_write um d (take len (um w)) s;
     (space_written, s2) \<leftarrow> sys_write um d [32] s1;
     if len_written \<noteq> of_nat len \<or> space_written \<noteq> 1
     then Some (- 1, print_out (lit ''Ran out of space in file.'' @ newline) s2)
     else write_words um d ws s2 }"

definition write_from :: "i32 \<Rightarrow> strings \<Rightarrow> u32 list \<Rightarrow> files \<Rightarrow> (i32 \<times> files) option" where
  "write_from whence um argv s =
     (if length argv > 1 then do {
        (d, s1) \<leftarrow> sys_open um (argv ! 0) 0 s;
        let s2 = snd (sys_lseek d 0 whence s1);
        if sint d < 0 then Some (- 1, print_out (lit ''Could not find file.'' @ newline) s2)
        else write_words um d (tl argv) s2 }
      else invalid_arguments s)"

definition program_write :: "strings \<Rightarrow> u32 list \<Rightarrow> files \<Rightarrow> (i32 \<times> files) option" where
  "program_write = write_from 1"

definition program_append :: "strings \<Rightarrow> u32 list \<Rightarrow> files \<Rightarrow> (i32 \<times> files) option" where
  "program_append = write_from 3"

definition program_rm :: "strings \<Rightarrow> u32 list \<Rightarrow> files \<Rightarrow> (i32 \<times> files) option" where
  "program_rm um argv s =
     (if length argv = 1 then do {
        (d, s1) \<leftarrow> sys_open um (argv ! 0) 0 s;
        let s2 = snd (sys_close d s1);
        (result, s3) \<leftarrow> sys_unlink um (argv ! 0) s2;
        Some (if sint result < 0 then (- 1, print_out (lit ''Could not find file.'' @ newline) s3) else (0, s3)) }
      else invalid_arguments s)"

definition program_touch :: "strings \<Rightarrow> u32 list \<Rightarrow> files \<Rightarrow> (i32 \<times> files) option" where
  "program_touch um argv s =
     (if length argv = 1 then do {
        (result, s1) \<leftarrow> sys_open um (argv ! 0) 1 s;
        Some (if sint result < 0 then (- 1, print_out (lit ''Could not find or create file.'' @ newline) s1) else (0, s1)) }
      else invalid_arguments s)"

definition program_mkdir :: "strings \<Rightarrow> u32 list \<Rightarrow> files \<Rightarrow> (i32 \<times> files) option" where
  "program_mkdir um argv s =
     (if length argv = 1 then do {
        (result, s1) \<leftarrow> sys_mkdir (um (argv ! 0)) s;
        Some (if result \<noteq> 0 then (- 1, print_out (lit ''Directory creation failed.'' @ newline) s1) else (0, s1)) }
      else invalid_arguments s)"

definition program_cd :: "strings \<Rightarrow> u32 list \<Rightarrow> files \<Rightarrow> (i32 \<times> files) option" where
  "program_cd um argv s =
     (if length argv > 0 then do {
        (dir, s1) \<leftarrow> sys_open um (argv ! 0) 0 s;
        if sint dir < 0 then Some (- 1, print_out (lit ''Directory not found.'' @ newline) s1)
        else do { (_, s2) \<leftarrow> sys_chdir (um (argv ! 0)) s1; Some (0, s2) } }
      else Some (- 1, s))"

definition program_pwd :: "u8 list \<Rightarrow> files \<Rightarrow> (i32 \<times> files) option" where
  "program_pwd blk s =
     (let bs = sys_getcwd 100 s; cwd = bs @ drop (length bs) blk
      in Some (0, print_out newline (print_out cwd s)))"

text \<open>\<^verbatim>\<open>ls\<close>: \<open>cwd\<close> is the address of the block that \<^verbatim>\<open>_getcwd\<close> fills when there is no argument.  A listing that is NULL is dereferenced.\<close>

definition print_entry :: "fat16_dir_entry_t \<Rightarrow> files \<Rightarrow> files" where
  "print_entry e s =
     (let s1 = print_out (if is_dir e then lit ''d  '' else lit ''f  '') s;
          s2 = print_out (filename e) s1;
          s3 = (if char_at (extension e) 0 \<noteq> 0 then print_out (extension e) (print_out (lit ''.'') s2) else s2)
      in print_out newline s3)"

definition program_ls :: "strings \<Rightarrow> u32 \<Rightarrow> u8 list \<Rightarrow> u32 list \<Rightarrow> files \<Rightarrow> (i32 \<times> files) option" where
  "program_ls um cwd blk argv s = do {
     let bs = sys_getcwd 100 s;
     (dir, s1) \<leftarrow> (if length argv > 0 then sys_open um (argv ! 0) 0 s
                  else sys_open (um(cwd := bs @ drop (length bs) blk)) cwd 0 s);
     if sint dir < 0 then Some (- 1, print_out (lit ''Directory not found.'' @ newline) s1)
     else do {
       listing \<leftarrow> sys_getdents dir s1;
       entries \<leftarrow> listing;
       Some (0, fold print_entry entries s1) } }"

fun write_times :: "strings \<Rightarrow> filedesc_t \<Rightarrow> u8 list \<Rightarrow> nat \<Rightarrow> files \<Rightarrow> files option" where
  "write_times um d buf 0 s = Some s"
| "write_times um d buf (Suc n) s = do { (_, s1) \<leftarrow> sys_write um d buf s; write_times um d buf n s1 }"

text \<open>
  \<^verbatim>\<open>writemany\<close> hands \<^verbatim>\<open>strtol\<close> an uninitialised pointer, through which it stores the end of the number; \<open>um1\<close> are the
  strings in memory after this store.
\<close>

definition program_writemany :: "strings \<Rightarrow> strings \<Rightarrow> u32 list \<Rightarrow> files \<Rightarrow> (i32 \<times> files) option" where
  "program_writemany um um1 argv s =
     (if length argv \<noteq> 2 then invalid_arguments s
      else do {
        (d, s1) \<leftarrow> sys_open um (argv ! 0) 0 s;
        let s2 = snd (sys_lseek d 0 1 s1);
        if sint d < 0 then Some (- 1, print_out (lit ''Could not find file.'' @ newline) s2)
        else do {
          let count = sint (fst (stdstring_strtol (um (argv ! 1)) 10));
          s3 \<leftarrow> write_times um1 d (concat (replicate 10 (lit ''123456789''))) (nat count) s2;
          Some (0, s3) } })"

section \<open>Lemmas\<close>

lemma print_out_write: "sys_write um 1 (take (stdstring_length str) str) s = Some (of_nat (length (take (stdstring_length str) str)), print_out str s)"
  by (simp add: sys_write_def print_out_def)

lemma print_out_fields [simp]:
  "fdisk (print_out str s) = fdisk s" "open_files (print_out str s) = open_files s" "ffs (print_out str s) = ffs s"
  "uart_out (print_out str s) = uart_out s @ cstring str"
  by (simp_all add: print_out_def cstring_def takeWhile_eq_take [symmetric])

lemma modify_open_file_paths:
  assumes "\<And>x. path (g x) = path x"
  shows "map path (open_files (modify_open_file d g s)) = map path (open_files s)" "uart_out (modify_open_file d g s) = uart_out s"
proof -
  have "map path (update_first P g xs) = map path xs" for P xs
    by (induction xs) (simp_all add: assms)
  then show "map path (open_files (modify_open_file d g s)) = map path (open_files s)" by (simp add: modify_open_file_def)
qed (simp add: modify_open_file_def)

lemma disk_only_paths:
  assumes "disk_only s s'"
  shows "open_files s' = open_files s \<and> uart_out s' = uart_out s"
proof -
  have e: "s' = s\<lparr>fdisk := fdisk s'\<rparr>" using assms by (simp add: disk_only_def)
  show ?thesis by (subst (1 2) e) simp
qed

lemma record_growth_paths:
  "record_growth um f n s = Some s' \<Longrightarrow> map path (open_files s') = map path (open_files s) \<and> uart_out s' = uart_out s"
  by (auto simp: record_growth_def Let_def modify_open_file_paths split: if_splits dest!: update_file_details_disk_only disk_only_paths)

lemma sys_write_paths:
  assumes "sys_write um d buf s = Some (r, s')" "d \<noteq> 1"
  shows "map path (open_files s') = map path (open_files s) \<and> uart_out s' = uart_out s"
proof (cases "find_open_file_by_fd d s")
  case (Some f)
  show ?thesis
  proof (cases "is_dir (directory_entry f)")
    case True
    then show ?thesis using assms Some by (simp add: sys_write_def)
  next
    case False
    show ?thesis
      using assms(1) unfolding sys_write_file [OF assms(2) Some False]
      by (auto simp: modify_open_file_paths Let_def split: bind_splits if_splits dest!: record_growth_paths)
  qed
qed (use assms in \<open>simp add: sys_write_def\<close>)

lemma find_by_path:
  assumes "map path xs' = map path xs" "map fd xs' = map fd xs" "List.find (\<lambda>f. P (path f)) xs = Some f"
  shows "\<exists>f'. List.find (\<lambda>f. P (path f)) xs' = Some f' \<and> fd f' = fd f"
  using assms
proof (induction xs arbitrary: xs')
  case (Cons x xs)
  then show ?case by (cases xs') (auto split: if_splits)
qed simp

lemma patch_patch: "o1 + length b1 \<le> length xs \<Longrightarrow> patch (patch xs o1 b1) (o1 + length b1) b2 = patch xs o1 (b1 @ b2)"
  by (simp add: patch_def ac_simps)

text \<open>The words of a command line with a blank behind each.\<close>

definition words_text :: "strings \<Rightarrow> u32 list \<Rightarrow> u8 list" where
  "words_text um ws = concat (map (\<lambda>w. cstring (um w) @ [32]) ws)"

text \<open>A file as far as \<^verbatim>\<open>write\<close> and \<^verbatim>\<open>cat\<close> depend on it: an open plain file with its clusters.\<close>

definition writable :: "filedesc_t \<Rightarrow> u16 list \<Rightarrow> open_file_t \<Rightarrow> files \<Rightarrow> bool" where
  "writable d cs f s \<longleftrightarrow> fs_ok (fdisk s) (ffs s) \<and> bytes_per_cluster (ffs s) < 65536 \<and> files_inv s
     \<and> find_open_file_by_fd d s = Some f \<and> \<not> is_dir (directory_entry f) \<and> \<not> append_flag f
     \<and> chain (fdisk s) (ffs s) (first_cluster (directory_entry f)) cs \<and> distinct cs \<and> length cs \<le> 65536
     \<and> unat (file_size_bytes (directory_entry f)) \<le> length cs * bytes_per_cluster (ffs s)
     \<and> unat (file_size_bytes (directory_entry f)) < 2147483648"

text \<open>Bytes written at the position of the file; the table of open files stays as it is but for that position.\<close>

definition wrote :: "filedesc_t \<Rightarrow> u16 list \<Rightarrow> open_file_t \<Rightarrow> u8 list \<Rightarrow> files \<Rightarrow> files \<Rightarrow> bool" where
  "wrote d cs f bs s s' \<longleftrightarrow> writable d cs (f\<lparr>offset := offset f + of_nat (length bs)\<rparr>) s' \<and> ffs s' = ffs s
     \<and> chain_data (fdisk s') (ffs s) cs = patch (chain_data (fdisk s) (ffs s) cs) (unat (offset f)) bs
     \<and> map path (open_files s') = map path (open_files s) \<and> map fd (open_files s') = map fd (open_files s)
     \<and> uart_out s' = uart_out s"

lemma sys_write_wrote:
  assumes "writable d cs f s" "unat (offset f) + length bs \<le> unat (file_size_bytes (directory_entry f))"
    "unat (offset f) < length cs * bytes_per_cluster (ffs s)"
  obtains s' where "sys_write um d bs s = Some (of_nat (length bs), s')" "wrote d cs f bs s s'"
proof -
  have w: "fs_ok (fdisk s) (ffs s)" "bytes_per_cluster (ffs s) < 65536" "files_inv s" "find_open_file_by_fd d s = Some f"
      "\<not> is_dir (directory_entry f)" "\<not> append_flag f" "chain (fdisk s) (ffs s) (first_cluster (directory_entry f)) cs"
      "distinct cs" "length cs \<le> 65536" "unat (file_size_bytes (directory_entry f)) \<le> length cs * bytes_per_cluster (ffs s)"
      "unat (file_size_bytes (directory_entry f)) < 2147483648"
    using assms(1) by (simp_all add: writable_def)
  have "fd f = d" "f \<in> set (open_files s)" using open_table.look_SomeD [OF w(4)] by auto
  then have d: "d \<noteq> 1" using w(3) by (auto simp: files_inv_def)
  obtain s' where s': "sys_write um d bs s = Some (of_nat (length bs), s')" "ffs s' = ffs s"
      "find_open_file_by_fd d s' = Some (f\<lparr>offset := offset f + of_nat (length bs)\<rparr>)"
      "data_change (ffs s) (fdisk s) (fdisk s') (set cs)"
      "chain_data (fdisk s') (ffs s) cs = patch (chain_data (fdisk s) (ffs s) cs) (unat (offset f)) bs"
    using sys_write_in_place [OF w(1,2) d w(4-9) _ assms(2,3)] assms(2) w(10,11) by (meson le_trans order.strict_trans1 le_add2)
  have calm: "calm s s'" using sys_write_calm [OF s'(1)] .
  have "writable d cs (f\<lparr>offset := offset f + of_nat (length bs)\<rparr>) s'"
    using w s'(2-4) data_change_chain [OF s'(4) w(1,7)] calm_inv [OF calm w(3)] by (simp add: writable_def data_change_def)
  then show ?thesis
    using that [OF s'(1)] s'(2,5) sys_write_paths [OF s'(1) d] calm by (simp add: wrote_def calm_def)
qed

lemma wrote_trans:
  assumes "writable d cs f s" "wrote d cs f b1 s s1" "wrote d cs (f\<lparr>offset := offset f + of_nat (length b1)\<rparr>) b2 s1 s2"
    "unat (offset f) + length b1 \<le> unat (file_size_bytes (directory_entry f))"
  shows "wrote d cs f (b1 @ b2) s s2"
proof -
  have len: "length (chain_data (fdisk s) (ffs s) cs) = length cs * bytes_per_cluster (ffs s)"
    using assms(1) length_chain_data [of "fdisk s" "ffs s" "first_cluster (directory_entry f)" cs] by (simp add: writable_def)
  have o: "unat (offset f + of_nat (length b1)) = unat (offset f) + length b1"
    using assms(4) unat_u32_less [of "file_size_bytes (directory_entry f)"] by (simp add: unat_word_ariths unat_of_nat)
  have "unat (offset f) + length b1 \<le> length (chain_data (fdisk s) (ffs s) cs)"
    using assms(1,4) len by (simp add: writable_def)
  from patch_patch [OF this, of b2] show ?thesis using assms(2,3) o by (simp add: wrote_def add.assoc)
qed

lemma write_words_eq:
  assumes "writable d cs f s" "unat (offset f) + length (words_text um ws) \<le> unat (file_size_bytes (directory_entry f))"
  shows "\<exists>s'. write_words um d ws s = Some (0, s') \<and> (ws \<noteq> [] \<longrightarrow> wrote d cs f (words_text um ws) s s')"
  using assms
proof (induction ws arbitrary: f s)
  case (Cons w ws)
  let ?b1 = "cstring (um w)" and ?cap = "length cs * bytes_per_cluster (ffs s)"
  let ?f1 = "f\<lparr>offset := offset f + of_nat (length ?b1)\<rparr>"
  define t where "t = words_text um ws"
  have tt: "words_text um (w # ws) = ?b1 @ [32] @ t" by (simp add: words_text_def t_def)
  have size: "unat (offset f) + length ?b1 + 1 + length t \<le> unat (file_size_bytes (directory_entry f))"
    using Cons.prems(2) by (simp add: tt)
  have cap: "unat (file_size_bytes (directory_entry f)) \<le> ?cap" using Cons.prems(1) by (simp add: writable_def)
  obtain s1 where s1: "sys_write um d ?b1 s = Some (of_nat (length ?b1), s1)" "wrote d cs f ?b1 s s1"
    using sys_write_wrote [OF Cons.prems(1), of ?b1 um] size cap by auto
  have o1: "unat (offset ?f1) = unat (offset f) + length ?b1"
    using size unat_u32_less [of "file_size_bytes (directory_entry f)"] by (simp add: unat_word_ariths unat_of_nat)
  have w1: "writable d cs ?f1 s1" "ffs s1 = ffs s" using s1(2) by (simp_all add: wrote_def)
  obtain s2 where s2: "sys_write um d [32] s1 = Some (1, s2)" "wrote d cs ?f1 [32] s1 s2"
    using sys_write_wrote [OF w1(1), of "[32]" um] size cap o1 w1(2) by auto
  have w12: "wrote d cs f (?b1 @ [32]) s s2" using wrote_trans [OF Cons.prems(1) s1(2) s2(2)] size by simp
  let ?f2 = "f\<lparr>offset := offset f + of_nat (length (?b1 @ [32]))\<rparr>"
  have w2: "writable d cs ?f2 s2" using w12 by (simp add: wrote_def)
  have o2: "unat (offset ?f2) = unat (offset f) + length ?b1 + 1"
    using size unat_u32_less [of "file_size_bytes (directory_entry f)"] by (simp add: unat_word_ariths unat_of_nat)
  obtain s' where s': "write_words um d ws s2 = Some (0, s')" "ws \<noteq> [] \<Longrightarrow> wrote d cs ?f2 t s2 s'"
    using Cons.IH [OF w2] size o2 by (auto simp: t_def)
  have "write_words um d (w # ws) s = Some (0, s')"
    using s1(1) s2(1) s'(1) by (simp add: cstring_def takeWhile_eq_take [symmetric])
  moreover have "wrote d cs f (words_text um (w # ws)) s s'"
  proof (cases "ws = []")
    case True
    then show ?thesis using s'(1) w12 by (simp add: tt t_def words_text_def)
  next
    case False
    then show ?thesis using wrote_trans [OF Cons.prems(1) w12 s'(2)] size by (simp add: tt)
  qed
  ultimately show ?case by blast
qed simp

lemma find_open_file_again:
  assumes "find_open_file um a s = Some f" "map path (open_files s') = map path (open_files s)"
    "map fd (open_files s') = map fd (open_files s)" "cstring (um a') = cstring (um a)"
  shows "\<exists>f'. find_open_file um a' s' = Some f' \<and> fd f' = fd f"
  using find_by_path [OF assms(2,3), of "\<lambda>p. cstring (um p) = cstring (um a)" f] assms(1,4) by (simp add: find_open_file_def)


lemma set_append_tables:
  "map path (open_files (set_append fl f s)) = map path (open_files s)" "map fd (open_files (set_append fl f s)) = map fd (open_files s)"
  "uart_out (set_append fl f s) = uart_out s"
  by (simp_all add: set_append_def modify_open_file_paths)

lemma find_last: "List.find P xs = None \<Longrightarrow> P y \<Longrightarrow> List.find P (xs @ [y]) = Some y"
  by (induction xs) (auto split: if_splits)

lemma sys_open_found:
  assumes "sys_open um a 0 s = Some (d, s1)" "find_open_file_by_fd d s1 = Some f" "files_inv s1"
  shows "(\<exists>g. find_open_file um a s1 = Some g \<and> fd g = d) \<and> uart_out s1 = uart_out s"
proof (cases "find_open_file um a s")
  case (Some f0)
  then have "d = fd f0" "s1 = set_append 0 f0 s" using sys_open_known [OF Some, of 0] assms(1) by simp_all
  then show ?thesis using find_open_file_again [OF Some set_append_tables(1,2)] set_append_tables(3) by auto
next
  case None
  have "fd f = d" "f \<in> set (open_files s1)" using open_table.look_SomeD [OF assms(2)] by auto
  then have "d \<noteq> - 1" using assms(3) by (auto simp: files_inv_def)
  then obtain f1 s2 where o: "opened a s f1 s2" "d = fd f1" "s1 = set_append 0 f1 s2"
    using sys_open_new [OF None assms(1)] by auto
  then have s2: "open_files s2 = open_files s @ [f1]" "path f1 = a" "uart_out s2 = uart_out s" by (simp_all add: opened_def)
  then have "find_open_file um a s2 = Some f1" using None by (simp add: find_open_file_def find_last)
  then show ?thesis using find_open_file_again [OF _ set_append_tables(1,2), of um a s2 f1] set_append_tables(3) o(2,3) s2(3) by auto
qed

lemma lseek_start:
  assumes "writable d cs f s"
  obtains s' where "sys_lseek d 0 1 s = (0, s')" "writable d cs (f\<lparr>offset := 0\<rparr>) s'" "fdisk s' = fdisk s" "ffs s' = ffs s"
    "map path (open_files s') = map path (open_files s)" "map fd (open_files s') = map fd (open_files s)" "uart_out s' = uart_out s"
proof -
  let ?s = "modify_open_file d (\<lambda>x. x\<lparr>offset := 0\<rparr>) s"
  have f: "find_open_file_by_fd d s = Some f" "fd f = d" using assms open_table.look_SomeD [of d s f] by (auto simp: writable_def)
  have "sys_lseek d 0 1 s = (0, ?s)" using f(1) by (simp add: sys_lseek_def)
  moreover have "find_open_file_by_fd d ?s = Some (f\<lparr>offset := 0\<rparr>)"
    using open_table.look_change_same [OF f(1), of "\<lambda>x. x\<lparr>offset := 0\<rparr>"] f(2) by simp
  moreover have "calm s ?s" by (rule calm_modify) simp
  ultimately show ?thesis
    using that [of ?s] assms calm_inv [of s ?s] by (simp add: writable_def modify_open_file_paths)
qed

section \<open>Property\<close>

lemma cat_buffer: "cstring ((bs @ r)[length bs := 0]) = cstring bs"
proof (cases r)
  case (Cons x r')
  then have "(bs @ r)[length bs := 0] = bs @ 0 # r'" by simp
  moreover have "cstring (bs @ 0 # r') = cstring bs" by (induction bs) (simp_all add: cstring_def)
  ultimately show ?thesis by simp
qed (simp add: list_update_beyond)

lemma words_text_no_nul: "0 \<notin> set (words_text um ws)"
  by (induction ws) (auto simp: words_text_def zero_notin_cstring)

text \<open>\<^verbatim>\<open>cat\<close> of a file that is open already: the bytes up to its size, as far as the first NUL.\<close>

lemma cat_open_file:
  assumes "find_open_file um a s = Some g" "fd g = d" "writable d cs f s" "0 < unat (file_size_bytes (directory_entry f))"
  shows "\<exists>s'. program_cat um blk [a] s = Some (0, s')
    \<and> uart_out s' = uart_out s @ cstring (take (unat (file_size_bytes (directory_entry f))) (chain_data (fdisk s) (ffs s) cs)) @ [10]"
proof -
  define n where "n = unat (file_size_bytes (directory_entry f))"
  have f: "find_open_file_by_fd d s = Some f" "files_inv s" "fd f = d" using assms(3) open_table.look_SomeD [of d s f] by (auto simp: writable_def)
  then have d: "\<not> sint d < 0" "d \<noteq> 0" using open_table.look_SomeD [OF f(1)] by (auto simp: files_inv_def)
  define s3 where "s3 = set_append 0 g s"
  have o: "sys_open um a 0 s = Some (d, s3)" using sys_open_known [OF assms(1), of 0] assms(2) by (simp add: s3_def)
  have "f\<lparr>append_flag := False\<rparr> = f" using assms(3) by (cases f) (simp add: writable_def)
  then have "find_open_file_by_fd d s3 = Some f"
    using open_table.look_change_same [of d s f "\<lambda>x. x\<lparr>append_flag := False\<rparr>"] f(1,3) assms(2) by (simp add: s3_def set_append_def)
  moreover have s3: "calm s s3" "fdisk s3 = fdisk s" "ffs s3 = ffs s" using calm_modify by (simp_all add: s3_def set_append_def)
  ultimately have w3: "writable d cs f s3" using assms(3) calm_inv by (auto simp: writable_def)
  obtain s4 where s4: "sys_lseek d 0 1 s3 = (0, s4)" "writable d cs (f\<lparr>offset := 0\<rparr>) s4" "fdisk s4 = fdisk s" "ffs s4 = ffs s" "uart_out s4 = uart_out s3"
    using lseek_start [OF w3] s3 by metis
  have w4: "fs_ok (fdisk s4) (ffs s4)" "bytes_per_cluster (ffs s4) < 65536" "find_open_file_by_fd d s4 = Some (f\<lparr>offset := 0\<rparr>)"
      "chain (fdisk s4) (ffs s4) (first_cluster (directory_entry f)) cs" "length cs \<le> 65536" "\<not> is_dir (directory_entry f)"
      "n \<le> length cs * bytes_per_cluster (ffs s4)" "n < 2147483648"
    using s4(2) by (simp_all add: writable_def n_def)
  define bs where "bs = take n (drop 0 (chain_data (fdisk s4) (ffs s4) cs))"
  have len: "length bs = n" using length_chain_data [OF w4(1,4)] w4(7) by (simp add: bs_def)
  have cap: "0 < length cs * bytes_per_cluster (ffs s4)" using w4(7) assms(4) unfolding n_def by linarith
  have read: "sys_read d (file_size_bytes (directory_entry f)) s4 = Some (of_nat (length bs), bs,
      modify_open_file d (\<lambda>x. x\<lparr>offset := offset x + of_nat (length bs)\<rparr>) s4)"
    using sys_read_in_place [OF w4(1,2) d(2) w4(3), of cs bs "file_size_bytes (directory_entry f)"] w4(4,5,8) cap len by (simp add: n_def bs_def)
  have "unat (of_nat (length bs) :: u32) = length bs" using len w4(8) by (simp add: unat_of_nat)
  then have "\<exists>s'. program_cat um blk [a] s = Some (0, s') \<and> uart_out s' = uart_out s @ cstring bs @ [10]"
    using o s4(1) d(1) read w4(3,6) s4(5) set_append_tables(3) cat_buffer
    by (simp add: program_cat_def sys_fstat_def modify_open_file_paths s3_def cstring_def)
  then show ?thesis by (simp add: bs_def n_def s4(3,4))
qed

text \<open>
  C13: \<^verbatim>\<open>write\<close> and then \<^verbatim>\<open>cat\<close>.  For a plain file that \<^verbatim>\<open>_open\<close> finds and whose recorded size is at least the length of the text,
  \<^verbatim>\<open>write FILE words\<close> exits with 0, and a later \<^verbatim>\<open>cat\<close> of the same name prints the words, a blank behind each, then
  the rest of the old contents, up to the first NUL, and a newline, and exits with 0.
\<close>

theorem write_then_cat:
  assumes "sys_open um a 0 s = Some (d, s1)" "writable d cs f s1" "ws \<noteq> []" "cstring (um a') = cstring (um a)"
    "length (words_text um ws) \<le> unat (file_size_bytes (directory_entry f))"
  shows "\<exists>s2 s3. program_write um (a # ws) s = Some (0, s2) \<and> program_cat um blk [a'] s2 = Some (0, s3)
    \<and> uart_out s3 = uart_out s @ words_text um ws
        @ cstring (drop (length (words_text um ws)) (take (unat (file_size_bytes (directory_entry f))) (chain_data (fdisk s1) (ffs s1) cs))) @ [10]"
proof -
  define tt where "tt = words_text um ws"
  define n where "n = unat (file_size_bytes (directory_entry f))"
  define old where "old = chain_data (fdisk s1) (ffs s1) cs"
  have f: "find_open_file_by_fd d s1 = Some f" "files_inv s1" "fd f = d" using assms(2) open_table.look_SomeD [of d s1 f] by (auto simp: writable_def)
  then have d: "\<not> sint d < 0" using open_table.look_SomeD [OF f(1)] by (auto simp: files_inv_def)
  obtain g where g: "find_open_file um a s1 = Some g" "fd g = d" and u1: "uart_out s1 = uart_out s"
    using sys_open_found [OF assms(1) f(1,2)] by blast
  obtain s1' where l: "sys_lseek d 0 1 s1 = (0, s1')" "writable d cs (f\<lparr>offset := 0\<rparr>) s1'" "fdisk s1' = fdisk s1" "ffs s1' = ffs s1"
      "map path (open_files s1') = map path (open_files s1)" "map fd (open_files s1') = map fd (open_files s1)" "uart_out s1' = uart_out s1"
    using lseek_start [OF assms(2)] .
  obtain s2 where w: "write_words um d ws s1' = Some (0, s2)" "wrote d cs (f\<lparr>offset := 0\<rparr>) tt s1' s2"
    using write_words_eq [OF l(2), of um ws] assms(3,5) by (auto simp: tt_def)
  have wr: "program_write um (a # ws) s = Some (0, s2)"
    using assms(1,3) l(1) w(1) d by (simp add: program_write_def write_from_def)
  let ?f2 = "f\<lparr>offset := of_nat (length tt)\<rparr>"
  have w2: "writable d cs ?f2 s2" "ffs s2 = ffs s1" "chain_data (fdisk s2) (ffs s1) cs = patch old 0 tt" "uart_out s2 = uart_out s"
      "map path (open_files s2) = map path (open_files s1)" "map fd (open_files s2) = map fd (open_files s1)"
    using w(2) l(3-7) u1 by (simp_all add: wrote_def old_def)
  obtain g2 where g2: "find_open_file um a' s2 = Some g2" "fd g2 = d"
    using find_open_file_again [OF g(1) w2(5,6) assms(4)] g(2) by auto
  have pos: "0 < n" using assms(3,5) by (cases ws) (simp_all add: words_text_def n_def)
  obtain s3 where c: "program_cat um blk [a'] s2 = Some (0, s3)" "uart_out s3 = uart_out s @ cstring (take n (patch old 0 tt)) @ [10]"
    using cat_open_file [OF g2 w2(1), of blk] pos w2(2-4) by (auto simp: n_def)
  have "length old = length cs * bytes_per_cluster (ffs s1)"
    using assms(2) length_chain_data [of "fdisk s1" "ffs s1" "first_cluster (directory_entry f)" cs] by (simp add: writable_def old_def)
  then have tn: "length tt \<le> n" "n \<le> length old" using assms(2,5) by (simp_all add: tt_def n_def writable_def)
  then have "take n (patch old 0 tt) = tt @ drop (length tt) (take n old)" by (simp add: patch_def drop_take)
  moreover have "cstring (tt @ drop (length tt) (take n old)) = tt @ cstring (drop (length tt) (take n old))"
    unfolding cstring_def tt_def using words_text_no_nul [of um ws] by (intro takeWhile_append2) auto
  ultimately show ?thesis using wr c by (simp add: tt_def n_def old_def)
qed

theorem write_then_cat_witness:
  "\<exists>s2 s3. program_write (\<lambda>a. if a = 7 then lit ''HI'' else lit ''/LOG.TXT'') [100, 7] demo_files = Some (0, s2)
     \<and> program_cat (\<lambda>a. if a = 7 then lit ''HI'' else lit ''/LOG.TXT'') [] [200] s2 = Some (0, s3)
     \<and> take 3 (uart_out s3) = lit ''HI ''"
proof -
  let ?um = "\<lambda>a :: u32. if a = 7 then lit ''HI'' else lit ''/LOG.TXT''" and ?f = "hd (open_files demo_files)"
  have tt: "words_text ?um [7] = lit ''HI ''" by (simp add: words_text_def lit_def cstring_def)
  have f: "find_open_file ?um 100 demo_files = Some ?f" "fd ?f = 3" "directory_entry ?f = demo_entry" "\<not> append_flag ?f"
    by (simp_all add: find_open_file_def demo_files_def)
  have s1: "set_append 0 ?f demo_files = demo_files"
    by (simp add: set_append_def modify_open_file_def demo_files_def)
  have o: "sys_open ?um 100 0 demo_files = Some (3, demo_files)" using sys_open_known [OF f(1), of 0] s1 f(2) by simp
  have "find_open_file_by_fd 3 demo_files = Some ?f" "fdisk demo_files = demo_dev" "ffs demo_files = demo_fs"
    by (simp_all add: find_open_file_by_fd_def demo_files_def)
  moreover have "\<not> is_dir demo_entry" by (simp add: is_dir_def unpack_file_attributes_def demo_entry_def)
  moreover have "file_size_bytes demo_entry = 1000" by (simp add: demo_entry_def)
  ultimately have w: "writable 3 [2, 3] ?f demo_files"
    unfolding writable_def using demo_ok demo_chain demo_files_inv f(3,4) by (simp del: chain.simps add: demo_layout)
  have "uart_out demo_files = []" by (simp add: demo_files_def)
  moreover have "length (words_text ?um [7]) \<le> unat (file_size_bytes (directory_entry ?f))"
    unfolding tt f(3) by (simp add: lit_def demo_entry_def)
  ultimately show ?thesis
    using write_then_cat [OF o w, of "[7]" 200 "[]"] unfolding tt by (auto simp: lit_def)
qed

end
