(* ===== verification/Growth.thy ===== *)
theory Growth
  imports FileSystem
begin

text \<open>
  Files that grow (\<^verbatim>\<open>write_to_file\<close> of \<^verbatim>\<open>src/os/src/kernel/file.c\<close>, its third loop).  When the bytes go on
  behind the last cluster of a file, the code takes the first free cluster of the file allocation table, links it
  to the chain, marks it as the end, and writes to it, until the bytes or the free clusters are used up.
  The definitions here are those the property needs: the free clusters of a table, lowest first, the effect of one
  round, and what a grown file looks like on the disk.  \<open>write_extend_eq\<close> follows the loop by induction on the
  free clusters, \<open>write_to_file_split\<close> divides a write at the end of the last cluster, and \<open>fill_then_grow\<close>
  puts the two halves together.  A table may have free entries for clusters behind the end of the
  disk, and the code does not know it: \<^verbatim>\<open>find_first_free_cluster\<close> scans the whole table.  \<open>on_disk\<close> says of the
  clusters that a write takes that they exist; nothing is assumed of the other free entries.
\<close>

section \<open>Free clusters\<close>

definition free_clusters :: "sectors \<Rightarrow> fat16_t \<Rightarrow> u16 list" where
  "free_clusters dev fs = map of_nat (filter (\<lambda>c. fat_entry dev fs c = 0) [0..<256 * fat_len fs])"

text \<open>Numbers that name clusters of the disk.\<close>

definition on_disk :: "sectors \<Rightarrow> fat16_t \<Rightarrow> u16 list \<Rightarrow> bool" where
  "on_disk dev fs ns \<longleftrightarrow> (\<forall>c \<in> set ns. in_chain c \<and> has_cluster dev fs c)"

lemma on_disk_Cons [simp]: "on_disk dev fs (c # ns) \<longleftrightarrow> in_chain c \<and> has_cluster dev fs c \<and> on_disk dev fs ns"
  by (auto simp: on_disk_def)

lemma on_disk_Nil [simp]: "on_disk dev fs []"
  by (simp add: on_disk_def)

lemma on_disk_length: "length dev' = length dev \<Longrightarrow> on_disk dev' fs ns = on_disk dev fs ns"
  unfolding on_disk_def using has_cluster_length by blast

lemma find_filter: "List.find P xs = (case filter P xs of [] \<Rightarrow> None | x # _ \<Rightarrow> Some x)"
  by (induction xs) auto

lemma find_first_free_eq:
  assumes "fs_ok dev fs" "fat_len fs \<le> 256"
  shows "find_first_free_cluster dev fs = Some (case free_clusters dev fs of [] \<Rightarrow> 0 | c # _ \<Rightarrow> c)"
  using free_in_fat_scan [OF assms, of 0]
  by (auto simp: find_first_free_cluster_def fat_len_def [symmetric] free_clusters_def find_filter split: list.splits)

lemma free_iff:
  assumes "fat_len fs \<le> 256"
  shows "c \<in> set (free_clusters dev fs) \<longleftrightarrow> unat c < 256 * fat_len fs \<and> fat_at dev fs c = 0"
proof -
  have "c = of_nat (unat c)" by simp
  then show ?thesis using assms
    by (auto simp: free_clusters_def fat_entry_def unat_of_nat_u16 intro!: image_eqI [of _ _ "unat c"])
qed

lemma filter_tail:
  assumes "filter P xs = x # ys" "distinct xs" "\<And>y. y \<in> set xs \<Longrightarrow> Q y \<longleftrightarrow> P y \<and> y \<noteq> x"
  shows "filter Q xs = ys"
proof -
  have "filter Q xs = filter (\<lambda>y. y \<noteq> x) (filter P xs)" using assms(3) by (simp add: filter_filter cong: filter_cong)
  moreover have "x \<notin> set ys" using assms(1,2) by (metis distinct.simps(2) distinct_filter)
  ultimately show ?thesis unfolding assms(1) by (simp add: filter_id_conv) (metis)
qed

lemma free_after_take:
  assumes "fat_len fs \<le> 256" "free_clusters dev fs = c # rest"
    "\<And>d. unat d < 256 * fat_len fs \<Longrightarrow> fat_at dev' fs d = 0 \<longleftrightarrow> fat_at dev fs d = 0 \<and> d \<noteq> c"
  shows "free_clusters dev' fs = rest"
proof -
  obtain n r where f: "filter (\<lambda>c. fat_entry dev fs c = 0) [0..<256 * fat_len fs] = n # r" "c = of_nat n" "rest = map of_nat r"
    using assms(2) by (auto simp: free_clusters_def map_eq_Cons_conv)
  have "n \<in> set (filter (\<lambda>c. fat_entry dev fs c = 0) [0..<256 * fat_len fs])" unfolding f(1) by simp
  then have n: "n < 65536" using assms(1) by auto
  have "filter (\<lambda>c. fat_entry dev' fs c = 0) [0..<256 * fat_len fs] = r"
  proof (rule filter_tail [OF f(1)])
    fix y assume "y \<in> set [0..<256 * fat_len fs]"
    then have y: "y < 256 * fat_len fs" "unat (of_nat y :: u16) = y" "y < 65536" using assms(1) by (auto intro: unat_of_nat_u16)
    then have "(of_nat y = (of_nat n :: u16)) \<longleftrightarrow> y = n" using n by (metis unat_of_nat_u16)
    then show "(fat_entry dev' fs y = 0) = (fat_entry dev fs y = 0 \<and> y \<noteq> n)"
      using assms(3) [of "of_nat y"] y f(2) by (simp add: fat_entry_def)
  qed simp
  then show ?thesis by (simp add: free_clusters_def f(3))
qed

section \<open>Adding clusters to a file\<close>

text \<open>One round of the third loop of \<^verbatim>\<open>write_to_file\<close>.\<close>

definition add_cluster :: "sectors \<Rightarrow> fat16_t \<Rightarrow> u16 \<Rightarrow> u16 \<Rightarrow> u8 list \<Rightarrow> sectors" where
  "add_cluster dev fs previous c bs = cluster_put (fat_put (fat_put dev fs previous c) fs c 0xFFFF) fs c
     (patch (cluster_data dev fs c) 0 (take (bytes_per_cluster fs) bs))"

lemma add_cluster_effect:
  assumes "fs_ok dev fs" "has_cluster dev fs p" "has_cluster dev fs c" "p \<noteq> c"
  shows "bs \<noteq> [] \<Longrightarrow> in_chain c \<Longrightarrow> find_first_free_cluster dev fs = Some c \<Longrightarrow>
      write_extend dev fs p bs = write_extend (add_cluster dev fs p c bs) fs c (drop (bytes_per_cluster fs) bs)"
    "fs_ok (add_cluster dev fs p c bs) fs" "length (add_cluster dev fs p c bs) = length dev"
    "unat d < 256 * fat_len fs \<Longrightarrow> fat_at (add_cluster dev fs p c bs) fs d = (if d = c then 0xFFFF else if d = p then c else fat_at dev fs d)"
    "has_cluster dev fs d \<Longrightarrow> cluster_data (add_cluster dev fs p c bs) fs d
       = (if d = c then patch (cluster_data dev fs c) 0 (take (bytes_per_cluster fs) bs) else cluster_data dev fs d)"
    "root0 fs \<le> i \<Longrightarrow> i < data0 fs \<Longrightarrow> add_cluster dev fs p c bs ! i = dev ! i"
proof -
  let ?b = "bytes_per_cluster fs" and ?d1 = "fat_put dev fs p c"
  let ?d2 = "fat_put ?d1 fs c 0xFFFF"
  note hp = has_clusterD [OF assms(2)] and hc = has_clusterD [OF assms(3)]
  have ok1: "fs_ok ?d1 fs" and ok2: "fs_ok ?d2 fs" using assms(1) hp(2) hc(2) by (simp_all add: fs_ok_put)
  have l1: "length ?d1 = length dev" and l2: "length ?d2 = length dev"
    using fat_put_other(1) [OF assms(1) hp(2)] fat_put_other(1) [OF ok1 hc(2)] by simp_all
  have h1: "has_cluster ?d1 fs d = has_cluster dev fs d" and h2: "has_cluster ?d2 fs d = has_cluster dev fs d" for d
    using has_cluster_length [OF l1] has_cluster_length [OF l2] by blast+
  have cd: "cluster_data ?d2 fs d = cluster_data dev fs d" if "has_cluster dev fs d" for d
    using that cluster_data_fat_put [OF assms(1) hp(2) that] cluster_data_fat_put [OF ok1 hc(2)] h1 by simp
  have len: "length (cluster_data dev fs c) = ?b" using assms(1,3) by (rule cluster_ops(2))
  let ?buf = "patch (cluster_data dev fs c) 0 (take ?b bs)"
  have lb: "length ?buf = ?b" using len by (simp add: patch_def)
  have c2: "has_cluster ?d2 fs c" using assms(3) h2 by simp
  have a: "add_cluster dev fs p c bs = cluster_put ?d2 fs c ?buf" by (simp add: add_cluster_def)
  show "fs_ok (add_cluster dev fs p c bs) fs" "length (add_cluster dev fs p c bs) = length dev"
    using fs_ok_cluster_put [OF ok2 lb] l2 by (simp_all add: a)
  show "fat_at (add_cluster dev fs p c bs) fs d = (if d = c then 0xFFFF else if d = p then c else fat_at dev fs d)" if "unat d < 256 * fat_len fs"
    unfolding a using fat_at_cluster_put [OF ok2 that] fat_at_put [OF ok1 hc(2)] fat_at_put [OF assms(1) hp(2)] by simp
  show "cluster_data (add_cluster dev fs p c bs) fs d = (if d = c then ?buf else cluster_data dev fs d)" if "has_cluster dev fs d"
    unfolding a using cluster_data_put_same [OF ok2 c2 lb] cluster_data_put_other [OF c2, of d] that cd [OF that] h2 by simp
  show "add_cluster dev fs p c bs ! i = dev ! i" if "root0 fs \<le> i" "i < data0 fs"
    unfolding a using that fat_put_other(2) [OF assms(1) hp(2)] fat_put_other(2) [OF ok1 hc(2)] fs_okD(3) [OF ok2] l2 by (simp add: cluster_put_below)
  show "write_extend dev fs p bs = write_extend (add_cluster dev fs p c bs) fs c (drop ?b bs)"
    if "bs \<noteq> []" "in_chain c" "find_first_free_cluster dev fs = Some c"
  proof -
    have "\<not> c < 2" using that(2) by (simp add: word_less_nat_alt)
    then show ?thesis
      using that set_successor_eq [OF assms(1) hp(2)] set_successor_eq [OF ok1 hc(2)] cluster_ops [OF ok2 c2] cd [OF assms(3)] lb
      by (subst write_extend.simps) (simp add: a)
  qed
qed

lemma distinct_free:
  assumes "fat_len fs \<le> 256"
  shows "distinct (free_clusters dev fs)"
proof -
  have "inj_on (of_nat :: nat \<Rightarrow> u16) {n. n < 65536}" by (rule inj_onI) (metis mem_Collect_eq unat_of_nat_u16)
  then show ?thesis unfolding free_clusters_def distinct_map using assms by (auto elim!: inj_on_subset)
qed

text \<open>The number of clusters that \<open>n\<close> bytes need.\<close>

definition clusters_for :: "fat16_t \<Rightarrow> nat \<Rightarrow> nat" where
  "clusters_for fs n = (n + bytes_per_cluster fs - 1) div bytes_per_cluster fs"

lemma clusters_for_step: "0 < bytes_per_cluster fs \<Longrightarrow> 0 < n \<Longrightarrow> clusters_for fs n = Suc (clusters_for fs (n - bytes_per_cluster fs))"
proof -
  assume b: "0 < bytes_per_cluster fs" and n: "0 < n"
  show ?thesis
  proof (cases "n \<le> bytes_per_cluster fs")
    case True
    then have "(n + bytes_per_cluster fs - 1) div bytes_per_cluster fs = 1" using b n by (intro div_nat_eqI) simp_all
    then show ?thesis using True b by (simp add: clusters_for_def)
  next
    case False
    then have "n + bytes_per_cluster fs - 1 = (n - bytes_per_cluster fs + bytes_per_cluster fs - 1) + bytes_per_cluster fs" by simp
    then show ?thesis unfolding clusters_for_def using b by (metis Suc_eq_plus1 div_add_self2 less_not_refl)
  qed
qed

lemma clusters_for_0 [simp]: "0 < bytes_per_cluster fs \<Longrightarrow> clusters_for fs 0 = 0"
  by (simp add: clusters_for_def)

definition grown :: "fat16_t \<Rightarrow> sectors \<Rightarrow> sectors \<Rightarrow> u16 \<Rightarrow> u16 list \<Rightarrow> u8 list \<Rightarrow> bool" where
  "grown fs dev dev' p ns bs \<longleftrightarrow> fs_ok dev' fs \<and> length dev' = length dev \<and> chain dev' fs (fat_at dev' fs p) ns
     \<and> chain_data dev' fs ns = patch (chain_data dev fs ns) 0 (take (length ns * bytes_per_cluster fs) bs)
     \<and> (\<forall>d. unat d < 256 * fat_len fs \<and> d \<notin> insert p (set ns) \<longrightarrow> fat_at dev' fs d = fat_at dev fs d)
     \<and> (\<forall>d. has_cluster dev fs d \<and> d \<notin> set ns \<longrightarrow> cluster_data dev' fs d = cluster_data dev fs d)
     \<and> (\<forall>i. root0 fs \<le> i \<and> i < data0 fs \<longrightarrow> dev' ! i = dev ! i)"

lemma patch_blocks:
  assumes "length a = b"
  shows "patch a 0 (take b bs) @ patch x 0 (take (k * b) (drop b bs)) = patch (a @ x) 0 (take (Suc k * b) bs)"
  using assms by (cases "length bs \<le> b") (simp_all add: patch_def take_add)

lemma write_extend_eq:
  assumes "fs_ok dev fs" "fat_len fs \<le> 256" "has_cluster dev fs p" "fat_at dev fs p \<noteq> 0" "\<not> in_chain (fat_at dev fs p)" "0 < bytes_per_cluster fs"
    "ns = take (clusters_for fs (length bs)) (free_clusters dev fs)" "on_disk dev fs ns"
  shows "\<exists>dev'. write_extend dev fs p bs = Some (dev', drop (length ns * bytes_per_cluster fs) bs) \<and> grown fs dev dev' p ns bs"
  using assms
proof (induction "free_clusters dev fs" arbitrary: dev p bs ns)
  case Nil
  then have "find_first_free_cluster dev fs = Some 0" using find_first_free_eq [of dev fs] by simp
  then have "write_extend dev fs p bs = Some (dev, bs)" by (subst write_extend.simps) simp
  then show ?case using Nil by (simp add: grown_def patch_def)
next
  case (Cons c rest)
  let ?b = "bytes_per_cluster fs" and ?d = "add_cluster dev fs p c bs"
  show ?case
  proof (cases "bs = []")
    case True
    then have "write_extend dev fs p bs = Some (dev, bs)" by (subst write_extend.simps) simp
    then show ?thesis using Cons.prems True by (simp add: grown_def patch_def)
  next
    case False
    have fr: "free_clusters dev fs = c # rest" using Cons.hyps(2) by simp
    then have cm: "c \<in> set (free_clusters dev fs)" by simp
    note fl = Cons.prems(2)
    have ns0: "ns = c # take (clusters_for fs (length (drop ?b bs))) rest"
      unfolding Cons.prems(7) using clusters_for_step [OF Cons.prems(6), of "length bs"] False by (simp add: fr)
    then have c: "in_chain c" "has_cluster dev fs c" "fat_at dev fs c = 0" using Cons.prems(8) cm free_iff [OF fl] by simp_all
    have pc: "p \<noteq> c" using c(3) Cons.prems(4) by auto
    note e = add_cluster_effect [OF Cons.prems(1,3) c(2) pc]
    have first: "find_first_free_cluster dev fs = Some c" using find_first_free_eq [OF Cons.prems(1) fl] fr by simp
    have "c \<noteq> 0" using c(1) by auto
    then have free: "free_clusters ?d fs = rest"
      using e(4) Cons.prems(4) by (intro free_after_take [OF fl fr]) auto
    have h: "has_cluster ?d fs d = has_cluster dev fs d" for d by (rule has_cluster_length [OF e(3)])
    have sub: "set rest \<subseteq> set (free_clusters dev fs)" and dist: "c \<notin> set rest" using distinct_free [OF fl, of dev] by (auto simp: fr)
    have fc: "fat_at ?d fs c = 0xFFFF" using e(4) has_clusterD(2) [OF c(2)] by simp
    define ns' where "ns' = take (clusters_for fs (length (drop ?b bs))) (free_clusters ?d fs)"
    have ns: "ns = c # ns'" unfolding ns'_def free by (rule ns0)
    then have real: "on_disk dev fs ns'" "on_disk ?d fs ns'" using Cons.prems(8) on_disk_length [OF e(3)] by simp_all
    have "has_cluster ?d fs c" "fat_at ?d fs c \<noteq> 0" "\<not> in_chain (fat_at ?d fs c)" using c(2) fc h by simp_all
    then obtain dev' where ih: "write_extend ?d fs c (drop ?b bs) = Some (dev', drop (length ns' * ?b) (drop ?b bs))" "grown fs ?d dev' c ns' (drop ?b bs)"
      using Cons.hyps(1) [OF free [symmetric] e(2) fl _ _ _ Cons.prems(6) ns'_def real(2)] by blast
    note g = ih(2) [unfolded grown_def]
    have "set ns' \<subseteq> set rest" by (simp add: ns'_def free set_take_subset)
    then have out: "p \<notin> insert c (set ns')" "c \<notin> set ns'" using sub dist pc Cons.prems(4) free_iff [OF fl, of _ dev] by auto
    have "fat_at dev' fs p = c" using g out(1) e(4) [of p] has_clusterD(2) [OF Cons.prems(3)] pc by simp
    moreover have "has_cluster dev' fs c" using has_cluster_length [of dev' ?d fs c] g c(2) h by simp
    ultimately have ch: "chain dev' fs (fat_at dev' fs p) ns" using g c(1) by (simp add: ns)
    have old: "chain_data ?d fs ns' = chain_data dev fs ns'"
      unfolding chain_data_def using e(5) out(2) real(1)
      by (intro arg_cong [of _ _ concat] map_cong) (auto simp: on_disk_def)
    have "cluster_data dev' fs c = patch (cluster_data dev fs c) 0 (take ?b bs)" using g e(5) [OF c(2)] out(2) c(2) h by simp
    then have "chain_data dev' fs ns = patch (chain_data dev fs ns) 0 (take (length ns * ?b) bs)"
      using g old patch_blocks [OF cluster_ops(2) [OF Cons.prems(1) c(2)], of bs] by (simp add: ns)
    then have "grown fs dev dev' p ns bs"
      unfolding grown_def using g ch e h by (auto simp: ns)
    moreover have "write_extend dev fs p bs = Some (dev', drop (length ns * ?b) bs)"
      using e(1) [OF False c(1) first] ih(1) by (simp add: ns add.commute)
    ultimately show ?thesis by blast
  qed
qed

section \<open>Writing past the last cluster\<close>

text \<open>When the bytes fill the clusters of the chain, the second loop stops at the last one and leaves what follows.\<close>

lemma write_existing_full:
  assumes "fs_ok dev fs" "chain dev fs c cs" "length bs = length cs * bytes_per_cluster fs" "0 < bytes_per_cluster fs"
  shows "\<exists>dev'. write_existing dev fs p c bs = Some (dev', [], last (p # cs)) \<and> write_existing dev fs p c (bs @ us) = Some (dev', us, last (p # cs))"
  using assms
proof (induction cs arbitrary: dev c bs p)
  case Nil
  then show ?case by (subst (1 2) write_existing.simps) auto
next
  case (Cons d ds)
  let ?b = "bytes_per_cluster fs"
  have h: "has_cluster dev fs c" "d = c" "in_chain c" and rest: "chain dev fs (fat_at dev fs c) ds" using Cons.prems(2) by auto
  have lbs: "?b \<le> length bs" "bs \<noteq> []" using Cons.prems(3,4) by auto
  let ?buf = "patch (cluster_data dev fs c) 0 (take ?b bs)"
  have lb: "length ?buf = ?b" using cluster_ops(2) [OF Cons.prems(1) h(1)] by (simp add: patch_def)
  let ?d1 = "cluster_put dev fs c ?buf"
  have ch: "data_change fs dev ?d1 {c}" by (rule data_change_put [OF Cons.prems(1) h(1) lb])
  then have ok1: "fs_ok ?d1 fs" by (simp add: data_change_def)
  have rest1: "chain ?d1 fs (fat_at dev fs c) ds" by (rule data_change_chain [OF ch Cons.prems(1) rest])
  have succ: "get_successor_cluster ?d1 fs c = Some (fat_at dev fs c)"
    using get_successor_has [OF ok1] h(1) data_change_fat [OF ch Cons.prems(1) has_clusterD(2) [OF h(1)]] by simp
  have "length (drop ?b bs) = length ds * ?b" using Cons.prems(3) by simp
  then obtain dev' where ih: "write_existing ?d1 fs c (fat_at dev fs c) (drop ?b bs) = Some (dev', [], last (c # ds))"
      "write_existing ?d1 fs c (fat_at dev fs c) (drop ?b bs @ us) = Some (dev', us, last (c # ds))"
    using Cons.IH [OF ok1 rest1 _ Cons.prems(4)] by blast
  have "write_existing dev fs p c bs = Some (dev', [], last (p # d # ds))"
    using lbs h ih(1) succ cluster_ops [OF Cons.prems(1) h(1)] lb by (subst write_existing.simps) simp
  moreover have "write_existing dev fs p c (bs @ us) = Some (dev', us, last (p # d # ds))"
    using lbs h ih(2) succ cluster_ops [OF Cons.prems(1) h(1)] lb by (subst write_existing.simps) simp
  ultimately show ?case by blast
qed

lemma write_to_file_split:
  assumes "fs_ok dev fs" "bytes_per_cluster fs < 65536" "chain dev fs (first_cluster e) cs"
    "unat off + length b1 = length cs * bytes_per_cluster fs" "unat off < length cs * bytes_per_cluster fs" "length cs \<le> 65536"
  shows "\<exists>dev1. write_to_file dev fs e off b1 = Some (length b1, dev1)
    \<and> write_to_file dev fs e off (b1 @ b2) = do { (dev3, bs3) \<leftarrow> write_extend dev1 fs (last cs) b2; Some (length (b1 @ b2) - length bs3, dev3) }"
proof -
  let ?b = "bytes_per_cluster fs" and ?o = "unat off"
  have b: "0 < ?b" using assms(5) by (cases ?b) auto
  define k m0 where "k = ?o div ?b" and "m0 = ?o mod ?b"
  have o: "?o = k * ?b + m0" "m0 < ?b" using b by (simp_all add: k_def m0_def)
  have k: "k < length cs" unfolding k_def using assms(5) b by (simp add: div_less_iff_less_mult)
  then have k': "?o div ?b < 65536" using assms(6) by (simp add: k_def)
  note st = data_starts_nat [OF k', folded k_def] and of = data_offset_nat [OF k' b assms(2), folded m0_def]
  define c ds where "c = cs ! k" and "ds = drop (Suc k) cs"
  have dr: "drop k cs = c # ds" using k by (simp add: Cons_nth_drop_Suc c_def ds_def)
  have "chain dev fs c (c # ds)" using chain_drop [OF assms(3) k] by (simp add: dr c_def)
  then have h: "has_cluster dev fs c" and rest: "chain dev fs (fat_at dev fs c) ds" by simp_all
  have lds: "length cs = k + 1 + length ds" using k by (simp add: ds_def)
  have b1: "length b1 = (?b - m0) + length ds * ?b" using assms(4) o unfolding lds by (simp add: algebra_simps)
  let ?m = "?b - m0" and ?buf = "patch (cluster_data dev fs c) m0 (take (?b - m0) b1)"
  have lb: "length ?buf = ?b" using cluster_ops(2) [OF assms(1) h] o(2) b1 by (simp add: patch_def)
  let ?d1 = "cluster_put dev fs c ?buf"
  have ch: "data_change fs dev ?d1 {c}" by (rule data_change_put [OF assms(1) h lb])
  then have ok1: "fs_ok ?d1 fs" by (simp add: data_change_def)
  have succ: "get_successor_cluster ?d1 fs c = Some (fat_at dev fs c)"
    using get_successor_has [OF ok1] h data_change_fat [OF ch assms(1) has_clusterD(2) [OF h]] by simp
  have "length (drop ?m b1) = length ds * ?b" using b1 by simp
  then obtain dev1 where we: "write_existing ?d1 fs c (fat_at dev fs c) (drop ?m b1) = Some (dev1, [], last (c # ds))"
      "write_existing ?d1 fs c (fat_at dev fs c) (drop ?m b1 @ b2) = Some (dev1, b2, last (c # ds))"
    using write_existing_full [OF ok1 data_change_chain [OF ch assms(1) rest] _ b] by blast
  have ext: "write_extend x fs q [] = Some (x, [])" for x q by (subst write_extend.simps) simp
  obtain q where seek: "seek_cluster dev fs k 0 (first_cluster e) = Some (q, c)"
    using seek_cluster_eq [OF assms(1,3) k] by (simp add: c_def)
  have last: "last cs = last (c # ds)" using dr k by (metis last_drop)
  have nl: "\<not> length b1 < ?m" "\<not> length (b1 @ b2) < ?m" using b1 by simp_all
  have t: "take ?m (b1 @ b2) = take ?m b1" "drop ?m (b1 @ b2) = drop ?m b1 @ b2" using b1 by simp_all
  have "write_to_file dev fs e off b1 = Some (length b1, dev1)"
    using seek we(1) succ ext cluster_ops [OF assms(1) h] lb nl(1) by (simp add: write_to_file_def st of Let_def)
  moreover have "write_to_file dev fs e off (b1 @ b2) = do { (dev3, bs3) \<leftarrow> write_extend dev1 fs (last cs) b2; Some (length (b1 @ b2) - length bs3, dev3) }"
    unfolding last write_to_file_def st of Let_def if_not_P [OF nl(2)] t
    using seek we(2) succ cluster_ops [OF assms(1) h] lb by simp
  ultimately show ?thesis by blast
qed

lemma chain_last: "chain dev fs c cs \<Longrightarrow> cs \<noteq> [] \<Longrightarrow> \<not> in_chain (fat_at dev fs (last cs))"
proof (induction cs arbitrary: c)
  case (Cons x xs)
  then show ?case by (cases xs) auto
qed simp

lemma chain_inner: "chain dev fs c cs \<Longrightarrow> d \<in> set cs \<Longrightarrow> d \<noteq> last cs \<Longrightarrow> in_chain (fat_at dev fs d)"
proof (induction cs arbitrary: c)
  case (Cons x xs)
  show ?case
  proof (cases xs)
    case (Cons y ys)
    then show ?thesis using Cons.IH [of "fat_at dev fs c"] Cons.prems by auto
  qed (use Cons.prems in simp)
qed simp

lemma chain_extend:
  assumes "chain dev fs c cs" "cs \<noteq> []" "distinct cs" "\<And>d. d \<in> set cs \<Longrightarrow> d \<noteq> last cs \<Longrightarrow> fat_at dev' fs d = fat_at dev fs d"
    "length dev' = length dev" "chain dev' fs (fat_at dev' fs (last cs)) ns"
  shows "chain dev' fs c (cs @ ns)"
  using assms(1-4,6)
proof (induction cs arbitrary: c)
  case (Cons x xs)
  have h: "has_cluster dev' fs x" "x = c" "in_chain c" using Cons.prems(1) has_cluster_length [OF assms(5)] by auto
  show ?case
  proof (cases "xs = []")
    case True
    then show ?thesis using h Cons.prems by simp
  next
    case False
    have "x \<noteq> last xs" using Cons.prems(3) False by auto
    then have "fat_at dev' fs x = fat_at dev fs x" using Cons.prems(4) False by simp
    moreover have "chain dev' fs (fat_at dev fs c) (xs @ ns)" using Cons.IH [of "fat_at dev fs c"] Cons.prems False by auto
    ultimately show ?thesis using h by simp
  qed
qed simp

lemma free_clusters_cong:
  assumes "fat_len fs \<le> 256" "\<And>d. unat d < 256 * fat_len fs \<Longrightarrow> fat_at dev' fs d = fat_at dev fs d"
  shows "free_clusters dev' fs = free_clusters dev fs"
proof -
  have "fat_entry dev' fs n = fat_entry dev fs n" if "n < 256 * fat_len fs" for n
    unfolding fat_entry_def using that assms(1) by (intro assms(2)) (simp add: unat_of_nat_u16)
  then show ?thesis unfolding free_clusters_def by (intro arg_cong [of _ _ "map of_nat"] filter_cong) auto
qed

lemma patch_past_end:
  assumes "off + length b1 = length x" "length z \<le> length y"
  shows "patch x off b1 @ patch y 0 z = patch (x @ y) off (b1 @ z)"
proof -
  have "off + (length b1 + length z) - length x = length z" using assms(1) by simp
  then show ?thesis using assms by (simp add: patch_def)
qed

text \<open>What a write past the end leaves: the chain is longer by \<open>ns\<close>, its bytes are the old ones with \<open>bs\<close> put in at
  \<open>off\<close>, and no other cluster, no other entry of the table and no sector of the root directory changed.\<close>

definition file_grown :: "fat16_t \<Rightarrow> sectors \<Rightarrow> sectors \<Rightarrow> u16 \<Rightarrow> u16 list \<Rightarrow> u16 list \<Rightarrow> nat \<Rightarrow> u8 list \<Rightarrow> bool" where
  "file_grown fs dev dev' c cs ns off bs \<longleftrightarrow> fs_ok dev' fs \<and> length dev' = length dev \<and> chain dev' fs c (cs @ ns) \<and> distinct (cs @ ns)
     \<and> chain_data dev' fs (cs @ ns) = patch (chain_data dev fs (cs @ ns)) off bs
     \<and> (\<forall>d. has_cluster dev fs d \<and> d \<notin> set (cs @ ns) \<longrightarrow> cluster_data dev' fs d = cluster_data dev fs d)
     \<and> (\<forall>d. unat d < 256 * fat_len fs \<and> d \<notin> insert (last cs) (set ns) \<longrightarrow> fat_at dev' fs d = fat_at dev fs d)
     \<and> (\<forall>i. root0 fs \<le> i \<and> i < data0 fs \<longrightarrow> dev' ! i = dev ! i)"

lemma free_not_in_chain:
  assumes "fat_len fs \<le> 256" "chain dev fs c cs" "fat_at dev fs (last cs) \<noteq> 0"
  shows "set cs \<inter> set (free_clusters dev fs) = {}"
proof -
  have "d \<notin> set (free_clusters dev fs)" if "d \<in> set cs" for d
    using free_iff [OF assms(1), of d dev] chain_inner [OF assms(2) that] assms(3) by (cases "d = last cs") auto
  then show ?thesis by blast
qed

lemma fill_then_grow:
  assumes "fs_ok dev fs" "chain dev fs c cs" "cs \<noteq> []" "distinct cs" "fat_len fs \<le> 256" "fat_at dev fs (last cs) \<noteq> 0"
    "data_change fs dev dev1 (set cs)" "chain_data dev1 fs cs = patch (chain_data dev fs cs) off b1"
    "off + length b1 = length cs * bytes_per_cluster fs"
    "grown fs dev1 dev' (last cs) ns b2" "distinct ns" "set ns \<subseteq> set (free_clusters dev fs)" "on_disk dev fs ns"
  shows "file_grown fs dev dev' c cs ns off (b1 @ take (length ns * bytes_per_cluster fs) b2)"
proof -
  let ?b = "bytes_per_cluster fs" and ?z = "take (length ns * bytes_per_cluster fs) b2"
  note g = assms(10) [unfolded grown_def] and dc = assms(7) [unfolded data_change_def]
  note fl = assms(5)
  have fat1: "fat_at dev1 fs d = fat_at dev fs d" if "unat d < 256 * fat_len fs" for d by (rule data_change_fat [OF assms(7,1) that])
  have h1: "has_cluster dev1 fs d = has_cluster dev fs d" for d using dc by (intro has_cluster_length) simp
  have ch1: "chain dev1 fs c cs" by (rule data_change_chain [OF assms(7,1,2)])
  have disj: "set cs \<inter> set ns = {}" using free_not_in_chain [OF fl assms(2,6)] assms(12) by blast
  have inner: "fat_at dev' fs d = fat_at dev1 fs d" if "d \<in> set cs" "d \<noteq> last cs" for d
    using g that disj has_clusterD(2) [OF chain_has [OF assms(2) that(1)]] by blast
  have ch: "chain dev' fs c (cs @ ns)"
    using g by (intro chain_extend [OF ch1 assms(3,4) inner]) simp_all
  have cs': "chain_data dev' fs cs = chain_data dev1 fs cs"
    unfolding chain_data_def using g disj chain_has [OF ch1] by (intro arg_cong [of _ _ concat] map_cong) auto
  have real: "has_cluster dev fs d" if "d \<in> set ns" for d using that assms(13) by (auto simp: on_disk_def)
  have ns': "chain_data dev1 fs ns = chain_data dev fs ns"
    unfolding chain_data_def using dc disj real by (intro arg_cong [of _ _ concat] map_cong) auto
  have lx: "length (chain_data dev fs cs) = length cs * ?b" using length_chain_data [OF assms(1,2)] .
  have ly: "length (chain_data dev fs ns) = length ns * ?b"
    unfolding chain_data_def using real cluster_ops(2) [OF assms(1)] by (subst length_blocks) auto
  have data: "chain_data dev' fs (cs @ ns) = patch (chain_data dev fs (cs @ ns)) off (b1 @ ?z)"
    using g cs' ns' assms(8) patch_past_end [of off b1 "chain_data dev fs cs" ?z "chain_data dev fs ns"] assms(9) lx ly
    by (simp add: chain_data_def)
  have "cluster_data dev' fs d = cluster_data dev fs d" if "has_cluster dev fs d" "d \<notin> set (cs @ ns)" for d
    using g dc that h1 by simp
  moreover have "fat_at dev' fs d = fat_at dev fs d" if "unat d < 256 * fat_len fs" "d \<notin> insert (last cs) (set ns)" for d
    using g fat1 that by simp
  moreover have "dev' ! i = dev ! i" if "root0 fs \<le> i" "i < data0 fs" for i using g dc that by simp
  ultimately show ?thesis unfolding file_grown_def using ch data g dc disj assms(4,11) by auto
qed

lemma write_to_file_grow_eq:
  assumes "fs_ok dev fs" "bytes_per_cluster fs < 65536" "chain dev fs (first_cluster e) cs" "distinct cs" "length cs \<le> 65536"
    "unat off < length cs * bytes_per_cluster fs" "length cs * bytes_per_cluster fs \<le> unat off + length buf"
    "fat_len fs \<le> 256" "fat_at dev fs (last cs) \<noteq> 0"
    "ns = take (clusters_for fs (unat off + length buf - length cs * bytes_per_cluster fs)) (free_clusters dev fs)" "on_disk dev fs ns"
    "n = min (length buf) (length (cs @ ns) * bytes_per_cluster fs - unat off)"
  shows "\<exists>dev'. write_to_file dev fs e off buf = Some (n, dev') \<and> file_grown fs dev dev' (first_cluster e) cs ns (unat off) (take n buf)"
proof -
  let ?b = "bytes_per_cluster fs" and ?o = "unat off"
  define k where "k = length cs * ?b - ?o"
  define b1 b2 where "b1 = take k buf" and "b2 = drop k buf"
  have k: "k \<le> length buf" "?o + k = length cs * ?b" using assms(6,7) by (simp_all add: k_def)
  have b1: "?o + length b1 = length cs * ?b" "length b1 = k" and buf: "buf = b1 @ b2" using k by (simp_all add: b1_def b2_def)
  have ne: "cs \<noteq> []" using assms(6) by auto
  have b: "0 < ?b" using assms(6) by (cases ?b) auto
  note fl = assms(8)
  obtain dev1 where w1: "write_to_file dev fs e off b1 = Some (length b1, dev1)"
      "write_to_file dev fs e off (b1 @ b2) = do { (dev3, bs3) \<leftarrow> write_extend dev1 fs (last cs) b2; Some (length (b1 @ b2) - length bs3, dev3) }"
    using write_to_file_split [OF assms(1-3) b1(1) assms(6,5)] by blast
  have d1: "data_change fs dev dev1 (set cs)" "chain_data dev1 fs cs = patch (chain_data dev fs cs) ?o b1"
    using write_to_file_eq [OF assms(1-4) _ assms(6,5), of b1] b1(1) w1(1) by auto
  have fat1: "fat_at dev1 fs d = fat_at dev fs d" if "unat d < 256 * fat_len fs" for d by (rule data_change_fat [OF d1(1) assms(1) that])
  have ok1: "fs_ok dev1 fs" "length dev1 = length dev" using d1(1) by (simp_all add: data_change_def)
  have h1: "has_cluster dev1 fs d = has_cluster dev fs d" for d by (rule has_cluster_length [OF ok1(2)])
  have "has_cluster dev fs (last cs)" using chain_has [OF assms(3)] ne by simp
  then have l1: "has_cluster dev1 fs (last cs)" "fat_at dev1 fs (last cs) \<noteq> 0" "\<not> in_chain (fat_at dev1 fs (last cs))"
    using h1 fat1 has_clusterD(2) assms(9) chain_last [OF assms(3) ne] by simp_all
  have free: "free_clusters dev1 fs = free_clusters dev fs" using fat1 by (rule free_clusters_cong [OF fl])
  have real: "on_disk dev1 fs ns" using assms(11) on_disk_length [OF ok1(2)] by simp
  have ns: "ns = take (clusters_for fs (length b2)) (free_clusters dev1 fs)"
    unfolding assms(10) free b2_def k_def using assms(6,7) by (simp add: add.commute)
  obtain dev' where ext: "write_extend dev1 fs (last cs) b2 = Some (dev', drop (length ns * ?b) b2)" "grown fs dev1 dev' (last cs) ns b2"
    using write_extend_eq [OF ok1(1) fl l1 b ns real] by blast
  have nsf: "distinct ns" "set ns \<subseteq> set (free_clusters dev fs)" using distinct_free [OF fl, of dev] by (simp_all add: ns free set_take_subset)
  have n: "n = k + min (length b2) (length ns * ?b)"
  proof -
    have "length (cs @ ns) * ?b - ?o = k + length ns * ?b" using k(2) by (simp add: add_mult_distrib)
    moreover have "length buf = k + length b2" using b1(2) by (simp add: buf)
    ultimately show ?thesis unfolding assms(12) by simp
  qed
  have tk: "take n buf = b1 @ take (length ns * ?b) b2"
    unfolding buf n using b1(2) by (cases "length b2 \<le> length ns * ?b") simp_all
  have "write_to_file dev fs e off buf = Some (n, dev')"
    unfolding buf w1(2) ext(1) n using b1(2) by simp
  then show ?thesis
    using fill_then_grow [OF assms(1,3) ne assms(4,8,9) d1 b1(1) ext(2) nsf assms(11)] by (auto simp: tk)
qed

lemma clusters_for_enough:
  assumes "0 < bytes_per_cluster fs"
  shows "n \<le> clusters_for fs n * bytes_per_cluster fs"
proof (cases n)
  case (Suc m)
  then have "clusters_for fs n = Suc (m div bytes_per_cluster fs)" using assms by (simp add: clusters_for_def div_add_self2)
  moreover have "m < Suc (m div bytes_per_cluster fs) * bytes_per_cluster fs" using dividend_less_div_times [OF assms, of m] by simp
  ultimately show ?thesis using Suc by simp
qed simp

lemma distinct_u16_length: "distinct (cs :: u16 list) \<Longrightarrow> length cs \<le> 65536"
  using card_mono [of UNIV "set cs"] by (simp add: distinct_card card_word)

text \<open>A write that begins exactly behind the last cluster is outside of this: the first loop of
  \<^verbatim>\<open>write_to_file\<close> then stops at the end mark, which is taken for the number of the cluster to load.\<close>

lemma seek_past_end:
  assumes "fs_ok dev fs" "chain dev fs c cs" "cs \<noteq> []"
  shows "seek_cluster dev fs (length cs) p c = Some (last cs, fat_at dev fs (last cs))"
  using assms
proof (induction cs arbitrary: c p)
  case (Cons x xs)
  then have "seek_cluster dev fs (length (x # xs)) p c = seek_cluster dev fs (length xs) c (fat_at dev fs c)"
    using get_successor_has [of dev fs c] by auto
  then show ?case using Cons by (cases "xs = []") auto
qed simp

section \<open>Property\<close>

text \<open>
  C14: \<^verbatim>\<open>write_to_file\<close> past the clusters a file has, from an offset inside them.  The free entries of the table
  that the bytes need are taken, lowest first; provided these lie on the disk (the code does not check it, and
  free entries behind them may well name no cluster), the write returns and they are linked to the file's
  chain.  The file then holds its old bytes with the bytes written at the offset, and reading there gives
  them back; fewer bytes are written than were asked for only if no free entry of the table is left.  No
  cluster of another file, no table entry but those of the new clusters and the last old one, and no sector of
  the root directory changes.
\<close>

theorem write_to_file_grows:
  assumes "fs_ok dev fs" "bytes_per_cluster fs < 65536" "chain dev fs (first_cluster e) cs" "distinct cs"
    "unat off < length cs * bytes_per_cluster fs" "length cs * bytes_per_cluster fs \<le> unat off + length buf"
    "fat_len fs \<le> 256" "fat_at dev fs (last cs) \<noteq> 0"
    "on_disk dev fs (take (clusters_for fs (unat off + length buf - length cs * bytes_per_cluster fs)) (free_clusters dev fs))"
  shows "\<exists>n ns dev'. write_to_file dev fs e off buf = Some (n, dev') \<and> chain dev' fs (first_cluster e) (cs @ ns)
    \<and> ns = take (clusters_for fs (unat off + length buf - length cs * bytes_per_cluster fs)) (free_clusters dev fs)
    \<and> n = min (length buf) (length (cs @ ns) * bytes_per_cluster fs - unat off) \<and> (n = length buf \<or> ns = free_clusters dev fs)
    \<and> chain_data dev' fs (cs @ ns) = patch (chain_data dev fs (cs @ ns)) (unat off) (take n buf)
    \<and> read_from_file dev' fs e off (of_nat n) = Some (take n buf)
    \<and> (\<forall>d. has_cluster dev fs d \<and> d \<notin> set (cs @ ns) \<longrightarrow> load_cluster dev' fs d = load_cluster dev fs d)
    \<and> (\<forall>d. unat d < 256 * fat_len fs \<and> d \<notin> insert (last cs) (set ns) \<longrightarrow> fat_at dev' fs d = fat_at dev fs d)
    \<and> (\<forall>i. root0 fs \<le> i \<and> i < data0 fs \<longrightarrow> dev' ! i = dev ! i)"
proof -
  let ?b = "bytes_per_cluster fs" and ?o = "unat off"
  define ns where "ns = take (clusters_for fs (?o + length buf - length cs * ?b)) (free_clusters dev fs)"
  define n where "n = min (length buf) (length (cs @ ns) * ?b - ?o)"
  obtain dev' where w: "write_to_file dev fs e off buf = Some (n, dev')"
      "file_grown fs dev dev' (first_cluster e) cs ns ?o (take n buf)"
    using write_to_file_grow_eq [OF assms(1-4) distinct_u16_length [OF assms(4)] assms(5-8) ns_def assms(9) [folded ns_def] n_def] by blast
  note g = w(2) [unfolded file_grown_def]
  have ok: "fs_ok dev' fs" and len: "length dev' = length dev" and ch: "chain dev' fs (first_cluster e) (cs @ ns)" using g by simp_all
  have l: "length (cs @ ns) \<le> 65536" using g distinct_u16_length by blast
  then have "length (cs @ ns) * ?b \<le> 65536 * 65535" using assms(2) by (intro mult_le_mono) auto
  then have n: "n < 4294967296" unfolding n_def by linarith
  have b: "0 < ?b" using assms(5) by (cases ?b) auto
  have all: "n = length buf \<or> ns = free_clusters dev fs"
  proof (cases "clusters_for fs (?o + length buf - length cs * ?b) \<le> length (free_clusters dev fs)")
    case True
    then have "?o + length buf \<le> length (cs @ ns) * ?b"
      using clusters_for_enough [OF b, of "?o + length buf - length cs * ?b"] by (simp add: ns_def add_mult_distrib)
    then show ?thesis by (simp add: n_def)
  qed (simp add: ns_def)
  have o: "?o < length (cs @ ns) * ?b" using assms(5) by (simp add: add_mult_distrib)
  have "read_from_file dev' fs e off (of_nat n) = Some (take n buf)"
    using read_from_file_eq [OF ok assms(2) ch o l, of "of_nat n"] g n length_chain_data [OF ok ch] o
    by (simp add: unat_of_nat patch_def n_def)
  moreover have "load_cluster dev' fs d = load_cluster dev fs d" if "has_cluster dev fs d" "d \<notin> set (cs @ ns)" for d
    using g that cluster_ops(1) [OF ok] cluster_ops(1) [OF assms(1) that(1)] has_cluster_length [OF len, of fs d] by simp
  ultimately show ?thesis using w(1) all g ns_def n_def by blast
qed

text \<open>The disk of the examples: cluster 4 is free, and so are the entries behind it, for which there is no cluster.\<close>

definition grow_dev :: sectors where
  "grow_dev = demo_dev[1 := [0xF8, 0xFF, 0xFF, 0xFF, 3, 0, 0xFF, 0xFF] @ replicate 504 0]"

lemma grow_ok: "fs_ok grow_dev demo_fs"
  unfolding fs_ok_def demo_layout by (simp add: grow_dev_def demo_dev_def demo_fs_def)

lemma grow_has: "has_cluster grow_dev demo_fs c = has_cluster demo_dev demo_fs c"
  by (rule has_cluster_length) (simp add: grow_dev_def)

lemma grow_fat_at: "fat_at grow_dev demo_fs 2 = 3" "fat_at grow_dev demo_fs 3 = 0xFFFF"
  by (simp_all add: fat_at_def demo_layout grow_dev_def demo_dev_def le16_def)

lemma grow_chain: "chain grow_dev demo_fs (first_cluster demo_entry) [2, 3]"
  using demo_has by (simp add: grow_has grow_fat_at demo_entry_def)

lemma grow_free: "free_clusters grow_dev demo_fs = 4 # map of_nat [5..<256]"
proof -
  have "[0..<256] = [0..<5] @ [5..<256]" by (simp add: upt_add_eq_append [of 0 5 251, simplified])
  moreover have "fat_entry grow_dev demo_fs c = 0" if "5 \<le> c" "c < 256" for c
    using that by (simp add: fat_entry_def fat_at_def demo_layout grow_dev_def demo_dev_def le16_def unat_of_nat_u16 nth_append)
  moreover have "filter (\<lambda>c. fat_entry grow_dev demo_fs c = 0) [0..<5] = [4]"
    by (simp add: fat_entry_def fat_at_def demo_layout grow_dev_def demo_dev_def le16_def upt_rec)
  ultimately show ?thesis by (simp add: free_clusters_def demo_layout filter_True)
qed

lemma grow_take: "take 1 (free_clusters grow_dev demo_fs) = [4]" "take (Suc 0) (free_clusters grow_dev demo_fs) = [4]"
  by (simp_all only: grow_free take_Suc_Cons One_nat_def take_0)

lemma grow_real: "on_disk grow_dev demo_fs [4]"
  using demo_has(3) by (simp add: grow_has)

theorem write_to_file_grows_witness:
  "\<exists>dev'. write_to_file grow_dev demo_fs demo_entry 1022 [1, 2, 3] = Some (3, dev')
     \<and> chain dev' demo_fs (first_cluster demo_entry) [2, 3, 4] \<and> read_from_file dev' demo_fs demo_entry 1022 3 = Some [1, 2, 3]"
proof -
  have "clusters_for demo_fs 1 = 1" by (simp add: clusters_for_def demo_layout)
  then show ?thesis
    using write_to_file_grows [OF grow_ok _ grow_chain, of 1022 "[1, 2, 3]"] grow_real
    by (auto simp: demo_layout grow_take grow_fat_at)
qed

end
