(* ===== verification/Reopen.thy ===== *)
theory Reopen
  imports Programs Growth
begin

text \<open>
  What is left on the disk of a file that has been written.  \<^verbatim>\<open>sys_write\<close> of \<^verbatim>\<open>src/os/src/kernel/file.c\<close> records a new size in
  the directory entry on the disk (\<^verbatim>\<open>update_file_details\<close>, \<^verbatim>\<open>update_root_directory_entry\<close>), and \<^verbatim>\<open>sys_open\<close> looks the entry up
  there (\<^verbatim>\<open>get_root_dir\<close>, \<^verbatim>\<open>find_file\<close>).  The first part relates the loops over the sectors of the root directory to the list of its
  slots; the second shows that the slot that is updated is the one that is listed under the name, although
  the two searches compare names in different ways; the third puts writing, closing, opening and reading together.
  The statements are about files of the root directory with an extension of three characters, the only ones whose
  entry the code finds again.
\<close>

section \<open>Slots of the root directory\<close>

text \<open>The slots in the order in which the code looks at them: sector and number of the entry in it.\<close>

definition all_slots :: "fat16_t \<Rightarrow> (nat \<times> nat) list" where
  "all_slots fs = List.product [0..<root_len fs] [0..<16]"

definition slot_byte :: "sectors \<Rightarrow> fat16_t \<Rightarrow> nat \<times> nat \<Rightarrow> u8" where
  "slot_byte dev fs sl = dev ! (root0 fs + fst sl) ! (32 * snd sl)"

definition slot_entry :: "sectors \<Rightarrow> fat16_t \<Rightarrow> nat \<times> nat \<Rightarrow> fat16_dir_entry_t" where
  "slot_entry dev fs sl = parse_entry (0, 0) (dev ! (root0 fs + fst sl)) (32 * snd sl)"

definition listed :: "sectors \<Rightarrow> fat16_t \<Rightarrow> (nat \<times> nat) list \<Rightarrow> (nat \<times> nat) list" where
  "listed dev fs sls = filter (\<lambda>sl. slot_byte dev fs sl \<noteq> 0xe5) (takeWhile (\<lambda>sl. slot_byte dev fs sl \<noteq> 0) sls)"

lemma listed_append:
  "listed dev fs (xs @ ys) = (if \<exists>sl \<in> set xs. slot_byte dev fs sl = 0 then listed dev fs xs else listed dev fs xs @ listed dev fs ys)"
proof (cases "\<exists>sl \<in> set xs. slot_byte dev fs sl = 0")
  case False
  then have t: "takeWhile (\<lambda>sl. slot_byte dev fs sl \<noteq> 0) xs = xs" by (simp add: takeWhile_eq_all_conv)
  show ?thesis using False by (simp add: listed_def takeWhile_append2 t)
qed (auto simp: listed_def takeWhile_append1)

lemma sector_entries_listed:
  "sector_entries fresh_heap (dev ! (root0 fs + i)) n js
     = (\<exists>j \<in> set js. slot_byte dev fs (i, j) = 0, map (slot_entry dev fs) (listed dev fs (map (Pair i) js)))"
  by (induction js arbitrary: n) (auto simp: listed_def slot_byte_def slot_entry_def fresh_heap_def split: prod.splits)

lemma root_dir_loop_listed:
  assumes "fs_ok dev fs" "num_reserved_sectors fs = 1" "\<forall>i \<in> set is. i < root_len fs"
  shows "root_dir_loop fresh_heap dev fs is es = Some (es @ map (slot_entry dev fs) (listed dev fs (List.product is [0..<16])))"
  using assms(3)
proof (induction "is" arbitrary: es)
  case Nil
  then show ?case by (simp add: listed_def)
next
  case (Cons i "is")
  note ok = fs_okD [OF assms(1)]
  have r: "unat (root_directory_region_start (calculate_regions fs)) = root0 fs" using regions_nat(2) [OF ok(1,2)] .
  have "1 + ucast (num_sectors_per_file_allocation_table fs) * ucast (num_file_allocation_tables fs) = root_directory_region_start (calculate_regions fs)"
    using assms(2) by (simp add: calculate_regions_def Let_def mult.commute)
  then have rd: "fs_rd dev (1 + ucast (num_sectors_per_file_allocation_table fs) * ucast (num_file_allocation_tables fs) + of_nat i) (bps fs)
      = Some (dev ! (root0 fs + i))"
    using Cons.prems ok r unat_add_nat [of "root_directory_region_start (calculate_regions fs)" i]
    by (simp only: fs_rd_def) (simp add: data0_def)
  have t: "add_sector_dir_entries_to_list fresh_heap fs (dev ! (root0 fs + i)) es
      = (\<exists>sl \<in> set (map (Pair i) [0..<16]). slot_byte dev fs sl = 0, es @ map (slot_entry dev fs) (listed dev fs (map (Pair i) [0..<16])))"
    using ok(1) by (simp add: add_sector_dir_entries_to_list_def sector_entries_listed)
  show ?case unfolding root_dir_loop.simps rd product.simps listed_append using Cons by (simp add: t)
qed

lemma get_root_dir_listed:
  assumes "fs_ok dev fs" "num_reserved_sectors fs = 1"
  shows "get_root_dir fresh_heap dev fs = Some (map (slot_entry dev fs) (listed dev fs (all_slots fs)))"
proof -
  have "unat (num_root_directory_entries fs) div (bps fs div 32) = root_len fs"
    using fs_okD(1) [OF assms(1)] by (simp add: root_len_def)
  then show ?thesis using root_dir_loop_listed [OF assms] by (simp add: get_root_dir_def all_slots_def)
qed


section \<open>Names in slots\<close>

lemma parse_entry_name:
  "k < 8 \<Longrightarrow> filename (parse_entry (0, 0) buf off) ! k = (if k = 0 \<and> buf ! off = 0x05 then 0xe5 else unpad (buf ! (off + k)))"
  "length (filename (parse_entry (0, 0) buf off)) = 9" "filename (parse_entry (0, 0) buf off) ! 8 = 0"
  "k < 3 \<Longrightarrow> extension (parse_entry (0, 0) buf off) ! k = unpad (buf ! (off + 8 + k))"
  "length (extension (parse_entry (0, 0) buf off)) = 4" "extension (parse_entry (0, 0) buf off) ! 3 = 0"
proof -
  have "map f [8..<11] @ [z] = [f 8, f 9, f 10, z]" for f :: "nat \<Rightarrow> u8" and z by (simp add: upt_rec)
  then show "k < 3 \<Longrightarrow> extension (parse_entry (0, 0) buf off) ! k = unpad (buf ! (off + 8 + k))"
      "length (extension (parse_entry (0, 0) buf off)) = 4" "extension (parse_entry (0, 0) buf off) ! 3 = 0"
    by (auto simp: parse_entry_def Let_def unpad_def numeral_3_eq_3 less_Suc_eq add.assoc)
qed (auto simp: parse_entry_def Let_def unpad_def nth_append nth_list_update)

lemma name_matches_iff_from:
  "k \<le> 8 \<Longrightarrow> name_matches buf nm off k \<longleftrightarrow>
     (\<exists>m. 8 - k \<le> m \<and> m \<le> 8 \<and> (\<forall>q. 8 - k \<le> q \<and> q < m \<longrightarrow> buf ! (off + q) = nm ! q) \<and> (m < 8 \<longrightarrow> buf ! (off + m) = 0x20 \<and> nm ! m = 0))"
proof (induction k)
  case 0
  then show ?case by (auto intro: exI [of _ 8])
next
  case (Suc k)
  define j where "j = 8 - Suc k"
  have j: "8 - k = Suc j" "j < 8" using Suc.prems by (simp_all add: j_def)
  let ?P = "\<lambda>l m. l \<le> m \<and> m \<le> 8 \<and> (\<forall>q. l \<le> q \<and> q < m \<longrightarrow> buf ! (off + q) = nm ! q) \<and> (m < 8 \<longrightarrow> buf ! (off + m) = 0x20 \<and> nm ! m = 0)"
  have iff: "(\<exists>m. ?P j m) \<longleftrightarrow> buf ! (off + j) = 0x20 \<and> nm ! j = 0 \<or> buf ! (off + j) = nm ! j \<and> (\<exists>m. ?P (Suc j) m)"
  proof
    assume "\<exists>m. ?P j m"
    then obtain m where m: "?P j m" by blast
    then show "buf ! (off + j) = 0x20 \<and> nm ! j = 0 \<or> buf ! (off + j) = nm ! j \<and> (\<exists>m. ?P (Suc j) m)"
      using j(2) by (cases "m = j") (auto intro!: exI [of _ m])
  next
    assume "buf ! (off + j) = 0x20 \<and> nm ! j = 0 \<or> buf ! (off + j) = nm ! j \<and> (\<exists>m. ?P (Suc j) m)"
    then show "\<exists>m. ?P j m"
    proof
      assume "buf ! (off + j) = 0x20 \<and> nm ! j = 0"
      then show ?thesis using j(2) by (intro exI [of _ j]) auto
    next
      assume "buf ! (off + j) = nm ! j \<and> (\<exists>m. ?P (Suc j) m)"
      then obtain m where "buf ! (off + j) = nm ! j" "?P (Suc j) m" by blast
      moreover from this have "\<forall>q. j \<le> q \<and> q < m \<longrightarrow> buf ! (off + q) = nm ! q" by (metis Suc_leI le_neq_implies_less)
      ultimately show ?thesis by (intro exI [of _ m]) simp
    qed
  qed
  have ih: "name_matches buf nm off k \<longleftrightarrow> (\<exists>m. ?P (Suc j) m)" using Suc.IH Suc.prems unfolding j(1) by simp
  show ?case unfolding name_matches.simps Let_def j_def [symmetric] ih iff
    by (cases "buf ! (off + j) = 0x20 \<and> nm ! j = 0") (simp_all only: if_True if_False simp_thms)
qed

lemma cstring_eqI:
  assumes "length n < length xs" "\<And>k. k < length n \<Longrightarrow> xs ! k = n ! k" "xs ! length n = 0" "0 \<notin> set n"
  shows "cstring xs = n"
proof -
  have "xs = n @ 0 # drop (Suc (length n)) xs"
    using assms(1-3) by (metis append_take_drop_id Cons_nth_drop_Suc nth_take_lemma order_less_imp_le order_refl take_all_iff)
  then show ?thesis using assms(4) cstring_append_zero by metis
qed

lemma cstring_nth:
  assumes "cstring xs = n" "length n < length xs"
  shows "k < length n \<Longrightarrow> xs ! k = n ! k" "xs ! length n = 0"
proof -
  show "xs ! k = n ! k" if "k < length n" using that assms unfolding cstring_def by (metis takeWhile_nth)
  show "xs ! length n = 0" using assms unfolding cstring_def by (metis (mono_tags, lifting) nth_length_takeWhile)
qed


lemmas name_matches_iff = name_matches_iff_from [of 8, simplified]

text \<open>A slot matches the name that the listing shows for it, if the extension has three characters.\<close>

lemma entry_matches_own:
  assumes "buf ! off \<noteq> 0x05" "length (cstring (extension (parse_entry (0, 0) buf off))) = 3"
  shows "entry_matches buf off (filename (parse_entry (0, 0) buf off)) (extension (parse_entry (0, 0) buf off))"
proof -
  let ?e = "parse_entry (0, 0) buf off"
  have x: "buf ! (off + 8 + j) = extension ?e ! j" if "j < 3" for j
  proof -
    have "j < length (cstring (extension ?e))" "extension ?e ! j = cstring (extension ?e) ! j"
      using cstring_nth(1) [OF refl, of "extension ?e" j] assms(2) that parse_entry_name(5) [of buf off] by simp_all
    then have "extension ?e ! j \<noteq> 0" using zero_notin_cstring [of "extension ?e"] by (metis nth_mem)
    then show ?thesis using parse_entry_name(4) [OF that, of buf off] by (simp add: unpad_def split: if_splits)
  qed
  define m where "m = (LEAST k. k = 8 \<or> buf ! (off + k) = 0x20)"
  have m: "m = 8 \<or> buf ! (off + m) = 0x20" unfolding m_def by (rule LeastI [of _ 8]) simp
  have m8: "m \<le> 8" unfolding m_def by (rule Least_le) simp
  have nm: "filename ?e ! q = unpad (buf ! (off + q))" if "q < 8" for q using parse_entry_name(1) [OF that, of buf off] assms(1) by simp
  have "buf ! (off + q) = filename ?e ! q" if "q < m" for q
    using not_less_Least [OF that [unfolded m_def]] nm [of q] that m8 by (simp add: unpad_def)
  moreover have "m < 8 \<longrightarrow> buf ! (off + m) = 0x20 \<and> filename ?e ! m = 0" using m nm [of m] by (auto simp: unpad_def)
  ultimately have "name_matches buf (filename ?e) off 8" unfolding name_matches_iff using m8 by blast
  then show ?thesis using x by (simp add: entry_matches_def)
qed

text \<open>A slot that matches a name of the listing is itself listed under that name.\<close>

lemma entry_matches_named:
  assumes "entry_matches buf off (filename e) (extension e)" "named n x e" "length n < 8" "length x = 3" "n \<noteq> []"
    "length (filename e) = 9" "length (extension e) = 4" "0x20 \<notin> set n" "0x20 \<notin> set x" "n ! 0 \<noteq> 0x05"
  shows "named n x (parse_entry (0, 0) buf off)" "buf ! off = n ! 0"
proof -
  let ?e = "parse_entry (0, 0) buf off"
  have n: "cstring (filename e) = n" "cstring (extension e) = x" using assms(2) by (simp_all add: named_def)
  note cn = cstring_nth [OF n(1)] and cx = cstring_nth [OF n(2)]
  have z: "0 \<notin> set n" "0 \<notin> set x" using n zero_notin_cstring by blast+
  obtain m where m: "m \<le> 8" "\<forall>q<m. buf ! (off + q) = filename e ! q" "m < 8 \<longrightarrow> buf ! (off + m) = 0x20 \<and> filename e ! m = 0"
    using assms(1) unfolding entry_matches_def name_matches_iff by blast
  have len: "length n \<le> m"
  proof (rule ccontr)
    assume "\<not> length n \<le> m"
    then have "filename e ! m = n ! m" "n ! m \<in> set n" "m < 8" using cn(1) [of m] assms(3,6) by simp_all
    then show False using m(3) z(1) by simp
  qed
  have raw: "buf ! (off + q) = n ! q" if "q < length n" for q using that m(2) len cn(1) [of q] assms(3,6) by simp
  show first: "buf ! off = n ! 0" using raw [of 0] assms(5) by simp
  have at: "unpad (buf ! (off + length n)) = 0"
    using m(2,3) len cn(2) assms(3,6) by (cases "length n = m") (auto simp: unpad_def)
  have "cstring (filename ?e) = n"
  proof (rule cstring_eqI)
    show "filename ?e ! k = n ! k" if "k < length n" for k
    proof -
      have "n ! k \<noteq> 0x20" using that assms(8) by (metis nth_mem)
      then show ?thesis using that raw [OF that] assms(3,10) first parse_entry_name(1) [of k buf off] by (simp add: unpad_def)
    qed
    show "filename ?e ! length n = 0" using at assms(3,5) parse_entry_name(1) [of "length n" buf off] by simp
  qed (use assms(3) z parse_entry_name(2) in simp_all)
  moreover have "cstring (extension ?e) = x"
  proof (rule cstring_eqI)
    show "extension ?e ! k = x ! k" if "k < length x" for k
    proof -
      have "x ! k \<noteq> 0x20" using that assms(9) by (metis nth_mem)
      then show ?thesis using that assms(1,4,7) cx(1) [of k] parse_entry_name(4) [of k buf off] by (simp add: unpad_def entry_matches_def)
    qed
  qed (use assms(4) z parse_entry_name(5,6) in simp_all)
  ultimately show "named n x ?e" by (simp add: named_def)
qed


section \<open>Updating an entry\<close>

lemma slots_before:
  assumes "all_slots fs = pre @ (i, j) # post"
  shows "i < root_len fs" "j < 16" "i' < i \<Longrightarrow> j' < 16 \<Longrightarrow> (i', j') \<in> set pre" "j' < j \<Longrightarrow> (i, j') \<in> set pre"
proof -
  have "(i, j) \<in> set (all_slots fs)" using assms by simp
  then show ij: "i < root_len fs" "j < 16" by (auto simp: all_slots_def)
  have sorted: "sorted_wrt (\<lambda>a b. fst a < fst b \<or> fst a = fst b \<and> snd a < snd b) (List.product xs ys)" if "sorted_wrt (<) xs" "sorted_wrt (<) ys" for xs ys :: "nat list"
    using that by (induction xs) (auto simp: sorted_wrt_append sorted_wrt_map)
  have "sorted_wrt (\<lambda>a b. fst a < fst b \<or> fst a = fst b \<and> snd a < snd b) (all_slots fs)"
    unfolding all_slots_def by (rule sorted) simp_all
  then have later: "i < a \<or> i = a \<and> j < b" if "(a, b) \<in> set post" for a b using that unfolding assms by (force simp: sorted_wrt_append)
  show "(i', j') \<in> set pre" if "i' < i" "j' < 16"
  proof -
    have "(i', j') \<in> set (all_slots fs)" using that ij by (simp add: all_slots_def)
    then show ?thesis using that later [of i' j'] by (auto simp: assms)
  qed
  show "(i, j') \<in> set pre" if "j' < j"
  proof -
    have "(i, j') \<in> set (all_slots fs)" using that ij by (simp add: all_slots_def)
    then show ?thesis using that later [of i j'] by (auto simp: assms)
  qed
qed

text \<open>\<^verbatim>\<open>update_root_directory_entry\<close> stores the entry in the first slot that matches the old name.\<close>

lemma update_root_entry_slot:
  assumes "fs_ok dev fs" "data0 fs < 65535" "data0 fs < length dev" "all_slots fs = pre @ (i, j) # post"
    "entry_matches (dev ! (root0 fs + i)) (32 * j) nm ex"
    "\<forall>(i', j') \<in> set pre. \<not> entry_matches (dev ! (root0 fs + i')) (32 * j') nm ex"
  shows "update_root_directory_entry dev fs e nm ex
    = Some (0, dev[root0 fs + i := store_entry (filename e ! 0) (32 * j) e (dev ! (root0 fs + i))])"
proof -
  note ok = fs_okD [OF assms(1)] and sl = slots_before [OF assms(4)]
  let ?look = "\<lambda>s. find_file_in_root_directory_sector fs s nm ex"
  have no: "?look (dev ! (root0 fs + k)) = None" if "k < i" for k
    using sl(3) [OF that] assms(6) ok(1)
    by (auto simp: find_file_in_root_directory_sector_def find_None_iff mult.commute)
  have "List.find (\<lambda>k. entry_matches (dev ! (root0 fs + i)) (k * 32) nm ex) [0..<16] = Some j"
    using sl(2) assms(5) sl(4) assms(6) by (subst find_upt_least) (auto simp: mult.commute)
  then have yes: "?look (dev ! (root0 fs + i)) = Some (32 * j)" using ok(1) by (simp add: find_file_in_root_directory_sector_def)
  have f: "List.find (\<lambda>k. ?look (dev ! (root0 fs + k)) \<noteq> None) [0..<Suc (root_len fs)] = Some i"
    using sl(1) yes no by (subst find_upt_least) auto
  have r: "ucast (root_directory_region_start (calculate_regions fs)) = (of_nat (root0 fs + 0) :: u16)"
    using regions_nat(2) [OF ok(1,2)] by (metis add.right_neutral of_nat_unat)
  have lt: "root0 fs + i < 65536" "root0 fs + i < length dev" using sl(1) assms(2,3) by (simp_all add: data0_def)
  then have u: "unat (ucast (of_nat (root0 fs + i) :: u16) :: u32) = root0 fs + i" using unat_of_nat_u16 [OF lt(1)] by simp
  have "root_search dev fs ?look (ucast (root_directory_region_start (calculate_regions fs)))
      = Some (Some (of_nat (root0 fs + i), dev ! (root0 fs + i), 32 * j))"
    unfolding r using root_search_from [OF assms(1-3), of 0 ?look] f yes by simp
  then show ?thesis unfolding update_root_directory_entry_def using lt u by (simp add: fs_wr_def)
qed


lemma find_first_iff:
  "List.find P (map f (filter Q (takeWhile R xs))) = Some e \<longleftrightarrow>
     (\<exists>pre y post. xs = pre @ y # post \<and> f y = e \<and> P e \<and> R y \<and> Q y \<and> (\<forall>t \<in> set pre. R t \<and> (Q t \<longrightarrow> \<not> P (f t))))"
  (is "?F xs \<longleftrightarrow> (\<exists>pre y post. ?Q xs pre y post)")
proof (induction xs)
  case (Cons t xs)
  have split: "(\<exists>pre y post. ?Q (t # xs) pre y post) \<longleftrightarrow>
      ?Q (t # xs) [] t xs \<or> R t \<and> (Q t \<longrightarrow> \<not> P (f t)) \<and> (\<exists>pre y post. ?Q xs pre y post)" (is "?L \<longleftrightarrow> ?R")
  proof
    assume ?L
    then obtain pre y post where q: "?Q (t # xs) pre y post" by blast
    show ?R
    proof (cases pre)
      case (Cons u us)
      then have "u = t" "?Q xs us y post" using q by simp_all
      then show ?thesis using q Cons by auto
    qed (use q in auto)
  next
    assume ?R
    then show ?L
    proof
      assume "R t \<and> (Q t \<longrightarrow> \<not> P (f t)) \<and> (\<exists>pre y post. ?Q xs pre y post)"
      then obtain pre y post where "?Q (t # xs) (t # pre) y post" by auto
      then show ?L by blast
    qed blast
  qed
  have step: "?F (t # xs) \<longleftrightarrow> R t \<and> (if Q t \<and> P (f t) then f t = e else ?F xs)" by simp
  show ?case unfolding split step Cons.IH [symmetric] by auto
qed simp

lemmas find_listed_iff = find_first_iff [of _ "slot_entry dev fs" "\<lambda>sl. slot_byte dev fs sl \<noteq> 0xe5" "\<lambda>sl. slot_byte dev fs sl \<noteq> 0" for dev fs, folded listed_def]

lemma listed_name:
  assumes "named n x (slot_entry dev fs sl)" "n \<noteq> []"
  shows "0x20 \<notin> set n" "0x20 \<notin> set x" "n ! 0 \<noteq> 0x05" "n ! 0 = filename (slot_entry dev fs sl) ! 0" "n ! 0 \<noteq> 0"
    "n ! 0 \<noteq> 0xe5 \<Longrightarrow> slot_byte dev fs sl \<noteq> 0x05"
    "map unpad (take 8 (filename (slot_entry dev fs sl))) @ [0] = filename (slot_entry dev fs sl)"
    "map unpad (take 3 (extension (slot_entry dev fs sl))) @ [0] = extension (slot_entry dev fs sl)"
proof -
  let ?e = "slot_entry dev fs sl"
  note nm = parse_entry_name [where buf = "dev ! (root0 fs + fst sl)" and off = "32 * snd sl", folded slot_entry_def]
  have u: "unpad v \<noteq> 0x20" for v by (simp add: unpad_def)
  have f: "filename ?e ! k \<noteq> 0x20" if "k < 9" for k
    using that nm(1) [of k] nm(3) u by (cases "k = 8") auto
  have g: "extension ?e ! k \<noteq> 0x20" if "k < 4" for k
    using that nm(4) [of k] nm(6) u by (cases "k = 3") auto
  have sub: "set (cstring zs) \<subseteq> set zs" for zs unfolding cstring_def by (auto dest: set_takeWhileD)
  have n: "cstring (filename ?e) = n" "cstring (extension ?e) = x" using assms(1) by (simp_all add: named_def)
  show "0x20 \<notin> set n" using sub [of "filename ?e"] f nm(2) unfolding n by (metis in_set_conv_nth subsetD)
  show "0x20 \<notin> set x" using sub [of "extension ?e"] g nm(5) unfolding n by (metis in_set_conv_nth subsetD)
  show n0: "n ! 0 = filename ?e ! 0" using n(1) assms(2) by (metis cstring_def length_greater_0_conv takeWhile_nth)
  show "n ! 0 \<noteq> 0" using n(1) assms(2) zero_notin_cstring by (metis length_greater_0_conv nth_mem)
  show "n ! 0 \<noteq> 0x05" "n ! 0 \<noteq> 0xe5 \<Longrightarrow> slot_byte dev fs sl \<noteq> 0x05"
    unfolding n0 using nm(1) [of 0] by (auto simp: slot_byte_def unpad_def split: if_splits)
  have pad: "map unpad (take k zs) @ [0] = zs" if "length zs = Suc k" "zs ! k = 0" "\<And>i. i < Suc k \<Longrightarrow> zs ! i \<noteq> 0x20" for k zs
  proof -
    have "map unpad (take k zs) = take k zs" using that(1,3) by (intro map_idI) (auto simp: unpad_def in_set_conv_nth)
    then show ?thesis using that(1,2) take_Suc_conv_app_nth [of k zs] by simp
  qed
  show "map unpad (take 8 (filename ?e)) @ [0] = filename ?e" using nm(2,3) f by (intro pad) simp_all
  show "map unpad (take 3 (extension ?e)) @ [0] = extension ?e" using nm(5,6) g by (intro pad) simp_all
qed

text \<open>The sector with the new entry: the slot has it, every other slot is as before.\<close>

lemma slot_after_store:
  assumes "fs_ok dev fs" "i < root_len fs" "j < 16" "slot_entry dev fs (i, j) = e" "named n x e" "n \<noteq> []" "n ! 0 \<noteq> 0xe5"
    "dev' = dev[root0 fs + i := store_entry (filename e ! 0) (32 * j) (e\<lparr>file_size_bytes := sz\<rparr>) (dev ! (root0 fs + i))]"
  shows "slot_entry dev' fs (i, j) = e\<lparr>file_size_bytes := sz\<rparr>" "slot_byte dev' fs (i, j) = n ! 0"
    "k < root_len fs \<Longrightarrow> (k, l) \<noteq> (i, j) \<Longrightarrow> slot_entry dev' fs (k, l) = slot_entry dev fs (k, l) \<and> slot_byte dev' fs (k, l) = slot_byte dev fs (k, l)"
proof -
  let ?o = "dev ! (root0 fs + i)" and ?e = "e\<lparr>file_size_bytes := sz\<rparr>"
  have lt: "root0 fs + i < length dev" using assms(2) fs_okD(3) [OF assms(1)] by (simp add: data0_def)
  have len: "32 * j + 32 \<le> length ?o" using fs_okD(6) [OF assms(1) lt] assms(3) by simp
  note ln = listed_name [of n x dev fs "(i, j)", unfolded assms(4), OF assms(5,6)]
  have lens: "length (filename e) = 9" "length (extension e) = 4"
    using parse_entry_name(2,5) assms(4) by (auto simp: slot_entry_def)
  have first: "new_first_char ?e = filename e ! 0" using ln(4) assms(7) by (simp add: new_first_char_def)
  have rt: "parse_entry (0, 0) (store_entry (filename e ! 0) (32 * j) ?e ?o) (32 * j) = ?e"
      "k + 32 \<le> 32 * j \<or> 32 * j + 32 \<le> k \<Longrightarrow> parse_entry (0, 0) (store_entry (filename e ! 0) (32 * j) ?e ?o) k = parse_entry (0, 0) ?o k" for k
    using directory_entry_roundtrip [OF len, of ?e "(0, 0)"] lens ln(3,4,7,8) unfolding first by auto
  show "slot_entry dev' fs (i, j) = ?e" using rt(1) lt by (simp add: slot_entry_def assms(8))
  show "slot_byte dev' fs (i, j) = n ! 0" using store_entry_bytes(1) [OF len] lt ln(4) by (simp add: slot_byte_def assms(8))
  show "slot_entry dev' fs (k, l) = slot_entry dev fs (k, l) \<and> slot_byte dev' fs (k, l) = slot_byte dev fs (k, l)"
    if "k < root_len fs" "(k, l) \<noteq> (i, j)"
  proof (cases "k = i")
    case True
    then have "32 * l + 32 \<le> 32 * j \<or> 32 * j + 32 \<le> 32 * l" using that(2) by auto
    then show ?thesis using rt(2) [of "32 * l"] store_entry_outside [of "32 * l" "32 * j"] lt True
      by (auto simp: slot_entry_def slot_byte_def assms(8))
  qed (simp add: slot_entry_def slot_byte_def assms(8))
qed

text \<open>The update of the size of a listed file: it is then listed with the new size.\<close>

lemma root_entry_updated:
  assumes "fs_ok dev fs" "data0 fs < 65535" "data0 fs < length dev"
    "List.find (named n x) (map (slot_entry dev fs) (listed dev fs (all_slots fs))) = Some e"
    "n \<noteq> []" "length n < 8" "length x = 3" "n ! 0 \<noteq> 0xe5"
  shows "\<exists>i sec. i < root_len fs \<and> length sec = 512
    \<and> update_root_directory_entry dev fs (e\<lparr>file_size_bytes := sz\<rparr>) (filename e) (extension e) = Some (0, dev[root0 fs + i := sec])
    \<and> List.find (named n x) (map (slot_entry (dev[root0 fs + i := sec]) fs) (listed (dev[root0 fs + i := sec]) fs (all_slots fs)))
        = Some (e\<lparr>file_size_bytes := sz\<rparr>)"
proof -
  obtain pre i j post where sl: "all_slots fs = pre @ (i, j) # post" "slot_entry dev fs (i, j) = e" "named n x e"
      "slot_byte dev fs (i, j) \<noteq> 0" "slot_byte dev fs (i, j) \<noteq> 0xe5"
      "\<forall>t \<in> set pre. slot_byte dev fs t \<noteq> 0 \<and> (slot_byte dev fs t \<noteq> 0xe5 \<longrightarrow> \<not> named n x (slot_entry dev fs t))"
    using assms(4) unfolding find_listed_iff by force
  note ij = slots_before(1,2) [OF sl(1)]
  let ?o = "dev ! (root0 fs + i)"
  define sec where "sec = store_entry (filename e ! 0) (32 * j) (e\<lparr>file_size_bytes := sz\<rparr>) ?o"
  define dev' where "dev' = dev[root0 fs + i := sec]"
  have lt: "root0 fs + i < length dev" using ij(1) fs_okD(3) [OF assms(1)] by (simp add: data0_def)
  have len: "length sec = 512" using fs_okD(6) [OF assms(1) lt] by (simp add: sec_def)
  note ln = listed_name [of n x dev fs "(i, j)", unfolded sl(2), OF sl(3) assms(5)]
  have lens: "length (filename e) = 9" "length (extension e) = 4"
    using parse_entry_name(2,5) sl(2) by (auto simp: slot_entry_def)
  have own: "entry_matches ?o (32 * j) (filename e) (extension e)"
    using entry_matches_own [of ?o "32 * j"] ln(6) assms(7,8) sl(2,3) by (simp add: slot_byte_def slot_entry_def named_def)
  have none: "\<forall>(k, l) \<in> set pre. \<not> entry_matches (dev ! (root0 fs + k)) (32 * l) (filename e) (extension e)"
  proof safe
    fix k l assume kl: "(k, l) \<in> set pre" "entry_matches (dev ! (root0 fs + k)) (32 * l) (filename e) (extension e)"
    from entry_matches_named [OF kl(2) sl(3) assms(6,7,5) lens ln(1-3)]
    have "named n x (slot_entry dev fs (k, l))" "slot_byte dev fs (k, l) = n ! 0" by (simp_all add: slot_entry_def slot_byte_def)
    then show False using sl(6) kl(1) assms(8) by auto
  qed
  have up: "update_root_directory_entry dev fs (e\<lparr>file_size_bytes := sz\<rparr>) (filename e) (extension e) = Some (0, dev')"
    using update_root_entry_slot [OF assms(1-3) sl(1) own none] by (simp add: dev'_def sec_def)
  note after = slot_after_store [OF assms(1) ij sl(2,3) assms(5,8) dev'_def [unfolded sec_def]]
  have dist: "distinct (all_slots fs)" by (simp add: all_slots_def distinct_product)
  have old: "slot_entry dev' fs t = slot_entry dev fs t \<and> slot_byte dev' fs t = slot_byte dev fs t" if "t \<in> set pre" for t
  proof -
    have "t \<in> set (all_slots fs)" "t \<noteq> (i, j)" using that sl(1) dist by auto
    then have "fst t < root_len fs" "t \<noteq> (i, j)" by (auto simp: all_slots_def)
    then show ?thesis using after(3) [of "fst t" "snd t"] by simp
  qed
  have "named n x (e\<lparr>file_size_bytes := sz\<rparr>)" using sl(3) by (simp add: named_def)
  then have "List.find (named n x) (map (slot_entry dev' fs) (listed dev' fs (all_slots fs))) = Some (e\<lparr>file_size_bytes := sz\<rparr>)"
    unfolding find_listed_iff using sl(1,6) after(1,2) ln(5) assms(8) old
    by (intro exI [of _ pre] exI [of _ "(i, j)"] exI [of _ post]) auto
  then show ?thesis using up ij(1) len unfolding dev'_def by blast
qed


section \<open>A sector of the root directory is replaced\<close>

lemma root_sector_change:
  assumes "fs_ok dev fs" "i < root_len fs" "length sec = 512"
  shows "fs_ok (dev[root0 fs + i := sec]) fs"
    "unat c < 256 * fat_len fs \<Longrightarrow> fat_at (dev[root0 fs + i := sec]) fs c = fat_at dev fs c"
    "has_cluster (dev[root0 fs + i := sec]) fs c = has_cluster dev fs c"
    "cluster_data (dev[root0 fs + i := sec]) fs c = cluster_data dev fs c"
    "chain (dev[root0 fs + i := sec]) fs c cs = chain dev fs c cs"
    "chain_data (dev[root0 fs + i := sec]) fs cs = chain_data dev fs cs"
proof -
  note ok = fs_okD [OF assms(1)]
  let ?d = "dev[root0 fs + i := sec]"
  show "fs_ok ?d fs" using assms(1,3) set_update_subset_insert [of dev "root0 fs + i" sec] by (auto simp: fs_ok_def)
  show f: "fat_at ?d fs c = fat_at dev fs c" if "unat c < 256 * fat_len fs" for c
  proof -
    have "unat c div 256 < fat_len fs" using that by (simp add: div_less_iff_less_mult mult.commute)
    then have "fat0 fs + unat c div 256 < root0 fs" using less_le_trans [OF _ ok(7)] by (simp add: root0_def)
    then show ?thesis by (simp add: fat_at_def)
  qed
  show h: "has_cluster ?d fs c = has_cluster dev fs c" for c by (rule has_cluster_length) simp
  have "root0 fs + i < cluster_pos fs c" for c using assms(2) by (simp add: cluster_pos_def data0_def)
  then show cd: "cluster_data ?d fs c = cluster_data dev fs c" for c by (simp add: cluster_data_def drop_update_cancel)
  show "chain ?d fs c cs = chain dev fs c cs"
    using f h has_clusterD(2) by (induction cs arbitrary: c) (simp, auto)
  show "chain_data ?d fs cs = chain_data dev fs cs" unfolding chain_data_def by (intro arg_cong [of _ _ concat] map_cong refl cd)
qed

text \<open>A write at any place within the clusters a file has, whether it ends there or behind them.\<close>

lemma write_to_file_any:
  assumes "fs_ok dev fs" "bytes_per_cluster fs < 65536" "chain dev fs (first_cluster e) cs" "distinct cs"
    "unat off < length cs * bytes_per_cluster fs" "fat_len fs \<le> 256" "fat_at dev fs (last cs) \<noteq> 0"
    "ns = take (clusters_for fs (unat off + length buf - length cs * bytes_per_cluster fs)) (free_clusters dev fs)" "on_disk dev fs ns"
    "n = min (length buf) (length (cs @ ns) * bytes_per_cluster fs - unat off)"
  shows "\<exists>dev'. write_to_file dev fs e off buf = Some (n, dev') \<and> file_grown fs dev dev' (first_cluster e) cs ns (unat off) (take n buf)"
proof (cases "length cs * bytes_per_cluster fs \<le> unat off + length buf")
  case True
  then show ?thesis using write_to_file_grow_eq [OF assms(1-4) distinct_u16_length [OF assms(4)] assms(5) _ assms(6-10)] by blast
next
  case False
  have "0 < bytes_per_cluster fs" using assms(5) by (cases "bytes_per_cluster fs") auto
  then have n: "ns = []" "n = length buf" using False by (simp_all add: assms(8,10))
  obtain dev' where d: "write_to_file dev fs e off buf = Some (length buf, dev')" "data_change fs dev dev' (set cs)"
      "chain_data dev' fs cs = patch (chain_data dev fs cs) (unat off) buf"
    using write_to_file_eq [OF assms(1-4) _ assms(5) distinct_u16_length [OF assms(4)], of buf] False by auto
  have "file_grown fs dev dev' (first_cluster e) cs [] (unat off) buf"
    unfolding file_grown_def using d(2,3) data_change_chain [OF d(2) assms(1,3)] data_change_fat [OF d(2) assms(1)] assms(4)
    by (auto simp: data_change_def)
  then show ?thesis using d(1) by (simp add: n)
qed

section \<open>Files of the root directory\<close>

text \<open>The entry that the disk has for a path: what \<^verbatim>\<open>open_file\<close> looks up.\<close>

definition disk_entry :: "strings \<Rightarrow> u32 \<Rightarrow> files \<Rightarrow> fat16_dir_entry_t option" where
  "disk_entry um a s = do {
     dir \<leftarrow> get_root_dir fresh_heap (fdisk s) (ffs s);
     Option.bind (find_file (fdisk s) (ffs s) (drop 1 (um a)) dir) id }"

text \<open>A path that names a file of the root directory with an extension of three characters.\<close>

definition root_path :: "cstr \<Rightarrow> u8 list \<Rightarrow> u8 list \<Rightarrow> bool" where
  "root_path p n x \<longleftrightarrow> cstring p = 47 # n @ 46 # x \<and> n \<noteq> [] \<and> length n < 8 \<and> length x = 3 \<and> n ! 0 \<noteq> 0xe5
     \<and> 46 \<notin> set n \<and> 47 \<notin> set n \<and> 47 \<notin> set x"

lemma root_path_parts:
  assumes "root_path p n x"
  shows "char_at p 0 = 47" "char_at p 1 \<noteq> 0" "char_at (to_directory (drop 1 p)) 0 = 0"
    "find_file dev fs (drop 1 p) dir = Some (List.find (named n x) dir)"
proof -
  have c: "cstring p = 47 # n @ 46 # x" "n \<noteq> []" using assms by (simp_all add: root_path_def)
  have d: "cstring (drop 1 p) = n @ 46 # x" using cstring_drop [of 1 p] c(1) by simp
  show "char_at p 0 = 47" using char_at_cstring [of 0 p] c(1) by simp
  have "char_at p 1 = (n @ 46 # x) ! 0" using char_at_cstring [of 1 p] c(1) by simp
  moreover have "(n @ 46 # x) ! 0 \<in> set (cstring p)" using c by (cases n) simp_all
  ultimately show "char_at p 1 \<noteq> 0" using zero_notin_cstring [of p] by metis
  have "47 \<notin> set (cstring (drop 1 p))" using d assms by (auto simp: root_path_def)
  then show "char_at (to_directory (drop 1 p)) 0 = 0" by (simp add: to_directory_def no_slash char_at_def)
  show "find_file dev fs (drop 1 p) dir = Some (List.find (named n x) dir)"
    using find_file_here_ext [OF d, of dev fs dir] assms by (simp add: root_path_def)
qed

lemma disk_entry_eq:
  assumes "root_path (um a) n x" "fs_ok (fdisk s) (ffs s)" "num_reserved_sectors (ffs s) = 1"
  shows "disk_entry um a s = List.find (named n x) (map (slot_entry (fdisk s) (ffs s)) (listed (fdisk s) (ffs s) (all_slots (ffs s))))"
  using get_root_dir_listed [OF assms(2,3)] root_path_parts(4) [OF assms(1)] by (simp add: disk_entry_def)

text \<open>\<^verbatim>\<open>update_file_details\<close> with the new size of a file of the root directory.\<close>

lemma update_details_root:
  assumes "root_path (um a) n x" "fs_ok (fdisk s) (ffs s)" "num_reserved_sectors (ffs s) = 1" "data0 (ffs s) < 65535" "data0 (ffs s) < length (fdisk s)"
    "disk_entry um a s = Some e"
  shows "\<exists>i sec. i < root_len (ffs s) \<and> length sec = 512
    \<and> update_file_details (um a) (e\<lparr>file_size_bytes := sz\<rparr>) (filename e) (extension e) s = Some (0, s\<lparr>fdisk := (fdisk s)[root0 (ffs s) + i := sec]\<rparr>)
    \<and> disk_entry um a (s\<lparr>fdisk := (fdisk s)[root0 (ffs s) + i := sec]\<rparr>) = Some (e\<lparr>file_size_bytes := sz\<rparr>)"
proof -
  let ?fs = "ffs s"
  note rp = root_path_parts [OF assms(1)] and de = disk_entry_eq [of um a, OF assms(1-3)]
  have f: "List.find (named n x) (map (slot_entry (fdisk s) ?fs) (listed (fdisk s) ?fs (all_slots ?fs))) = Some e" using assms(6) de by simp
  have name: "n \<noteq> []" "length n < 8" "length x = 3" "n ! 0 \<noteq> 0xe5" using assms(1) by (simp_all add: root_path_def)
  obtain i sec where u: "i < root_len ?fs" "length sec = 512"
      "update_root_directory_entry (fdisk s) ?fs (e\<lparr>file_size_bytes := sz\<rparr>) (filename e) (extension e) = Some (0, (fdisk s)[root0 ?fs + i := sec])"
      "List.find (named n x) (map (slot_entry ((fdisk s)[root0 ?fs + i := sec]) ?fs) (listed ((fdisk s)[root0 ?fs + i := sec]) ?fs (all_slots ?fs)))
        = Some (e\<lparr>file_size_bytes := sz\<rparr>)"
    using root_entry_updated [OF assms(2,4,5) f name] by blast
  have "update_file_details (um a) (e\<lparr>file_size_bytes := sz\<rparr>) (filename e) (extension e) s = Some (0, s\<lparr>fdisk := (fdisk s)[root0 ?fs + i := sec]\<rparr>)"
    unfolding update_file_details_def Let_def get_root_dir_listed [OF assms(2,3)] using rp f u(3) by simp
  moreover have "disk_entry um a (s\<lparr>fdisk := (fdisk s)[root0 ?fs + i := sec]\<rparr>) = Some (e\<lparr>file_size_bytes := sz\<rparr>)"
    using disk_entry_eq [of um a, OF assms(1), of "s\<lparr>fdisk := (fdisk s)[root0 ?fs + i := sec]\<rparr>"] root_sector_change(1) [OF assms(2) u(1,2)] assms(3) u(4) by simp
  ultimately show ?thesis using u(1,2) by blast
qed


lemma disk_entry_cong:
  assumes "root_path (um a) n x" "fs_ok (fdisk s) (ffs s)" "fs_ok (fdisk s') (ffs s)" "num_reserved_sectors (ffs s) = 1" "ffs s' = ffs s"
    "\<forall>i. root0 (ffs s) \<le> i \<and> i < data0 (ffs s) \<longrightarrow> fdisk s' ! i = fdisk s ! i"
  shows "disk_entry um a s' = disk_entry um a s"
proof -
  let ?fs = "ffs s"
  have same: "slot_entry (fdisk s') ?fs sl = slot_entry (fdisk s) ?fs sl" "slot_byte (fdisk s') ?fs sl = slot_byte (fdisk s) ?fs sl"
    if "sl \<in> set (all_slots ?fs)" for sl
  proof -
    have "fst sl < root_len ?fs" using that by (auto simp: all_slots_def)
    then have "fdisk s' ! (root0 ?fs + fst sl) = fdisk s ! (root0 ?fs + fst sl)" using assms(6) by (simp add: data0_def)
    then show "slot_entry (fdisk s') ?fs sl = slot_entry (fdisk s) ?fs sl" "slot_byte (fdisk s') ?fs sl = slot_byte (fdisk s) ?fs sl"
      by (simp_all add: slot_entry_def slot_byte_def)
  qed
  have "listed (fdisk s') ?fs (all_slots ?fs) = listed (fdisk s) ?fs (all_slots ?fs)"
    unfolding listed_def using same(2) by (intro filter_cong takeWhile_cong) (auto dest: set_takeWhileD)
  moreover have "set (listed (fdisk s) ?fs (all_slots ?fs)) \<subseteq> set (all_slots ?fs)" unfolding listed_def by (auto dest: set_takeWhileD)
  ultimately have "map (slot_entry (fdisk s') ?fs) (listed (fdisk s') ?fs (all_slots ?fs)) = map (slot_entry (fdisk s) ?fs) (listed (fdisk s) ?fs (all_slots ?fs))"
    using same(1) by (auto intro!: map_cong)
  then show ?thesis
    using disk_entry_eq [of um a, OF assms(1,2,4)] disk_entry_eq [of um a n x s', OF assms(1)] assms(3-5) by simp
qed

text \<open>
  A descriptor in step with the disk: its entry is what the disk has for its path, and the clusters of
  the file form a chain that ends with a mark.
\<close>

definition root_file :: "strings \<Rightarrow> filedesc_t \<Rightarrow> open_file_t \<Rightarrow> u16 list \<Rightarrow> files \<Rightarrow> bool" where
  "root_file um d f cs s \<longleftrightarrow> files_inv s \<and> find_open_file_by_fd d s = Some f \<and> \<not> is_dir (directory_entry f)
     \<and> fs_ok (fdisk s) (ffs s) \<and> bytes_per_cluster (ffs s) < 65536 \<and> num_reserved_sectors (ffs s) = 1
     \<and> data0 (ffs s) < 65535 \<and> data0 (ffs s) < length (fdisk s) \<and> disk_entry um (path f) s = Some (directory_entry f)
     \<and> chain (fdisk s) (ffs s) (first_cluster (directory_entry f)) cs \<and> distinct cs
     \<and> fat_len (ffs s) \<le> 256 \<and> fat_at (fdisk s) (ffs s) (last cs) \<noteq> 0"

text \<open>What \<^verbatim>\<open>sys_write\<close> records: the entry on the disk has the new size when the file has become longer.\<close>

lemma record_growth_root:
  assumes "root_path (um (path f)) n x" "fs_ok (fdisk s) (ffs s)" "num_reserved_sectors (ffs s) = 1" "data0 (ffs s) < 65535" "data0 (ffs s) < length (fdisk s)"
    "disk_entry um (path f) s = Some (directory_entry f)"
  shows "\<exists>s'. record_growth um f sz s = Some s' \<and> fs_ok (fdisk s') (ffs s) \<and> ffs s' = ffs s
    \<and> disk_entry um (path f) s' = Some ((directory_entry f)\<lparr>file_size_bytes := max (file_size_bytes (directory_entry f)) sz\<rparr>)
    \<and> (\<forall>c cs. chain (fdisk s') (ffs s) c cs = chain (fdisk s) (ffs s) c cs) \<and> (\<forall>cs. chain_data (fdisk s') (ffs s) cs = chain_data (fdisk s) (ffs s) cs)"
proof (cases "file_size_bytes (directory_entry f) < sz")
  case True
  let ?s1 = "modify_open_file (fd f) (\<lambda>y. y\<lparr>directory_entry := (directory_entry f)\<lparr>file_size_bytes := sz\<rparr>\<rparr>) s" and ?e = "directory_entry f"
  have "disk_entry um (path f) ?s1 = Some ?e" using assms(6) by (simp add: disk_entry_def)
  then obtain i sec where u: "i < root_len (ffs s)" "length sec = 512"
      "update_file_details (um (path f)) (?e\<lparr>file_size_bytes := sz\<rparr>) (filename ?e) (extension ?e) ?s1 = Some (0, ?s1\<lparr>fdisk := (fdisk s)[root0 (ffs s) + i := sec]\<rparr>)"
      "disk_entry um (path f) (?s1\<lparr>fdisk := (fdisk s)[root0 (ffs s) + i := sec]\<rparr>) = Some (?e\<lparr>file_size_bytes := sz\<rparr>)"
    using update_details_root [of um "path f" n x ?s1 ?e sz] assms(1-5) by auto
  have "max (file_size_bytes ?e) sz = sz" using True by simp
  then show ?thesis using u True root_sector_change [OF assms(2) u(1,2)] by (simp add: record_growth_def Let_def)
next
  case False
  then have "max (file_size_bytes (directory_entry f)) sz = file_size_bytes (directory_entry f)" by (simp add: max_def not_less)
  then show ?thesis using False assms by (simp add: record_growth_def)
qed

lemma sys_write_recorded:
  assumes "root_file um d f cs s" "root_path (um (path f)) n x" "off = write_offset f" "unat off < length cs * bytes_per_cluster (ffs s)"
    "unat off + length buf < 2 ^ 31"
    "ns = take (clusters_for (ffs s) (unat off + length buf - length cs * bytes_per_cluster (ffs s))) (free_clusters (fdisk s) (ffs s))"
    "on_disk (fdisk s) (ffs s) ns" "k = min (length buf) (length (cs @ ns) * bytes_per_cluster (ffs s) - unat off)"
  shows "\<exists>s1. sys_write um d buf s = Some (of_nat k, s1) \<and> calm s s1 \<and> fs_ok (fdisk s1) (ffs s)
    \<and> chain (fdisk s1) (ffs s) (first_cluster (directory_entry f)) (cs @ ns) \<and> distinct (cs @ ns)
    \<and> chain_data (fdisk s1) (ffs s) (cs @ ns) = patch (chain_data (fdisk s) (ffs s) (cs @ ns)) (unat off) (take k buf)
    \<and> disk_entry um (path f) s1 = Some ((directory_entry f)\<lparr>file_size_bytes := max (file_size_bytes (directory_entry f)) (off + of_nat k)\<rparr>)"
proof -
  let ?fs = "ffs s" and ?e = "directory_entry f"
  note rf = assms(1) [unfolded root_file_def]
  have d1: "d \<noteq> 1" using rf open_table.look_SomeD [of d s f] by (auto simp: files_inv_def)
  obtain dev where w: "write_to_file (fdisk s) ?fs ?e off buf = Some (k, dev)" "file_grown ?fs (fdisk s) dev (first_cluster ?e) cs ns (unat off) (take k buf)"
    using write_to_file_any [of "fdisk s" ?fs ?e cs off ns buf k] rf assms(4,6-8) by blast
  note g = w(2) [unfolded file_grown_def]
  define s2 where "s2 = (modify_open_file d (\<lambda>y. y\<lparr>offset := off\<rparr>) s)\<lparr>fdisk := dev\<rparr>"
  have s2: "fdisk s2 = dev" "ffs s2 = ?fs" by (simp_all add: s2_def)
  have "disk_entry um (path f) s2 = disk_entry um (path f) s" using rf g s2 by (intro disk_entry_cong [of um "path f" n x, OF assms(2)]) simp_all
  then obtain s3 where s3: "record_growth um f (off + of_nat k) s2 = Some s3" "fs_ok (fdisk s3) ?fs" "ffs s3 = ?fs"
      "disk_entry um (path f) s3 = Some (?e\<lparr>file_size_bytes := max (file_size_bytes ?e) (off + of_nat k)\<rparr>)"
      "\<forall>c cs. chain (fdisk s3) ?fs c cs = chain dev ?fs c cs" "\<forall>cs. chain_data (fdisk s3) ?fs cs = chain_data dev ?fs cs"
    using record_growth_root [of um f n x, OF assms(2), of s2 "off + of_nat k"] rf g unfolding s2 by auto
  have "k < 2 ^ 31" using assms(5,8) by simp
  then have pos: "\<not> sint (of_nat k :: i32) < 0" using sint_word_of_int_i32 [of "int k"] by simp
  let ?s1 = "modify_open_file d (\<lambda>y. y\<lparr>offset := off + of_nat k\<rparr>) s3"
  have wr: "sys_write um d buf s = Some (of_nat k, ?s1)"
    using sys_write_file [OF d1, of s f um buf] rf w(1) s3(1) pos unfolding assms(3) [symmetric] by (simp add: s2_def)
  moreover have "disk_entry um (path f) ?s1 = disk_entry um (path f) s3" by (simp add: disk_entry_def)
  ultimately show ?thesis using sys_write_calm [OF wr] g s3(2-6) by auto
qed


text \<open>Opening a file of the root directory that is not open.\<close>

lemma open_file_disk:
  assumes "root_path (um a) n x"
  shows "disk_entry um a s = Some e \<Longrightarrow> open_file um a s = Some (let f = \<lparr>fd = next_fd s, directory_entry = e, path = a, offset = 0, append_flag = False\<rparr>
      in (Some f, s\<lparr>next_fd := next_fd s + 1, open_files := open_files s @ [f]\<rparr>))"
    "disk_entry um a s = None \<Longrightarrow> get_root_dir fresh_heap (fdisk s) (ffs s) \<noteq> None \<Longrightarrow> open_file um a s = Some (None, s)"
  using root_path_parts(1,2) [OF assms] root_path_parts(4) [OF assms, of "fdisk s" "ffs s"]
  by (auto simp: open_file_def disk_entry_def insert_open_file_def get_next_filedesc_def Let_def bind_eq_Some_conv split: option.splits)

lemma opened_lookup:
  assumes "files_inv s" "f = \<lparr>fd = next_fd s, directory_entry = e, path = a, offset = 0, append_flag = False\<rparr>"
    "s' = modify_open_file (next_fd s) (\<lambda>y. y\<lparr>append_flag := ap\<rparr>) (s\<lparr>next_fd := next_fd s + 1, open_files := open_files s @ [f]\<rparr>)"
  shows "find_open_file_by_fd (next_fd s) s' = Some (f\<lparr>append_flag := ap\<rparr>)" "fdisk s' = fdisk s" "ffs s' = ffs s" "next_fd s' = next_fd s + 1"
    "open_files s' = open_files s @ [f\<lparr>append_flag := ap\<rparr>]"
proof -
  let ?s1 = "s\<lparr>next_fd := next_fd s + 1, open_files := open_files s @ [f]\<rparr>"
  have d: "\<forall>g \<in> set (open_files s). fd g \<noteq> next_fd s" using assms(1) by (auto simp: files_inv_def)
  then have "find_open_file_by_fd (next_fd s) s = None" by (auto simp: open_table.look_None)
  then have "find_open_file_by_fd (next_fd s) ?s1 = Some f" using open_table.look_append [of ?s1 s f "next_fd s"] by (simp add: assms(2))
  then show "find_open_file_by_fd (next_fd s) s' = Some (f\<lparr>append_flag := ap\<rparr>)"
    using open_table.look_change_same [of "next_fd s" ?s1 f "\<lambda>y. y\<lparr>append_flag := ap\<rparr>"] by (simp add: assms(2,3))
  show "open_files s' = open_files s @ [f\<lparr>append_flag := ap\<rparr>]" using d by (simp add: assms(2,3) modify_open_file_def update_first_append)
qed (simp_all add: assms(3))

lemma open_from_disk:
  assumes "root_path (um a) n x" "files_inv s" "find_open_file um a s = None" "disk_entry um a s = Some e"
  shows "\<exists>s'. sys_open um a 0 s = Some (next_fd s, s') \<and> fdisk s' = fdisk s \<and> ffs s' = ffs s
    \<and> find_open_file_by_fd (next_fd s) s' = Some \<lparr>fd = next_fd s, directory_entry = e, path = a, offset = 0, append_flag = False\<rparr>"
  using opened_lookup [OF assms(2) refl refl, where e = e and a = a and ap = False] open_file_disk(1) [OF assms(1,4)] assms(3) by (simp add: sys_open_def Let_def)

lemma closed_path:
  assumes "files_inv s" "map path (open_files s1) = map path (open_files s)" "map fd (open_files s1) = map fd (open_files s)"
    "\<forall>g \<in> set (open_files s). cstring (um (path g)) = cstring (um a) \<longrightarrow> fd g = d" "open_files s2 = filter (\<lambda>g. fd g \<noteq> d) (open_files s1)"
  shows "find_open_file um a s2 = None"
proof -
  have "cstring (um (path g)) \<noteq> cstring (um a)" if "g \<in> set (open_files s2)" for g
  proof -
    from that obtain i where i: "i < length (open_files s1)" "g = open_files s1 ! i" "fd g \<noteq> d" unfolding assms(5) by (auto simp: in_set_conv_nth)
    have "length (open_files s1) = length (open_files s)" using assms(2) by (metis length_map)
    then have "open_files s ! i \<in> set (open_files s)" "path (open_files s ! i) = path g" "fd (open_files s ! i) = fd g"
      using i assms(2,3) by (auto simp: list_eq_iff_nth_eq)
    then show ?thesis using assms(4) i(3) by metis
  qed
  then show ?thesis by (auto simp: find_open_file_def find_None_iff stdstring_compare_zero)
qed

lemma clusters_taken:
  assumes "unat off < length cs * bytes_per_cluster fs"
  shows "min (length buf) (length (cs @ take (clusters_for fs (unat off + length buf - length cs * bytes_per_cluster fs)) fr) * bytes_per_cluster fs - unat off) = length buf
    \<or> take (clusters_for fs (unat off + length buf - length cs * bytes_per_cluster fs)) fr = fr"
proof (cases "clusters_for fs (unat off + length buf - length cs * bytes_per_cluster fs) \<le> length fr")
  case True
  have b: "0 < bytes_per_cluster fs" using assms by (cases "bytes_per_cluster fs") auto
  show ?thesis using True clusters_for_enough [OF b, of "unat off + length buf - length cs * bytes_per_cluster fs"]
    by (simp add: add_mult_distrib)
qed simp

text \<open>Writing, closing and opening again, up to the point where the new descriptor can be used.\<close>

lemma write_close_open:
  assumes "root_file um d f cs s" "root_path (um (path f)) n x" "off = write_offset f" "unat off < length cs * bytes_per_cluster (ffs s)"
    "unat off + length buf < 2 ^ 31"
    "\<forall>g \<in> set (open_files s). cstring (um (path g)) = cstring (um (path f)) \<longrightarrow> fd g = d"
    "ns = take (clusters_for (ffs s) (unat off + length buf - length cs * bytes_per_cluster (ffs s))) (free_clusters (fdisk s) (ffs s))"
    "on_disk (fdisk s) (ffs s) ns" "k = min (length buf) (length (cs @ ns) * bytes_per_cluster (ffs s) - unat off)"
    "sz = max (file_size_bytes (directory_entry f)) (off + of_nat k)"
  shows "\<exists>s1 s2 s3. sys_write um d buf s = Some (of_nat k, s1) \<and> sys_close d s1 = (0, s2) \<and> sys_open um (path f) 0 s2 = Some (next_fd s, s3)
    \<and> find_open_file_by_fd (next_fd s) s3
        = Some \<lparr>fd = next_fd s, directory_entry = (directory_entry f)\<lparr>file_size_bytes := sz\<rparr>, path = path f, offset = 0, append_flag = False\<rparr>
    \<and> ffs s3 = ffs s \<and> fs_ok (fdisk s3) (ffs s) \<and> chain (fdisk s3) (ffs s) (first_cluster (directory_entry f)) (cs @ ns) \<and> distinct (cs @ ns)
    \<and> chain_data (fdisk s3) (ffs s) (cs @ ns) = patch (chain_data (fdisk s) (ffs s) (cs @ ns)) (unat off) (take k buf)"
proof -
  let ?fs = "ffs s" and ?e = "directory_entry f"
  note rf = assms(1) [unfolded root_file_def]
  have dd: "d \<noteq> 1" "d \<in> fd ` set (open_files s)" using rf open_table.look_SomeD [of d s f] by (auto simp: files_inv_def)
  obtain s1 where w: "sys_write um d buf s = Some (of_nat k, s1)" "calm s s1" "fs_ok (fdisk s1) ?fs"
      "chain (fdisk s1) ?fs (first_cluster ?e) (cs @ ns)" "distinct (cs @ ns)"
      "chain_data (fdisk s1) ?fs (cs @ ns) = patch (chain_data (fdisk s) ?fs (cs @ ns)) (unat off) (take k buf)"
      "disk_entry um (path f) s1 = Some (?e\<lparr>file_size_bytes := sz\<rparr>)"
    using sys_write_recorded [OF assms(1-5,7-9)] unfolding assms(10) by blast
  have paths: "map path (open_files s1) = map path (open_files s)" using sys_write_paths [OF w(1) dd(1)] by simp
  have c: "map fd (open_files s1) = map fd (open_files s)" "next_fd s1 = next_fd s" "ffs s1 = ?fs" using w(2) by (simp_all add: calm_def)
  have inv: "files_inv s" "files_inv s1" using rf calm_inv [OF w(2)] by simp_all
  let ?s2 = "s1\<lparr>open_files := filter (\<lambda>g. fd g \<noteq> d) (open_files s1)\<rparr>"
  have "d \<in> fd ` set (open_files s1)" using dd(2) c(1) by (metis list.set_map)
  then have cl: "sys_close d s1 = (0, ?s2)" by (simp add: sys_close_eq [OF inv(2)])
  have fresh: "find_open_file um (path f) ?s2 = None" using closed_path [OF inv(1) paths c(1) assms(6)] by simp
  have "disk_entry um (path f) ?s2 = Some (?e\<lparr>file_size_bytes := sz\<rparr>)" using w(7) by (simp add: disk_entry_def)
  then obtain s3 where "sys_open um (path f) 0 ?s2 = Some (next_fd s, s3)" "fdisk s3 = fdisk s1" "ffs s3 = ?fs"
      "find_open_file_by_fd (next_fd s) s3 = Some \<lparr>fd = next_fd s, directory_entry = ?e\<lparr>file_size_bytes := sz\<rparr>, path = path f, offset = 0, append_flag = False\<rparr>"
    using open_from_disk [OF assms(2) sys_close_inv [OF cl inv(2)] fresh] c(2,3) by auto
  then show ?thesis using w cl by auto
qed

lemma read_opened:
  assumes "fs_ok (fdisk s) (ffs s)" "bytes_per_cluster (ffs s) < 65536" "find_open_file_by_fd d s = Some f" "d \<noteq> 0" "offset f = 0"
    "chain (fdisk s) (ffs s) (first_cluster (directory_entry f)) cs" "distinct cs" "0 < length cs * bytes_per_cluster (ffs s)"
    "unat sz < 2 ^ 31" "bs = take (unat sz) (chain_data (fdisk s) (ffs s) cs)"
  shows "\<exists>s'. sys_read d sz s = Some (of_nat (length bs), bs, s')"
  using sys_read_in_place [of s d f cs bs sz] assms distinct_u16_length [OF assms(7)] by simp

section \<open>Property\<close>

text \<open>
  C12: a file that has grown is found again.  For a file of the root directory whose descriptor is in step with the
  disk, a write that starts within its clusters returns, provided the free entries it takes from the
  table name clusters of the disk; after closing the descriptor and opening the path again, the new
  descriptor has the entry with the larger of the old size and the end of the write, and reading that many
  bytes gives the old contents with the bytes written in their place.  Fewer bytes are written than were
  asked for only when no free entry of the table is left.
\<close>

theorem growth_survives_reopen:
  assumes "root_file um d f cs s" "root_path (um (path f)) n x" "off = write_offset f" "unat off < length cs * bytes_per_cluster (ffs s)"
    "unat off + length buf < 2 ^ 31" "unat (file_size_bytes (directory_entry f)) < 2 ^ 31"
    "\<forall>g \<in> set (open_files s). cstring (um (path g)) = cstring (um (path f)) \<longrightarrow> fd g = d"
    "ns = take (clusters_for (ffs s) (unat off + length buf - length cs * bytes_per_cluster (ffs s))) (free_clusters (fdisk s) (ffs s))"
    "on_disk (fdisk s) (ffs s) ns" "k = min (length buf) (length (cs @ ns) * bytes_per_cluster (ffs s) - unat off)"
    "sz = max (file_size_bytes (directory_entry f)) (off + of_nat k)"
    "bs = take (unat sz) (patch (chain_data (fdisk s) (ffs s) (cs @ ns)) (unat off) (take k buf))"
  shows "\<exists>s1 s2 s3 g s4. sys_write um d buf s = Some (of_nat k, s1) \<and> (k = length buf \<or> ns = free_clusters (fdisk s) (ffs s))
    \<and> sys_close d s1 = (0, s2) \<and> sys_open um (path f) 0 s2 = Some (next_fd s, s3)
    \<and> find_open_file_by_fd (next_fd s) s3 = Some g \<and> directory_entry g = (directory_entry f)\<lparr>file_size_bytes := sz\<rparr>
    \<and> sys_read (next_fd s) sz s3 = Some (of_nat (length bs), bs, s4)"
proof -
  let ?fs = "ffs s"
  note rf = assms(1) [unfolded root_file_def]
  obtain s1 s2 s3 g where w: "sys_write um d buf s = Some (of_nat k, s1)" "sys_close d s1 = (0, s2)" "sys_open um (path f) 0 s2 = Some (next_fd s, s3)"
      "find_open_file_by_fd (next_fd s) s3 = Some g" "directory_entry g = (directory_entry f)\<lparr>file_size_bytes := sz\<rparr>" "offset g = 0"
      "ffs s3 = ?fs" "fs_ok (fdisk s3) ?fs" "chain (fdisk s3) ?fs (first_cluster (directory_entry g)) (cs @ ns)" "distinct (cs @ ns)"
      "chain_data (fdisk s3) ?fs (cs @ ns) = patch (chain_data (fdisk s) ?fs (cs @ ns)) (unat off) (take k buf)"
    using write_close_open [OF assms(1-5,7-11)] by fastforce
  have all: "k = length buf \<or> ns = free_clusters (fdisk s) ?fs" unfolding assms(8,10) by (rule clusters_taken [OF assms(4)])
  have fd0: "next_fd s \<noteq> 0" using rf by (auto simp: files_inv_def)
  have "unat (off + of_nat k) < 2 ^ 31" using assms(5,10) by (simp add: unat_add_nat)
  then have sz: "unat sz < 2 ^ 31" using assms(6) unfolding assms(11) by (simp add: max_def)
  have room: "0 < length (cs @ ns) * bytes_per_cluster ?fs" using assms(4) by (simp only: length_append add_mult_distrib)
  have "\<exists>s4. sys_read (next_fd s) sz s3 = Some (of_nat (length bs), bs, s4)"
    by (rule read_opened [of s3 "next_fd s" g "cs @ ns", unfolded w(7), OF w(8) _ w(4) fd0 w(6,9,10) room sz]) (use rf in \<open>simp_all add: assms(12) w(11)\<close>)
  then show ?thesis using w(1-5) all by blast
qed


text \<open>The disk of the examples with the directory entry of the file.\<close>

definition reopen_dev :: sectors where
  "reopen_dev = grow_dev[2 := lit ''LOG     TXT'' @ [0x20] @ replicate 14 0 @ [2, 0, 0xE8, 3, 0, 0] @ replicate 480 0]"

definition reopen_entry :: fat16_dir_entry_t where
  "reopen_entry = \<lparr>filename = lit ''LOG'' @ replicate 6 0, extension = lit ''TXT'' @ [0], attributes = 0x20, first_cluster = 2, file_size_bytes = 1000\<rparr>"

definition reopen_files :: files where
  "reopen_files = \<lparr>fdisk = reopen_dev, ffs = demo_fs,
     open_files = [\<lparr>fd = 3, directory_entry = reopen_entry, path = 100, offset = 0, append_flag = True\<rparr>],
     next_fd = 4, current_working_dir = 47 # replicate 99 0, stdin_buffer = [], uart_out = []\<rparr>"

lemma reopen_sectors: "length reopen_dev = 6" "reopen_dev ! 1 = grow_dev ! 1" "reopen_dev ! 3 = grow_dev ! 3" "reopen_dev ! 4 = grow_dev ! 4"
    "reopen_dev ! 5 = grow_dev ! 5" "reopen_dev ! 2 = lit ''LOG     TXT'' @ [0x20] @ replicate 14 0 @ [2, 0, 0xE8, 3, 0, 0] @ replicate 480 0"
  by (simp_all add: reopen_dev_def grow_dev_def demo_dev_def)

lemma reopen_change: "reopen_dev = grow_dev[root0 demo_fs + 0 := reopen_dev ! 2]" "0 < root_len demo_fs" "length (reopen_dev ! 2) = 512"
  by (simp_all add: demo_layout reopen_sectors(6)) (simp_all add: reopen_dev_def grow_dev_def demo_dev_def lit_def)

lemmas reopen_as = root_sector_change [OF grow_ok reopen_change(2,3), folded reopen_change(1)]

lemma reopen_listed: "map (slot_entry reopen_dev demo_fs) (listed reopen_dev demo_fs (all_slots demo_fs)) = [reopen_entry]"
proof -
  have sl: "all_slots demo_fs = (0, 0) # (0, Suc 0) # map (Pair 0) [2..<16]" by (simp add: all_slots_def demo_layout upt_conv_Cons)
  have b: "slot_byte reopen_dev demo_fs (0, 0) = 76" "slot_byte reopen_dev demo_fs (0, Suc 0) = 0"
    by (simp_all add: slot_byte_def demo_layout reopen_sectors(6) lit_def nth_append)
  have "slot_entry reopen_dev demo_fs (0, 0) = reopen_entry"
  proof -
    have "parse_entry (0, 0) (xs @ ys) 0 = parse_entry (0, 0) xs 0" if "length xs = 32" for xs ys
      using that unfolding parse_entry_def Let_def upt_slots by (simp add: nth_append)
    from this [of "lit ''LOG     TXT'' @ [0x20] @ replicate 14 0 @ [2, 0, 0xE8, 3, 0, 0]" "replicate 480 0"]
    have "parse_entry (0, 0) (reopen_dev ! 2) 0 = parse_entry (0, 0) (lit ''LOG     TXT'' @ [0x20] @ replicate 14 0 @ [2, 0, 0xE8, 3, 0, 0]) 0"
      unfolding reopen_sectors(6) append_assoc by (simp add: lit_def)
    also have "\<dots> = reopen_entry" by code_simp
    finally show ?thesis by (simp add: slot_entry_def demo_layout)
  qed
  then show ?thesis by (simp add: sl listed_def b)
qed


lemma reopen_free: "free_clusters reopen_dev demo_fs = free_clusters grow_dev demo_fs" "on_disk reopen_dev demo_fs [4]"
  using grow_real reopen_as(3) by (auto intro!: free_clusters_cong simp: demo_layout(2) reopen_as(2) on_disk_def)

lemma reopen_root_file:
  "root_file (\<lambda>_. lit ''/LOG.TXT'') 3 (hd (open_files reopen_files)) [2, 3] reopen_files"
  "root_path (lit ''/LOG.TXT'') (lit ''LOG'') (lit ''TXT'')"
proof -
  show p: "root_path (lit ''/LOG.TXT'') (lit ''LOG'') (lit ''TXT'')" by code_simp
  have ok: "fs_ok reopen_dev demo_fs" by (rule reopen_as(1))
  have f: "fdisk reopen_files = reopen_dev" "ffs reopen_files = demo_fs" "path (hd (open_files reopen_files)) = 100"
      "directory_entry (hd (open_files reopen_files)) = reopen_entry" by (simp_all add: reopen_files_def)
  have inv: "files_inv reopen_files" "find_open_file_by_fd 3 reopen_files = Some (hd (open_files reopen_files))"
    by (simp_all add: files_inv_def find_open_file_by_fd_def reopen_files_def)
  have last_simp: "last [2, 3 :: u16] = 3" by simp
  have c1: "num_reserved_sectors demo_fs = 1" by (simp add: demo_fs_def)
  have c2: "\<not> is_dir reopen_entry" "first_cluster reopen_entry = 2" by (code_simp, simp add: reopen_entry_def)
  have "disk_entry (\<lambda>_. lit ''/LOG.TXT'') 100 reopen_files = List.find (named (lit ''LOG'') (lit ''TXT'')) [reopen_entry]"
    using disk_entry_eq [of "\<lambda>_. lit ''/LOG.TXT''" 100 _ _ reopen_files, OF p] ok reopen_listed c1 by (simp add: f)
  also have "\<dots> = Some reopen_entry" by code_simp
  finally have e: "disk_entry (\<lambda>_. lit ''/LOG.TXT'') 100 reopen_files = Some reopen_entry" .
  have c: "unat c < 256 * fat_len demo_fs" if "unat c < 256" for c :: u16 using that by (simp add: demo_layout)
  have fat: "fat_at reopen_dev demo_fs 3 = 0xFFFF" using reopen_as(2) [OF c, of 3] grow_fat_at by simp
  have ch: "chain reopen_dev demo_fs 2 [2, 3]" unfolding reopen_as(5) using grow_chain unfolding demo_entry_def fat16_dir_entry_t.simps .
  show "root_file (\<lambda>_. lit ''/LOG.TXT'') 3 (hd (open_files reopen_files)) [2, 3] reopen_files"
    unfolding root_file_def f last_simp using ok e fat ch c1 c2 inv
    by (simp add: demo_layout reopen_sectors(1) del: chain.simps)
qed

theorem growth_survives_reopen_witness:
  "\<exists>s1 s2 s3 bs s4. sys_write (\<lambda>_. lit ''/LOG.TXT'') 3 (replicate 30 9) reopen_files = Some (30, s1) \<and> sys_close 3 s1 = (0, s2)
     \<and> sys_open (\<lambda>_. lit ''/LOG.TXT'') 100 0 s2 = Some (4, s3) \<and> sys_read 4 1030 s3 = Some (1030, bs, s4) \<and> drop 1000 bs = replicate 30 9"
proof -
  let ?um = "\<lambda>_ :: u32. lit ''/LOG.TXT''" and ?f = "hd (open_files reopen_files)" and ?buf = "replicate 30 (9 :: u8)"
  let ?old = "chain_data reopen_dev demo_fs ([2, 3] @ [4])"
  have f: "write_offset ?f = 1000" "path ?f = 100" "fdisk reopen_files = reopen_dev" "ffs reopen_files = demo_fs" "next_fd reopen_files = 4"
      "file_size_bytes (directory_entry ?f) = 1000" by (simp_all add: reopen_files_def write_offset_def reopen_entry_def)
  have ns: "[4] = take (clusters_for demo_fs (unat (1000 :: u32) + length ?buf - length [2, 3 :: u16] * bytes_per_cluster demo_fs)) (free_clusters reopen_dev demo_fs)"
    by (simp add: clusters_for_def demo_layout reopen_free(1) grow_take)
  have k: "30 = min (length ?buf) (length ([2, 3] @ [4 :: u16]) * bytes_per_cluster demo_fs - unat (1000 :: u32))" by (simp add: demo_layout)
  have sz: "1030 = max (file_size_bytes (directory_entry ?f)) (1000 + of_nat 30)" by (simp add: f(6))
  have one: "\<forall>g \<in> set (open_files reopen_files). cstring (?um (path g)) = cstring (?um (path ?f)) \<longrightarrow> fd g = 3" by (simp add: reopen_files_def)
  define bs where "bs = take (unat (1030 :: u32)) (patch ?old (unat (1000 :: u32)) (take 30 ?buf))"
  have len: "length ?old = 1536"
    using cluster_ops(2) [OF reopen_as(1)] reopen_as(3) grow_has demo_has by (simp add: demo_layout)
  then have bs: "length bs = 1030" "drop 1000 bs = ?buf" by (simp_all add: bs_def patch_def)
  from growth_survives_reopen [of ?um 3 ?f "[2, 3]" reopen_files "lit ''LOG''" "lit ''TXT''" 1000 ?buf "[4]" 30 1030 bs,
      OF reopen_root_file, unfolded f, OF refl _ _ _ one [unfolded f] ns reopen_free(2) k sz [unfolded f] bs_def]
  show ?thesis using bs by (auto simp: demo_layout)
qed

end
