(* ===== verification/Create.thy ===== *)
theory Create
  imports Reopen
begin

text \<open>
  Creating a file in the root directory, from \<^verbatim>\<open>src/os/src/kernel/file.c\<close>: \<^verbatim>\<open>sys_open\<close> with the flag for creation calls
  \<^verbatim>\<open>create_new_file\<close>, which adds an entry (\<^verbatim>\<open>add_root_directory_entry\<close>) and marks the first free cluster as the end of
  the new chain.  The first part follows the entry to the slot it is stored in and back to the listing, the second shows what a
  search of the directory finds before and after, and the last puts opening, writing, closing, opening
  again and reading together, and states what stays as it was.
\<close>


section \<open>A new entry\<close>

lemma slot_store:
  assumes "fs_ok dev fs" "i < root_len fs" "j < 16" "8 \<le> length (filename e)" "3 \<le> length (extension e)" "filename e ! 0 \<noteq> 0x05"
    "dev' = dev[root0 fs + i := store_entry (new_first_char e) (32 * j) e (dev ! (root0 fs + i))]"
  shows "slot_entry dev' fs (i, j) = e\<lparr>filename := map unpad (take 8 (filename e)) @ [0], extension := map unpad (take 3 (extension e)) @ [0]\<rparr>"
    "slot_byte dev' fs (i, j) = new_first_char e"
    "k < root_len fs \<Longrightarrow> (k, l) \<noteq> (i, j) \<Longrightarrow> slot_entry dev' fs (k, l) = slot_entry dev fs (k, l) \<and> slot_byte dev' fs (k, l) = slot_byte dev fs (k, l)"
proof -
  let ?o = "dev ! (root0 fs + i)"
  have lt: "root0 fs + i < length dev" using assms(2) fs_okD(3) [OF assms(1)] by (simp add: data0_def)
  have len: "32 * j + 32 \<le> length ?o" using fs_okD(6) [OF assms(1) lt] assms(3) by simp
  note rt = directory_entry_roundtrip [OF len assms(4-6), of "(0, 0)"]
  show "slot_entry dev' fs (i, j) = e\<lparr>filename := map unpad (take 8 (filename e)) @ [0], extension := map unpad (take 3 (extension e)) @ [0]\<rparr>"
    using rt lt by (simp add: slot_entry_def assms(7))
  show "slot_byte dev' fs (i, j) = new_first_char e" using store_entry_bytes(1) [OF len] lt by (simp add: slot_byte_def assms(7))
  show "slot_entry dev' fs (k, l) = slot_entry dev fs (k, l) \<and> slot_byte dev' fs (k, l) = slot_byte dev fs (k, l)"
    if "k < root_len fs" "(k, l) \<noteq> (i, j)"
  proof (cases "k = i")
    case True
    then have "32 * l + 32 \<le> 32 * j \<or> 32 * j + 32 \<le> 32 * l" using that(2) by auto
    then show ?thesis using rt store_entry_outside [of "32 * l" "32 * j"] lt True
      by (auto simp: slot_entry_def slot_byte_def assms(7))
  qed (simp add: slot_entry_def slot_byte_def assms(7))
qed

text \<open>\<^verbatim>\<open>add_root_directory_entry\<close> uses the first slot that is free.\<close>

definition free_slot :: "sectors \<Rightarrow> fat16_t \<Rightarrow> nat \<times> nat \<Rightarrow> bool" where
  "free_slot dev fs sl \<longleftrightarrow> slot_byte dev fs sl = 0 \<or> slot_byte dev fs sl = 0xe5"

lemma add_root_entry_first:
  assumes "fs_ok dev fs" "data0 fs < 65535" "data0 fs < length dev" "all_slots fs = pre @ (i, j) # post"
    "free_slot dev fs (i, j)" "\<forall>t \<in> set pre. \<not> free_slot dev fs t"
  shows "add_root_directory_entry dev fs e
    = Some (0, dev[root0 fs + i := store_entry (new_first_char e) (32 * j) e (dev ! (root0 fs + i))])"
proof -
  note ok = fs_okD [OF assms(1)] and sl = slots_before [OF assms(4)]
  let ?look = "\<lambda>k. find_first_free_space_in_root_directory_sector fs (dev ! (root0 fs + k))"
  have used: "dev ! (root0 fs + k) ! (l * 32) \<noteq> 0 \<and> dev ! (root0 fs + k) ! (l * 32) \<noteq> 0xe5" if "(k, l) \<in> set pre" for k l
    using that assms(6) by (auto simp: free_slot_def slot_byte_def mult.commute)
  have no: "?look k = None" if "k < i" for k
    using used [OF sl(3) [OF that]] ok(1) by (auto simp: find_first_free_space_in_root_directory_sector_def find_None_iff)
  have "List.find (\<lambda>k. dev ! (root0 fs + i) ! (k * 32) = 0 \<or> dev ! (root0 fs + i) ! (k * 32) = 0xe5) [0..<16] = Some j"
    using sl(2) assms(5) used [OF sl(4)] by (subst find_upt_least) (auto simp: mult.commute free_slot_def slot_byte_def)
  then have yes: "?look i = Some (32 * j)" using ok(1) by (simp add: find_first_free_space_in_root_directory_sector_def)
  have "List.find (\<lambda>k. ?look k \<noteq> None) [0..<Suc (root_len fs)] = Some i"
    using sl(1) yes no by (subst find_upt_least) auto
  then show ?thesis using add_root_entry_slot [OF assms(1-3), of e] yes by (simp add: Let_def del: upt_Suc)
qed

text \<open>The entry that \<^verbatim>\<open>create_new_file\<close> makes for a path of the root directory, and as the listing shows it.\<close>

definition created_entry :: "u8 list \<Rightarrow> u8 list \<Rightarrow> u8 \<Rightarrow> u16 \<Rightarrow> fat16_dir_entry_t" where
  "created_entry n x attrs c = \<lparr>filename = n @ replicate (9 - length n) 0, extension = x @ [0], attributes = attrs, first_cluster = c, file_size_bytes = 0\<rparr>"

lemma new_entry_root:
  assumes "root_path p n x"
  shows "new_entry p attrs c = \<lparr>filename = n @ replicate (8 - length n) 0x20 @ [0], extension = x @ [0], attributes = attrs, first_cluster = c, file_size_bytes = 0\<rparr>"
    "char_at (to_directory p) 0 = 0"
proof -
  note rp = assms [unfolded root_path_def]
  have z: "0 \<notin> set n" "0 \<notin> set x" using rp zero_notin_cstring [of p] by auto
  have c: "cstring p = [] @ 47 # (n @ 46 # x)" "47 \<notin> set (n @ 46 # x)" using rp by auto
  have f: "to_filename p = n @ 46 # x @ [0]" using to_filename_slash [OF c] by simp
  have nm: "name (split_filename (to_filename p)) = n @ replicate (8 - length n) 0 @ x @ replicate 2 0"
      "ext (split_filename (to_filename p)) = x @ replicate 2 0"
    using split_filename_ext [of n x "[0]"] z rp unfolding f by (simp_all add: numeral_eq_Suc)
  have "cstring (take 8 (n @ replicate (8 - length n) 0 @ x @ replicate 2 0)) = n" "cstring (take 3 (x @ replicate 2 0)) = x"
    using rp z cstring_pad_end [of n "8 - length n"] cstring_id [of x] by simp_all
  then show "new_entry p attrs c = \<lparr>filename = n @ replicate (8 - length n) 0x20 @ [0], extension = x @ [0], attributes = attrs, first_cluster = c, file_size_bytes = 0\<rparr>"
    unfolding new_entry_def Let_def nm pad_name_def using rp by simp
  show "char_at (to_directory p) 0 = 0" using to_directory_slash [OF c] by (simp add: char_at_def)
qed

lemma created_entry_shown:
  assumes "root_path p n x" "0x20 \<notin> set n" "0x20 \<notin> set x" "n ! 0 \<noteq> 0x05"
  shows "(let e = new_entry p attrs c in e\<lparr>filename := map unpad (take 8 (filename e)) @ [0], extension := map unpad (take 3 (extension e)) @ [0]\<rparr>) = created_entry n x attrs c"
    "filename (new_entry p attrs c) ! 0 = n ! 0" "new_first_char (new_entry p attrs c) = n ! 0" "named n x (created_entry n x attrs c)"
    "length (filename (new_entry p attrs c)) = 9" "length (extension (new_entry p attrs c)) = 4"
proof -
  note rp = assms(1) [unfolded root_path_def]
  have z: "0 \<notin> set n" "0 \<notin> set x" using rp zero_notin_cstring [of p] by auto
  have "map unpad n = n" "map unpad x = x" using assms(2,3) by (auto intro!: map_idI simp: unpad_def)
  moreover have "replicate (8 - length n) (0 :: u8) @ [0] = replicate (9 - length n) 0"
  proof -
    have "Suc (8 - length n) = 9 - length n" using rp by linarith
    then show ?thesis by (simp add: replicate_append_same flip: replicate_Suc)
  qed
  ultimately show "(let e = new_entry p attrs c in e\<lparr>filename := map unpad (take 8 (filename e)) @ [0], extension := map unpad (take 3 (extension e)) @ [0]\<rparr>) = created_entry n x attrs c"
    using rp by (simp add: new_entry_root(1) [OF assms(1)] created_entry_def Let_def unpad_def)
  show f: "filename (new_entry p attrs c) ! 0 = n ! 0" using rp by (simp add: new_entry_root(1) [OF assms(1)] nth_append)
  show "new_first_char (new_entry p attrs c) = n ! 0" unfolding new_first_char_def f using rp by simp
  show "named n x (created_entry n x attrs c)"
    using z rp cstring_pad_end [of n "9 - length n"] cstring_pad_end [of x 1] by (simp add: named_def created_entry_def)
  show "length (filename (new_entry p attrs c)) = 9" "length (extension (new_entry p attrs c)) = 4"
    using rp by (simp_all add: new_entry_root(1) [OF assms(1)])
qed


section \<open>Looking up after a new entry\<close>

text \<open>A root directory as the specification of the format has it: no entry stands behind the first slot that was never used.\<close>

definition root_clean :: "sectors \<Rightarrow> fat16_t \<Rightarrow> bool" where
  "root_clean dev fs \<longleftrightarrow> (\<forall>t \<in> set (dropWhile (\<lambda>sl. slot_byte dev fs sl \<noteq> 0) (all_slots fs)). slot_byte dev fs t = 0)"

lemma listed_cong:
  assumes "\<And>t. t \<in> set xs \<Longrightarrow> slot_byte dev' fs t = slot_byte dev fs t"
  shows "listed dev' fs xs = listed dev fs xs"
  unfolding listed_def using assms by (intro filter_cong takeWhile_cong) (auto dest: set_takeWhileD)

lemma listed_used: "(\<And>t. t \<in> set xs \<Longrightarrow> \<not> free_slot dev fs t) \<Longrightarrow> listed dev fs xs = xs"
  by (induction xs) (auto simp: listed_def free_slot_def)

lemma find_skip: "\<not> P (f y) \<Longrightarrow> List.find P (map f (xs @ y # zs)) = List.find P (map f (xs @ zs))"
  by (induction xs) auto

text \<open>\<open>new_slot\<close>: the first free slot gets the entry \<open>e\<close>, all others stay as they are.\<close>

definition new_slot :: "fat16_t \<Rightarrow> sectors \<Rightarrow> sectors \<Rightarrow> (nat \<times> nat) list \<Rightarrow> nat \<times> nat \<Rightarrow> (nat \<times> nat) list \<Rightarrow> fat16_dir_entry_t \<Rightarrow> bool" where
  "new_slot fs dev dev' pre sl post e \<longleftrightarrow> all_slots fs = pre @ sl # post \<and> free_slot dev fs sl \<and> (\<forall>t \<in> set pre. \<not> free_slot dev fs t)
     \<and> (\<forall>t \<in> set (all_slots fs). t \<noteq> sl \<longrightarrow> slot_entry dev' fs t = slot_entry dev fs t \<and> slot_byte dev' fs t = slot_byte dev fs t)
     \<and> \<not> free_slot dev' fs sl \<and> slot_entry dev' fs sl = e"

lemma new_slot_same:
  assumes "new_slot fs dev dev' pre sl post e" "t \<in> set pre \<union> set post"
  shows "slot_entry dev' fs t = slot_entry dev fs t" "slot_byte dev' fs t = slot_byte dev fs t"
proof -
  have "distinct (all_slots fs)" by (simp add: all_slots_def distinct_product)
  then have "t \<in> set (all_slots fs)" "t \<noteq> sl" using assms by (auto simp: new_slot_def)
  then show "slot_entry dev' fs t = slot_entry dev fs t" "slot_byte dev' fs t = slot_byte dev fs t"
    using assms(1) by (simp_all add: new_slot_def)
qed

lemma new_slot_pre:
  assumes "new_slot fs dev dev' pre sl post e"
  shows "\<forall>t \<in> set pre. slot_byte dev fs t \<noteq> 0" "\<forall>t \<in> set pre. slot_byte dev' fs t \<noteq> 0"
  using assms new_slot_same(2) [OF assms] by (auto simp: new_slot_def free_slot_def)

lemma new_slot_listed:
  assumes "new_slot fs dev dev' pre sl post e"
  shows "listed dev' fs (all_slots fs) = pre @ sl # listed dev fs post"
    "listed dev fs (all_slots fs) = pre @ (if slot_byte dev fs sl = 0 then [] else listed dev fs post)"
proof -
  note ns = assms [unfolded new_slot_def] and same = new_slot_same [OF assms]
  have pre: "listed dev fs pre = pre" "listed dev' fs pre = pre"
    using ns same(2) by (auto intro!: listed_used simp: free_slot_def)
  have "listed dev' fs post = listed dev fs post" using same(2) by (intro listed_cong) simp
  moreover have "listed dev' fs (sl # post) = sl # listed dev' fs post" using ns by (simp add: listed_def free_slot_def)
  ultimately show "listed dev' fs (all_slots fs) = pre @ sl # listed dev fs post"
    using new_slot_pre(2) [OF assms] pre(2) ns by (simp add: listed_append)
  have "listed dev fs (sl # post) = (if slot_byte dev fs sl = 0 then [] else listed dev fs post)"
    using ns by (auto simp: listed_def free_slot_def)
  then show "listed dev fs (all_slots fs) = pre @ (if slot_byte dev fs sl = 0 then [] else listed dev fs post)"
    using new_slot_pre(1) [OF assms] pre(1) ns by (simp add: listed_append)
qed

lemma new_slot_clean:
  assumes "new_slot fs dev dev' pre sl post e" "root_clean dev fs"
  shows "slot_byte dev fs sl = 0 \<Longrightarrow> listed dev fs post = []" "root_clean dev' fs"
proof -
  note same = new_slot_same(2) [OF assms(1)] and pz = new_slot_pre [OF assms(1)]
  have sl: "all_slots fs = pre @ sl # post" "slot_byte dev' fs sl \<noteq> 0" using assms(1) by (simp_all add: new_slot_def free_slot_def)
  have old: "dropWhile (\<lambda>t. slot_byte dev fs t \<noteq> 0) (all_slots fs) = (if slot_byte dev fs sl = 0 then sl # post else dropWhile (\<lambda>t. slot_byte dev fs t \<noteq> 0) post)"
    unfolding sl(1) using pz(1) by (subst dropWhile_append2) simp_all
  have "dropWhile (\<lambda>t. slot_byte dev' fs t \<noteq> 0) (all_slots fs) = dropWhile (\<lambda>t. slot_byte dev' fs t \<noteq> 0) post"
    unfolding sl(1) using sl(2) pz(2) by (subst dropWhile_append2) simp_all
  also have "\<dots> = dropWhile (\<lambda>t. slot_byte dev fs t \<noteq> 0) post" using same by (intro dropWhile_cong) simp_all
  finally have new: "dropWhile (\<lambda>t. slot_byte dev' fs t \<noteq> 0) (all_slots fs) = dropWhile (\<lambda>t. slot_byte dev fs t \<noteq> 0) post" .
  have z: "\<forall>t \<in> set post. t \<in> set (dropWhile (\<lambda>t. slot_byte dev fs t \<noteq> 0) post) \<or> slot_byte dev fs sl = 0 \<longrightarrow> slot_byte dev fs t = 0"
  proof (cases "slot_byte dev fs sl = 0")
    case True
    then show ?thesis using assms(2) unfolding root_clean_def old if_P [OF True] by (meson list.set_intros(2))
  next
    case False
    then show ?thesis using assms(2) unfolding root_clean_def old if_not_P [OF False] by blast
  qed
  show "root_clean dev' fs" unfolding root_clean_def new
  proof
    fix t assume t: "t \<in> set (dropWhile (\<lambda>t. slot_byte dev fs t \<noteq> 0) post)"
    then have "t \<in> set post" by (rule set_dropWhileD)
    then show "slot_byte dev' fs t = 0" using z [rule_format, OF _ disjI1 [OF t]] same [OF UnI2] by metis
  qed
  show "listed dev fs post = []" if "slot_byte dev fs sl = 0"
  proof (cases post)
    case (Cons t ts)
    then have "slot_byte dev fs t = 0" using z that by (meson list.set_intros(1))
    then show ?thesis by (simp add: Cons listed_def)
  qed (simp add: listed_def)
qed

text \<open>The new entry is found under its name, and any other search finds what it found before.\<close>

lemma new_slot_find:
  assumes "new_slot fs dev dev' pre sl post e"
  shows "P e \<Longrightarrow> List.find P (map (slot_entry dev fs) (listed dev fs (all_slots fs))) = None \<Longrightarrow>
      List.find P (map (slot_entry dev' fs) (listed dev' fs (all_slots fs))) = Some e"
    "\<not> P e \<Longrightarrow> root_clean dev fs \<Longrightarrow> List.find P (map (slot_entry dev' fs) (listed dev' fs (all_slots fs)))
      = List.find P (map (slot_entry dev fs) (listed dev fs (all_slots fs)))"
proof -
  note same = new_slot_same(1) [OF assms] and ls = new_slot_listed [OF assms]
  have e: "slot_entry dev' fs sl = e" using assms by (simp add: new_slot_def)
  show "List.find P (map (slot_entry dev' fs) (listed dev' fs (all_slots fs))) = Some e"
    if "P e" "List.find P (map (slot_entry dev fs) (listed dev fs (all_slots fs))) = None"
  proof -
    have "\<forall>t \<in> set pre. \<not> P (slot_entry dev' fs t)" using that(2) same unfolding ls by (auto simp: find_None_iff)
    then have "List.find P (map (slot_entry dev' fs) (pre @ sl # zs)) = Some e" for zs
      using that(1) e by (induction pre) auto
    then show ?thesis unfolding ls .
  qed
  show "List.find P (map (slot_entry dev' fs) (listed dev' fs (all_slots fs))) = List.find P (map (slot_entry dev fs) (listed dev fs (all_slots fs)))"
    if "\<not> P e" "root_clean dev fs"
  proof -
    have a: "listed dev fs (all_slots fs) = pre @ listed dev fs post" using new_slot_clean(1) [OF assms that(2)] unfolding ls(2) by simp
    have "set (listed dev fs post) \<subseteq> set post" unfolding listed_def by (auto dest: set_takeWhileD)
    then have m: "map (slot_entry dev' fs) (pre @ listed dev fs post) = map (slot_entry dev fs) (pre @ listed dev fs post)" using same by auto
    have "List.find P (map (slot_entry dev' fs) (pre @ sl # listed dev fs post)) = List.find P (map (slot_entry dev' fs) (pre @ listed dev fs post))"
      using that(1) e by (intro find_skip) simp
    then show ?thesis unfolding ls(1) a m .
  qed
qed


section \<open>Creating a file\<close>

text \<open>
  The disk with room for a file: the first free entry of the table names the cluster \<open>c\<close> of the disk, and
  the root directory has a free slot.  Nothing is said of the other free entries.
\<close>

definition room_for_file :: "u16 \<Rightarrow> files \<Rightarrow> bool" where
  "room_for_file c s \<longleftrightarrow> fs_ok (fdisk s) (ffs s) \<and> bytes_per_cluster (ffs s) < 65536 \<and> num_reserved_sectors (ffs s) = 1
     \<and> data0 (ffs s) < 65535 \<and> data0 (ffs s) < length (fdisk s) \<and> fat_len (ffs s) \<le> 256
     \<and> in_chain c \<and> has_cluster (fdisk s) (ffs s) c \<and> (\<exists>rest. free_clusters (fdisk s) (ffs s) = c # rest) \<and> (\<exists>t \<in> set (all_slots (ffs s)). free_slot (fdisk s) (ffs s) t)"

text \<open>The effect on the disk: an entry in the first free slot, and a mark at the end of a chain of one cluster.\<close>

lemma create_root_file:
  assumes "room_for_file c s" "root_path p n x" "0x20 \<notin> set n" "0x20 \<notin> set x" "n ! 0 \<noteq> 0x05"
  shows "\<exists>dev i sec pre sl post. create_new_file p attrs s = Some (0, s\<lparr>fdisk := fat_put dev (ffs s) c 0xFFFF\<rparr>)
    \<and> dev = (fdisk s)[root0 (ffs s) + i := sec] \<and> i < root_len (ffs s) \<and> length sec = 512
    \<and> new_slot (ffs s) (fdisk s) dev pre sl post (created_entry n x attrs c)"
proof -
  let ?fs = "ffs s" and ?dev = "fdisk s" and ?e = "new_entry p attrs c"
  note rm = assms(1) [unfolded room_for_file_def] and ce = created_entry_shown [OF assms(2-5), of attrs c]
  obtain rest where free: "free_clusters ?dev ?fs = c # rest" using rm by blast
  have fl: "fat_len ?fs \<le> 256" and cr: "has_cluster ?dev ?fs c" using rm by simp_all
  obtain pre i j post where sl: "all_slots ?fs = pre @ (i, j) # post" "free_slot ?dev ?fs (i, j)" "\<forall>t \<in> set pre. \<not> free_slot ?dev ?fs t"
    using split_list_first_prop [of "all_slots ?fs" "free_slot ?dev ?fs"] rm by (metis surj_pair)
  note ij = slots_before(1,2) [OF sl(1)]
  define sec where "sec = store_entry (new_first_char ?e) (32 * j) ?e (?dev ! (root0 ?fs + i))"
  define dev where "dev = ?dev[root0 ?fs + i := sec]"
  have lt: "root0 ?fs + i < length ?dev" using ij(1) fs_okD(3) [of ?dev ?fs] rm by (simp add: data0_def)
  then have len: "length sec = 512" using fs_okD(6) [of ?dev ?fs] rm by (simp add: sec_def)
  have ok: "fs_ok dev ?fs" unfolding dev_def using root_sector_change(1) rm ij(1) len by blast
  have add: "add_root_directory_entry ?dev ?fs ?e = Some (0, dev)"
    unfolding dev_def sec_def using add_root_entry_first [OF _ _ _ sl] rm by blast
  have "8 \<le> length (filename ?e)" "3 \<le> length (extension ?e)" "filename ?e ! 0 \<noteq> 0x05" using ce(2,5,6) assms(5) by simp_all
  note st = slot_store [OF _ ij this dev_def [unfolded sec_def]]
  have "n ! 0 \<in> set (cstring p)" using assms(2) by (auto simp: root_path_def)
  then have "n ! 0 \<noteq> 0" using zero_notin_cstring [of p] by metis
  then have "\<not> free_slot dev ?fs (i, j)" using st(2) rm ce(3) assms(2) by (simp add: free_slot_def root_path_def)
  moreover have "slot_entry dev ?fs (i, j) = created_entry n x attrs c" using st(1) rm ce(1) by (simp add: Let_def)
  moreover have "slot_entry dev ?fs t = slot_entry ?dev ?fs t \<and> slot_byte dev ?fs t = slot_byte ?dev ?fs t"
    if "t \<in> set (all_slots ?fs)" "t \<noteq> (i, j)" for t
    using that st(3) [of "fst t" "snd t"] rm by (auto simp: all_slots_def)
  ultimately have new: "new_slot ?fs ?dev dev pre (i, j) post (created_entry n x attrs c)" using sl by (simp add: new_slot_def)
  have "find_first_free_cluster ?dev ?fs = Some c" using find_first_free_eq [OF _ fl, of ?dev] rm free by simp
  moreover have "first_cluster ?e = c" by (simp add: new_entry_root(1) [OF assms(2)])
  moreover have "set_successor_cluster dev ?fs c 0xFFFF = Some (fat_put dev ?fs c 0xFFFF)"
    using set_successor_eq [OF ok] has_clusterD(2) [OF cr] by simp
  ultimately have "create_new_file p attrs s = Some (0, s\<lparr>fdisk := fat_put dev ?fs c 0xFFFF\<rparr>)"
    using add new_entry_root(2) [OF assms(2)] get_root_dir_listed [of ?dev ?fs] rm by (simp add: create_new_file_def Let_def)
  then show ?thesis using new ij(1) len unfolding dev_def by blast
qed


text \<open>The state after a creation: the new file is an empty file of one cluster, and nothing else has changed.\<close>

definition created :: "u16 \<Rightarrow> files \<Rightarrow> files \<Rightarrow> bool" where
  "created c s s' \<longleftrightarrow> s' = s\<lparr>fdisk := fdisk s'\<rparr> \<and> fs_ok (fdisk s') (ffs s) \<and> length (fdisk s') = length (fdisk s)
     \<and> chain (fdisk s') (ffs s) c [c] \<and> fat_at (fdisk s') (ffs s) c = 0xFFFF
     \<and> c # free_clusters (fdisk s') (ffs s) = free_clusters (fdisk s) (ffs s)
     \<and> (\<forall>d cs. chain (fdisk s) (ffs s) d cs \<and> c \<notin> set cs \<longrightarrow>
           chain (fdisk s') (ffs s) d cs \<and> chain_data (fdisk s') (ffs s) cs = chain_data (fdisk s) (ffs s) cs)"

lemma chain_fat_change:
  assumes "\<And>d. d \<in> set cs \<Longrightarrow> fat_at dev' fs d = fat_at dev fs d" "length dev' = length dev"
  shows "chain dev' fs c cs = chain dev fs c cs"
  using assms(1) has_cluster_length [OF assms(2)] by (induction cs arbitrary: c) auto

lemma created_files:
  assumes "room_for_file c s" "root_path (um a) n x" "0x20 \<notin> set n" "0x20 \<notin> set x" "n ! 0 \<noteq> 0x05"
  shows "\<exists>s'. create_new_file (um a) attrs s = Some (0, s') \<and> created c s s'
    \<and> (disk_entry um a s = None \<longrightarrow> disk_entry um a s' = Some (created_entry n x attrs c))
    \<and> (root_clean (fdisk s) (ffs s) \<longrightarrow> root_clean (fdisk s') (ffs s)
        \<and> (\<forall>b m y. root_path (um b) m y \<and> (m, y) \<noteq> (n, x) \<longrightarrow> disk_entry um b s' = disk_entry um b s))"
proof -
  let ?fs = "ffs s" and ?e = "created_entry n x attrs c"
  note rm = assms(1) [unfolded room_for_file_def]
  obtain rest where free: "free_clusters (fdisk s) ?fs = c # rest" using rm by blast
  have fl: "fat_len ?fs \<le> 256" and cr: "in_chain c" "has_cluster (fdisk s) ?fs c" using rm by simp_all
  note cl = has_clusterD(2) [OF cr(2)]
  obtain dev i sec pre sl post where k: "create_new_file (um a) attrs s = Some (0, s\<lparr>fdisk := fat_put dev ?fs c 0xFFFF\<rparr>)"
      "dev = (fdisk s)[root0 ?fs + i := sec]" "i < root_len ?fs" "length sec = 512" "new_slot ?fs (fdisk s) dev pre sl post ?e"
    using create_root_file [OF assms] by blast
  note rc = root_sector_change [OF _ k(3,4), of "fdisk s", folded k(2)]
  have ok: "fs_ok dev ?fs" "length dev = length (fdisk s)" using rc(1) rm k(2) by simp_all
  let ?dev = "fat_put dev ?fs c 0xFFFF" and ?s' = "s\<lparr>fdisk := fat_put dev ?fs c 0xFFFF\<rparr>"
  note ok' = fs_ok_put [OF ok(1) cl] and po = fat_put_other [OF ok(1) cl]
  have at: "fat_at ?dev ?fs d = (if d = c then 0xFFFF else fat_at (fdisk s) ?fs d)" if "unat d < 256 * fat_len ?fs" for d
    using fat_at_put [OF ok(1) cl] rc(2) [OF _ that] rm by simp
  have has: "has_cluster ?dev ?fs d = has_cluster (fdisk s) ?fs d" for d using has_cluster_length [of ?dev "fdisk s"] po(1) ok(2) by simp
  have fr: "free_clusters ?dev ?fs = rest" by (rule free_after_take [OF fl free]) (simp add: at)
  moreover have "chain ?dev ?fs d cs \<and> chain_data ?dev ?fs cs = chain_data (fdisk s) ?fs cs" if "chain (fdisk s) ?fs d cs" "c \<notin> set cs" for d cs
  proof -
    have h: "has_cluster (fdisk s) ?fs y" "y \<noteq> c" if "y \<in> set cs" for y using chain_has [OF \<open>chain (fdisk s) ?fs d cs\<close> that] that \<open>c \<notin> set cs\<close> by auto
    then have "cluster_data ?dev ?fs y = cluster_data (fdisk s) ?fs y" if "y \<in> set cs" for y
      using that cluster_data_fat_put [OF ok(1) cl] rc(3,4) rm by simp
    then have "chain_data ?dev ?fs cs = chain_data (fdisk s) ?fs cs" unfolding chain_data_def by (intro arg_cong [of _ _ concat] map_cong) simp_all
    moreover have "chain ?dev ?fs d cs = chain (fdisk s) ?fs d cs" 
      using at [OF has_clusterD(2) [OF h(1)]] h(2) po(1) ok(2) by (intro chain_fat_change) simp_all
    ultimately show ?thesis using that(1) by simp
  qed
  ultimately have cre: "created c s ?s'"
    using ok' po(1) ok(2) at [OF cl] has cr free fr by (simp add: created_def) blast
  have de: "disk_entry um b ?s' = List.find (named m y) (map (slot_entry dev ?fs) (listed dev ?fs (all_slots ?fs)))"
    if "root_path (um b) m y" for b m y
  proof -
    have "disk_entry um b ?s' = disk_entry um b (s\<lparr>fdisk := dev\<rparr>)"
      by (rule disk_entry_cong [of um b m y, OF that]) (use ok ok' po(2) rm in simp_all)
    then show ?thesis using disk_entry_eq [of um b, OF that, of "s\<lparr>fdisk := dev\<rparr>"] ok rm by simp
  qed
  have od: "disk_entry um b s = List.find (named m y) (map (slot_entry (fdisk s) ?fs) (listed (fdisk s) ?fs (all_slots ?fs)))"
    if "root_path (um b) m y" for b m y using disk_entry_eq [of um b, OF that, of s] rm by simp
  note nf = new_slot_find [OF k(5)] and nm = created_entry_shown(4) [OF assms(2-5), of attrs c]
  have new: "disk_entry um a ?s' = Some ?e" if "disk_entry um a s = None"
    using nf(1) [of "named n x"] nm that unfolding de [OF assms(2)] od [OF assms(2)] by simp
  have old: "\<forall>b m y. root_path (um b) m y \<and> (m, y) \<noteq> (n, x) \<longrightarrow> disk_entry um b ?s' = disk_entry um b s" if "root_clean (fdisk s) ?fs"
  proof (intro allI impI)
    fix b m y assume b: "root_path (um b) m y \<and> (m, y) \<noteq> (n, x)"
    then have "\<not> named m y ?e" using nm by (auto simp: named_def)
    then show "disk_entry um b ?s' = disk_entry um b s" using nf(2) that unfolding de [OF conjunct1 [OF b]] od [OF conjunct1 [OF b]] by simp
  qed
  have clean: "root_clean (fdisk ?s') ?fs" if "root_clean (fdisk s) ?fs"
  proof -
    have eq: "slot_byte ?dev ?fs = slot_byte dev ?fs" using po(2) by (auto simp: slot_byte_def)
    have "root_clean ?dev ?fs" using new_slot_clean(2) [OF k(5) that] unfolding root_clean_def eq .
    then show ?thesis by simp
  qed
  show ?thesis
  proof (rule exI [of _ ?s'], intro conjI)
    show "root_clean (fdisk s) ?fs \<longrightarrow> root_clean (fdisk ?s') ?fs
        \<and> (\<forall>b m y. root_path (um b) m y \<and> (m, y) \<noteq> (n, x) \<longrightarrow> disk_entry um b ?s' = disk_entry um b s)"
      using clean old by iprover
  qed (rule k(1), rule cre, rule impI, erule new)
qed


section \<open>Opening with creation\<close>

text \<open>The flag for creating a file is bit 0 of the second argument of \<^verbatim>\<open>open\<close>, the flag for appending bit 1.\<close>

lemma open_creates:
  assumes "files_inv s" "room_for_file c s" "root_path (um a) n x" "0x20 \<notin> set n" "0x20 \<notin> set x" "n ! 0 \<noteq> 0x05"
    "find_open_file um a s = None" "disk_entry um a s = None" "sint (next_fd s) < 2 ^ 31 - 1" "flags AND 1 \<noteq> 0"
    "f = \<lparr>fd = next_fd s, directory_entry = created_entry n x 0 c, path = a, offset = 0, append_flag = flags AND 2 \<noteq> 0\<rparr>"
  shows "\<exists>s'. sys_open um a flags s = Some (next_fd s, s') \<and> root_file um (next_fd s) f [c] s' \<and> open_files s' = open_files s @ [f] \<and> next_fd s' = next_fd s + 1
    \<and> created c s (s\<lparr>fdisk := fdisk s'\<rparr>) \<and> ffs s' = ffs s
    \<and> (root_clean (fdisk s) (ffs s) \<longrightarrow> root_clean (fdisk s') (ffs s)
        \<and> (\<forall>b m y. root_path (um b) m y \<and> (m, y) \<noteq> (n, x) \<longrightarrow> disk_entry um b s' = disk_entry um b s))"
proof -
  let ?fs = "ffs s" and ?e = "created_entry n x 0 c"
  note rm = assms(2) [unfolded room_for_file_def]
  obtain s2 where s2: "create_new_file (um a) 0 s = Some (0, s2)" "created c s s2" "disk_entry um a s2 = Some ?e"
      "root_clean (fdisk s) ?fs \<longrightarrow> root_clean (fdisk s2) ?fs \<and> (\<forall>b m y. root_path (um b) m y \<and> (m, y) \<noteq> (n, x) \<longrightarrow> disk_entry um b s2 = disk_entry um b s)"
    using created_files [of c s um a, OF assms(2-6), of 0] assms(8) by blast
  define d2 where "d2 = fdisk s2"
  have s2d: "s2 = s\<lparr>fdisk := d2\<rparr>" using s2(2) by (simp add: created_def d2_def)
  note cr = s2(2) [unfolded created_def s2d]
  define f0 where "f0 = \<lparr>fd = next_fd s, directory_entry = ?e, path = a, offset = 0, append_flag = False\<rparr>"
  have ff: "f0\<lparr>append_flag := flags AND 2 \<noteq> 0\<rparr> = f" by (simp add: f0_def assms(11))
  define s' where "s' = modify_open_file (next_fd s) (\<lambda>y. y\<lparr>append_flag := flags AND 2 \<noteq> 0\<rparr>) (s2\<lparr>next_fd := next_fd s + 1, open_files := open_files s @ [f0]\<rparr>)"
  have inv2: "files_inv s2" using assms(1) by (simp add: s2d files_inv_def)
  note lk = opened_lookup [OF inv2, of f0 ?e a s' "flags AND 2 \<noteq> 0", unfolded ff]
  have lk: "find_open_file_by_fd (next_fd s) s' = Some f" "fdisk s' = d2" "ffs s' = ?fs" "open_files s' = open_files s @ [f]" "next_fd s' = next_fd s + 1"
    using lk by (simp_all add: f0_def s'_def s2d)
  have "get_root_dir fresh_heap (fdisk s) ?fs \<noteq> None" using get_root_dir_listed [of "fdisk s" ?fs] rm by simp
  then have open1: "open_file um a s = Some (None, s)" by (rule open_file_disk(2) [of um a, OF assms(3,8)])
  have "open_file um a s2 = Some (Some f0, s2\<lparr>next_fd := next_fd s + 1, open_files := open_files s @ [f0]\<rparr>)"
    using open_file_disk(1) [of um a, OF assms(3) s2(3)] by (simp add: f0_def s2d Let_def)
  then have op: "sys_open um a flags s = Some (next_fd s, s')"
    using open1 s2(1) assms(7,10) unfolding sys_open_def s'_def by (simp add: f0_def)
  have inv: "files_inv s'" using sys_open_inv [OF op assms(1,9)] .
  have de: "disk_entry um b s' = disk_entry um b s2" for b using lk(2,3) by (simp add: disk_entry_def s2d)
  have rf: "root_file um (next_fd s) f [c] s'"
    using inv lk rm cr s2(3) de [of a] by (simp add: root_file_def assms(11) created_entry_def is_dir_def unpack_file_attributes_def)
  have cre: "created c s (s\<lparr>fdisk := fdisk s'\<rparr>)" using s2(2) lk(2) by (simp add: s2d)
  have others: "root_clean (fdisk s) ?fs \<longrightarrow> root_clean (fdisk s') ?fs
        \<and> (\<forall>b m y. root_path (um b) m y \<and> (m, y) \<noteq> (n, x) \<longrightarrow> disk_entry um b s' = disk_entry um b s)"
    using s2(4) unfolding de lk(2) d2_def .
  show ?thesis by (rule exI [of _ s'], intro conjI) (rule op rf lk cre others)+
qed


section \<open>Properties\<close>

text \<open>
  C11: a new file keeps what is written to it.  On a disk with a free cluster and a free slot in the root directory,
  opening a path of the root directory that names no file creates the file; what is then written to the
  descriptor is what is read after closing it and opening the path again.  This needs that the free
  entries the bytes take from the table, lowest first, name clusters of the disk, which the code does not
  check.  All of it is written unless the table has fewer free entries than it needs.
\<close>

theorem new_file_roundtrip:
  assumes "files_inv s" "room_for_file c s" "root_path (um a) n x" "0x20 \<notin> set n" "0x20 \<notin> set x" "n ! 0 \<noteq> 0x05"
    "find_open_file um a s = None" "disk_entry um a s = None" "sint (next_fd s) < 2 ^ 31 - 1" "flags AND 1 \<noteq> 0" "length buf < 2 ^ 31"
    "on_disk (fdisk s) (ffs s) (take (clusters_for (ffs s) (length buf)) (free_clusters (fdisk s) (ffs s)))"
    "k = min (length buf) (length (free_clusters (fdisk s) (ffs s)) * bytes_per_cluster (ffs s))"
  shows "\<exists>s1 s2 s3 s4 s5. sys_open um a flags s = Some (next_fd s, s1) \<and> sys_write um (next_fd s) buf s1 = Some (of_nat k, s2)
    \<and> sys_close (next_fd s) s2 = (0, s3) \<and> sys_open um a 0 s3 = Some (next_fd s + 1, s4)
    \<and> sys_read (next_fd s + 1) (of_nat k) s4 = Some (of_nat k, take k buf, s5)"
proof -
  let ?fs = "ffs s" and ?e = "created_entry n x 0 c"
  define f where "f = \<lparr>fd = next_fd s, directory_entry = ?e, path = a, offset = 0, append_flag = flags AND 2 \<noteq> 0\<rparr>"
  obtain s1 where s1: "sys_open um a flags s = Some (next_fd s, s1)" "root_file um (next_fd s) f [c] s1" "open_files s1 = open_files s @ [f]"
      "next_fd s1 = next_fd s + 1" "created c s (s\<lparr>fdisk := fdisk s1\<rparr>)" "ffs s1 = ?fs"
    using open_creates [of s c um a, OF assms(1-10) f_def] by blast
  note rf = s1(2) [unfolded root_file_def s1(6)]
  have f: "path f = a" "write_offset f = 0" "directory_entry f = ?e" "fd f = next_fd s" by (simp_all add: f_def write_offset_def created_entry_def)
  have b: "0 < bytes_per_cluster ?fs" using rf fs_okD [of "fdisk s1" ?fs] by (simp add: bytes_per_cluster_def)
  have fr: "free_clusters (fdisk s) ?fs = c # free_clusters (fdisk s1) ?fs" using s1(5) by (simp add: created_def)
  define ns where "ns = take (clusters_for ?fs (length buf - bytes_per_cluster ?fs)) (free_clusters (fdisk s1) ?fs)"
  have k: "k = min (length buf) (length ([c] @ ns) * bytes_per_cluster ?fs)"
  proof (cases "clusters_for ?fs (length buf - bytes_per_cluster ?fs) \<le> length (free_clusters (fdisk s1) ?fs)")
    case True
    then have "clusters_for ?fs (length buf - bytes_per_cluster ?fs) * bytes_per_cluster ?fs \<le> length (free_clusters (fdisk s1) ?fs) * bytes_per_cluster ?fs"
      by (rule mult_le_mono1)
    then have "length buf \<le> bytes_per_cluster ?fs + length (free_clusters (fdisk s1) ?fs) * bytes_per_cluster ?fs"
      using clusters_for_enough [OF b, of "length buf - bytes_per_cluster ?fs"] by linarith
    then show ?thesis using True clusters_for_enough [OF b, of "length buf - bytes_per_cluster ?fs"] by (simp add: assms(13) fr ns_def add_mult_distrib)
  qed (simp add: assms(13) fr ns_def)
  have "on_disk (fdisk s) ?fs ns"
  proof (cases "length buf = 0")
    case False
    have "take (clusters_for ?fs (length buf)) (free_clusters (fdisk s) ?fs) = c # ns"
      using clusters_for_step [OF b, of "length buf"] False by (simp add: fr ns_def)
    then show ?thesis using assms(12) by simp
  qed (use b in \<open>simp add: ns_def\<close>)
  moreover have "length (fdisk s1) = length (fdisk s)" using s1(5) by (simp add: created_def)
  ultimately have od: "on_disk (fdisk s1) ?fs ns" using on_disk_length by blast
  have nofile: "cstring (um (path g)) \<noteq> cstring (um a)" if "g \<in> set (open_files s)" for g
    using that assms(7) by (auto simp: find_open_file_def find_None_iff stdstring_compare_zero)
  have kk: "unat (of_nat k :: u32) = k" using assms(11) unfolding k by (simp add: unat_of_nat)
  obtain s2 s3 s4 where w: "sys_write um (next_fd s) buf s1 = Some (of_nat k, s2)" "sys_close (next_fd s) s2 = (0, s3)"
      "sys_open um a 0 s3 = Some (next_fd s + 1, s4)" "ffs s4 = ?fs" "fs_ok (fdisk s4) ?fs" "chain (fdisk s4) ?fs c ([c] @ ns)" "distinct ([c] @ ns)"
      "find_open_file_by_fd (next_fd s + 1) s4 = Some \<lparr>fd = next_fd s + 1, directory_entry = ?e\<lparr>file_size_bytes := of_nat k\<rparr>, path = a, offset = 0, append_flag = False\<rparr>"
      "chain_data (fdisk s4) ?fs ([c] @ ns) = patch (chain_data (fdisk s1) ?fs ([c] @ ns)) 0 (take k buf)"
    using write_close_open [OF s1(2), of n x 0 buf ns k "of_nat k"] assms(3,11) b k nofile od
    by (auto simp: f s1(3,4,6) ns_def created_entry_def)
  have "take k buf = take (unat (of_nat k :: u32)) (chain_data (fdisk s4) ?fs ([c] @ ns))"
    unfolding w(9) kk using k by (simp add: patch_def)
  moreover have "next_fd s + 1 \<noteq> 0" using rf unfolding s1(4) [symmetric] by (auto simp: files_inv_def)
  moreover have "first_cluster (directory_entry \<lparr>fd = next_fd s + 1, directory_entry = ?e\<lparr>file_size_bytes := of_nat k\<rparr>, path = a, offset = 0, append_flag = False\<rparr>) = c"
    by (simp add: created_entry_def)
  moreover have "unat (of_nat k :: u32) < 2 ^ 31" "0 < length ([c] @ ns) * bytes_per_cluster ?fs" using b assms(11) k kk by simp_all
  moreover have "bytes_per_cluster ?fs < 65536" using rf by simp
  ultimately obtain s5 where "sys_read (next_fd s + 1) (of_nat k) s4 = Some (of_nat (length (take k buf)), take k buf, s5)"
    using read_opened [of s4 "next_fd s + 1" _ "[c] @ ns" "of_nat k" "take k buf", OF _ _ w(8)] w(5-7) unfolding w(4) open_file_t.simps by metis
  moreover have "length (take k buf) = k" using k by simp
  ultimately show ?thesis using s1(1) w(1-3) by auto
qed


text \<open>
  C15: creating a file leaves the others alone.  On a disk whose first free table entry names a cluster that exists and whose
  root directory has a free slot, if no directory entry stands behind the end mark of the root directory,
  opening a path that names no file keeps this, and every other path of the root directory leads to the entry it led to, with the contents it had,
  as long as the clusters of its file do not include the free one that the new file is given.
\<close>

theorem creation_leaves_others:
  assumes "files_inv s" "room_for_file c s" "root_path (um a) n x" "0x20 \<notin> set n" "0x20 \<notin> set x" "n ! 0 \<noteq> 0x05"
    "find_open_file um a s = None" "disk_entry um a s = None" "sint (next_fd s) < 2 ^ 31 - 1" "flags AND 1 \<noteq> 0"
    "root_clean (fdisk s) (ffs s)" "root_path (um b) m y" "(m, y) \<noteq> (n, x)" "disk_entry um b s = Some e"
    "chain (fdisk s) (ffs s) (first_cluster e) cs" "c \<notin> set cs"
  shows "\<exists>s'. sys_open um a flags s = Some (next_fd s, s') \<and> root_clean (fdisk s') (ffs s') \<and> disk_entry um b s' = Some e
    \<and> chain (fdisk s') (ffs s') (first_cluster e) cs \<and> load_file (fdisk s') (ffs s') e = load_file (fdisk s) (ffs s) e"
proof -
  obtain s' where s': "sys_open um a flags s = Some (next_fd s, s')" "created c s (s\<lparr>fdisk := fdisk s'\<rparr>)" "ffs s' = ffs s"
      "root_clean (fdisk s) (ffs s) \<longrightarrow> root_clean (fdisk s') (ffs s)
        \<and> (\<forall>b m y. root_path (um b) m y \<and> (m, y) \<noteq> (n, x) \<longrightarrow> disk_entry um b s' = disk_entry um b s)"
    using open_creates [of s c um a, OF assms(1-10) refl] by blast
  have cs: "chain (fdisk s') (ffs s) (first_cluster e) cs" "chain_data (fdisk s') (ffs s) cs = chain_data (fdisk s) (ffs s) cs" "fs_ok (fdisk s') (ffs s)"
    using s'(2) assms(15,16) by (simp_all add: created_def)
  have "fs_ok (fdisk s) (ffs s)" using assms(2) by (simp add: room_for_file_def)
  then have "load_file (fdisk s') (ffs s) e = load_file (fdisk s) (ffs s) e"
    using chain_loops_terminate [OF cs(3,1)] chain_loops_terminate [OF _ assms(15)] cs(2) by simp
  moreover have "disk_entry um b s' = Some e" using s'(4) assms(11-14) by metis
  ultimately show ?thesis using s' cs(1) assms(11) by auto
qed

text \<open>The disk of the examples, with a second path.\<close>

definition two_paths :: strings where
  "two_paths a = (if a = 200 then lit ''/NEW.TXT'' else lit ''/LOG.TXT'')"

lemma reopen_slots:
  "all_slots demo_fs = (0, 0) # map (Pair 0) [Suc 0..<16]"
  "slot_byte reopen_dev demo_fs (0, 0) = 76" "\<forall>t \<in> set (map (Pair 0) [Suc 0..<16]). slot_byte reopen_dev demo_fs t = 0"
proof -
  show "all_slots demo_fs = (0, 0) # map (Pair 0) [Suc 0..<16]" by (simp add: all_slots_def demo_layout upt_conv_Cons)
  show "slot_byte reopen_dev demo_fs (0, 0) = 76" by (simp add: slot_byte_def demo_layout reopen_sectors(6) lit_def nth_append)
  have z: "reopen_dev ! 2 ! i = 0" if "32 \<le> i" "i < 512" for i
    using that unfolding reopen_sectors(6) append_assoc [symmetric] by (subst nth_append) (simp add: lit_def)
  show "\<forall>t \<in> set (map (Pair 0) [Suc 0..<16]). slot_byte reopen_dev demo_fs t = 0" using z by (auto simp: slot_byte_def demo_layout simp flip: numeral_2_eq_2)
qed

lemma new_file_example:
  "files_inv reopen_files" "room_for_file 4 reopen_files" "root_path (two_paths 200) (lit ''NEW'') (lit ''TXT'')"
  "0x20 \<notin> set (lit ''NEW'')" "0x20 \<notin> set (lit ''TXT'')" "lit ''NEW'' ! 0 \<noteq> 0x05"
  "find_open_file two_paths 200 reopen_files = None" "disk_entry two_paths 200 reopen_files = None"
  "sint (next_fd reopen_files) < 2 ^ 31 - 1" "(1 :: i32) AND 1 \<noteq> 0"
proof -
  note rf = reopen_root_file(1) [unfolded root_file_def]
  have f: "fdisk reopen_files = reopen_dev" "ffs reopen_files = demo_fs" by (simp_all add: reopen_files_def)
  show "files_inv reopen_files" using rf by simp
  have "free_clusters reopen_dev demo_fs = 4 # map of_nat [5..<256]" "in_chain 4" "has_cluster reopen_dev demo_fs 4"
    using reopen_free grow_free by simp_all
  moreover have "\<exists>t \<in> set (all_slots demo_fs). free_slot reopen_dev demo_fs t"
    using reopen_slots(1,3) by (auto simp: free_slot_def)
  ultimately show "room_for_file 4 reopen_files" using rf unfolding room_for_file_def f by blast
  show p: "root_path (two_paths 200) (lit ''NEW'') (lit ''TXT'')" by code_simp
  show "0x20 \<notin> set (lit ''NEW'')" "0x20 \<notin> set (lit ''TXT'')" "lit ''NEW'' ! 0 \<noteq> 0x05" "find_open_file two_paths 200 reopen_files = None" by code_simp+
  have "disk_entry two_paths 200 reopen_files = List.find (named (lit ''NEW'') (lit ''TXT'')) [reopen_entry]"
    using disk_entry_eq [of two_paths 200 _ _ reopen_files, OF p] rf reopen_listed by (simp add: f)
  also have "\<dots> = None" by code_simp
  finally show "disk_entry two_paths 200 reopen_files = None" .
qed (simp_all add: reopen_files_def)

theorem new_file_roundtrip_witness:
  "\<exists>s1 s2 s3 s4 s5. sys_open two_paths 200 1 reopen_files = Some (4, s1) \<and> sys_write two_paths 4 (replicate 300 9) s1 = Some (300, s2)
    \<and> sys_close 4 s2 = (0, s3) \<and> sys_open two_paths 200 0 s3 = Some (5, s4) \<and> sys_read 5 300 s4 = Some (300, replicate 300 9, s5)"
proof -
  have f: "fdisk reopen_files = reopen_dev" "ffs reopen_files = demo_fs" "next_fd reopen_files = 4" by (simp_all add: reopen_files_def)
  have "length (free_clusters reopen_dev demo_fs) = 252" using reopen_free(1) grow_free by simp
  then have k: "300 = min (length (replicate 300 (9 :: u8))) (length (free_clusters (fdisk reopen_files) (ffs reopen_files)) * bytes_per_cluster (ffs reopen_files))"
    by (simp add: f demo_layout)
  have "clusters_for demo_fs (length (replicate 300 (9 :: u8))) = 1" by (simp add: clusters_for_def demo_layout)
  then have od: "on_disk (fdisk reopen_files) (ffs reopen_files)
      (take (clusters_for (ffs reopen_files) (length (replicate 300 (9 :: u8)))) (free_clusters (fdisk reopen_files) (ffs reopen_files)))"
    unfolding f using reopen_free grow_take by simp
  from new_file_roundtrip [of reopen_files 4 two_paths 200, OF new_file_example _ od k] show ?thesis by (simp add: f)
qed

theorem creation_leaves_others_witness:
  "\<exists>s'. sys_open two_paths 200 1 reopen_files = Some (4, s') \<and> disk_entry two_paths 100 s' = Some reopen_entry"
proof -
  note rf = reopen_root_file(1) [unfolded root_file_def]
  have f: "fdisk reopen_files = reopen_dev" "ffs reopen_files = demo_fs" "next_fd reopen_files = 4" "path (hd (open_files reopen_files)) = 100"
      "directory_entry (hd (open_files reopen_files)) = reopen_entry" by (simp_all add: reopen_files_def)
  have p: "root_path (two_paths 100) (lit ''LOG'') (lit ''TXT'')" "(lit ''LOG'', lit ''TXT'') \<noteq> (lit ''NEW'', lit ''TXT'')" by code_simp+
  have "dropWhile (\<lambda>sl. slot_byte reopen_dev demo_fs sl \<noteq> 0) (all_slots demo_fs) = map (Pair 0) [Suc 0..<16]"
    using reopen_slots by (simp add: upt_conv_Cons)
  then have clean: "root_clean (fdisk reopen_files) (ffs reopen_files)" unfolding root_clean_def f using reopen_slots(3) by metis
  have "disk_entry two_paths 100 reopen_files = disk_entry (\<lambda>_. lit ''/LOG.TXT'') 100 reopen_files" by (simp add: disk_entry_def two_paths_def)
  then have e: "disk_entry two_paths 100 reopen_files = Some reopen_entry" using rf f by simp
  have ch: "chain (fdisk reopen_files) (ffs reopen_files) (first_cluster reopen_entry) [2, 3]" using rf f(5) by metis
  from creation_leaves_others [of reopen_files 4 two_paths 200, OF new_file_example clean p e ch] show ?thesis by (auto simp: f)
qed

end
