(* ===== verification/TailqMore.thy ===== *)
theory TailqMore
  imports Tailq
begin

text \<open>
  The macros of \<^verbatim>\<open>mlibc/include/datastructures/stdqueue.h\<close> that the kernel does not use itself but offers beside the others: inserting
  beside an element, the last and the previous element, the loops that run backwards, from a variable, or with a body that removes the current
  element, and \<^verbatim>\<open>TAILQ_CONCAT\<close>.  A loop in either direction follows the contract of the locale \<open>queue_walk\<close>, which is interpreted
  on \<^verbatim>\<open>TAILQ_FIRST\<close>/\<^verbatim>\<open>TAILQ_NEXT\<close> and on \<^verbatim>\<open>TAILQ_LAST\<close>/\<^verbatim>\<open>TAILQ_PREV\<close>.  \<^verbatim>\<open>TAILQ_SWAP\<close> is left out: it uses \<^verbatim>\<open>QUEUE_TYPEOF\<close>,
  which the header does not define, so no use of it compiles.
\<close>


section \<open>Inserting beside an element\<close>

definition TAILQ_INSERT_AFTER :: "'a tailq \<Rightarrow> 'a \<Rightarrow> 'a \<Rightarrow> 'a tailq_panic + 'a tailq" where
  "TAILQ_INSERT_AFTER q listelm elm =
     (if \<not> QMD_TAILQ_CHECK_NEXT q listelm then Inl (Bad_next listelm)
      else
        let q1 = q\<lparr>tqe_next := (tqe_next q)(elm := tqe_next q listelm)\<rparr>;
            q2 = (case tqe_next q1 elm of
                    Some n \<Rightarrow> q1\<lparr>tqe_prev := (tqe_prev q1)(n := NextOf elm)\<rparr>
                  | None \<Rightarrow> q1\<lparr>tqh_last := NextOf elm\<rparr>);
            q3 = q2\<lparr>tqe_next := (tqe_next q2)(listelm := Some elm)\<rparr>
        in Inr (q3\<lparr>tqe_prev := (tqe_prev q3)(elm := NextOf listelm)\<rparr>))"

definition TAILQ_INSERT_BEFORE :: "'a tailq \<Rightarrow> 'a \<Rightarrow> 'a \<Rightarrow> 'a tailq_panic + 'a tailq" where
  "TAILQ_INSERT_BEFORE q listelm elm =
     (if \<not> QMD_TAILQ_CHECK_PREV q listelm then Inl (Bad_prev listelm)
      else
        let q1 = q\<lparr>tqe_prev := (tqe_prev q)(elm := tqe_prev q listelm)\<rparr>;
            q2 = q1\<lparr>tqe_next := (tqe_next q1)(elm := Some listelm)\<rparr>;
            q3 = assign q2 (tqe_prev q2 listelm) (Some elm)
        in Inr (q3\<lparr>tqe_prev := (tqe_prev q3)(listelm := NextOf elm)\<rparr>))"

section \<open>The last and the previous element\<close>

text \<open>
  A head and an entry have the same layout: two pointers.  \<^verbatim>\<open>TAILQ_LAST\<close> and \<^verbatim>\<open>TAILQ_PREV\<close> cast a pointer to the
  first word of either to a pointer to a head and read the second word.
\<close>

fun second_word :: "'a tailq \<Rightarrow> 'a slot \<Rightarrow> 'a slot" where
  "second_word q HeadFirst = tqh_last q"
| "second_word q (NextOf a) = tqe_prev q a"

definition TAILQ_LAST :: "'a tailq \<Rightarrow> 'a option" where
  "TAILQ_LAST q = deref q (second_word q (tqh_last q))"

definition TAILQ_PREV :: "'a tailq \<Rightarrow> 'a \<Rightarrow> 'a option" where
  "TAILQ_PREV q elm = deref q (second_word q (tqe_prev q elm))"

section \<open>The loops\<close>

text \<open>
  A loop whose body only looks at the element, from the element \<open>var\<close> on, and a loop that reads the next element before the body runs, with
  a body that may change the queue or panic.  \<open>None\<close> is a loop that never ends.
\<close>

partial_function (option) walk :: "('q \<Rightarrow> 'e \<Rightarrow> 'e option) \<Rightarrow> 'q \<Rightarrow> 'e option \<Rightarrow> 'e list option" where
  "walk step q var =
     (case var of
        None \<Rightarrow> Some []
      | Some elm \<Rightarrow> do { es \<leftarrow> walk step q (step q elm); Some (elm # es) })"

partial_function (option) walk_safe ::
    "('q \<Rightarrow> 'e \<Rightarrow> 'e option) \<Rightarrow> ('e \<Rightarrow> 'q \<Rightarrow> 'p + 'q) \<Rightarrow> 'q \<Rightarrow> 'e option \<Rightarrow> ('p + 'q) option" where
  "walk_safe step body q var =
     (case var of
        None \<Rightarrow> Some (Inr q)
      | Some elm \<Rightarrow>
          (let tvar = step q elm in
           case body elm q of
             Inl p \<Rightarrow> Some (Inl p)
           | Inr q' \<Rightarrow> walk_safe step body q' tvar))"

text \<open>The argument \<open>var\<close> of a loop that starts \<^verbatim>\<open>FROM\<close> a variable: the variable, or the start of the queue when it is NULL.\<close>

definition loop_start :: "'e option \<Rightarrow> 'e option \<Rightarrow> 'e option" where
  "loop_start var start = (if var \<noteq> None then var else start)"

definition TAILQ_FOREACH_FROM :: "'a tailq \<Rightarrow> 'a option \<Rightarrow> 'a list option" where
  "TAILQ_FOREACH_FROM q var = walk TAILQ_NEXT q (loop_start var (TAILQ_FIRST q))"

definition TAILQ_FOREACH_SAFE :: "('a \<Rightarrow> 'a tailq \<Rightarrow> 'p + 'a tailq) \<Rightarrow> 'a tailq \<Rightarrow> ('p + 'a tailq) option" where
  "TAILQ_FOREACH_SAFE body q = walk_safe TAILQ_NEXT body q (TAILQ_FIRST q)"

definition TAILQ_FOREACH_FROM_SAFE :: "('a \<Rightarrow> 'a tailq \<Rightarrow> 'p + 'a tailq) \<Rightarrow> 'a tailq \<Rightarrow> 'a option \<Rightarrow> ('p + 'a tailq) option" where
  "TAILQ_FOREACH_FROM_SAFE body q var = walk_safe TAILQ_NEXT body q (loop_start var (TAILQ_FIRST q))"

definition TAILQ_FOREACH_REVERSE :: "'a tailq \<Rightarrow> 'a list option" where
  "TAILQ_FOREACH_REVERSE q = walk TAILQ_PREV q (TAILQ_LAST q)"

definition TAILQ_FOREACH_REVERSE_FROM :: "'a tailq \<Rightarrow> 'a option \<Rightarrow> 'a list option" where
  "TAILQ_FOREACH_REVERSE_FROM q var = walk TAILQ_PREV q (loop_start var (TAILQ_LAST q))"

definition TAILQ_FOREACH_REVERSE_SAFE :: "('a \<Rightarrow> 'a tailq \<Rightarrow> 'p + 'a tailq) \<Rightarrow> 'a tailq \<Rightarrow> ('p + 'a tailq) option" where
  "TAILQ_FOREACH_REVERSE_SAFE body q = walk_safe TAILQ_PREV body q (TAILQ_LAST q)"

definition TAILQ_FOREACH_REVERSE_FROM_SAFE :: "('a \<Rightarrow> 'a tailq \<Rightarrow> 'p + 'a tailq) \<Rightarrow> 'a tailq \<Rightarrow> 'a option \<Rightarrow> ('p + 'a tailq) option" where
  "TAILQ_FOREACH_REVERSE_FROM_SAFE body q var = walk_safe TAILQ_PREV body q (loop_start var (TAILQ_LAST q))"

section \<open>Inserting, on lists\<close>

lemma tailq_repr_insert_before:
  assumes r: "tailq_repr q (xs @ b # ys)" and fresh: "elm \<notin> set (xs @ b # ys)"
  shows "\<exists>q'. TAILQ_INSERT_BEFORE q b elm = Inr q' \<and> tailq_repr q' (xs @ elm # b # ys)"
proof -
  obtain m where m: "tq_seg q HeadFirst xs m" "deref q m = Some b" "tqe_prev q b = m" "tq_seg q (NextOf b) ys (tqh_last q)" "deref q (tqh_last q) = None"
      "m \<noteq> NextOf b" "\<forall>y \<in> set ys. m \<noteq> NextOf y" using tailq_repr_split [OF r] by blast
  have d: "distinct (xs @ b # ys)" using r by (simp add: tailq_repr_def)
  define q2 where "q2 = q\<lparr>tqe_prev := (tqe_prev q)(elm := m), tqe_next := (tqe_next q)(elm := Some b)\<rparr>"
  define q' where "q' = (assign q2 m (Some elm))\<lparr>tqe_prev := (tqe_prev q)(elm := m, b := NextOf elm)\<rparr>"
  have me: "m \<noteq> NextOf elm" using tq_seg_end [OF m(1)] fresh by (auto split: if_splits)
  have ins: "TAILQ_INSERT_BEFORE q b elm = Inr q'"
    using tailq_remove_checks(2) [OF r] fresh by (simp add: TAILQ_INSERT_BEFORE_def Let_def m(3) q'_def q2_def)
  have dq: "deref q' s = deref q s" if "s \<noteq> m" "s \<noteq> NextOf elm" for s
  proof -
    have "deref q2 s = deref q s" using that(2) by (cases s) (auto simp: q2_def)
    then show ?thesis using that(1) by (simp add: q'_def)
  qed
  have "tq_seg q' HeadFirst xs m"
  proof (rule tq_seg_cong [OF m(1)])
    have "distinct xs" using d by simp
    note fr = tq_seg_last_fresh [OF m(1) this]
    show "deref q' HeadFirst = deref q HeadFirst" if "xs \<noteq> []" using fr(1) [OF that] by (intro dq) simp_all
    show "deref q' (NextOf y) = deref q (NextOf y)" if "y \<in> set (butlast xs)" for y
      using fr(2) [OF that] in_set_butlastD [OF that] fresh by (intro dq) auto
    show "tqe_prev q' y = tqe_prev q y" if "y \<in> set xs" for y using that d fresh by (auto simp: q'_def)
  qed
  moreover have "tq_seg q' (NextOf b) ys (tqh_last q)"
  proof (rule tq_seg_cong [OF m(4)])
    show "deref q' (NextOf b) = deref q (NextOf b)" using m(6) fresh by (intro dq) auto
    show "deref q' (NextOf y) = deref q (NextOf y)" if "y \<in> set (butlast ys)" for y
      using m(7) in_set_butlastD [OF that] fresh by (intro dq) auto
    show "tqe_prev q' y = tqe_prev q y" if "y \<in> set ys" for y using that d fresh by (auto simp: q'_def)
  qed
  moreover have "deref q' m = Some elm" "tqe_prev q' elm = m" "tqe_prev q' b = NextOf elm" "tqh_last q' = tqh_last q"
    using fresh by (auto simp: q'_def q2_def)
  moreover have "deref q' (NextOf elm) = Some b" using me by (simp add: q'_def q2_def del: deref.simps) simp
  moreover have "deref q' (tqh_last q) = None"
  proof -
    have "tqh_last q \<noteq> m" using m(2,5) by auto
    moreover have "tqh_last q \<noteq> NextOf elm" using tq_seg_end [OF m(4)] fresh by (auto split: if_splits)
    ultimately show ?thesis using dq m(5) by simp
  qed
  ultimately have "tailq_repr q' (xs @ elm # b # ys)" using d fresh by (auto simp: tailq_repr_def tq_seg_append)
  then show ?thesis using ins by blast
qed


text \<open>Inserting after an element that has a successor is inserting before the successor, otherwise it is inserting at the tail.\<close>

lemma tailq_repr_insert_after:
  assumes r: "tailq_repr q (xs @ a # ys)" and fresh: "elm \<notin> set (xs @ a # ys)"
  shows "\<exists>q'. TAILQ_INSERT_AFTER q a elm = Inr q' \<and> tailq_repr q' (xs @ a # elm # ys)"
proof -
  have m: "tq_seg q (NextOf a) ys (tqh_last q)" "deref q (tqh_last q) = None" using tailq_repr_split [OF r] by blast+
  note ck = tailq_remove_checks(1) [OF r]
  have ne: "elm \<noteq> a" using fresh by auto
  show ?thesis
  proof (cases ys)
    case Nil
    then have l: "tqh_last q = NextOf a" "tqe_next q a = None" using m by auto
    have "TAILQ_INSERT_AFTER q a elm = TAILQ_INSERT_TAIL q elm"
      using ck ne l by (simp add: TAILQ_INSERT_AFTER_def TAILQ_INSERT_TAIL_def Let_def QMD_TAILQ_CHECK_TAIL_def)
    then show ?thesis using tailq_repr_insert_tail [OF r fresh] Nil by simp
  next
    case (Cons b zs)
    then have b: "tqe_next q a = Some b" "tqe_prev q b = NextOf a" using m by auto
    have r': "tailq_repr q ((xs @ [a]) @ b # zs)" using r Cons by simp
    have "TAILQ_INSERT_AFTER q a elm = TAILQ_INSERT_BEFORE q b elm"
      using ck ne b tailq_remove_checks(2) [OF r'] fresh Cons
      by (auto simp: TAILQ_INSERT_AFTER_def TAILQ_INSERT_BEFORE_def Let_def fun_upd_twist)
    then show ?thesis using tailq_repr_insert_before [OF r', of elm] fresh Cons by simp
  qed
qed

section \<open>Going through a queue in both directions\<close>

lemma tailq_repr_next: "tailq_repr q (xs @ e # ys) \<Longrightarrow> TAILQ_NEXT q e = (case ys of [] \<Rightarrow> None | y # _ \<Rightarrow> Some y)"
  using tailq_repr_split [of q xs e ys] by (cases ys) (auto simp: TAILQ_NEXT_def)

lemma tq_seg_prev_slot:
  assumes "tq_seg q HeadFirst xs l" "tqh_last q = t" "deref q t = None"
  shows "deref q (second_word q l) = (if xs = [] then None else Some (last xs))"
proof (cases xs rule: rev_cases)
  case (snoc ys y)
  then show ?thesis using assms(1) by (auto simp: tq_seg_append)
qed (use assms in simp)

lemma tailq_repr_last: "tailq_repr q xs \<Longrightarrow> TAILQ_LAST q = (if xs = [] then None else Some (last xs))"
  using tq_seg_prev_slot [of q xs "tqh_last q"] by (simp add: tailq_repr_def TAILQ_LAST_def)

lemma tailq_repr_prev: "tailq_repr q (xs @ e # ys) \<Longrightarrow> TAILQ_PREV q e = (if xs = [] then None else Some (last xs))"
  using tailq_repr_split [of q xs e ys] tq_seg_prev_slot [of q xs "tqe_prev q e"] by (auto simp: TAILQ_PREV_def)

text \<open>Taking a node out and then using it for something else: its links are overwritten.\<close>

definition remove_and_reuse :: "'a option \<Rightarrow> 'a slot \<Rightarrow> 'a \<Rightarrow> 'a tailq \<Rightarrow> 'a tailq_panic + 'a tailq" where
  "remove_and_reuse v w elm q =
     (case TAILQ_REMOVE q elm of
        Inl p \<Rightarrow> Inl p
      | Inr q' \<Rightarrow> Inr (q'\<lparr>tqe_next := (tqe_next q')(elm := v), tqe_prev := (tqe_prev q')(elm := w)\<rparr>))"

lemma tailq_repr_unlinked:
  assumes "tailq_repr q xs" "elm \<notin> set xs"
  shows "tailq_repr (q\<lparr>tqe_next := (tqe_next q)(elm := v), tqe_prev := (tqe_prev q)(elm := w)\<rparr>) xs"
proof -
  let ?q = "q\<lparr>tqe_next := (tqe_next q)(elm := v), tqe_prev := (tqe_prev q)(elm := w)\<rparr>"
  note r = assms(1) [unfolded tailq_repr_def]
  have "tq_seg ?q HeadFirst xs (tqh_last q)"
    by (rule tq_seg_cong [OF conjunct1 [OF r]]) (use assms(2) in \<open>auto dest: in_set_butlastD\<close>)
  moreover have "deref ?q (tqh_last q) = None"
    using r tq_seg_end [OF conjunct1 [OF r]] assms(2) by (auto split: if_splits)
  ultimately show ?thesis using r by (simp add: tailq_repr_def)
qed

lemma tailq_repr_reuse:
  assumes "tailq_repr q xs" "elm \<in> set xs"
  shows "\<exists>q'. remove_and_reuse v w elm q = Inr q' \<and> tailq_repr q' (remove1 elm xs)"
proof -
  obtain q1 where q1: "TAILQ_REMOVE q elm = Inr q1" "tailq_repr q1 (remove1 elm xs)" using tailq_repr_remove [OF assms] by blast
  have "distinct xs" using assms(1) by (simp add: tailq_repr_def)
  then have "elm \<notin> set (remove1 elm xs)" by simp
  then show ?thesis using q1 tailq_repr_unlinked [OF q1(2)] by (simp add: remove_and_reuse_def)
qed

text \<open>
  What a loop relies on, in either direction: \<open>order\<close> gives the order of the visits, \<open>start\<close> the first element visited, \<open>step\<close> the next one, and \<open>drop\<close> takes an element out.
\<close>

locale queue_walk =
  fixes repr :: "'q \<Rightarrow> 'e list \<Rightarrow> bool"
    and order :: "'e list \<Rightarrow> 'e list"
    and start :: "'q \<Rightarrow> 'e option"
    and step :: "'q \<Rightarrow> 'e \<Rightarrow> 'e option"
    and drop_elm :: "'e \<Rightarrow> 'q \<Rightarrow> 'p + 'q"
  assumes start_order: "repr q xs \<Longrightarrow> start q = (case order xs of [] \<Rightarrow> None | e # _ \<Rightarrow> Some e)"
    and step_order: "repr q xs \<Longrightarrow> order xs = us @ e # vs \<Longrightarrow> step q e = (case vs of [] \<Rightarrow> None | v # _ \<Rightarrow> Some v)"
    and drop_order: "repr q xs \<Longrightarrow> e \<in> set (order xs) \<Longrightarrow> \<exists>q' ys. drop_elm e q = Inr q' \<and> repr q' ys \<and> order ys = remove1 e (order xs)"
    and order_distinct: "repr q xs \<Longrightarrow> distinct (order xs)"
begin

lemma walk_rest: "repr q xs \<Longrightarrow> order xs = us @ vs \<Longrightarrow> walk step q (case vs of [] \<Rightarrow> None | v # _ \<Rightarrow> Some v) = Some vs"
proof (induction vs arbitrary: us)
  case (Cons v vs)
  have "walk step q (step q v) = Some vs" using Cons.IH [of "us @ [v]"] Cons.prems step_order [OF Cons.prems] by simp
  then show ?case by (simp add: walk.simps [of step q "Some v"])
qed (simp add: walk.simps)

lemma walk_all: "repr q xs \<Longrightarrow> walk step q (start q) = Some (order xs)"
  using walk_rest [of q xs "[]" "order xs"] start_order by simp

lemma walk_from:
  assumes "repr q xs" "order xs = us @ e # vs"
  shows "walk step q (loop_start (Some e) (start q)) = Some (e # vs)" "walk step q (loop_start None (start q)) = Some (order xs)"
  using walk_rest [OF assms] walk_all [OF assms(1)] by (simp_all add: loop_start_def)

text \<open>A body that takes out the elements with \<open>P\<close>.\<close>

lemma walk_safe_rest:
  "repr q xs \<Longrightarrow> order xs = us @ vs \<Longrightarrow>
   \<exists>q' ys. walk_safe step (\<lambda>e q. if P e then drop_elm e q else Inr q) q (case vs of [] \<Rightarrow> None | v # _ \<Rightarrow> Some v) = Some (Inr q')
     \<and> repr q' ys \<and> order ys = us @ filter (\<lambda>e. \<not> P e) vs"
proof (induction vs arbitrary: us q xs)
  case (Cons v vs)
  note st = step_order [OF Cons.prems]
  show ?case
  proof (cases "P v")
    case True
    obtain q1 zs where q1: "drop_elm v q = Inr q1" "repr q1 zs" "order zs = remove1 v (order xs)"
      using drop_order [OF Cons.prems(1)] Cons.prems(2) by fastforce
    have "order zs = us @ vs" using q1(3) order_distinct [OF Cons.prems(1)] unfolding Cons.prems(2) by (simp add: remove1_append)
    from Cons.IH [OF q1(2) this] show ?thesis using True q1(1) st by (simp add: walk_safe.simps [of _ _ _ "Some v"] Let_def)
  next
    case False
    have "order xs = (us @ [v]) @ vs" using Cons.prems(2) by simp
    from Cons.IH [OF Cons.prems(1) this] show ?thesis using False st by (simp add: walk_safe.simps [of _ _ _ "Some v"] Let_def)
  qed
qed (auto simp: walk_safe.simps)

lemma walk_safe_all:
  assumes "repr q xs"
  shows "\<exists>q' ys. walk_safe step (\<lambda>e q. if P e then drop_elm e q else Inr q) q (start q) = Some (Inr q') \<and> repr q' ys
    \<and> order ys = filter (\<lambda>e. \<not> P e) (order xs)"
  using walk_safe_rest [OF assms, of "[]" "order xs" P] start_order [OF assms] by simp

end

interpretation forward: queue_walk tailq_repr "\<lambda>xs. xs" TAILQ_FIRST TAILQ_NEXT "remove_and_reuse v w"
  by unfold_locales (auto simp: tailq_repr_first tailq_repr_next tq.repr_distinct intro: tailq_repr_reuse)

interpretation backward: queue_walk tailq_repr rev TAILQ_LAST TAILQ_PREV "remove_and_reuse v w"
proof unfold_locales
  fix q :: "'a tailq" and xs us e vs
  assume r: "tailq_repr q xs"
  show "TAILQ_LAST q = (case rev xs of [] \<Rightarrow> None | e # _ \<Rightarrow> Some e)"
    using tailq_repr_last [OF r] by (cases xs rule: rev_cases) simp_all
  show "TAILQ_PREV q e = (case vs of [] \<Rightarrow> None | v # _ \<Rightarrow> Some v)" if "rev xs = us @ e # vs"
  proof -
    have "xs = rev vs @ e # rev us" using that by (simp add: rev_swap)
    then show ?thesis using tailq_repr_prev [of q "rev vs" e "rev us"] r by (cases vs) (simp_all add: last_rev)
  qed
  show "\<exists>q' ys. remove_and_reuse v w e q = Inr q' \<and> tailq_repr q' ys \<and> rev ys = remove1 e (rev xs)" if "e \<in> set (rev xs)"
    using tailq_repr_reuse [OF r, of e v w] that tq.repr_distinct [OF r] by (fastforce simp: distinct_remove1_removeAll removeAll_filter_not_eq rev_filter)
  show "distinct (rev xs)" using tq.repr_distinct [OF r] by simp
qed

section \<open>Several queues\<close>

text \<open>
  \<^verbatim>\<open>TAILQ_CONCAT\<close> works on two heads whose elements share their links, so the store of this part has a head for every
  \<open>'h\<close>, and a pointer to a pointer says which head it points into.
\<close>

datatype ('h, 'a) mslot = FirstOf 'h | LinkOf 'a

record ('h, 'a) queues =
  h_first :: "'h \<Rightarrow> 'a option"
  h_last :: "'h \<Rightarrow> ('h, 'a) mslot"
  e_next :: "'a \<Rightarrow> 'a option"
  e_prev :: "'a \<Rightarrow> ('h, 'a) mslot"

fun mderef :: "('h, 'a) queues \<Rightarrow> ('h, 'a) mslot \<Rightarrow> 'a option" where
  "mderef Q (FirstOf h) = h_first Q h"
| "mderef Q (LinkOf a) = e_next Q a"

fun massign :: "('h, 'a) queues \<Rightarrow> ('h, 'a) mslot \<Rightarrow> 'a option \<Rightarrow> ('h, 'a) queues" where
  "massign Q (FirstOf h) v = Q\<lparr>h_first := (h_first Q)(h := v)\<rparr>"
| "massign Q (LinkOf a) v = Q\<lparr>e_next := (e_next Q)(a := v)\<rparr>"

definition TAILQ_CONCAT :: "('h, 'a) queues \<Rightarrow> 'h \<Rightarrow> 'h \<Rightarrow> ('h, 'a) queues" where
  "TAILQ_CONCAT Q head1 head2 =
     (case h_first Q head2 of
        None \<Rightarrow> Q
      | Some f \<Rightarrow>
          let Q1 = massign Q (h_last Q head1) (Some f);
              Q2 = (case h_first Q1 head2 of
                      Some g \<Rightarrow> Q1\<lparr>e_prev := (e_prev Q1)(g := h_last Q1 head1)\<rparr>
                    | None \<Rightarrow> Q1);
              Q3 = Q2\<lparr>h_last := (h_last Q2)(head1 := h_last Q2 head2)\<rparr>
          in Q3\<lparr>h_first := (h_first Q3)(head2 := None), h_last := (h_last Q3)(head2 := FirstOf head2)\<rparr>)"

fun m_seg :: "('h, 'a) queues \<Rightarrow> ('h, 'a) mslot \<Rightarrow> 'a list \<Rightarrow> ('h, 'a) mslot \<Rightarrow> bool" where
  "m_seg Q s [] l \<longleftrightarrow> l = s"
| "m_seg Q s (x # xs) l \<longleftrightarrow> mderef Q s = Some x \<and> e_prev Q x = s \<and> m_seg Q (LinkOf x) xs l"

definition head_repr :: "('h, 'a) queues \<Rightarrow> 'h \<Rightarrow> 'a list \<Rightarrow> bool" where
  "head_repr Q h xs \<longleftrightarrow> m_seg Q (FirstOf h) xs (h_last Q h) \<and> mderef Q (h_last Q h) = None \<and> distinct xs"

lemma m_seg_append: "m_seg Q s (xs @ ys) l \<longleftrightarrow> (\<exists>m. m_seg Q s xs m \<and> m_seg Q m ys l)"
  by (induction xs arbitrary: s) auto

lemma m_seg_end: "m_seg Q s xs l \<Longrightarrow> l = (if xs = [] then s else LinkOf (last xs))"
  by (induction xs arbitrary: s) (auto split: if_splits)

lemma m_seg_cong:
  assumes "m_seg Q s xs l" "xs \<noteq> [] \<Longrightarrow> mderef Q' s = mderef Q s"
    "\<And>x. x \<in> set (butlast xs) \<Longrightarrow> mderef Q' (LinkOf x) = mderef Q (LinkOf x)" "\<And>x. x \<in> set xs \<Longrightarrow> e_prev Q' x = e_prev Q x"
  shows "m_seg Q' s xs l"
  using assms
proof (induction xs arbitrary: s)
  case (Cons x xs)
  have "mderef Q' (LinkOf y) = mderef Q (LinkOf y)" if "y \<in> set (butlast xs)" for y using that Cons.prems(3) [of y] by (cases xs) auto
  moreover have "mderef Q' (LinkOf x) = mderef Q (LinkOf x)" if "xs \<noteq> []" using that Cons.prems(3) [of x] by simp
  ultimately have "m_seg Q' (LinkOf x) xs l" using Cons.prems by (intro Cons.IH) auto
  then show ?case using Cons.prems by simp
qed simp

lemma concat_shape:
  assumes "head_repr Q h2 (y # ys)" "h_last Q h1 \<noteq> FirstOf h2"
  shows "TAILQ_CONCAT Q h1 h2 = (massign Q (h_last Q h1) (Some y))\<lparr>
      h_first := (h_first (massign Q (h_last Q h1) (Some y)))(h2 := None), h_last := (h_last Q)(h1 := h_last Q h2, h2 := FirstOf h2), e_prev := (e_prev Q)(y := h_last Q h1)\<rparr>"
proof -
  have f: "h_first Q h2 = Some y" using assms(1) by (simp add: head_repr_def)
  then show ?thesis using assms(2) by (cases "h_last Q h1") (auto simp: TAILQ_CONCAT_def Let_def)
qed


lemma head_repr_last:
  assumes "head_repr Q h xs"
  shows "h_last Q h = (if xs = [] then FirstOf h else LinkOf (last xs))" "mderef Q (h_last Q h) = None" "xs \<noteq> [] \<Longrightarrow> last xs \<notin> set (butlast xs)"
  using assms m_seg_end [of Q "FirstOf h" xs] butlast_not_last [of xs] by (auto simp: head_repr_def)

lemma concat_frame:
  assumes "head_repr Q h1 xs" "head_repr Q h2 (y # ys)" "h1 \<noteq> h2" "set xs \<inter> set (y # ys) = {}" "Q' = TAILQ_CONCAT Q h1 h2"
  shows "s \<noteq> h_last Q h1 \<Longrightarrow> s \<noteq> FirstOf h2 \<Longrightarrow> mderef Q' s = mderef Q s" "mderef Q' (h_last Q h1) = Some y" "mderef Q' (FirstOf h2) = None"
    "e_prev Q' = (e_prev Q)(y := h_last Q h1)" "h_last Q' = (h_last Q)(h1 := h_last Q h2, h2 := FirstOf h2)"
proof -
  have n: "h_last Q h1 \<noteq> FirstOf h2" using head_repr_last(1) [OF assms(1)] assms(3) by auto
  note c = assms(5) [unfolded concat_shape [OF assms(2) n]]
  show "s \<noteq> h_last Q h1 \<Longrightarrow> s \<noteq> FirstOf h2 \<Longrightarrow> mderef Q' s = mderef Q s"
    unfolding c by (cases s; cases "h_last Q h1") auto
  show "mderef Q' (h_last Q h1) = Some y" "mderef Q' (FirstOf h2) = None" "e_prev Q' = (e_prev Q)(y := h_last Q h1)" "h_last Q' = (h_last Q)(h1 := h_last Q h2, h2 := FirstOf h2)"
    unfolding c using n by (cases "h_last Q h1"; auto)+
qed

lemma concat_others:
  assumes "head_repr Q h1 xs" "head_repr Q h2 (y # ys)" "h1 \<noteq> h2" "set xs \<inter> set (y # ys) = {}" "Q' = TAILQ_CONCAT Q h1 h2"
    "head_repr Q h zs" "h \<noteq> h1" "h \<noteq> h2" "set zs \<inter> set (xs @ y # ys) = {}"
  shows "head_repr Q' h zs"
proof -
  note cf = concat_frame [OF assms(1-5)] and l1 = head_repr_last [OF assms(1)] and l = head_repr_last [OF assms(6)]
  have same: "mderef Q' s = mderef Q s" if "s = FirstOf h \<or> (\<exists>z \<in> set zs. s = LinkOf z)" for s
    using that l1(1) assms(7-9) last_in_set [of xs] by (intro cf(1)) (auto split: if_splits)
  have "m_seg Q' (FirstOf h) zs (h_last Q h)"
  proof (rule m_seg_cong)
    show "m_seg Q (FirstOf h) zs (h_last Q h)" using assms(6) by (simp add: head_repr_def)
    show "e_prev Q' z = e_prev Q z" if "z \<in> set zs" for z using that assms(9) cf(4) by auto
  qed (use same in_set_butlastD in \<open>metis+\<close>)
  moreover have "mderef Q' (h_last Q h) = None" using same [of "h_last Q h"] l by (auto split: if_splits)
  ultimately show ?thesis using assms(6-8) cf(5) by (simp add: head_repr_def)
qed

lemma concat_joined:
  assumes "head_repr Q h1 xs" "head_repr Q h2 (y # ys)" "h1 \<noteq> h2" "set xs \<inter> set (y # ys) = {}" "Q' = TAILQ_CONCAT Q h1 h2"
  shows "head_repr Q' h1 (xs @ y # ys)" "head_repr Q' h2 []"
proof -
  note cf = concat_frame [OF assms] and l1 = head_repr_last [OF assms(1)] and l2 = head_repr_last [OF assms(2)]
  note r1 = assms(1) [unfolded head_repr_def] and r2 = assms(2) [unfolded head_repr_def]
  have lx: "xs \<noteq> [] \<Longrightarrow> last xs \<notin> set (y # ys)" using assms(4) last_in_set by blast
  have link: "mderef Q' (LinkOf z) = mderef Q (LinkOf z)" if "z \<in> set (butlast xs) \<or> z \<in> set (y # ys)" for z
    using that l1 lx in_set_butlastD [of z xs] by (intro cf(1)) (auto split: if_splits)
  have "m_seg Q' (FirstOf h1) xs (h_last Q h1)"
  proof (rule m_seg_cong)
    show "m_seg Q (FirstOf h1) xs (h_last Q h1)" using r1 by simp
    show "mderef Q' (FirstOf h1) = mderef Q (FirstOf h1)" if "xs \<noteq> []" using that l1(1) assms(3) by (intro cf(1)) auto
    show "e_prev Q' z = e_prev Q z" if "z \<in> set xs" for z using that assms(4) cf(4) by auto
  qed (use link in blast)
  moreover have "m_seg Q' (LinkOf y) ys (h_last Q h2)"
  proof (rule m_seg_cong)
    show "m_seg Q (LinkOf y) ys (h_last Q h2)" using r2 by simp
    show "e_prev Q' z = e_prev Q z" if "z \<in> set ys" for z using that r2 cf(4) by auto
  qed (use link in \<open>auto dest: in_set_butlastD\<close>)
  moreover have "mderef Q' (h_last Q h2) = None" using link [of "last (y # ys)"] l2(1,2) by simp
  ultimately show "head_repr Q' h1 (xs @ y # ys)" using cf(2,4,5) r1 r2 assms(3,4) by (auto simp: head_repr_def m_seg_append)
  show "head_repr Q' h2 []" using cf(3,5) by (simp add: head_repr_def)
qed

text \<open>
  \<^verbatim>\<open>TAILQ_CONCAT\<close> of two well-formed queues without a common node leaves the nodes of both, in order, in the first,
  empties the second, and keeps every other queue.
\<close>

lemma tailq_concat_appends:
  assumes "head_repr Q h1 xs" "head_repr Q h2 ys" "h1 \<noteq> h2" "set xs \<inter> set ys = {}" "Q' = TAILQ_CONCAT Q h1 h2"
  shows "head_repr Q' h1 (xs @ ys) \<and> head_repr Q' h2 []
    \<and> (\<forall>h zs. h \<notin> {h1, h2} \<and> head_repr Q h zs \<and> set zs \<inter> set (xs @ ys) = {} \<longrightarrow> head_repr Q' h zs)"
proof (cases ys)
  case Nil
  then have "h_first Q h2 = None" using head_repr_last [OF assms(2)] by simp
  then show ?thesis using assms Nil by (simp add: TAILQ_CONCAT_def)
next
  case (Cons y zs)
  note a = assms [unfolded Cons]
  show ?thesis using concat_joined [OF a] concat_others [OF a] Cons by blast
qed

text \<open>Two queues that share one store of links.\<close>

definition two_queues :: "(bool, nat) queues" where
  "two_queues = \<lparr>h_first = (\<lambda>h. if h then Some 4 else Some 9), h_last = (\<lambda>h. if h then LinkOf 7 else LinkOf 9),
     e_next = (\<lambda>_. None)(4 := Some 7), e_prev = (\<lambda>_. FirstOf True)(7 := LinkOf 4, 9 := FirstOf False)\<rparr>"

lemma tailq_concat_appends_witness: "head_repr (TAILQ_CONCAT two_queues True False) True [4, 7, 9]"
proof -
  have "head_repr two_queues True [4, 7]" "head_repr two_queues False [9]" by (simp_all add: head_repr_def two_queues_def)
  from tailq_concat_appends [OF this _ _ refl] show ?thesis by simp
qed

section \<open>Properties\<close>

text \<open>
  A body of \<^verbatim>\<open>TAILQ_FOREACH_SAFE\<close> or \<^verbatim>\<open>TAILQ_FOREACH_REVERSE_SAFE\<close> may remove the current node and use its links for something else.
  From a well-formed queue either loop ends without a failed check and leaves the nodes that were not to be removed, in order.
\<close>

lemma safe_loops_filter:
  assumes "tailq_repr q xs" "body = (\<lambda>e q. if P e then remove_and_reuse v w e q else Inr q)"
  shows "\<exists>q1 q2. TAILQ_FOREACH_SAFE body q = Some (Inr q1) \<and> tailq_repr q1 (filter (\<lambda>e. \<not> P e) xs)
    \<and> TAILQ_FOREACH_REVERSE_SAFE body q = Some (Inr q2) \<and> tailq_repr q2 (filter (\<lambda>e. \<not> P e) xs)"
  unfolding TAILQ_FOREACH_SAFE_def TAILQ_FOREACH_REVERSE_SAFE_def assms(2)
  using forward.walk_safe_all [OF assms(1), of P v w] backward.walk_safe_all [OF assms(1), of P v w] by (auto simp flip: rev_filter)

text \<open>The variants that start from a variable: from a node of the queue they visit the rest, from NULL the whole queue.\<close>

lemma loops_from:
  assumes "tailq_repr q (xs @ e # ys)"
  shows "TAILQ_FOREACH_FROM q (Some e) = Some (e # ys)" "TAILQ_FOREACH_FROM q None = Some (xs @ e # ys)"
    "TAILQ_FOREACH_REVERSE_FROM q (Some e) = Some (e # rev xs)" "TAILQ_FOREACH_REVERSE_FROM q None = Some (rev (xs @ e # ys))"
  using forward.walk_from [OF assms refl] backward.walk_from [OF assms, of "rev ys" e "rev xs"]
  by (simp_all add: TAILQ_FOREACH_FROM_def TAILQ_FOREACH_REVERSE_FROM_def)

lemma loops_from_safe:
  assumes "tailq_repr q (xs @ e # ys)" "body = (\<lambda>e q. if P e then remove_and_reuse v w e q else Inr q)"
  shows "\<exists>q1 q2. TAILQ_FOREACH_FROM_SAFE body q (Some e) = Some (Inr q1) \<and> tailq_repr q1 (xs @ filter (\<lambda>e. \<not> P e) (e # ys))
    \<and> TAILQ_FOREACH_REVERSE_FROM_SAFE body q (Some e) = Some (Inr q2) \<and> tailq_repr q2 (filter (\<lambda>e. \<not> P e) (xs @ [e]) @ ys)"
proof -
  obtain q1 where q1: "TAILQ_FOREACH_FROM_SAFE body q (Some e) = Some (Inr q1)" "tailq_repr q1 (xs @ filter (\<lambda>e. \<not> P e) (e # ys))"
    using forward.walk_safe_rest [OF assms(1), of xs "e # ys" P v w] by (auto simp: TAILQ_FOREACH_FROM_SAFE_def loop_start_def assms(2))
  obtain q2 zs where q2: "TAILQ_FOREACH_REVERSE_FROM_SAFE body q (Some e) = Some (Inr q2)" "tailq_repr q2 zs" "rev zs = rev ys @ filter (\<lambda>e. \<not> P e) (e # rev xs)"
    using backward.walk_safe_rest [OF assms(1), of "rev ys" "e # rev xs" P v w] by (auto simp: TAILQ_FOREACH_REVERSE_FROM_SAFE_def loop_start_def assms(2))
  have "zs = rev (rev ys @ filter (\<lambda>e. \<not> P e) (e # rev xs))" using q2(3) by (metis rev_rev_ident)
  also have "\<dots> = filter (\<lambda>e. \<not> P e) (xs @ [e]) @ ys" by (simp flip: rev_filter)
  finally show ?thesis using q1 q2 by blast
qed

text \<open>What the two loops over a whole queue visit.\<close>

definition visits :: "'a tailq \<Rightarrow> 'a list \<Rightarrow> bool" where
  "visits q xs \<longleftrightarrow> TAILQ_FOREACH q (TAILQ_FIRST q) = Some xs \<and> TAILQ_FOREACH_REVERSE q = Some (rev xs)"

lemma tailq_repr_visits: "tailq_repr q xs \<Longrightarrow> visits q xs"
  using tq.repr_visit backward.walk_all by (auto simp: visits_def TAILQ_FOREACH_REVERSE_def)

text \<open>
  C40: a well-formed queue is a list for all the operations that change it.  Inserting a new node at the
  head, at the tail, after or before a node, and removing a node pass their consistency checks and leave a well-formed queue, which the loop from the
  front and the loop from the back visit as the changed list and as its reverse.
\<close>

theorem tailq_edits_refine_list:
  assumes "tailq_repr q (xs @ a # ys)" "elm \<notin> set (xs @ a # ys)"
  shows "\<exists>q1 q2 q3 q4 q5. TAILQ_INSERT_HEAD q elm = Inr q1 \<and> tailq_repr q1 (elm # xs @ a # ys) \<and> visits q1 (elm # xs @ a # ys)
    \<and> TAILQ_INSERT_TAIL q elm = Inr q2 \<and> tailq_repr q2 (xs @ a # ys @ [elm]) \<and> visits q2 (xs @ a # ys @ [elm])
    \<and> TAILQ_INSERT_AFTER q a elm = Inr q3 \<and> tailq_repr q3 (xs @ a # elm # ys) \<and> visits q3 (xs @ a # elm # ys)
    \<and> TAILQ_INSERT_BEFORE q a elm = Inr q4 \<and> tailq_repr q4 (xs @ elm # a # ys) \<and> visits q4 (xs @ elm # a # ys)
    \<and> TAILQ_REMOVE q a = Inr q5 \<and> tailq_repr q5 (xs @ ys) \<and> visits q5 (xs @ ys)"
proof -
  have tail: "(xs @ a # ys) @ [elm] = xs @ a # ys @ [elm]" by simp
  show ?thesis
    using tailq_repr_insert_head [OF assms] tailq_repr_insert_tail [OF assms, unfolded tail] tailq_repr_insert_after [OF assms]
      tailq_repr_insert_before [OF assms] tailq_repr_remove_split [OF assms(1)] tailq_repr_visits by metis
qed

theorem tailq_edits_refine_list_witness:
  "\<exists>q3 q5. TAILQ_INSERT_AFTER three_node_queue 8 9 = Inr q3 \<and> TAILQ_FOREACH_REVERSE q3 = Some [9, 8, 7, 4]
    \<and> TAILQ_REMOVE three_node_queue 8 = Inr q5 \<and> TAILQ_FOREACH q5 (TAILQ_FIRST q5) = Some [4, 7]"
  using tailq_edits_refine_list [of three_node_queue "[4, 7]" 8 "[]" 9] three_node_queue_repr by (fastforce simp: visits_def)

end
