(* ===== verification/Panic.thy ===== *)
theory Panic
  imports Shell TailqMore
begin

text \<open>
  \<^verbatim>\<open>panic\<close> of \<^verbatim>\<open>mlibc/src/stderr.c\<close>, and the messages with which the consistency checks of
  \<^verbatim>\<open>stdqueue.h\<close> call it.  It prints the format string as it stands and then loops: a check that fails ends the program, which is why
  the operations of theory \<open>Tailq\<close> have no state after a panic.
\<close>

text \<open>The loop \<^verbatim>\<open>while (1) {}\<close>.\<close>

partial_function (option) panic_loop :: "console \<Rightarrow> console option" where
  "panic_loop s = panic_loop s"

text \<open>The console when the loop is reached, and what \<^verbatim>\<open>panic\<close> returns.  The arguments after the message are not used.\<close>

definition panic :: "cstr \<Rightarrow> 'a list \<Rightarrow> console \<Rightarrow> console \<times> console option" where
  "panic message args s = (let s1 = stdio_print message s in (s1, panic_loop s1))"

fun panic_message :: "'a tailq_panic \<Rightarrow> string" where
  "panic_message Bad_head = ''Bad tailq head %p first->prev != head''"
| "panic_message Bad_tail = ''Bad tailq NEXT(%p->tqh_last) != NULL''"
| "panic_message (Bad_next elm) = ''Bad link elm %p next->prev != elm''"
| "panic_message (Bad_prev elm) = ''Bad link elm %p prev->next != elm''"

lemma panic_loop_None: "panic_loop s = None"
proof -
  have "\<not> panic_loop s = Some t" for t
    using panic_loop.raw_induct [of "\<lambda>_ _. False" s t] by blast
  then show ?thesis by (cases "panic_loop s") auto
qed

text \<open>
  A failed check prints its message, with the conversion \<^verbatim>\<open>%p\<close> instead of an address, and does not return.
  Two different checks print two different messages.
\<close>

lemma failed_check_panics:
  "panic (lit (panic_message p) @ [0]) args s = (s\<lparr>printed := printed s @ lit (panic_message p)\<rparr>, None)"
proof -
  have "stdio_print (lit (panic_message p) @ [0]) s = s\<lparr>printed := printed s @ lit (panic_message p)\<rparr>"
    by (cases p) (simp_all add: stdio_print_def lit_def cstring_def)
  then show ?thesis by (simp add: panic_def Let_def panic_loop_None)
qed

lemma panic_message_tells:
  "panic_message p = panic_message p' \<Longrightarrow> map_tailq_panic (\<lambda>_. ()) p = map_tailq_panic (\<lambda>_. ()) p'"
  by (cases p; cases p') simp_all

end
