(* ===== verification/Registers.thy ===== *)
theory Registers
  imports Machine
begin

text \<open>
  The register maps of the devices, \<^verbatim>\<open>os/src/device/PL011.h\<close>, \<^verbatim>\<open>SP804.h\<close> and \<^verbatim>\<open>GIC.h\<close>, as structures that are laid over the memory of a device, and the
  addresses of the devices from the files \<^verbatim>\<open>.c\<close> beside them.  A structure is the list of its members; \<open>place\<close> computes the offset
  of each by the rules of the compiler.  The registers that \<^verbatim>\<open>kernel.c\<close> writes (\<open>reg\<close> of theory \<open>Kernel\<close>) are tied to their addresses,
  and what the reset handler leaves in the interrupt controller to the cases of the interrupt handler.
\<close>

section \<open>The layout of a structure\<close>

datatype member = Word32 string | Words string nat | Union "string list" | RSVD nat nat nat

text \<open>Sizes and alignments of the ARM procedure call standard: a word is aligned to four bytes, an array of bytes is not.\<close>

fun member_size :: "member \<Rightarrow> nat" where
  "member_size (Word32 r) = 4"
| "member_size (Words r n) = 4 * n"
| "member_size (Union rs) = 4"
| "member_size (RSVD x y z) = z - y + 1"

fun member_align :: "member \<Rightarrow> nat" where
  "member_align (RSVD x y z) = 1"
| "member_align m = 4"

definition align_up :: "nat \<Rightarrow> nat \<Rightarrow> nat" where
  "align_up a off = (off + a - 1) div a * a"

fun place :: "nat \<Rightarrow> member list \<Rightarrow> (member \<times> nat) list" where
  "place off [] = []"
| "place off (m # ms) = (let o' = align_up (member_align m) off in (m, o') # place (o' + member_size m) ms)"

fun struct_end :: "nat \<Rightarrow> member list \<Rightarrow> nat" where
  "struct_end off [] = align_up 4 off"
| "struct_end off (m # ms) = struct_end (align_up (member_align m) off + member_size m) ms"

text \<open>The registers of a structure: name, offset of the first word and of the last.\<close>

fun member_registers :: "member \<times> nat \<Rightarrow> (string \<times> nat \<times> nat) list" where
  "member_registers (Word32 r, off) = [(r, off, off)]"
| "member_registers (Words r n, off) = [(r, off, off + 4 * (n - 1))]"
| "member_registers (Union rs, off) = map (\<lambda>r. (r, off, off)) rs"
| "member_registers (RSVD x y z, off) = []"

definition registers :: "member list \<Rightarrow> (string \<times> nat \<times> nat) list" where
  "registers t = concat (map member_registers (place 0 t))"

section \<open>The devices\<close>

definition PL011_t :: "member list" where
  "PL011_t = [Word32 ''DR'', Union [''RSR'', ''ECR''], RSVD 0 0x0008 0x0017, Word32 ''FR'', RSVD 1 0x001C 0x001F,
     Word32 ''LPR'', Word32 ''IBRD'', Word32 ''FBRD'', Word32 ''LCR'', Word32 ''CR'', Word32 ''IFLS'', Word32 ''IMSC'',
     Word32 ''RIS'', Word32 ''MIS'', Word32 ''ICR'', Word32 ''DMACR'', RSVD 2 0x004C 0x0FDF, Words ''PeriphID'' 4, Words ''PCellID'' 4]"

definition SP804_t :: "member list" where
  "SP804_t = [Word32 ''Timer1Load'', Word32 ''Timer1Value'', Word32 ''Timer1Ctrl'', Word32 ''Timer1IntClr'', Word32 ''Timer1RIS'',
     Word32 ''Timer1MIS'', Word32 ''Timer1BGLoad'', RSVD 0 0x001C 0x001F, Word32 ''Timer2Load'', Word32 ''Timer2Value'', Word32 ''Timer2Ctrl'',
     Word32 ''Timer2IntClr'', Word32 ''Timer2RIS'', Word32 ''Timer2MIS'', Word32 ''Timer2BGLoad'', RSVD 1 0x003C 0x0EFF,
     Word32 ''TimerITCR'', Word32 ''TimerITOP'', RSVD 2 0x0F08 0x0FDF, Words ''PeriphID'' 4, Words ''PCellID'' 4]"

definition GICC_t :: "member list" where
  "GICC_t = [Word32 ''CTLR'', Word32 ''PMR'', Word32 ''BPR'', Word32 ''IAR'', Word32 ''EOIR'', Word32 ''RPR'', Word32 ''HPPIR'']"

definition GICD_t :: "member list" where
  "GICD_t = [Word32 ''CTLR'', Word32 ''TYPER'', RSVD 0 0x0008 0x00FC, Words ''ISENABLER'' 3, RSVD 1 0x010C 0x017C, Words ''ICENABLER'' 3,
     RSVD 2 0x018C 0x01FC, Words ''ISPENDR'' 3, RSVD 3 0x020C 0x027C, Words ''ICPENDR'' 3, RSVD 4 0x028C 0x02FC, Words ''ISACTIVER'' 3,
     RSVD 5 0x030C 0x03FC, Words ''IPRIORITYR'' 24, RSVD 6 0x0460 0x07FC, Words ''ITARGETSR'' 24, RSVD 7 0x0860 0x0BFC, Words ''ICFGR'' 6,
     RSVD 8 0x0C18 0x0EFC, Word32 ''SGIR'', RSVD 9 0x0F04 0x0FFC]"

text \<open>The offsets that the comments beside the members give.\<close>

definition PL011_offsets :: "(string \<times> nat \<times> nat) list" where
  "PL011_offsets = [(''DR'', 0x0000, 0x0000), (''RSR'', 0x0004, 0x0004), (''ECR'', 0x0004, 0x0004), (''FR'', 0x0018, 0x0018), (''LPR'', 0x0020, 0x0020),
     (''IBRD'', 0x0024, 0x0024), (''FBRD'', 0x0028, 0x0028), (''LCR'', 0x002C, 0x002C), (''CR'', 0x0030, 0x0030), (''IFLS'', 0x0034, 0x0034),
     (''IMSC'', 0x0038, 0x0038), (''RIS'', 0x003C, 0x003C), (''MIS'', 0x0040, 0x0040), (''ICR'', 0x0044, 0x0044), (''DMACR'', 0x0048, 0x0048),
     (''PeriphID'', 0x0FE0, 0x0FEC), (''PCellID'', 0x0FF0, 0x0FFC)]"

definition SP804_offsets :: "(string \<times> nat \<times> nat) list" where
  "SP804_offsets = [(''Timer1Load'', 0x0000, 0x0000), (''Timer1Value'', 0x0004, 0x0004), (''Timer1Ctrl'', 0x0008, 0x0008), (''Timer1IntClr'', 0x000C, 0x000C),
     (''Timer1RIS'', 0x0010, 0x0010), (''Timer1MIS'', 0x0014, 0x0014), (''Timer1BGLoad'', 0x0018, 0x0018), (''Timer2Load'', 0x0020, 0x0020),
     (''Timer2Value'', 0x0024, 0x0024), (''Timer2Ctrl'', 0x0028, 0x0028), (''Timer2IntClr'', 0x002C, 0x002C), (''Timer2RIS'', 0x0030, 0x0030),
     (''Timer2MIS'', 0x0034, 0x0034), (''Timer2BGLoad'', 0x0038, 0x0038), (''TimerITCR'', 0x0F00, 0x0F00), (''TimerITOP'', 0x0F04, 0x0F04),
     (''PeriphID'', 0x0FE0, 0x0FEC), (''PCellID'', 0x0FF0, 0x0FFC)]"

definition GICC_offsets :: "(string \<times> nat \<times> nat) list" where
  "GICC_offsets = [(''CTLR'', 0x0000, 0x0000), (''PMR'', 0x0004, 0x0004), (''BPR'', 0x0008, 0x0008), (''IAR'', 0x000C, 0x000C), (''EOIR'', 0x0010, 0x0010),
     (''RPR'', 0x0014, 0x0014), (''HPPIR'', 0x0018, 0x0018)]"

definition GICD_offsets :: "(string \<times> nat \<times> nat) list" where
  "GICD_offsets = [(''CTLR'', 0x0000, 0x0000), (''TYPER'', 0x0004, 0x0004), (''ISENABLER'', 0x0100, 0x0108), (''ICENABLER'', 0x0180, 0x0188),
     (''ISPENDR'', 0x0200, 0x0208), (''ICPENDR'', 0x0280, 0x0288), (''ISACTIVER'', 0x0300, 0x0308), (''IPRIORITYR'', 0x0400, 0x045C),
     (''ITARGETSR'', 0x0800, 0x085C), (''ICFGR'', 0x0C00, 0x0C14), (''SGIR'', 0x0F00, 0x0F00)]"

text \<open>The addresses of the devices.\<close>

definition UART :: "u32 list" where "UART = [0x10009000, 0x1000A000, 0x1000B000, 0x1000C000]"
definition TIMER :: "u32 list" where "TIMER = [0x10011000, 0x10012000, 0x10018000, 0x10019000]"
definition GICC :: "u32 list" where "GICC = [0x1E000000, 0x1E010000, 0x1E020000, 0x1E030000]"
definition GICD :: "u32 list" where "GICD = [0x1E001000, 0x1E011000, 0x1E021000, 0x1E031000]"

definition devices :: "(u32 \<times> member list) list" where
  "devices = map (\<lambda>a. (a, PL011_t)) UART @ map (\<lambda>a. (a, SP804_t)) TIMER @ map (\<lambda>a. (a, GICC_t)) GICC @ map (\<lambda>a. (a, GICD_t)) GICD"

text \<open>The address of word \<open>i\<close> of a register of the device at \<open>base\<close>, and of the registers that \<^verbatim>\<open>kernel.c\<close> uses.\<close>

definition word_address :: "u32 \<Rightarrow> member list \<Rightarrow> string \<Rightarrow> nat \<Rightarrow> u32" where
  "word_address base t r i = (case map_of (registers t) r of Some (off, last_off) \<Rightarrow> base + of_nat (off + 4 * i) | None \<Rightarrow> 0)"

fun reg_address :: "reg \<Rightarrow> u32" where
  "reg_address TIMER0_Load = word_address (TIMER ! 0) SP804_t ''Timer1Load'' 0"
| "reg_address TIMER0_Ctrl = word_address (TIMER ! 0) SP804_t ''Timer1Ctrl'' 0"
| "reg_address TIMER0_IntClr = word_address (TIMER ! 0) SP804_t ''Timer1IntClr'' 0"
| "reg_address UART0_IMSC = word_address (UART ! 0) PL011_t ''IMSC'' 0"
| "reg_address UART0_CR = word_address (UART ! 0) PL011_t ''CR'' 0"
| "reg_address UART1_CR = word_address (UART ! 1) PL011_t ''CR'' 0"
| "reg_address UART0_ICR = word_address (UART ! 0) PL011_t ''ICR'' 0"
| "reg_address GICC0_PMR = word_address (GICC ! 0) GICC_t ''PMR'' 0"
| "reg_address GICD0_ISENABLER1 = word_address (GICD ! 0) GICD_t ''ISENABLER'' 1"
| "reg_address GICC0_CTLR = word_address (GICC ! 0) GICC_t ''CTLR'' 0"
| "reg_address GICD0_CTLR = word_address (GICD ! 0) GICD_t ''CTLR'' 0"
| "reg_address GICC0_EOIR = word_address (GICC ! 0) GICC_t ''EOIR'' 0"

definition GIC_SOURCE_TIMER0 :: u32 where "GIC_SOURCE_TIMER0 = 36"
definition GIC_SOURCE_UART0 :: u32 where "GIC_SOURCE_UART0 = 44"

lemma layout_PL011: "registers PL011_t = PL011_offsets" "struct_end 0 PL011_t = 0x1000"
  by (simp_all add: registers_def PL011_t_def PL011_offsets_def align_up_def)
lemma layout_SP804: "registers SP804_t = SP804_offsets" "struct_end 0 SP804_t = 0x1000"
  by (simp_all add: registers_def SP804_t_def SP804_offsets_def align_up_def)
lemma layout_GICC: "registers GICC_t = GICC_offsets" "struct_end 0 GICC_t = 0x1C"
  by (simp_all add: registers_def GICC_t_def GICC_offsets_def align_up_def)
lemma layout_GICD: "registers GICD_t = GICD_offsets" "struct_end 0 GICD_t = 0x1000"
  by (simp_all add: registers_def GICD_t_def GICD_offsets_def align_up_def)

text \<open>Each reserved array of the distributor is three bytes shorter than the gap it stands for; the alignment of the next register makes up for it.\<close>

lemma GICD_reserved_short:
  "map (\<lambda>(m, off). (off, off + member_size m)) (filter (\<lambda>(m, off). member_align m = 1) (place 0 GICD_t))
    = [(0x008, 0x0FD), (0x10C, 0x17D), (0x18C, 0x1FD), (0x20C, 0x27D), (0x28C, 0x2FD), (0x30C, 0x3FD), (0x460, 0x7FD), (0x860, 0xBFD), (0xC18, 0xEFD), (0xF04, 0xFFD)]"
  by (simp add: GICD_t_def align_up_def)

lemma reg_addresses:
  "map reg_address [TIMER0_Load, TIMER0_Ctrl, TIMER0_IntClr, UART0_IMSC, UART0_CR, UART1_CR, UART0_ICR, GICC0_PMR, GICD0_ISENABLER1, GICC0_CTLR, GICD0_CTLR, GICC0_EOIR]
    = [0x10011000, 0x10011008, 0x1001100C, 0x10009038, 0x10009030, 0x1000A030, 0x10009044, 0x1E000004, 0x1E001104, 0x1E000000, 0x1E001000, 0x1E000010]"
  by (simp add: word_address_def layout_PL011(1) layout_SP804(1) layout_GICC(1) layout_GICD(1)
      PL011_offsets_def SP804_offsets_def GICC_offsets_def GICD_offsets_def UART_def TIMER_def GICC_def GICD_def)


text \<open>No two registers share a word, so a store to the address of one changes that one only: \<open>write_reg\<close> and \<open>or_reg\<close> are the stores of \<^verbatim>\<open>kernel.c\<close>.\<close>

lemma reg_address_inj: "inj reg_address"
proof (rule injI)
  note a = reg_addresses [unfolded list.map list.inject]
  show "reg_address r = reg_address r' \<Longrightarrow> r = r'" for r r' by (cases r; cases r'; simp only: a) simp_all
qed

lemma register_store:
  assumes "regs k = bus \<circ> reg_address"
  shows "regs (write_reg r v k) = bus(reg_address r := v) \<circ> reg_address"
    "regs (or_reg r v k) = bus(reg_address r := bus (reg_address r) OR v) \<circ> reg_address"
  using reg_address_inj assms by (auto simp: write_reg_def or_reg_def fun_eq_iff dest: injD)

text \<open>The sources of the second word of \<^verbatim>\<open>ISENABLER\<close> that are enabled.\<close>

definition enabled_sources :: "(reg \<Rightarrow> u32) \<Rightarrow> u32 list" where
  "enabled_sources rs = map of_nat (filter (\<lambda>n. bit (rs GICD0_ISENABLER1) (n - 32)) [32..<64])"

lemma rst_enables:
  assumes "kernel_handler_rst env entry_sh c k = Some (c', k')"
  shows "regs k' GICD0_ISENABLER1 = regs k GICD0_ISENABLER1 OR 0x1010" "regs k' GICC0_CTLR = 1" "regs k' GICD0_CTLR = 1" "regs k' GICC0_PMR = 0xF0"
  using assms by (auto simp: kernel_handler_rst_def Let_def ipc_initialise_def uart0_puts_def write_reg_def or_reg_def or.assoc split: bind_splits prod.splits if_splits)

section \<open>Properties\<close>

text \<open>
  The structures that stand for the devices put every register at the offset that the comment beside it names, although
  the reserved arrays of the interrupt distributor are too short; the sixteen devices do not overlap, and no two of
  the registers that the kernel uses share an address.
\<close>

lemma device_map_documented:
  "registers PL011_t = PL011_offsets \<and> registers SP804_t = SP804_offsets \<and> registers GICC_t = GICC_offsets \<and> registers GICD_t = GICD_offsets
   \<and> sorted_wrt (\<lambda>(a, t) (b, u). unat a + struct_end 0 t \<le> unat b) (sort_key fst devices) \<and> inj reg_address"
proof -
  have "sort_key fst devices = map (\<lambda>a. (a, PL011_t)) UART @ map (\<lambda>a. (a, SP804_t)) TIMER @ concat (map2 (\<lambda>a b. [(a, GICC_t), (b, GICD_t)]) GICC GICD)"
    by (simp add: devices_def UART_def TIMER_def GICC_def GICD_def)
  then show ?thesis using layout_PL011 layout_SP804 layout_GICC layout_GICD reg_address_inj
    by (simp add: UART_def TIMER_def GICC_def GICD_def)
qed

text \<open>
  C22: the interrupts that are enabled are the ones that are served.  After the reset handler, the interrupt
  controller is on and passes on timer 0 and UART 0 only.  The interrupt handler has a case for these two: it acknowledges the timer and
  the UART at the device; for any other source it only signals the end of the interrupt.
\<close>

theorem enabled_interrupts_served:
  assumes "kernel_handler_rst env entry_sh c k = Some (c', k')" "regs k GICD0_ISENABLER1 = 0"
  shows "enabled_sources (regs k') = [GIC_SOURCE_TIMER0, GIC_SOURCE_UART0] \<and> regs k' GICC0_CTLR = 1 \<and> regs k' GICD0_CTLR = 1
    \<and> (\<forall>source d k1 d' k2. kernel_handler_irq source d k1 = Some (d', k2) \<longrightarrow>
        regs k2 GICC0_EOIR = source
      \<and> (source = GIC_SOURCE_TIMER0 \<longrightarrow> regs k2 TIMER0_IntClr = 1)
      \<and> (source = GIC_SOURCE_UART0 \<longrightarrow> regs k2 UART0_ICR = 0x10 \<and> length (stdin_buffer (kf k2)) = Suc (length (stdin_buffer (kf k1))))
      \<and> (source \<notin> set (enabled_sources (regs k')) \<longrightarrow> d' = d \<and> k2 = write_reg GICC0_EOIR source k1))"
proof -
  have "regs k' GICD0_ISENABLER1 = 0x1010" using rst_enables(1) [OF assms(1)] assms(2) by simp
  then have e: "enabled_sources (regs k') = [36, 44]" by (simp add: enabled_sources_def upt_rec)
  show ?thesis unfolding e using rst_enables(2,3) [OF assms(1)]
    by (auto simp: GIC_SOURCE_TIMER0_def GIC_SOURCE_UART0_def kernel_handler_irq_def write_reg_def split: bind_splits list.splits if_splits)
qed

theorem enabled_interrupts_served_witness:
  "\<exists>c' k'. kernel_handler_rst demo_env 0x100 (demo_ctx 0) demo_power_on = Some (c', k') \<and> enabled_sources (regs k') = [36, 44]"
proof -
  obtain c k where r: "kernel_handler_rst demo_env 0x100 (demo_ctx 0) demo_power_on = Some (c, k)"
    using rst_returns [of "0x8000" "\<lambda>_. 0" "hd demo_dev" "tl demo_dev"] demo_power_on by metis
  have "regs demo_power_on GICD0_ISENABLER1 = 0" by (simp add: demo_power_on_def)
  from enabled_interrupts_served [OF r this] r show ?thesis by (auto simp: GIC_SOURCE_TIMER0_def GIC_SOURCE_UART0_def)
qed

end
