(* ===== verification/Spec2Isabelle.thy ===== *)
theory Spec2Isabelle
  imports Processes Commands Create Panic Registers
begin

text \<open>
  A verification library for malapropOS, a small ARM operating system: a kernel with a
  priority scheduler, processes created by fork and exec, inter-process messages, a FAT16
  file system on a disk behind a serial line, and the C library its user programs use.

  \<^bold>\<open>Parts and theories.\<close>  The theories follow the source files.

  \<^item> \<open>Prelude\<close>: the machine types (\<open>u8\<close>, \<open>u16\<close>, \<open>u32\<close>, \<open>i32\<close>), zero-terminated strings,
    memory as a function from addresses to bytes, and shared list and word lemmas.
  \<^item> \<open>Tailq\<close>: the pointer structure behind \<^verbatim>\<open>mlibc/include/datastructures/stdqueue.h\<close>
    with its consistency checks.  The locale \<open>tail_queue\<close> states what a queue
    promises over the list it represents; the interpretation \<open>tq\<close> discharges it for the
    macros.  The other theories then write queues as lists.  \<open>TailqMore\<close> has the macros that the program does not use itself; its locale
    \<open>queue_walk\<close> is the contract of a loop over a queue, interpreted \<open>forward\<close> and \<open>backward\<close>.
  \<^item> \<open>Panic\<close>: \<^verbatim>\<open>mlibc/src/stderr.c\<close> and the messages of the consistency checks.
  \<^item> \<open>Stdmem\<close>: \<^verbatim>\<open>mlibc/src/stdmem.c\<close> and \<^verbatim>\<open>_sbrk\<close> of \<^verbatim>\<open>os/src/user/syscall.c\<close>.
  \<^item> \<open>Stdstream\<close>, \<open>Stdstring\<close>: \<^verbatim>\<open>mlibc/src/stdstream.c\<close> and \<^verbatim>\<open>mlibc/src/stdstring.c\<close>.
  \<^item> \<open>Scheduler\<close>, \<open>Scheduling\<close>: \<^verbatim>\<open>os/src/kernel/scheduler.c\<close>.  The first has the model and the
    step relation \<open>kstep\<close> of its calls, each step labelled with the call and without a guard; \<open>reachable\<close> are the states that
    calls of an allowed kind lead to, and the invariant holds in those that \<open>considerate_call\<close>s reach;
    the second has the properties.
  \<^item> \<open>Ipc\<close>: \<^verbatim>\<open>os/src/kernel/ipc.c\<close>, refining one FIFO channel for each pair of processes.
  \<^item> \<open>PL011\<close>, \<open>Disk\<close>: \<^verbatim>\<open>os/src/device/PL011.c\<close>, \<^verbatim>\<open>os/src/device/disk.c\<close> and the disk server
    \<^verbatim>\<open>test/disk.py\<close> at the other end of the line.  The locale \<open>block_store\<close> states what a disk
    of blocks promises; the interpretation \<open>uart_disk\<close> discharges it for the driver talking
    to the server.
  \<^item> \<open>Fat16\<close>, \<open>Chains\<close>, \<open>FileSystem\<close>: \<^verbatim>\<open>os/src/kernel/file.c\<close> up to the directory listings, and
    \<^verbatim>\<open>mlibc/src/stdfile.c\<close>.  The disk is the list of its sectors, which interprets \<open>block_store\<close>
    again (\<open>sector_disk\<close>).  \<open>Chains\<close> relates the loops of the code to the chain of clusters of a
    file; \<open>FileSystem\<close> has the properties, and \<open>Growth\<close> those of writes that go on behind the last cluster.
  \<^item> \<open>Paths\<close>, \<open>FileCalls\<close>, \<open>Descriptors\<close>: the rest of \<^verbatim>\<open>file.c\<close>: splitting paths and names and
    searching them; the table of open files and the calls \<^verbatim>\<open>sys_open\<close> to \<^verbatim>\<open>sys_mkdir\<close>; and their
    properties.
  \<^item> \<open>Reopen\<close>: the directory entries on the disk, from the write that records a new size to the open that reads it.
  \<^item> \<open>Create\<close>: files that \<^verbatim>\<open>sys_open\<close> creates in the root directory, up to their being written, closed, opened again and read.
  \<^item> \<open>Programs\<close>: the programs of \<^verbatim>\<open>os/src/user\<close> that work on files, from \<^verbatim>\<open>append.c\<close> to \<^verbatim>\<open>writemany.c\<close>.
  \<^item> \<open>Kernel\<close>, \<open>Machine\<close>: \<^verbatim>\<open>os/src/kernel/kernel.c\<close>.  \<open>Kernel\<close> puts the parts together: one record \<open>kernel\<close>
    with one memory and one UART for all of them, a definition for each case of
    \<^verbatim>\<open>kernel_handler_svc\<close>, the interrupt and the reset handler, and the proof that a trap is a step of
    the scheduler and at most one of the file table.  \<open>Machine\<close> lets programs, received characters,
    calls and interrupts happen in any order from the boot on (\<open>machine_step\<close>, which has no guard either;
    \<open>running allowed\<close> are the states that calls of an allowed kind lead to) and has the properties.
  \<^item> \<open>Registers\<close>: the register maps \<^verbatim>\<open>PL011.h\<close>, \<^verbatim>\<open>SP804.h\<close> and \<^verbatim>\<open>GIC.h\<close> of \<^verbatim>\<open>os/src/device\<close> as structures with computed offsets, the addresses of the
    devices, and the interrupt sources that the kernel enables.
  \<^item> \<open>Syscalls\<close>: the stubs of \<^verbatim>\<open>os/src/user/syscall.c\<close> and \<^verbatim>\<open>mlibc/src/stdproc.c\<close> on top of the trap handler.
  \<^item> \<open>Debug\<close>: the printers of the kernel's lists in \<^verbatim>\<open>scheduler.c\<close>, \<^verbatim>\<open>ipc.c\<close> and \<^verbatim>\<open>file_debug.c\<close>.
  \<^item> \<open>Processes\<close>: the programs of \<^verbatim>\<open>os/src/user\<close> that work with processes and messages, \<^verbatim>\<open>producer\<close>, \<^verbatim>\<open>pipeline\<close>, \<^verbatim>\<open>consumer\<close>,
    \<^verbatim>\<open>messenger\<close>, \<^verbatim>\<open>P0\<close>, \<^verbatim>\<open>P1\<close>, \<^verbatim>\<open>proc\<close> and \<^verbatim>\<open>kill\<close>, as state machines that a schedule interleaves.
  \<^item> \<open>Shell\<close>, \<open>Editor\<close>, \<open>Commands\<close>: \<^verbatim>\<open>os/src/user/sh.c\<close> and the console functions of \<^verbatim>\<open>mlibc/src/stdio.c\<close>.  The shell is
    one process, and what the system does for it is the record \<open>console\<close>.  \<open>Editor\<close> shows that
    the line editor refines an editor on the text around a cursor, \<open>Commands\<close> follows a line to the
    program that it starts.  This theory connects the console with the kernel.

  The locale \<open>keyed_table\<close> of \<open>Prelude\<close> states what a table searched by a key promises; it is interpreted for the
  process table (\<open>process_table\<close>) and for the open files (\<open>open_table\<close>).

  \<^bold>\<open>Conventions.\<close>  A C struct is a record with the fields of the source, a function is a
  definition of the same name (a suffix where HOL has the name; \<^verbatim>\<open>_read\<close> is \<open>user_read\<close>), a loop a function of its own
  beside it.  Variables keep their width where they can wrap.  A function
  that takes a pointer to the state takes and returns the state.  \<open>None\<close> is an outcome after
  which the code does not go on: a NULL pointer is dereferenced, the driver waits for a byte
  that never comes, a loop does not end, or the disk refuses a block the file system then uses.
  Uninitialised memory, the heap limits of the linker script, the address of the shell, the position of the heap
  at a call and whether memory answers at the address 0 (\<open>low_memory\<close>: \<^verbatim>\<open>file_initialise\<close> writes through a NULL pointer) are arguments (\<open>kenv\<close>);
  so are the uninitialised pointers through which programs let \<^verbatim>\<open>strtol\<close> store.  The exception are the buffers of the file system for names
  (\<open>split_filename\<close>, \<open>fresh_heap\<close>), which hold zeros for the reason \<open>Paths\<close> gives.  Loops whose end depends on data are \<^theory_text>\<open>partial_function (option)\<close>, and the properties
  show that they return; no fuel is used, except that a string in memory is looked for in all its \<open>2 ^ 32\<close> bytes.

  \<^bold>\<open>What is shown.\<close>  The reset handler returns with one process, the shell, and has enabled the interrupts that the
  interrupt handler serves.  From then on the run queues hold
  exactly the runnable processes, PIDs and file descriptors are distinct, and the disk keeps its shape; a
  context switch never faults, and timer ticks are round-robin.  This holds as long as programs are \<open>considerate\<close>: they call \<^verbatim>\<open>setpriority\<close> with
  priority 0 or 1 only for runnable processes, and there are fewer than \<open>2 ^ 31\<close> forks and opened files.  The kernel checks none of this, and it is shown
  that a single \<^verbatim>\<open>setpriority\<close> of an unknown PID breaks the queues and that a later timer interrupt faults.  Fork, exit, kill and blocking
  behave as stated on every branch.  All calls but exit, yield, exec, a blocking \<^verbatim>\<open>waitpid\<close> and \<^verbatim>\<open>SIGKILL\<close> return to
  their caller with all registers but the result; the blocking \<^verbatim>\<open>waitpid\<close> stores its result in the process it switches to.
  Messages are delivered once and in order, from one process's memory to another's, and the programs that exchange
  them lose none, whatever the order in which they run.
  Blocks written through the serial protocol are read back.  Files are read and written as
  the bytes of their cluster chains, through descriptors and the programs \<^verbatim>\<open>write\<close> and \<^verbatim>\<open>cat\<close> too, and no other cluster is touched; files that
  grow take free clusters until no entry of the table is free, as long as the clusters taken lie on the disk (the code does not look), and are found with their new size and contents when they are opened again; a new file takes the first free slot of the root directory and the first
  free cluster, keeps what is written to it, and leaves the other files as they are; the file allocation
  table is an array; directory entries are stored and parsed back; a path of any depth leads to the file or directory that its parts name one below the other.  Typed characters are read in
  order and without loss, the editor computes the text of the line, and a typed command is
  run with its words as arguments.  Allocations are disjoint,
  copies copy, integers print and parse back, tokens split, streams are FIFO.

  \<^bold>\<open>Limits of the statements.\<close>  The properties of files that are created or opened again are about the root directory and names with an extension of three
  characters: these are the entries the code finds again when it updates them.  Files below the root are covered by the properties of lookup and of reading and writing chains.

  The allocations of the kernel's own nodes (control blocks, queue nodes, buffers of the file system) are taken to succeed; the heap runs out in
  the model of \<^verbatim>\<open>_sbrk\<close>, of the messages and of the boot.  The kernel's variables are not part of the memory that programs
  write to, so a wild store of a program changes only memory.  The programs of \<open>Processes\<close> interleave at their system calls.

  \<^bold>\<open>Not modelled.\<close>  \<^verbatim>\<open>debug_fs\<close>, which computes values and drops them; \<^verbatim>\<open>TAILQ_SWAP\<close>, which does not compile; the layout in memory of the lists
  that \<^verbatim>\<open>getdents\<close> and \<^verbatim>\<open>lprocs\<close> hand out; a timer interrupt inside \<^verbatim>\<open>stdmem_allocate\<close> of a user program (what
  a program does before its loop is one step); and what is not C: the start-up and interrupt assembly.
\<close>

section \<open>The console of a process and the kernel\<close>

text \<open>
  Reads of one byte from standard input into the byte at \<open>a\<close>; before each, as many UART interrupts are
  taken as the schedule says.  The result are the bytes read.
\<close>

fun read_chars :: "kenv \<Rightarrow> u32 \<Rightarrow> nat list \<Rightarrow> ctx_t \<Rightarrow> kernel \<Rightarrow> (u8 list \<times> kernel) option" where
  "read_chars env a [] c k = Some ([], k)"
| "read_chars env a (n # ns) c k = do {
     k1 \<leftarrow> uart_irqs n c k;
     (_, _, k2) \<leftarrow> user_read env 0 a 1 c k1;
     (bs, k3) \<leftarrow> read_chars env a ns c k2;
     Some (kmem k2 a # bs, k3) }"

lemma user_read_stdin:
  "\<exists>c' k'. user_read env 0 a 1 c k = Some (1, c', k') \<and> kmem k' a = (case stdin_buffer (kf k) of [] \<Rightarrow> EOF | ch # q \<Rightarrow> ch)
     \<and> stdin_buffer (kf k') = tl (stdin_buffer (kf k)) \<and> uart0_rx k' = uart0_rx k"
  by (cases "stdin_buffer (kf k)")
    (simp_all add: stub_defs kernel_handler_svc_def svc_read_def sys_read_def store_bytes_def set_mem_def set_files_def)

text \<open>
  C5: what a process reads is what was typed.  However the interrupts of the characters and the reads of the
  process interleave, the bytes read, without those that say that nothing was waiting, and the bytes still
  in the buffer are the characters typed, in order and without loss.
\<close>

theorem console_reads_typed_characters:
  assumes "uart0_rx k = concat rounds @ rest" "EOF \<notin> set (stdin_buffer (kf k)) \<union> set (concat rounds)"
  shows "\<exists>bs k'. read_chars env a (map length rounds) c k = Some (bs, k') \<and> length bs = length rounds
    \<and> filter (\<lambda>b. b \<noteq> EOF) bs @ stdin_buffer (kf k') = stdin_buffer (kf k) @ concat rounds \<and> uart0_rx k' = rest"
  using assms
proof (induction rounds arbitrary: k)
  case (Cons r rounds)
  obtain k1 where k1: "uart_irqs (length r) c k = Some k1" "uart0_rx k1 = concat rounds @ rest"
      "stdin_buffer (kf k1) = stdin_buffer (kf k) @ r"
    using uart_irqs_queue [of k r "concat rounds @ rest" c] Cons.prems(1) by auto
  let ?q = "stdin_buffer (kf k) @ r"
  obtain c' k2 where k2: "user_read env 0 a 1 c k1 = Some (1, c', k2)" "kmem k2 a = (case ?q of [] \<Rightarrow> EOF | ch # q \<Rightarrow> ch)"
      "stdin_buffer (kf k2) = tl ?q" "uart0_rx k2 = concat rounds @ rest"
    using user_read_stdin [of env a c k1] k1 by auto
  have "set (tl ?q) \<subseteq> set ?q" by (cases ?q) auto
  then obtain bs k' where ih: "read_chars env a (map length rounds) c k2 = Some (bs, k')" "length bs = length rounds"
      "filter (\<lambda>b. b \<noteq> EOF) bs @ stdin_buffer (kf k') = tl ?q @ concat rounds" "uart0_rx k' = rest"
    using Cons.IH [OF k2(4)] Cons.prems(2) k2(3) by auto
  have "filter (\<lambda>b. b \<noteq> EOF) (kmem k2 a # bs) @ stdin_buffer (kf k') = ?q @ concat rounds"
  proof (cases ?q)
    case (Cons ch q)
    then have "ch \<in> set ?q" by simp
    then have "ch \<noteq> EOF" using Cons.prems(2) by auto
    then show ?thesis using ih(3) k2(2) Cons by simp
  qed (use ih(3) k2(2) in simp)
  then show ?case using k1(1) k2(1) ih(1,2,4) by auto
qed simp

lemma string_upto_bytes: "bytes_at m a (length (string_upto n m a)) = string_upto n m a"
proof (induction n m a rule: string_upto.induct)
  case (2 n m a)
  then show ?case by (auto simp: bytes_at_def map_upt_Suc algebra_simps simp del: upt_Suc)
qed (simp add: bytes_at_def)

lemma string_upto_stop: "length (string_upto n m a) < n \<Longrightarrow> m (a + of_nat (length (string_upto n m a))) = 0"
  by (induction n m a rule: string_upto.induct) (auto simp: algebra_simps split: if_splits)

lemma zero_notin_string_upto: "0 \<notin> set (string_upto n m a)"
  by (induction n m a rule: string_upto.induct) auto

lemma string_at_bytes:
  assumes "length (cstring (string_at m a)) < 4294967296"
  shows "bytes_at m a (length (cstring (string_at m a))) = cstring (string_at m a)"
proof -
  define t where "t = string_upto 4294967296 m a"
  have s: "string_at m a = t @ bytes_at m (a + of_nat (length t)) 101" by (simp add: string_at_def t_def Let_def)
  have z: "0 \<notin> set t" unfolding t_def by (rule zero_notin_string_upto)
  then have "cstring (string_at m a) = t @ cstring (bytes_at m (a + of_nat (length t)) 101)"
    unfolding s cstring_def by (intro takeWhile_append2) auto
  then have "length t \<le> length (cstring (string_at m a))" by simp
  then have "m (a + of_nat (length t)) = 0" unfolding t_def using assms string_upto_stop [of "4294967296" m a] by simp
  then have "bytes_at m (a + of_nat (length t)) 101 = 0 # bytes_at m (a + of_nat (length t) + 1) 100"
    by (simp add: bytes_at_def map_upt_Suc algebra_simps upt_conv_Cons del: upt_Suc)
  then have "cstring (string_at m a) = t" using z cstring_append_zero by (simp add: s)
  then show ?thesis using string_upto_bytes by (simp add: t_def)
qed

text \<open>
  What a process prints appears on UART0: \<^verbatim>\<open>stdio_print\<close>, which writes the bytes of a string up to its NUL to standard
  output, adds exactly these bytes to what the UART has sent, as it adds them to what is printed on the console of the process.
\<close>

lemma console_prints_on_uart:
  assumes "str = string_at (kmem k) a" "stdstring_length str < 4294967296"
  shows "\<exists>c' k'. user_write env 1 a (of_nat (stdstring_length str)) c k = Some (of_nat (stdstring_length str), c', k')
    \<and> (\<exists>bs. uart0 (ks k') = uart0 (ks k) @ bs \<and> printed (stdio_print str s) = printed s @ bs \<and> bs = cstring str)
    \<and> kmem k' = kmem k \<and> open_files (kf k') = open_files (kf k) \<and> fdisk (kf k') = fdisk (kf k)"
proof -
  let ?n = "length (cstring str)"
  have n: "unat (of_nat ?n :: u32) = ?n" using assms(2) by (simp add: unat_of_nat take_bit_nat_eq_self)
  have b: "bytes_at (kmem k) a ?n = cstring str" using string_at_bytes [of "kmem k" a] assms by simp
  have "take ?n str = cstring str" by (simp add: cstring_def takeWhile_eq_take [symmetric])
  moreover have "length (bytes_at (kmem k) a ?n) = ?n" by (simp add: bytes_at_def)
  ultimately show ?thesis
    by (simp add: stub_defs kernel_handler_svc_def svc_write_def sys_write_def n b stdio_print_def)
qed

lemma string_upto_pos: "0 < n \<Longrightarrow> string_upto n m a = (if m a = 0 then [] else m a # string_upto (n - 1) m (a + 1))"
  by (cases n) simp_all

theorem console_reads_typed_characters_witness:
  "\<exists>bs k'. read_chars demo_env 0x300 [0, 2, 0] (demo_ctx 0) (demo_power_on\<lparr>uart0_rx := [104, 105]\<rparr>) = Some (bs, k')
     \<and> filter (\<lambda>b. b \<noteq> EOF) bs @ stdin_buffer (kf k') = [104, 105]"
proof -
  let ?k = "demo_power_on\<lparr>uart0_rx := [104, 105]\<rparr>"
  have q: "stdin_buffer (kf ?k) = []" by (simp add: demo_power_on_def demo_files_def)
  have k: "uart0_rx ?k = concat [[], [104, 105], []] @ []" "EOF \<notin> set (stdin_buffer (kf ?k)) \<union> set (concat [[], [104, 105], []])"
    unfolding q by (simp_all add: EOF_def)
  have m: "map length [[], [104, 105], [] :: u8 list] = [0, 2, 0]" "[] @ concat [[], [104, 105], []] = [104, 105 :: u8]" by simp_all
  show ?thesis using console_reads_typed_characters [OF k, of demo_env "0x300" "demo_ctx 0"] unfolding q m by blast
qed

lemma console_prints_on_uart_witness:
  "\<exists>c' k'. user_write demo_env 1 0x300 2 (demo_ctx 0) (set_mem ((\<lambda>_. 0)(0x300 := 104, 0x301 := 105)) demo_power_on) = Some (2, c', k')
     \<and> uart0 (ks k') = [104, 105]"
proof -
  let ?k = "set_mem ((\<lambda>_. 0)(0x300 := 104, 0x301 := 105)) demo_power_on"
  have "string_upto 4294967296 (kmem ?k) 0x300 = [104, 105]" by (simp add: string_upto_pos)
  then have str: "cstring (string_at (kmem ?k) 0x300) = [104, 105]"
    by (simp add: string_at_def cstring_def bytes_at_def upt_conv_Cons)
  have "uart0 (ks ?k) = []" by (simp add: demo_power_on_def boot_sched_def)
  then show ?thesis
    using console_prints_on_uart [OF refl, of ?k "0x300" demo_env "demo_ctx 0" "demo_console []"] str by auto
qed

end
